(* ===== verification/JsPrelude.thy ===== *)
theory JsPrelude
  imports Main "HOL-Library.Word"
begin

text \<open>
  The vocabulary every component of the SDK shares: JavaScript strings as lists of 16-bit
  UTF-16 code units, the code points a \<^verbatim>\<open>for (const c of s)\<close> loop visits, the
  UTF-8 bytes a \<^verbatim>\<open>TextEncoder\<close> produces, decimal numerals as \<^verbatim>\<open>String(n)\<close> and
  \<^verbatim>\<open>Number(s)\<close> see them, splitting and trimming, and a bind for results that are
  either a thrown error (\<open>Inl\<close>) or a value (\<open>Inr\<close>).
\<close>

named_theorems js_eval "definitions unfolded when a concrete input is evaluated"
named_theorems control_intros "facts that rule control characters out of a string"

section \<open>Results\<close>

definition rbind :: "'e + 'a \<Rightarrow> ('a \<Rightarrow> 'e + 'b) \<Rightarrow> 'e + 'b" where
  "rbind m f = (case m of Inl e \<Rightarrow> Inl e | Inr x \<Rightarrow> f x)"

lemma rbind_simps [simp]:
  "rbind (Inl e) f = Inl e"
  "rbind (Inr x) f = f x"
  by (simp_all add: rbind_def)

lemma rbind_assoc: "rbind (rbind m f) g = rbind m (\<lambda>x. rbind (f x) g)"
  by (cases m) auto

lemma rbind_Inr_iff: "rbind m f = Inr y \<longleftrightarrow> (\<exists>x. m = Inr x \<and> f x = Inr y)"
  by (cases m) auto

lemma rbind_Inl_iff: "rbind m f = Inl e \<longleftrightarrow> m = Inl e \<or> (\<exists>x. m = Inr x \<and> f x = Inl e)"
  by (cases m) auto

section \<open>Strings\<close>

type_synonym code_unit = "16 word"
type_synonym jsstr = "code_unit list"
type_synonym byte = "8 word"

definition js :: "string \<Rightarrow> jsstr" where
  "js s = map of_char s"

lemma js_Nil [simp]: "js [] = []"
  by (simp add: js_def)

lemma js_Cons: "js (c # s) = of_char c # js s"
  by (simp add: js_def)

lemma js_append: "js (s @ t) = js s @ js t"
  by (simp add: js_def)

lemma length_js [simp]: "length (js s) = length s"
  by (simp add: js_def)

lemma of_char_nat_less: "(of_char c :: nat) < 256"
proof -
  have "(of_char c :: nat) mod 256 < 256" by (rule mod_less_divisor) simp
  then show ?thesis by simp
qed

lemma unat_of_char: "unat (of_char c :: code_unit) = of_char c"
proof -
  have "unat (word_of_nat (of_char c) :: code_unit) = (of_char c :: nat)"
    by (simp add: unat_of_nat take_bit_eq_mod mod_less less_trans [OF of_char_nat_less])
  then show ?thesis by (simp add: of_nat_of_char)
qed

lemma of_char_code_unit_inject [simp]: "(of_char c :: code_unit) = of_char d \<longleftrightarrow> c = d"
  by (metis unat_of_char of_char_eq_iff)

lemma js_inject [simp]: "js s = js t \<longleftrightarrow> s = t"
proof -
  have "inj (of_char :: char \<Rightarrow> code_unit)"
    by (rule injI) simp
  then show ?thesis by (simp add: js_def inj_map_eq_map)
qed

lemma js_eq_Nil_iff [simp]: "js s = [] \<longleftrightarrow> s = []"
  by (simp add: js_def)

text \<open>Code units the code names, and the character classes of its regular expressions.\<close>

abbreviation uNUL :: code_unit where "uNUL \<equiv> 0"
abbreviation uLF :: code_unit where "uLF \<equiv> 10"
abbreviation uCR :: code_unit where "uCR \<equiv> 13"
abbreviation uSP :: code_unit where "uSP \<equiv> 32"
abbreviation uQUOTE :: code_unit where "uQUOTE \<equiv> 34"
abbreviation uHASH :: code_unit where "uHASH \<equiv> 35"
abbreviation uPERCENT :: code_unit where "uPERCENT \<equiv> 37"
abbreviation uPLUS :: code_unit where "uPLUS \<equiv> 43"
abbreviation uCOMMA :: code_unit where "uCOMMA \<equiv> 44"
abbreviation uMINUS :: code_unit where "uMINUS \<equiv> 45"
abbreviation uDOT :: code_unit where "uDOT \<equiv> 46"
abbreviation uSLASH :: code_unit where "uSLASH \<equiv> 47"
abbreviation uZERO :: code_unit where "uZERO \<equiv> 48"
abbreviation uCOLON :: code_unit where "uCOLON \<equiv> 58"
abbreviation uSEMI :: code_unit where "uSEMI \<equiv> 59"
abbreviation uQMARK :: code_unit where "uQMARK \<equiv> 63"
abbreviation uBACKSLASH :: code_unit where "uBACKSLASH \<equiv> 92"
abbreviation uBOM :: code_unit where "uBOM \<equiv> 65279"

definition in_range :: "nat \<Rightarrow> nat \<Rightarrow> code_unit \<Rightarrow> bool" where
  "in_range lo hi c \<longleftrightarrow> lo \<le> unat c \<and> unat c \<le> hi"

definition is_digit :: "code_unit \<Rightarrow> bool" where
  "is_digit c \<longleftrightarrow> in_range 48 57 c"

definition is_lower_hex :: "code_unit \<Rightarrow> bool" where
  "is_lower_hex c \<longleftrightarrow> is_digit c \<or> in_range 97 102 c"

definition is_hex :: "code_unit \<Rightarrow> bool" where
  "is_hex c \<longleftrightarrow> is_lower_hex c \<or> in_range 65 70 c"

definition is_alnum :: "code_unit \<Rightarrow> bool" where
  "is_alnum c \<longleftrightarrow> is_digit c \<or> in_range 65 90 c \<or> in_range 97 122 c"

lemmas char_class_defs = in_range_def is_digit_def is_lower_hex_def is_hex_def is_alnum_def

declare js_def [js_eval] char_class_defs [js_eval]

definition starts_with :: "jsstr \<Rightarrow> jsstr \<Rightarrow> bool" where
  "starts_with s p \<longleftrightarrow> take (length p) s = p"

lemma starts_with_Nil [simp]: "starts_with s []"
  by (simp add: starts_with_def)

lemma starts_with_append [simp]: "starts_with (p @ s) p"
  by (simp add: starts_with_def)

lemma starts_with_iff: "starts_with s p \<longleftrightarrow> (\<exists>t. s = p @ t)"
  unfolding starts_with_def by (metis append_eq_conv_conj append_take_drop_id)

section \<open>Code points\<close>

definition is_high :: "code_unit \<Rightarrow> bool" where
  "is_high c \<longleftrightarrow> in_range 55296 56319 c"

definition is_low :: "code_unit \<Rightarrow> bool" where
  "is_low c \<longleftrightarrow> in_range 56320 57343 c"

definition pair_value :: "code_unit \<Rightarrow> code_unit \<Rightarrow> nat" where
  "pair_value c d = 65536 + (unat c - 55296) * 1024 + (unat d - 56320)"

text \<open>The values \<^verbatim>\<open>codePointAt(0)\<close> yields in the order of a \<^verbatim>\<open>for (const c of s)\<close>
  loop: a surrogate pair is one code point, an unpaired surrogate is its own value.\<close>

fun code_points :: "jsstr \<Rightarrow> nat list" where
  "code_points [] = []"
| "code_points [c] = [unat c]"
| "code_points (c # d # s) =
     (if is_high c \<and> is_low d then pair_value c d # code_points s
      else unat c # code_points (d # s))"

definition surrogate_cp :: "nat \<Rightarrow> bool" where
  "surrogate_cp n \<longleftrightarrow> 55296 \<le> n \<and> n \<le> 57343"

text \<open>A cut between two strings is clean when it does not separate a surrogate pair.\<close>

definition clean_cut :: "jsstr \<Rightarrow> jsstr \<Rightarrow> bool" where
  "clean_cut s t \<longleftrightarrow> s = [] \<or> t = [] \<or> \<not> (is_high (last s) \<and> is_low (hd t))"

lemma is_high_not_low: "is_high c \<Longrightarrow> \<not> is_low c"
  by (simp add: is_high_def is_low_def in_range_def)

lemma code_points_append: "clean_cut s t \<Longrightarrow> code_points (s @ t) = code_points s @ code_points t"
proof (induction s rule: code_points.induct)
  case (2 c)
  then show ?case by (cases t) (auto simp: clean_cut_def)
next
  case (3 c d s)
  show ?case
  proof (cases "is_high c \<and> is_low d")
    case True
    then have "clean_cut s t"
      using 3(3) is_high_not_low by (cases s) (auto simp: clean_cut_def split: if_splits)
    with True 3(1) show ?thesis by simp
  next
    case False
    then have "clean_cut (d # s) t"
      using 3(3) by (auto simp: clean_cut_def split: if_splits)
    with 3(2) [OF False] False show ?thesis by auto
  qed
qed simp

lemma pair_value_large: "pair_value c d \<ge> 65536"
  by (simp add: pair_value_def)

section \<open>UTF-8 byte counts\<close>

text \<open>\<^verbatim>\<open>TextEncoder.encode\<close>: an unpaired surrogate is replaced by U+FFFD.\<close>

definition utf8_cp :: "nat \<Rightarrow> byte list" where
  "utf8_cp n =
     (let m = (if surrogate_cp n then 65533 else n) in
      if m < 128 then [word_of_nat m]
      else if m < 2048 then
        [word_of_nat (192 + m div 64), word_of_nat (128 + m mod 64)]
      else if m < 65536 then
        [word_of_nat (224 + m div 4096), word_of_nat (128 + m div 64 mod 64),
         word_of_nat (128 + m mod 64)]
      else
        [word_of_nat (240 + m div 262144), word_of_nat (128 + m div 4096 mod 64),
         word_of_nat (128 + m div 64 mod 64), word_of_nat (128 + m mod 64)])"

definition utf8_encode :: "jsstr \<Rightarrow> byte list" where
  "utf8_encode s = concat (map utf8_cp (code_points s))"

definition utf8_length :: "jsstr \<Rightarrow> nat" where
  "utf8_length s = length (utf8_encode s)"

lemma utf8_length_Nil [simp]: "utf8_length [] = 0"
  by (simp add: utf8_length_def utf8_encode_def)

lemma utf8_length_append:
  "clean_cut s t \<Longrightarrow> utf8_length (s @ t) = utf8_length s + utf8_length t"
  by (simp add: utf8_length_def utf8_encode_def code_points_append)

section \<open>Decimal numerals\<close>

definition digit_val :: "code_unit \<Rightarrow> nat" where
  "digit_val c = unat c - 48"

definition dec_value :: "jsstr \<Rightarrow> nat" where
  "dec_value s = foldl (\<lambda>n c. 10 * n + digit_val c) 0 s"

definition digit_unit :: "nat \<Rightarrow> code_unit" where
  "digit_unit n = word_of_nat (48 + n)"

fun dec_string :: "nat \<Rightarrow> jsstr" where
  "dec_string n = (if n < 10 then [digit_unit n] else dec_string (n div 10) @ [digit_unit (n mod 10)])"

declare dec_string.simps [simp del]

definition canonical_decimal :: "jsstr \<Rightarrow> bool" where
  "canonical_decimal s \<longleftrightarrow> s \<noteq> [] \<and> list_all is_digit s \<and> (s = [uZERO] \<or> hd s \<noteq> uZERO)"

definition max_safe_integer :: nat where
  "max_safe_integer = 9007199254740991"

definition is_safe_integer :: "int \<Rightarrow> bool" where
  "is_safe_integer n \<longleftrightarrow> - int max_safe_integer \<le> n \<and> n \<le> int max_safe_integer"

lemma unat_digit_unit: "n < 10 \<Longrightarrow> unat (digit_unit n) = 48 + n"
  by (simp add: digit_unit_def unat_of_nat take_bit_nat_eq_self del: of_nat_add)

lemma is_digit_digit_unit: "n < 10 \<Longrightarrow> is_digit (digit_unit n)"
  by (simp add: is_digit_def in_range_def unat_digit_unit)

lemma digit_val_digit_unit: "n < 10 \<Longrightarrow> digit_val (digit_unit n) = n"
  by (simp add: digit_val_def unat_digit_unit)

lemma digit_unit_digit_val: "is_digit c \<Longrightarrow> digit_unit (digit_val c) = c"
  by (simp add: digit_unit_def digit_val_def is_digit_def in_range_def le_add_diff_inverse
      del: of_nat_add of_nat_diff)

lemma digit_val_less: "is_digit c \<Longrightarrow> digit_val c < 10"
  unfolding digit_val_def is_digit_def in_range_def by linarith

lemma dec_value_snoc: "dec_value (s @ [c]) = 10 * dec_value s + digit_val c"
  by (simp add: dec_value_def)

lemma dec_value_dec_string [simp]: "dec_value (dec_string n) = n"
proof (induction n rule: dec_string.induct)
  case (1 n)
  show ?case
  proof (cases "n < 10")
    case True
    then show ?thesis
      by (subst dec_string.simps) (simp add: dec_value_def digit_val_digit_unit)
  next
    case False
    with 1 show ?thesis
      by (subst dec_string.simps) (simp add: dec_value_snoc digit_val_digit_unit)
  qed
qed

lemma dec_string_digits: "list_all is_digit (dec_string n)"
proof (induction n rule: dec_string.induct)
  case (1 n)
  then show ?case
    by (cases "n < 10") (subst dec_string.simps, simp add: is_digit_digit_unit)+
qed

lemma dec_string_not_Nil [simp]: "dec_string n \<noteq> []"
  by (subst dec_string.simps) simp

lemma hd_dec_string_pos: "0 < n \<Longrightarrow> hd (dec_string n) \<noteq> uZERO"
proof (induction n rule: dec_string.induct)
  case (1 n)
  show ?case
  proof (cases "n < 10")
    case True
    then have "unat (digit_unit n) \<noteq> unat uZERO"
      using 1(2) by (simp add: unat_digit_unit)
    then have "digit_unit n \<noteq> uZERO" by metis
    with True show ?thesis by (subst dec_string.simps) simp
  next
    case False
    with 1(1) show ?thesis by (subst dec_string.simps) simp
  qed
qed

lemma digit_unit_0 [simp]: "digit_unit 0 = uZERO"
  by (simp add: digit_unit_def)

lemma canonical_dec_string: "canonical_decimal (dec_string n)"
proof (cases "n = 0")
  case True
  then show ?thesis
    by (simp add: canonical_decimal_def dec_string.simps [of 0] char_class_defs)
next
  case False
  then show ?thesis
    by (simp add: canonical_decimal_def dec_string_digits hd_dec_string_pos)
qed

lemma dec_value_pos: "list_all is_digit s \<Longrightarrow> s \<noteq> [] \<Longrightarrow> hd s \<noteq> uZERO \<Longrightarrow> 0 < dec_value s"
proof (induction s rule: rev_induct)
  case (snoc c s)
  show ?case
  proof (cases "s = []")
    case True
    with snoc.prems have "c \<noteq> uZERO" "is_digit c" by auto
    then have "unat c \<noteq> unat uZERO" by (simp add: word_unat_eq_iff)
    with \<open>is_digit c\<close> True show ?thesis
      by (simp add: dec_value_def digit_val_def char_class_defs)
  next
    case False
    with snoc show ?thesis by (simp add: dec_value_snoc)
  qed
qed simp

lemma dec_string_dec_value: "canonical_decimal s \<Longrightarrow> dec_string (dec_value s) = s"
proof (induction s rule: rev_induct)
  case Nil
  then show ?case by (simp add: canonical_decimal_def)
next
  case (snoc c s)
  show ?case
  proof (cases "s = []")
    case True
    with snoc.prems have "is_digit c" by (simp add: canonical_decimal_def)
    then show ?thesis
      using True digit_val_less [of c]
      by (simp add: dec_value_def digit_unit_digit_val dec_string.simps [of "digit_val c"])
  next
    case False
    with snoc.prems have s: "canonical_decimal s" "hd s \<noteq> uZERO" "is_digit c"
      by (auto simp: canonical_decimal_def)
    then have "0 < dec_value s"
      by (intro dec_value_pos) (auto simp: canonical_decimal_def)
    with s show ?thesis
      using snoc.IH digit_val_less [of c]
      by (subst dec_string.simps) (simp add: dec_value_snoc digit_unit_digit_val)
  qed
qed

lemma dec_string_inject [simp]: "dec_string m = dec_string n \<longleftrightarrow> m = n"
  by (metis dec_value_dec_string)

section \<open>Dynamically typed arguments\<close>

text \<open>An argument the code tests with \<^verbatim>\<open>typeof value !== "string"\<close>: a string, or some
  other JavaScript value. \<^verbatim>\<open>undefined\<close>, where the code treats it apart, is \<open>None\<close>
  of an option around it.\<close>

datatype js_arg = StringArg jsstr | OtherArg

section \<open>String.prototype methods\<close>

text \<open>The characters \<^verbatim>\<open>trim\<close> removes: white space and line terminators.\<close>

definition js_space :: "code_unit \<Rightarrow> bool" where
  "js_space c \<longleftrightarrow> in_range 9 13 c \<or> unat c \<in> {32, 160, 5760, 8232, 8233, 8239, 8287, 12288, 65279}
     \<or> in_range 8192 8202 c"

definition js_trim :: "jsstr \<Rightarrow> jsstr" where
  "js_trim s = rev (dropWhile js_space (rev (dropWhile js_space s)))"

text \<open>\<^verbatim>\<open>toLowerCase\<close> on the Latin-1 range, which is all a header value holds.\<close>

definition lower_unit :: "code_unit \<Rightarrow> code_unit" where
  "lower_unit c = (if in_range 65 90 c \<or> (in_range 192 222 c \<and> unat c \<noteq> 215) then c + 32 else c)"

definition js_lower :: "jsstr \<Rightarrow> jsstr" where
  "js_lower s = map lower_unit s"

text \<open>\<^verbatim>\<open>s.split(d)\<close> for a one-unit separator; it always has a first piece.\<close>

fun split_on :: "code_unit \<Rightarrow> jsstr \<Rightarrow> jsstr list" where
  "split_on d [] = [[]]"
| "split_on d (c # s) =
     (if c = d then [] # split_on d s
      else (case split_on d s of [] \<Rightarrow> [[c]] | p # ps \<Rightarrow> (c # p) # ps))"

fun join_with :: "jsstr \<Rightarrow> jsstr list \<Rightarrow> jsstr" where
  "join_with d [] = []"
| "join_with d [p] = p"
| "join_with d (p # q # ps) = p @ d @ join_with d (q # ps)"

lemma split_on_not_Nil [simp]: "split_on d s \<noteq> []"
  by (induction s) (auto split: list.splits)

lemma split_on_no_sep: "d \<notin> set s \<Longrightarrow> split_on d s = [s]"
  by (induction s) auto

lemma split_on_append:
  "split_on d (s @ d # t) = split_on d s @ split_on d t"
proof (induction s)
  case (Cons c s)
  then show ?case by (cases "split_on d s") auto
qed simp

lemma join_with_Cons_Cons: "join_with d ((c # p) # ps) = c # join_with d (p # ps)"
  by (cases ps) auto

lemma join_with_Nil_Cons: "ps \<noteq> [] \<Longrightarrow> join_with d ([] # ps) = d @ join_with d ps"
  by (cases ps) auto

lemma join_split [simp]: "join_with [d] (split_on d s) = s"
proof (induction s)
  case (Cons c s)
  then show ?case
    by (cases "split_on d s") (auto simp: join_with_Cons_Cons join_with_Nil_Cons)
qed simp

lemma split_on_pieces: "p \<in> set (split_on d s) \<Longrightarrow> d \<notin> set p"
proof (induction s arbitrary: p)
  case (Cons c s)
  then show ?case
    by (cases "split_on d s") (auto split: if_splits)
qed simp

lemma split_join:
  "ps \<noteq> [] \<Longrightarrow> \<forall>p \<in> set ps. d \<notin> set p \<Longrightarrow> split_on d (join_with [d] ps) = ps"
proof (induction ps rule: induct_list012)
  case (3 p q ps)
  then show ?case by (simp add: split_on_append split_on_no_sep)
qed (simp_all add: split_on_no_sep)

text \<open>The media type of a Content-Type header, as
  \<^verbatim>\<open>split(";", 1)[0]?.trim().toLowerCase()\<close> computes it.\<close>

definition media_type :: "jsstr \<Rightarrow> jsstr" where
  "media_type v = js_lower (js_trim (hd (split_on uSEMI v)))"

section \<open>Incremental consumers\<close>

text \<open>Running a fallible step over the pieces of an input, in order.\<close>

fun run_chunks :: "('s \<Rightarrow> 'a list \<Rightarrow> 'e + 's) \<Rightarrow> 's \<Rightarrow> 'a list list \<Rightarrow> 'e + 's" where
  "run_chunks step s [] = Inr s"
| "run_chunks step s (x # xs) = rbind (step s x) (\<lambda>t. run_chunks step t xs)"

text \<open>Pieces that may be cut where they are cut.\<close>

fun clean_chunks :: "('a list \<Rightarrow> 'a list \<Rightarrow> bool) \<Rightarrow> 'a list list \<Rightarrow> bool" where
  "clean_chunks joint [] = True"
| "clean_chunks joint (x # xs) = (joint x (concat xs) \<and> clean_chunks joint xs)"

text \<open>
  The contract of a consumer that can be fed in pieces: an invariant it keeps, nothing to do for
  the empty piece, and two pieces in a row are their concatenation. What follows is that the
  pieces do not matter.
\<close>

locale incremental =
  fixes step :: "'s \<Rightarrow> 'a list \<Rightarrow> 'e + 's"
    and invar :: "'s \<Rightarrow> bool"
    and joint :: "'a list \<Rightarrow> 'a list \<Rightarrow> bool"
  assumes step_Nil: "invar s \<Longrightarrow> step s [] = Inr s"
    and step_append: "invar s \<Longrightarrow> joint a b \<Longrightarrow> step s (a @ b) = rbind (step s a) (\<lambda>t. step t b)"
    and step_inv: "invar s \<Longrightarrow> step s a = Inr t \<Longrightarrow> invar t"
begin

lemma run_chunks_concat:
  "invar s \<Longrightarrow> clean_chunks joint xs \<Longrightarrow> run_chunks step s xs = step s (concat xs)"
proof (induction xs arbitrary: s)
  case (Cons x xs)
  then have "step s (x @ concat xs) = rbind (step s x) (\<lambda>t. step t (concat xs))"
    by (intro step_append) auto
  also have "\<dots> = rbind (step s x) (\<lambda>t. run_chunks step t xs)"
    using Cons by (cases "step s x") (auto dest: step_inv)
  finally show ?case by simp
qed (simp add: step_Nil)

lemma run_chunks_inv: "invar s \<Longrightarrow> run_chunks step s xs = Inr t \<Longrightarrow> invar t"
  by (induction xs arbitrary: s) (auto simp: rbind_Inr_iff dest: step_inv)

lemma chunking_irrelevant:
  assumes "invar s" and "clean_chunks joint xs" and "clean_chunks joint ys" and "concat xs = concat ys"
  shows "run_chunks step s xs = run_chunks step s ys"
  using assms by (simp add: run_chunks_concat)

end

lemma length_le_utf8_length: "length s \<le> utf8_length s"
proof (induction s rule: code_points.induct)
  case (2 c)
  then show ?case by (simp add: utf8_length_def utf8_encode_def utf8_cp_def Let_def)
next
  case (3 c d s)
  have one: "1 \<le> length (utf8_cp (unat c))" by (simp add: utf8_cp_def Let_def)
  have four: "length (utf8_cp (pair_value c d)) = 4"
    using pair_value_large [of c d] by (simp add: utf8_cp_def Let_def surrogate_cp_def)
  show ?case
  proof (cases "is_high c \<and> is_low d")
    case True
    with 3 four show ?thesis by (simp add: utf8_length_def utf8_encode_def)
  next
    case False
    with 3(2) one show ?thesis by (auto simp: utf8_length_def utf8_encode_def)
  qed
qed simp

end
