(* ===== verification/Errors.thy ===== *)
theory Errors
  imports JsPrelude
begin

text \<open>
  The values the SDK throws: every subclass of \<^verbatim>\<open>TeslatlasError\<close> under
  \<^verbatim>\<open>src/src\<close> as a constructor carrying the fields its class declares, the internal
  \<^verbatim>\<open>SseStreamReadError\<close>, and the foreign values that can cross the SDK (a DOM
  exception, a URI error, anything a caller's callback throws). Each class's code, status,
  request identifier and message are functions of the constructor, as the constructors of the
  source set them. Also here: abort signals, and the two checked strings of
  \<^verbatim>\<open>core/errors.ts\<close>.
\<close>

section \<open>Thrown values\<close>

record protocol_error_options =
  pe_code :: jsstr
  pe_status :: nat
  pe_requestId :: "jsstr option"

record http_error_options = protocol_error_options +
  he_retryable :: bool
  he_retryAfterSeconds :: "int option"

datatype command_safety_failure =
    MissingIdempotencyKey
  | InvalidIdempotencyKeyReason
  | AutomaticRetryForbidden

datatype hub_error_code =
    InvalidQuery | InvalidTimeRange | InvalidLimit | InvalidCursor
  | VehicleNotFound | ServiceUnavailable

datatype (plugins only: code size) exn =
    InvalidProtocolErrorCodeError
  | InvalidSafeRequestIdError
  | ProtocolError protocol_error_options
  | IncompatibleProtocolError
  | MissingCapabilityError jsstr
  | ProtocolValidationError string
  | ProtocolHttpError http_error_options
  | ReplayGapError nat "jsstr option"
  | CommandUncertainError
  | TransportError
  | InvalidCapabilityError
  | MissingCapabilitiesError "jsstr list"
  | InvalidOpaqueCursorError
  | InvalidEntityTagError
  | InvalidProtocolVersionError
  | InvalidCompatibilityWindowError
  | InvalidIdempotencyKeyError
  | CommandSafetyError command_safety_failure
  | InvalidQueryParameterNameError
  | InvalidBaseUrlError
  | InvalidRequestPathError
  | ReservedAuthorizationHeaderError
  | InvalidAuthorizationValueError
  | MissingFetchError
  | InvalidRequestBodyError
  | InvalidStrongEntityTagError
  | InvalidReadOptionsError
  | SseLimitError string
  | SseStreamReadError
  | SseHttpError nat
  | SseContentTypeError
  | SseBodyError
  | InvalidSseCheckpointError
  | InvalidSseProtocolVersionError
  | InvalidSseRetryConfigurationError
  | InvalidStreamEventsOptionsError
  | UnsupportedStreamEventTypeError
  | HubIdentityMismatchError
  | VehicleIdentityMismatchError
  | UnsupportedHubMethodError jsstr
  | HubHttpError nat "hub_error_code option" "jsstr option"
  | HubClientDisposedError
  | HubTlsPinUnavailableError
  | HubTlsPinMismatchError
  | DomException string
  | URIError
  | ForeignError nat

type_synonym 'a result = "exn + 'a"

text \<open>\<^verbatim>\<open>error instanceof TeslatlasError\<close>.\<close>

definition is_teslatlas_error :: "exn \<Rightarrow> bool" where
  "is_teslatlas_error e =
     (case e of SseStreamReadError \<Rightarrow> False | DomException _ \<Rightarrow> False | URIError \<Rightarrow> False
      | ForeignError _ \<Rightarrow> False | _ \<Rightarrow> True)"

text \<open>\<^verbatim>\<open>error instanceof ProtocolValidationError\<close>: \<^verbatim>\<open>SseLimitError\<close> extends it.\<close>

definition is_protocol_validation :: "exn \<Rightarrow> bool" where
  "is_protocol_validation e =
     (case e of ProtocolValidationError _ \<Rightarrow> True | SseLimitError _ \<Rightarrow> True | _ \<Rightarrow> False)"

definition hub_error_code_string :: "hub_error_code \<Rightarrow> string" where
  "hub_error_code_string c =
     (case c of InvalidQuery \<Rightarrow> ''invalid_query'' | InvalidTimeRange \<Rightarrow> ''invalid_time_range''
      | InvalidLimit \<Rightarrow> ''invalid_limit'' | InvalidCursor \<Rightarrow> ''invalid_cursor''
      | VehicleNotFound \<Rightarrow> ''vehicle_not_found'' | ServiceUnavailable \<Rightarrow> ''service_unavailable'')"

text \<open>The \<^verbatim>\<open>code\<close> each constructor passes to \<^verbatim>\<open>TeslatlasError\<close>.\<close>

fun err_code :: "exn \<Rightarrow> jsstr option" where
  "err_code InvalidProtocolErrorCodeError = Some (js ''invalid_protocol_error_code'')"
| "err_code InvalidSafeRequestIdError = Some (js ''invalid_safe_request_id'')"
| "err_code (ProtocolError opts) = Some (pe_code opts)"
| "err_code IncompatibleProtocolError = Some (js ''incompatible_protocol'')"
| "err_code (MissingCapabilityError _) = Some (js ''missing_capability'')"
| "err_code (ProtocolValidationError _) = Some (js ''protocol_validation'')"
| "err_code (ProtocolHttpError opts) = Some (pe_code opts)"
| "err_code (ReplayGapError _ _) = Some (js ''event_replay_expired'')"
| "err_code CommandUncertainError = Some (js ''command_uncertain'')"
| "err_code TransportError = Some (js ''transport_error'')"
| "err_code InvalidCapabilityError = Some (js ''invalid_capability'')"
| "err_code (MissingCapabilitiesError _) = Some (js ''missing_capabilities'')"
| "err_code InvalidOpaqueCursorError = Some (js ''invalid_opaque_cursor'')"
| "err_code InvalidEntityTagError = Some (js ''invalid_entity_tag'')"
| "err_code InvalidProtocolVersionError = Some (js ''invalid_protocol_version'')"
| "err_code InvalidCompatibilityWindowError = Some (js ''invalid_compatibility_window'')"
| "err_code InvalidIdempotencyKeyError = Some (js ''invalid_idempotency_key'')"
| "err_code (CommandSafetyError _) = Some (js ''unsafe_command_submission'')"
| "err_code InvalidQueryParameterNameError = Some (js ''invalid_query_parameter_name'')"
| "err_code InvalidBaseUrlError = Some (js ''invalid_base_url'')"
| "err_code InvalidRequestPathError = Some (js ''invalid_request_path'')"
| "err_code ReservedAuthorizationHeaderError = Some (js ''reserved_authorization_header'')"
| "err_code InvalidAuthorizationValueError = Some (js ''invalid_authorization_value'')"
| "err_code MissingFetchError = Some (js ''missing_fetch'')"
| "err_code InvalidRequestBodyError = Some (js ''invalid_request_body'')"
| "err_code InvalidStrongEntityTagError = Some (js ''invalid_strong_entity_tag'')"
| "err_code InvalidReadOptionsError = Some (js ''invalid_read_options'')"
| "err_code (SseLimitError _) = Some (js ''protocol_validation'')"
| "err_code SseStreamReadError = None"
| "err_code (SseHttpError _) = Some (js ''sse_http_error'')"
| "err_code SseContentTypeError = Some (js ''sse_content_type_error'')"
| "err_code SseBodyError = Some (js ''sse_body_error'')"
| "err_code InvalidSseCheckpointError = Some (js ''invalid_sse_checkpoint'')"
| "err_code InvalidSseProtocolVersionError = Some (js ''invalid_sse_protocol_version'')"
| "err_code InvalidSseRetryConfigurationError = Some (js ''invalid_sse_retry_configuration'')"
| "err_code InvalidStreamEventsOptionsError = Some (js ''invalid_stream_events_options'')"
| "err_code UnsupportedStreamEventTypeError = Some (js ''unsupported_stream_event_type'')"
| "err_code HubIdentityMismatchError = Some (js ''hub_identity_mismatch'')"
| "err_code VehicleIdentityMismatchError = Some (js ''vehicle_identity_mismatch'')"
| "err_code (UnsupportedHubMethodError _) = Some (js ''unsupported_method'')"
| "err_code (HubHttpError _ c _) = Some (js (case c of None \<Rightarrow> ''hub_http_error''
     | Some c \<Rightarrow> hub_error_code_string c))"
| "err_code HubClientDisposedError = Some (js ''client_disposed'')"
| "err_code HubTlsPinUnavailableError = Some (js ''hub_tls_pin_unavailable'')"
| "err_code HubTlsPinMismatchError = Some (js ''hub_tls_pin_mismatch'')"
| "err_code (DomException _) = None"
| "err_code URIError = None"
| "err_code (ForeignError _) = None"

text \<open>The optional \<^verbatim>\<open>status\<close> and \<^verbatim>\<open>requestId\<close> fields.\<close>

definition err_status :: "exn \<Rightarrow> nat option" where
  "err_status e =
     (case e of
        ProtocolError opts \<Rightarrow> Some (pe_status opts)
      | ProtocolHttpError opts \<Rightarrow> Some (pe_status opts)
      | ReplayGapError status _ \<Rightarrow> Some status
      | SseHttpError status \<Rightarrow> Some status
      | HubHttpError status _ _ \<Rightarrow> Some status
      | _ \<Rightarrow> None)"

definition err_request_id :: "exn \<Rightarrow> jsstr option" where
  "err_request_id e =
     (case e of
        ProtocolError opts \<Rightarrow> pe_requestId opts
      | ProtocolHttpError opts \<Rightarrow> pe_requestId opts
      | ReplayGapError _ requestId \<Rightarrow> requestId
      | _ \<Rightarrow> None)"

lemma err_code_iff_teslatlas: "err_code e \<noteq> None \<longleftrightarrow> is_teslatlas_error e"
  by (cases e) (simp_all add: is_teslatlas_error_def)

lemma protocol_validation_is_teslatlas: "is_protocol_validation e \<Longrightarrow> is_teslatlas_error e"
  by (cases e) (simp_all add: is_teslatlas_error_def is_protocol_validation_def)

lemma protocol_validation_code:
  "is_protocol_validation e \<Longrightarrow> err_code e = Some (js ''protocol_validation'')"
  by (cases e) (simp_all add: is_protocol_validation_def)

lemma is_protocol_validation_simps [simp]:
  "is_protocol_validation (ProtocolValidationError v)"
  "is_protocol_validation (SseLimitError v)"
  by (simp_all add: is_protocol_validation_def)

section \<open>Abort signals\<close>

text \<open>
  A signal as one observation sees it: not aborted, or aborted with the \<^verbatim>\<open>reason\<close> the
  code rethrows. \<^verbatim>\<open>signal.reason ?? new DOMException(...)\<close> falls back when the reason
  is nullish.
\<close>

datatype signal_state = Live | Aborted "exn option"

definition abort_error :: exn where
  "abort_error = DomException ''AbortError''"

fun abort_reason :: "signal_state \<Rightarrow> exn" where
  "abort_reason (Aborted (Some e)) = e"
| "abort_reason _ = abort_error"

definition is_aborted :: "signal_state \<Rightarrow> bool" where
  "is_aborted s \<longleftrightarrow> s \<noteq> Live"

lemma is_aborted_simps [simp]: "\<not> is_aborted Live" "is_aborted (Aborted r)"
  by (simp_all add: is_aborted_def)

definition throwIfAborted :: "signal_state \<Rightarrow> unit result" where
  "throwIfAborted s = (if is_aborted s then Inl (abort_reason s) else Inr ())"

lemma throwIfAborted_simps [simp]:
  "throwIfAborted Live = Inr ()"
  "throwIfAborted (Aborted r) = Inl (abort_reason (Aborted r))"
  by (simp_all add: throwIfAborted_def)

text \<open>\<^verbatim>\<open>signal.reason ?? error\<close> of an aborted signal.\<close>

fun reason_or :: "exn \<Rightarrow> signal_state \<Rightarrow> exn" where
  "reason_or e (Aborted (Some r)) = r"
| "reason_or e _ = e"

text \<open>The oracle of the signal: its state at the \<open>n\<close>-th check.\<close>

type_synonym signal_oracle = "nat \<Rightarrow> signal_state"

abbreviation live :: signal_oracle where
  "live \<equiv> \<lambda>_. Live"

section \<open>Control characters\<close>

definition containsControlCharacters :: "jsstr \<Rightarrow> bool" where
  "containsControlCharacters value =
     list_ex (\<lambda>codePoint. codePoint \<le> 31 \<or> codePoint = 127) (code_points value)"

definition control_unit :: "code_unit \<Rightarrow> bool" where
  "control_unit c \<longleftrightarrow> unat c \<le> 31 \<or> unat c = 127"

text \<open>Reading code points or code units makes no difference: no control character is a
  surrogate.\<close>

lemma containsControlCharacters_units:
  "containsControlCharacters s \<longleftrightarrow> list_ex control_unit s"
proof (induction s rule: code_points.induct)
  case (3 c d s)
  show ?case
  proof (cases "is_high c \<and> is_low d")
    case True
    then have "\<not> control_unit c" "\<not> control_unit d"
      by (auto simp: is_high_def is_low_def in_range_def control_unit_def)
    with True 3 pair_value_large [of c d] show ?thesis
      by (simp add: containsControlCharacters_def)
  next
    case False
    with 3 show ?thesis
      by (auto simp: containsControlCharacters_def control_unit_def)
  qed
qed (simp_all add: containsControlCharacters_def control_unit_def)

lemma containsControlCharacters_append [simp]:
  "containsControlCharacters (s @ t) \<longleftrightarrow> containsControlCharacters s \<or> containsControlCharacters t"
  by (simp add: containsControlCharacters_units)

lemma containsControlCharacters_Nil [simp]: "\<not> containsControlCharacters []"
  by (simp add: containsControlCharacters_units)

lemma containsControlCharacters_Cons [simp]:
  "containsControlCharacters (c # s) \<longleftrightarrow> control_unit c \<or> containsControlCharacters s"
  by (simp add: containsControlCharacters_units)

lemma no_control_notin:
  "\<not> containsControlCharacters s \<Longrightarrow> c \<in> set s \<Longrightarrow> 32 \<le> unat c \<and> unat c \<noteq> 127"
  by (auto simp: containsControlCharacters_units list_ex_iff control_unit_def not_le Suc_le_eq)

lemma no_control_no_crlf:
  assumes "\<not> containsControlCharacters s"
  shows "uCR \<notin> set s \<and> uLF \<notin> set s \<and> uNUL \<notin> set s"
  using no_control_notin [OF assms, of uCR] no_control_notin [OF assms, of uLF]
    no_control_notin [OF assms, of uNUL]
  by auto

section \<open>Checked strings of core/errors.ts\<close>

definition maximumSafeRequestIdLength :: nat where
  "maximumSafeRequestIdLength = 256"

definition asProtocolErrorCode :: "jsstr \<Rightarrow> jsstr result" where
  "asProtocolErrorCode value =
     (if length value = 0 \<or> containsControlCharacters value
      then Inl InvalidProtocolErrorCodeError else Inr value)"

definition asSafeRequestId :: "jsstr \<Rightarrow> jsstr result" where
  "asSafeRequestId value =
     (if length value = 0 \<or> maximumSafeRequestIdLength < length value
         \<or> containsControlCharacters value
      then Inl InvalidSafeRequestIdError else Inr value)"

end
