(* ===== verification/JsonValue.thy ===== *)
theory JsonValue
  imports Errors Complex_Main
begin

text \<open>
  JavaScript numbers and the values \<^verbatim>\<open>JSON.parse\<close> yields. A number is a finite
  value (a rational: the code only ever compares numbers, tests them for being an integer and
  prints integers), an infinity or NaN. An object keeps its members in the order
  \<^verbatim>\<open>Object.entries\<close> visits them; a missing member reads as \<^verbatim>\<open>undefined\<close>
  (\<open>None\<close>).
\<close>

section \<open>Numbers\<close>

datatype jsnum = Fin rat | PosInf | NegInf | NaN

definition num_of_int :: "int \<Rightarrow> jsnum" where
  "num_of_int n = Fin (of_int n)"

fun num_is_finite :: "jsnum \<Rightarrow> bool" where
  "num_is_finite (Fin _) = True"
| "num_is_finite _ = False"

text \<open>\<^verbatim>\<open>Number.isInteger\<close>, with the integer it stands for.\<close>

fun num_integer :: "jsnum \<Rightarrow> int option" where
  "num_integer (Fin r) = (if of_int \<lfloor>r\<rfloor> = r then Some \<lfloor>r\<rfloor> else None)"
| "num_integer _ = None"

definition num_is_safe_integer :: "jsnum \<Rightarrow> bool" where
  "num_is_safe_integer x = (case num_integer x of None \<Rightarrow> False | Some n \<Rightarrow> is_safe_integer n)"

text \<open>\<^verbatim>\<open>isNonNegativeSafeInteger\<close> (core/version.ts and events/sse-subscription.ts).\<close>

definition isNonNegativeSafeInteger :: "jsnum \<Rightarrow> bool" where
  "isNonNegativeSafeInteger x =
     (num_is_safe_integer x \<and> (case num_integer x of None \<Rightarrow> False | Some n \<Rightarrow> 0 \<le> n))"

text \<open>\<^verbatim>\<open><\<close> on numbers.\<close>

fun num_less :: "jsnum \<Rightarrow> jsnum \<Rightarrow> bool" where
  "num_less (Fin a) (Fin b) = (a < b)"
| "num_less NegInf (Fin b) = True"
| "num_less (Fin a) PosInf = True"
| "num_less NegInf PosInf = True"
| "num_less _ _ = False"

lemma num_integer_of_int [simp]: "num_integer (num_of_int n) = Some n"
  by (simp add: num_of_int_def)

lemma num_integer_Some: "num_integer x = Some n \<longleftrightarrow> x = num_of_int n"
  by (cases x) (auto simp: num_of_int_def)

lemma num_of_int_inject [simp]: "num_of_int m = num_of_int n \<longleftrightarrow> m = n"
  by (simp add: num_of_int_def)

text \<open>\<^verbatim>\<open>String(n)\<close> of an integer below \<open>10 ^ 21\<close>.\<close>

definition int_string :: "int \<Rightarrow> jsstr" where
  "int_string n = (if n < 0 then uMINUS # dec_string (nat (- n)) else dec_string (nat n))"

lemma int_string_inject [simp]: "int_string m = int_string n \<longleftrightarrow> m = n"
proof -
  have minus: "uMINUS # s \<noteq> dec_string k" "dec_string k \<noteq> uMINUS # s" for k s
  proof -
    have "\<not> is_digit uMINUS" by (simp add: char_class_defs)
    then show "uMINUS # s \<noteq> dec_string k" "dec_string k \<noteq> uMINUS # s"
      using dec_string_digits [of k] by (metis list.pred_inject(2))+
  qed
  show ?thesis by (auto simp: int_string_def minus)
qed

section \<open>JSON values\<close>

datatype json =
    JNull
  | JBool bool
  | JNum jsnum
  | JStr jsstr
  | JArr "json list"
  | JObj "(jsstr \<times> json) list"

text \<open>\<^verbatim>\<open>value[key]\<close> on a JSON object, \<^verbatim>\<open>undefined\<close> when there is no such
  member or the value is no object.\<close>

fun member_of :: "json \<Rightarrow> jsstr \<Rightarrow> json option" where
  "member_of (JObj ms) key = map_of ms key"
| "member_of _ key = None"

text \<open>\<^verbatim>\<open>asRecord\<close>: a non-null object that is no array.\<close>

fun asRecord :: "json \<Rightarrow> (jsstr \<times> json) list option" where
  "asRecord (JObj ms) = Some ms"
| "asRecord _ = None"

lemma asRecord_Some: "asRecord v = Some ms \<longleftrightarrow> v = JObj ms"
  by (cases v) auto

fun json_string :: "json \<Rightarrow> jsstr option" where
  "json_string (JStr s) = Some s"
| "json_string _ = None"

end
