(* ===== verification/SseParser.thy ===== *)
theory SseParser
  imports JsonValue
begin

text \<open>
  \<^verbatim>\<open>IncrementalSseParser\<close> of \<^verbatim>\<open>events/sse-parser.ts\<close>: the private fields as a record,
  \<^verbatim>\<open>feed\<close>, \<^verbatim>\<open>takeItems\<close> and the private methods as functions on it. The lemmas show
  that feeding a text in pieces is feeding it whole (\<open>feed_append\<close>), that the buffers never
  outgrow the two byte budgets (\<open>parser_inv\<close>), and that a fed text yields the items of the
  line-by-line reference semantics \<open>sse_reference\<close>.
\<close>

section \<open>Data\<close>

definition maximumEventDataBytes :: nat where
  "maximumEventDataBytes = 8 * 1024 * 1024"

definition maximumLineBytes :: nat where
  "maximumLineBytes = maximumEventDataBytes + 6"

record sse_event =
  se_event :: jsstr
  se_data :: jsstr
  se_lastEventId :: jsstr

datatype sse_item = ItemEvent sse_event | ItemRetry nat | ItemCheckpoint jsstr

record sse_parser =
  p_items :: "sse_item list"
  p_dataFragments :: "jsstr list"
  p_lineFragments :: "jsstr list"
  p_pendingData :: jsstr
  p_pendingLine :: jsstr
  p_emptyDataLines :: nat
  p_lineBytes :: nat
  p_eventDataBytes :: nat
  p_skipLineFeed :: bool
  p_atStart :: bool
  p_eventType :: jsstr
  p_lastEventId :: jsstr
  p_blockIdChanged :: bool

definition new_parser :: "jsstr \<Rightarrow> sse_parser" where
  "new_parser initialLastEventId =
     \<lparr>p_items = [], p_dataFragments = [], p_lineFragments = [], p_pendingData = [],
      p_pendingLine = [], p_emptyDataLines = 0, p_lineBytes = 0, p_eventDataBytes = 0,
      p_skipLineFeed = False, p_atStart = True, p_eventType = [],
      p_lastEventId = initialLastEventId, p_blockIdChanged = False\<rparr>"

section \<open>Segmented buffers\<close>

text \<open>
  The loop \<^verbatim>\<open>#appendLine\<close> and \<^verbatim>\<open>#appendData\<close> share: fill the pending segment up to
  4096 units, push it, continue with the rest. The pending segment is always shorter than 4096
  (\<open>segmented\<close> below); for one that is not, where the loop of the source makes no progress, the
  function stops.
\<close>

definition segmentSize :: nat where
  "segmentSize = 4096"

function append_segments :: "jsstr list \<Rightarrow> jsstr \<Rightarrow> jsstr \<Rightarrow> jsstr list \<times> jsstr" where
  "append_segments fragments pending value =
     (if value = [] \<or> segmentSize \<le> length pending then (fragments, pending)
      else let n = min (segmentSize - length pending) (length value);
               pending' = pending @ take n value;
               rest = drop n value
           in if length pending' = segmentSize
              then append_segments (fragments @ [pending']) [] rest
              else append_segments fragments pending' rest)"
  by pat_completeness auto
termination
  by (relation "measure (\<lambda>(fragments, pending, value). length value)")
    (auto simp: segmentSize_def min_def)

declare append_segments.simps [simp del]

definition appendLine :: "jsstr \<Rightarrow> sse_parser \<Rightarrow> sse_parser" where
  "appendLine value p =
     (let (fragments, pending) = append_segments (p_lineFragments p) (p_pendingLine p) value
      in p\<lparr>p_lineFragments := fragments, p_pendingLine := pending\<rparr>)"

definition appendData :: "jsstr \<Rightarrow> sse_parser \<Rightarrow> sse_parser" where
  "appendData value p =
     (let (fragments, pending) = append_segments (p_dataFragments p) (p_pendingData p) value
      in p\<lparr>p_dataFragments := fragments, p_pendingData := pending\<rparr>)"

definition flushEmptyData :: "sse_parser \<Rightarrow> sse_parser" where
  "flushEmptyData p =
     (if 0 < p_emptyDataLines p
      then (appendData (replicate (p_emptyDataLines p) uLF) p)\<lparr>p_emptyDataLines := 0\<rparr>
      else p)"

section \<open>Lines\<close>

definition dispatchBlock :: "sse_parser \<Rightarrow> sse_parser" where
  "dispatchBlock p =
     (let p1 = (if 0 < p_eventDataBytes p
                then (let q = flushEmptyData p
                      in q\<lparr>p_items := p_items q @
                             [ItemEvent \<lparr>se_event = (if length (p_eventType q) = 0 then js ''message''
                                                    else p_eventType q),
                                         se_data = butlast (concat (p_dataFragments q) @ p_pendingData q),
                                         se_lastEventId = p_lastEventId q\<rparr>]\<rparr>)
                else if p_blockIdChanged p
                then p\<lparr>p_items := p_items p @ [ItemCheckpoint (p_lastEventId p)]\<rparr>
                else p)
      in p1\<lparr>p_dataFragments := [], p_pendingData := [], p_emptyDataLines := 0,
            p_eventDataBytes := 0, p_eventType := [], p_blockIdChanged := False\<rparr>)"

text \<open>The field name and the value of a line: split at the first colon, one leading space
  of the value dropped.\<close>

definition field_name :: "jsstr \<Rightarrow> jsstr" where
  "field_name line = takeWhile (\<lambda>c. c \<noteq> uCOLON) line"

definition field_value :: "jsstr \<Rightarrow> jsstr" where
  "field_value line =
     (let value = tl (dropWhile (\<lambda>c. c \<noteq> uCOLON) line)
      in if starts_with value [uSP] then tl value else value)"

definition data_field :: "jsstr \<Rightarrow> sse_parser \<Rightarrow> sse_parser result" where
  "data_field value p =
     (let bytes = p_eventDataBytes p + (if length value = 0 then 0 else utf8_length value) + 1;
          p1 = p\<lparr>p_eventDataBytes := bytes\<rparr>
      in if maximumEventDataBytes < bytes then Inl (SseLimitError ''Sse.eventSize'')
         else if length value = 0 then Inr (p1\<lparr>p_emptyDataLines := p_emptyDataLines p1 + 1\<rparr>)
         else Inr (appendData (value @ [uLF]) (flushEmptyData p1)))"

definition id_field :: "jsstr \<Rightarrow> sse_parser \<Rightarrow> sse_parser" where
  "id_field value p =
     (if uNUL \<in> set value then p else p\<lparr>p_lastEventId := value, p_blockIdChanged := True\<rparr>)"

text \<open>The \<^verbatim>\<open>retry\<close> value: \<^verbatim>\<open>/^\d+$/u\<close> and a safe integer.\<close>

definition retry_value :: "jsstr \<Rightarrow> nat option" where
  "retry_value value =
     (if value \<noteq> [] \<and> list_all is_digit value \<and> dec_value value \<le> max_safe_integer
      then Some (dec_value value) else None)"

definition retry_field :: "jsstr \<Rightarrow> sse_parser \<Rightarrow> sse_parser" where
  "retry_field value p =
     (case retry_value value of
        None \<Rightarrow> p
      | Some milliseconds \<Rightarrow> p\<lparr>p_items := p_items p @ [ItemRetry milliseconds]\<rparr>)"

definition handleLine :: "jsstr \<Rightarrow> sse_parser \<Rightarrow> sse_parser result" where
  "handleLine line p =
     (if length line = 0 then Inr (dispatchBlock p)
      else if starts_with line [uCOLON] then Inr p
      else let field = field_name line; value = field_value line
           in if field = js ''data'' then data_field value p
              else if field = js ''event'' then Inr (p\<lparr>p_eventType := value\<rparr>)
              else if field = js ''id'' then Inr (id_field value p)
              else if field = js ''retry'' then Inr (retry_field value p)
              else Inr p)"

section \<open>Feeding\<close>

definition line_delimiter :: "code_unit \<Rightarrow> bool" where
  "line_delimiter c \<longleftrightarrow> c = uCR \<or> c = uLF"

text \<open>The text up to the next delimiter, and from the delimiter on.\<close>

definition next_fragment :: "jsstr \<Rightarrow> jsstr" where
  "next_fragment s = takeWhile (\<lambda>c. \<not> line_delimiter c) s"

definition from_delimiter :: "jsstr \<Rightarrow> jsstr" where
  "from_delimiter s = dropWhile (\<lambda>c. \<not> line_delimiter c) s"

lemma from_delimiter_length: "from_delimiter s = d # rest \<Longrightarrow> length rest < length s"
  unfolding from_delimiter_def by (metis Suc_le_lessD length_Cons length_dropWhile_le)

text \<open>Account for and buffer a fragment of the current line.\<close>

definition add_fragment :: "jsstr \<Rightarrow> sse_parser \<Rightarrow> sse_parser result" where
  "add_fragment fragment p =
     (let bytes = p_lineBytes p + (if length fragment = 0 then 0 else utf8_length fragment)
      in if maximumLineBytes < bytes then Inl (SseLimitError ''Sse.lineSize'')
         else Inr (appendLine fragment (p\<lparr>p_lineBytes := bytes\<rparr>)))"

text \<open>The current line is complete: handle it and start the next one.\<close>

definition end_line :: "code_unit \<Rightarrow> sse_parser \<Rightarrow> sse_parser result" where
  "end_line d p =
     rbind (handleLine (concat (p_lineFragments p) @ p_pendingLine p) p) (\<lambda>q.
       Inr (q\<lparr>p_lineFragments := [], p_pendingLine := [], p_lineBytes := 0,
              p_skipLineFeed := (d = uCR)\<rparr>))"

function feed_loop :: "sse_parser \<Rightarrow> jsstr \<Rightarrow> sse_parser result" where
  "feed_loop p [] = Inr p"
| "feed_loop p (c # s) =
     (if p_skipLineFeed p \<and> c = uLF then feed_loop (p\<lparr>p_skipLineFeed := False\<rparr>) s
      else rbind (add_fragment (next_fragment (c # s)) (p\<lparr>p_skipLineFeed := False\<rparr>)) (\<lambda>p1.
        case from_delimiter (c # s) of
          [] \<Rightarrow> Inr p1
        | d # rest \<Rightarrow> rbind (end_line d p1) (\<lambda>p2. feed_loop p2 rest)))"
  by pat_completeness auto
termination
  by (relation "measure (\<lambda>(p, s). length s)") (auto dest: from_delimiter_length)

declare feed_loop.simps(2) [simp del]

definition feed :: "sse_parser \<Rightarrow> jsstr \<Rightarrow> sse_parser result" where
  "feed p decoded =
     (if p_atStart p \<and> 0 < length decoded
      then feed_loop (p\<lparr>p_atStart := False\<rparr>)
             (if starts_with decoded [uBOM] then tl decoded else decoded)
      else feed_loop p decoded)"

definition takeItems :: "sse_parser \<Rightarrow> sse_item list \<times> sse_parser" where
  "takeItems p = (p_items p, p\<lparr>p_items := []\<rparr>)"

section \<open>Feeding in pieces\<close>

definition push_unit :: "jsstr list \<times> jsstr \<Rightarrow> code_unit \<Rightarrow> jsstr list \<times> jsstr" where
  "push_unit st c =
     (let pending = snd st @ [c]
      in if length pending = segmentSize then (fst st @ [pending], []) else (fst st, pending))"

definition segmented :: "jsstr list \<Rightarrow> jsstr \<Rightarrow> bool" where
  "segmented fragments pending \<longleftrightarrow>
     list_all (\<lambda>f. length f = segmentSize) fragments \<and> length pending < segmentSize"

lemma push_units_short:
  "length pending + length u < segmentSize \<Longrightarrow>
     foldl push_unit (fragments, pending) u = (fragments, pending @ u)"
  by (induction u rule: rev_induct) (auto simp: push_unit_def)

lemma push_units_full:
  assumes "length pending + length u = segmentSize" and "u \<noteq> []"
  shows "foldl push_unit (fragments, pending) u = (fragments @ [pending @ u], [])"
proof -
  obtain v c where u: "u = v @ [c]" using assms(2) by (metis rev_exhaust)
  then have "foldl push_unit (fragments, pending) v = (fragments, pending @ v)"
    using assms(1) by (intro push_units_short) simp
  with u assms(1) show ?thesis by (simp add: push_unit_def)
qed

lemma append_segments_foldl:
  "length pending < segmentSize \<Longrightarrow>
     append_segments fragments pending v = foldl push_unit (fragments, pending) v"
proof (induction fragments pending v rule: append_segments.induct)
  case (1 fragments pending v)
  let ?n = "min (segmentSize - length pending) (length v)"
  show ?case
  proof (cases "v = []")
    case True
    then show ?thesis by (subst append_segments.simps) simp
  next
    case ne: False
    have split: "foldl push_unit st v = foldl push_unit (foldl push_unit st (take ?n v)) (drop ?n v)"
      for st
      by (metis append_take_drop_id foldl_append)
    show ?thesis
    proof (cases "length pending + length (take ?n v) = segmentSize")
      case True
      then have "append_segments fragments pending v =
          append_segments (fragments @ [pending @ take ?n v]) [] (drop ?n v)"
        using ne "1.prems" by (subst append_segments.simps) (simp add: Let_def)
      also have "\<dots> = foldl push_unit (fragments @ [pending @ take ?n v], []) (drop ?n v)"
        using "1.IH"(1) [OF _ refl refl refl] True ne "1.prems" by (auto simp: segmentSize_def)
      also have "\<dots> = foldl push_unit (fragments, pending) v"
      proof -
        have "take ?n v \<noteq> []" using ne "1.prems" by auto
        from push_units_full [OF True this, of fragments] split [of "(fragments, pending)"]
        show ?thesis by simp
      qed
      finally show ?thesis .
    next
      case False
      with "1.prems" have all: "take ?n v = v" "drop ?n v = []"
        "length pending + length v < segmentSize"
        by auto
      with False ne "1.prems" have "append_segments fragments pending v = (fragments, pending @ v)"
        by (subst append_segments.simps) (simp add: Let_def append_segments.simps)
      with all push_units_short show ?thesis by simp
    qed
  qed
qed

lemma push_unit_segmented:
  "segmented (fst st) (snd st) \<Longrightarrow> segmented (fst (push_unit st c)) (snd (push_unit st c))"
  by (auto simp: segmented_def push_unit_def Let_def segmentSize_def)

lemma push_unit_content:
  "concat (fst (push_unit st c)) @ snd (push_unit st c) = (concat (fst st) @ snd st) @ [c]"
  by (auto simp: push_unit_def Let_def)

lemma push_units_segmented:
  "segmented (fst st) (snd st) \<Longrightarrow>
     segmented (fst (foldl push_unit st u)) (snd (foldl push_unit st u))"
  by (induction u rule: rev_induct) (simp_all add: push_unit_segmented)

lemma push_units_content:
  "concat (fst (foldl push_unit st u)) @ snd (foldl push_unit st u) = (concat (fst st) @ snd st) @ u"
proof (induction u rule: rev_induct)
  case (snoc c u)
  then show ?case using push_unit_content [of "foldl push_unit st u" c] by simp
qed simp

lemma segmented_pending: "segmented f p \<Longrightarrow> length p < segmentSize"
  by (simp add: segmented_def)

lemma append_segments_append:
  assumes "segmented f p"
  shows "append_segments f p (u @ v) =
    (let (f', p') = append_segments f p u in append_segments f' p' v)"
proof -
  obtain f' p' where fp: "foldl push_unit (f, p) u = (f', p')" by fastforce
  have "segmented f' p'" using push_units_segmented [of "(f, p)" u] assms fp by simp
  with assms fp show ?thesis
    by (simp add: append_segments_foldl segmented_pending)
qed

lemma append_segments_content:
  assumes "segmented f p" and "append_segments f p v = (f', p')"
  shows "concat f' @ p' = concat f @ p @ v \<and> segmented f' p'"
  using assms push_units_content [of "(f, p)" v] push_units_segmented [of "(f, p)" v]
  by (simp add: append_segments_foldl segmented_pending)

lemma append_segments_Nil [simp]: "append_segments f p [] = (f, p)"
  by (simp add: append_segments.simps)

text \<open>The parts of the invariant about the segments.\<close>

definition line_segmented :: "sse_parser \<Rightarrow> bool" where
  "line_segmented p \<longleftrightarrow> segmented (p_lineFragments p) (p_pendingLine p)"

definition data_segmented :: "sse_parser \<Rightarrow> bool" where
  "data_segmented p \<longleftrightarrow> segmented (p_dataFragments p) (p_pendingData p)"

definition line_text :: "sse_parser \<Rightarrow> jsstr" where
  "line_text p = concat (p_lineFragments p) @ p_pendingLine p"

definition data_text :: "sse_parser \<Rightarrow> jsstr" where
  "data_text p = concat (p_dataFragments p) @ p_pendingData p @ replicate (p_emptyDataLines p) uLF"

lemma appendLine_append:
  assumes "line_segmented p"
  shows "appendLine (u @ v) p = appendLine v (appendLine u p)"
  using append_segments_append [of "p_lineFragments p" "p_pendingLine p" u v] assms
  by (auto simp: appendLine_def line_segmented_def split: prod.splits)

lemma appendLine_text:
  assumes "line_segmented p"
  shows "line_text (appendLine u p) = line_text p @ u \<and> line_segmented (appendLine u p)"
proof -
  obtain f' p' where "append_segments (p_lineFragments p) (p_pendingLine p) u = (f', p')"
    by fastforce
  with append_segments_content [of "p_lineFragments p" "p_pendingLine p" u f' p'] assms
  show ?thesis by (simp add: appendLine_def line_text_def line_segmented_def)
qed

lemma appendLine_Nil [simp]: "appendLine [] p = p"
  by (simp add: appendLine_def)

lemma appendLine_frame [simp]:
  "p_items (appendLine u p) = p_items p"
  "p_dataFragments (appendLine u p) = p_dataFragments p"
  "p_pendingData (appendLine u p) = p_pendingData p"
  "p_emptyDataLines (appendLine u p) = p_emptyDataLines p"
  "p_lineBytes (appendLine u p) = p_lineBytes p"
  "p_eventDataBytes (appendLine u p) = p_eventDataBytes p"
  "p_skipLineFeed (appendLine u p) = p_skipLineFeed p"
  "p_atStart (appendLine u p) = p_atStart p"
  "p_eventType (appendLine u p) = p_eventType p"
  "p_lastEventId (appendLine u p) = p_lastEventId p"
  "p_blockIdChanged (appendLine u p) = p_blockIdChanged p"
  by (simp_all add: appendLine_def split: prod.splits)

lemma appendLine_bytes:
  "appendLine u (p\<lparr>p_lineBytes := n\<rparr>) = (appendLine u p)\<lparr>p_lineBytes := n\<rparr>"
  by (simp add: appendLine_def split: prod.splits)

lemma appendData_frame [simp]:
  "p_items (appendData u p) = p_items p"
  "p_lineFragments (appendData u p) = p_lineFragments p"
  "p_pendingLine (appendData u p) = p_pendingLine p"
  "p_emptyDataLines (appendData u p) = p_emptyDataLines p"
  "p_lineBytes (appendData u p) = p_lineBytes p"
  "p_eventDataBytes (appendData u p) = p_eventDataBytes p"
  "p_skipLineFeed (appendData u p) = p_skipLineFeed p"
  "p_atStart (appendData u p) = p_atStart p"
  "p_eventType (appendData u p) = p_eventType p"
  "p_lastEventId (appendData u p) = p_lastEventId p"
  "p_blockIdChanged (appendData u p) = p_blockIdChanged p"
  by (simp_all add: appendData_def split: prod.splits)

lemma appendData_text:
  assumes "data_segmented p"
  shows "concat (p_dataFragments (appendData u p)) @ p_pendingData (appendData u p) =
      concat (p_dataFragments p) @ p_pendingData p @ u \<and> data_segmented (appendData u p)"
proof -
  obtain f' p' where "append_segments (p_dataFragments p) (p_pendingData p) u = (f', p')"
    by fastforce
  with append_segments_content [of "p_dataFragments p" "p_pendingData p" u f' p'] assms
  show ?thesis by (simp add: appendData_def data_segmented_def)
qed

lemma add_fragment_append:
  assumes "line_segmented p" and "clean_cut u v"
  shows "add_fragment (u @ v) p = rbind (add_fragment u p) (add_fragment v)"
proof -
  have bytes: "utf8_length (u @ v) = utf8_length u + utf8_length v"
    using assms(2) by (rule utf8_length_append)
  show ?thesis
    using assms(1)
    by (auto simp: add_fragment_def Let_def bytes appendLine_append appendLine_bytes)
qed

lemma add_fragment_frame:
  assumes "add_fragment u p = Inr q" and "line_segmented p"
  shows "line_segmented q \<and> line_text q = line_text p @ u \<and> p_skipLineFeed q = p_skipLineFeed p
    \<and> p_atStart q = p_atStart p"
  using assms appendLine_text [of "p\<lparr>p_lineBytes := n\<rparr>" u for n]
  by (auto simp: add_fragment_def Let_def line_segmented_def line_text_def split: if_splits)

text \<open>Handling a line touches neither the line buffers nor the position flags.\<close>

lemma flushEmptyData_frame [simp]:
  "p_items (flushEmptyData p) = p_items p"
  "p_lineFragments (flushEmptyData p) = p_lineFragments p"
  "p_pendingLine (flushEmptyData p) = p_pendingLine p"
  "p_lineBytes (flushEmptyData p) = p_lineBytes p"
  "p_eventDataBytes (flushEmptyData p) = p_eventDataBytes p"
  "p_skipLineFeed (flushEmptyData p) = p_skipLineFeed p"
  "p_atStart (flushEmptyData p) = p_atStart p"
  "p_eventType (flushEmptyData p) = p_eventType p"
  "p_lastEventId (flushEmptyData p) = p_lastEventId p"
  "p_blockIdChanged (flushEmptyData p) = p_blockIdChanged p"
  by (simp_all add: flushEmptyData_def)

lemma flushEmptyData_empty [simp]: "p_emptyDataLines (flushEmptyData p) = 0"
  by (simp add: flushEmptyData_def)

lemma flushEmptyData_text:
  assumes "data_segmented p"
  shows "data_text (flushEmptyData p) = data_text p \<and> data_segmented (flushEmptyData p)"
  using assms appendData_text [OF assms, of "replicate (p_emptyDataLines p) uLF"]
  by (auto simp: flushEmptyData_def data_text_def data_segmented_def)

definition same_line :: "sse_parser \<Rightarrow> sse_parser \<Rightarrow> bool" where
  "same_line p q \<longleftrightarrow>
     p_lineFragments q = p_lineFragments p \<and> p_pendingLine q = p_pendingLine p \<and>
     p_lineBytes q = p_lineBytes p \<and> p_skipLineFeed q = p_skipLineFeed p \<and>
     p_atStart q = p_atStart p"

lemma handleLine_same_line: "handleLine line p = Inr q \<Longrightarrow> same_line p q"
  by (auto simp: handleLine_def Let_def dispatchBlock_def data_field_def id_field_def
      retry_field_def same_line_def split: if_splits option.splits)

lemma end_line_frame:
  assumes "end_line d p = Inr q"
  shows "line_segmented q \<and> line_text q = [] \<and> p_lineBytes q = 0 \<and> p_skipLineFeed q = (d = uCR)
    \<and> p_atStart q = p_atStart p"
  using assms handleLine_same_line
  by (auto simp: end_line_def rbind_Inr_iff line_segmented_def segmented_def segmentSize_def
      line_text_def same_line_def)

text \<open>One round of the loop, away from a line feed to skip.\<close>

definition feed_line :: "sse_parser \<Rightarrow> jsstr \<Rightarrow> sse_parser result" where
  "feed_line p s =
     rbind (add_fragment (next_fragment s) p) (\<lambda>p1.
        case from_delimiter s of
          [] \<Rightarrow> Inr p1
        | d # rest \<Rightarrow> rbind (end_line d p1) (\<lambda>p2. feed_loop p2 rest))"

lemma feed_loop_skip:
  "p_skipLineFeed p \<Longrightarrow> feed_loop p (uLF # s) = feed_loop (p\<lparr>p_skipLineFeed := False\<rparr>) s"
  by (simp add: feed_loop.simps)

lemma feed_loop_line:
  "\<not> (p_skipLineFeed p \<and> c = uLF) \<Longrightarrow>
     feed_loop p (c # s) = feed_line (p\<lparr>p_skipLineFeed := False\<rparr>) (c # s)"
  by (auto simp: feed_loop.simps feed_line_def)

lemma line_parts: "next_fragment s @ from_delimiter s = s"
  by (simp add: next_fragment_def from_delimiter_def)

lemma from_delimiter_Nil: "from_delimiter s = [] \<Longrightarrow> next_fragment s = s"
  using line_parts [of s] by simp

lemma feed_line_Nil: "from_delimiter s = [] \<Longrightarrow> feed_line p s = add_fragment s p"
  by (cases "add_fragment s p") (auto simp: feed_line_def from_delimiter_Nil)

lemma feed_line_Cons:
  "from_delimiter s = d # rest \<Longrightarrow>
     feed_line p s = rbind (add_fragment (next_fragment s) p) (\<lambda>p1.
       rbind (end_line d p1) (\<lambda>p2. feed_loop p2 rest))"
  by (simp add: feed_line_def)

lemma from_delimiter_hd: "from_delimiter s = d # rest \<Longrightarrow> line_delimiter d"
  unfolding from_delimiter_def by (metis hd_dropWhile list.distinct(1) list.sel(1))

lemma parts_append_Cons:
  assumes "from_delimiter s = d # rest"
  shows "next_fragment (s @ b) = next_fragment s \<and> from_delimiter (s @ b) = d # rest @ b"
proof -
  have "d \<in> set s" using line_parts [of s] assms by (metis in_set_conv_decomp)
  with from_delimiter_hd [OF assms] assms show ?thesis
    by (auto simp: next_fragment_def from_delimiter_def)
qed

lemma parts_append_Nil:
  assumes "from_delimiter s = []"
  shows "next_fragment (s @ b) = s @ next_fragment b \<and> from_delimiter (s @ b) = from_delimiter b"
  using assms unfolding next_fragment_def from_delimiter_def
  by (auto simp: takeWhile_append2 dropWhile_append2)

text \<open>Induction over the rounds of the loop.\<close>

lemma feed_loop_induct [case_names Nil Skip Last Line]:
  assumes "\<And>p. P p []"
    and "\<And>p s. p_skipLineFeed p \<Longrightarrow> P (p\<lparr>p_skipLineFeed := False\<rparr>) s \<Longrightarrow> P p (uLF # s)"
    and "\<And>p c s. \<not> (p_skipLineFeed p \<and> c = uLF) \<Longrightarrow> from_delimiter (c # s) = [] \<Longrightarrow> P p (c # s)"
    and "\<And>p c s d rest. \<not> (p_skipLineFeed p \<and> c = uLF) \<Longrightarrow> from_delimiter (c # s) = d # rest \<Longrightarrow>
           (\<And>q. P q rest) \<Longrightarrow> P p (c # s)"
  shows "P p s"
proof (induction "length s" arbitrary: p s rule: less_induct)
  case less
  show ?case
  proof (cases s)
    case (Cons c t)
    show ?thesis
    proof (cases "p_skipLineFeed p \<and> c = uLF")
      case True
      with Cons less assms(2) show ?thesis by simp
    next
      case False
      show ?thesis
      proof (cases "from_delimiter (c # t)")
        case Nil
        with Cons False assms(3) show ?thesis by simp
      next
        case (Cons d rest)
        with \<open>s = c # t\<close> less have "P q rest" for q by (auto dest: from_delimiter_length)
        with Cons False \<open>s = c # t\<close> assms(4) show ?thesis by simp
      qed
    qed
  qed (use assms(1) in simp)
qed

lemma feed_loop_atStart:
  "feed_loop p s = Inr q \<Longrightarrow> line_segmented p \<Longrightarrow> p_atStart q = p_atStart p \<and> line_segmented q"
proof (induction p s rule: feed_loop_induct)
  case (Skip p s)
  then show ?case by (simp add: feed_loop_skip line_segmented_def)
next
  case (Last p c s)
  then show ?case
    using add_fragment_frame [of "c # s" "p\<lparr>p_skipLineFeed := False\<rparr>" q]
    by (simp add: feed_loop_line feed_line_Nil line_segmented_def)
next
  case (Line p c s d rest)
  then obtain p1 p2 where p1: "add_fragment (next_fragment (c # s)) (p\<lparr>p_skipLineFeed := False\<rparr>) = Inr p1"
    and p2: "end_line d p1 = Inr p2" "feed_loop p2 rest = Inr q"
    by (auto simp: feed_loop_line feed_line_Cons rbind_Inr_iff)
  have "line_segmented p1 \<and> p_atStart p1 = p_atStart p"
    using add_fragment_frame [OF p1] Line.prems by (simp add: line_segmented_def)
  with Line.IH [OF p2(2)] end_line_frame [OF p2(1)] show ?case by simp
qed simp

lemma clean_cut_tl: "clean_cut (c # s) t \<Longrightarrow> clean_cut s t"
  by (cases s) (auto simp: clean_cut_def)

lemma clean_cut_suffix: "clean_cut (r @ s) t \<Longrightarrow> clean_cut s t"
  by (induction r) (auto dest: clean_cut_tl)

lemma clean_cut_fragment: "clean_cut s t \<Longrightarrow> clean_cut s (next_fragment t)"
  by (cases t) (auto simp: clean_cut_def next_fragment_def)

lemma add_fragment_bound: "add_fragment u p = Inr q \<Longrightarrow> p_lineBytes q \<le> maximumLineBytes"
  by (auto simp: add_fragment_def Let_def split: if_splits)

lemma feed_loop_unfold:
  assumes "\<not> p_skipLineFeed p" and "p_lineBytes p \<le> maximumLineBytes"
  shows "feed_loop p s = feed_line p s"
proof (cases s)
  case Nil
  with assms show ?thesis
    by (simp add: feed_line_Nil from_delimiter_def add_fragment_def)
next
  case (Cons c t)
  have same: "p\<lparr>p_skipLineFeed := False\<rparr> = p" using assms(1) by simp
  have "feed_loop p (c # t) = feed_line (p\<lparr>p_skipLineFeed := False\<rparr>) (c # t)"
    using assms by (intro feed_loop_line) simp
  then show ?thesis unfolding same Cons .
qed

lemma feed_line_append:
  assumes "line_segmented p" and "clean_cut s b" and "from_delimiter s = []"
    and "\<not> p_skipLineFeed p"
  shows "feed_line p (s @ b) = rbind (add_fragment s p) (\<lambda>q. feed_loop q b)"
proof -
  note parts = parts_append_Nil [OF assms(3), of b]
  have split: "add_fragment (s @ next_fragment b) p = rbind (add_fragment s p) (add_fragment (next_fragment b))"
    using assms by (intro add_fragment_append clean_cut_fragment)
  show ?thesis
  proof (cases "add_fragment s p")
    case (Inr q)
    then have "feed_loop q b = feed_line q b"
      using add_fragment_frame [OF Inr assms(1)] add_fragment_bound [OF Inr] assms(4)
      by (intro feed_loop_unfold) simp_all
    with parts split Inr show ?thesis by (simp add: feed_line_def)
  qed (use parts split in \<open>simp add: feed_line_def\<close>)
qed

lemma feed_loop_append:
  "line_segmented p \<Longrightarrow> clean_cut a b \<Longrightarrow>
     feed_loop p (a @ b) = rbind (feed_loop p a) (\<lambda>q. feed_loop q b)"
proof (induction p a rule: feed_loop_induct)
  case (Skip p s)
  then show ?case
    by (auto simp: feed_loop_skip line_segmented_def dest: clean_cut_tl)
next
  case (Last p c s)
  then show ?case
    using feed_line_append [of "p\<lparr>p_skipLineFeed := False\<rparr>" "c # s" b]
    by (simp add: feed_loop_line feed_line_Nil line_segmented_def)
next
  case (Line p c s d rest)
  let ?p0 = "p\<lparr>p_skipLineFeed := False\<rparr>"
  note parts = parts_append_Cons [OF Line.hyps(2), of b]
  have cut: "clean_cut rest b"
    using Line.prems(2) Line.hyps(2) line_parts [of "c # s"]
      clean_cut_suffix [of "next_fragment (c # s) @ [d]" rest b]
    by simp
  have whole: "feed_loop p ((c # s) @ b) =
      rbind (rbind (add_fragment (next_fragment (c # s)) ?p0) (end_line d))
        (\<lambda>p2. feed_loop p2 (rest @ b))"
    using feed_loop_line [OF Line.hyps(1), of "s @ b"] parts
      feed_line_Cons [of "(c # s) @ b" d "rest @ b" ?p0]
    by (simp add: rbind_assoc)
  have first: "feed_loop p (c # s) =
      rbind (rbind (add_fragment (next_fragment (c # s)) ?p0) (end_line d))
        (\<lambda>p2. feed_loop p2 rest)"
    using feed_loop_line [OF Line.hyps(1), of s] feed_line_Cons [OF Line.hyps(2), of ?p0]
    by (simp add: rbind_assoc)
  have "feed_loop p2 (rest @ b) = rbind (feed_loop p2 rest) (\<lambda>q. feed_loop q b)"
    if "rbind (add_fragment (next_fragment (c # s)) ?p0) (end_line d) = Inr p2" for p2
    using that Line.IH cut end_line_frame by (auto simp: rbind_Inr_iff)
  then show ?case
    unfolding whole first
    by (cases "rbind (add_fragment (next_fragment (c # s)) ?p0) (end_line d)") simp_all
qed simp

lemma feed_append:
  assumes "line_segmented p" and "clean_cut a b"
  shows "feed p (a @ b) = rbind (feed p a) (\<lambda>q. feed q b)"
proof (cases "p_atStart p \<and> a \<noteq> []")
  case True
  let ?p = "p\<lparr>p_atStart := False\<rparr>"
  let ?a = "if starts_with a [uBOM] then tl a else a"
  have seg: "line_segmented ?p" using assms(1) by (simp add: line_segmented_def)
  have cut: "clean_cut ?a b"
    using assms(2) True by (cases a) (auto dest: clean_cut_tl)
  have "feed p (a @ b) = feed_loop ?p (?a @ b)"
    using True by (cases a) (auto simp: feed_def starts_with_def)
  also have "\<dots> = rbind (feed_loop ?p ?a) (\<lambda>q. feed_loop q b)"
    using seg cut by (rule feed_loop_append)
  also have "\<dots> = rbind (feed p a) (\<lambda>q. feed q b)"
  proof -
    have "feed_loop q b = feed q b" if "feed_loop ?p ?a = Inr q" for q
      using feed_loop_atStart [OF that seg] by (simp add: feed_def)
    moreover have "feed p a = feed_loop ?p ?a" using True by (simp add: feed_def)
    ultimately show ?thesis by (cases "feed_loop ?p ?a") simp_all
  qed
  finally show ?thesis .
next
  case False
  show ?thesis
  proof (cases "a = []")
    case True
    then show ?thesis by (simp add: feed_def)
  next
    case ne: False
    with False have start: "\<not> p_atStart p" by simp
    have "feed_loop q b = feed q b" if "feed_loop p a = Inr q" for q
      using feed_loop_atStart [OF that assms(1)] start by (simp add: feed_def)
    then show ?thesis
      using start feed_loop_append [OF assms] by (cases "feed_loop p a") (simp_all add: feed_def)
  qed
qed

section \<open>Resource bounds\<close>

definition parser_inv :: "sse_parser \<Rightarrow> bool" where
  "parser_inv p \<longleftrightarrow>
     line_segmented p \<and> data_segmented p \<and>
     length (line_text p) \<le> p_lineBytes p \<and> p_lineBytes p \<le> maximumLineBytes \<and>
     length (data_text p) \<le> p_eventDataBytes p \<and> p_eventDataBytes p \<le> maximumEventDataBytes"

lemma parser_inv_new [simp]: "parser_inv (new_parser i)"
  by (simp add: parser_inv_def new_parser_def line_segmented_def data_segmented_def segmented_def
      segmentSize_def line_text_def data_text_def)

lemma parser_inv_skip [simp]:
  "parser_inv (p\<lparr>p_skipLineFeed := b\<rparr>) = parser_inv p"
  "parser_inv (p\<lparr>p_atStart := b\<rparr>) = parser_inv p"
  "parser_inv (p\<lparr>p_items := xs\<rparr>) = parser_inv p"
  "parser_inv (p\<lparr>p_eventType := t\<rparr>) = parser_inv p"
  by (simp_all add: parser_inv_def line_segmented_def data_segmented_def line_text_def data_text_def)

lemma add_fragment_inv:
  assumes "parser_inv p" and "add_fragment u p = Inr q"
  shows "parser_inv q"
proof -
  define bytes where "bytes = p_lineBytes p + (if length u = 0 then 0 else utf8_length u)"
  have q: "q = appendLine u (p\<lparr>p_lineBytes := bytes\<rparr>)" "bytes \<le> maximumLineBytes"
    using assms(2) by (auto simp: add_fragment_def bytes_def Let_def split: if_splits)
  have "length u \<le> (if length u = 0 then 0 else utf8_length u)"
    using length_le_utf8_length [of u] by simp
  moreover have "line_segmented (p\<lparr>p_lineBytes := bytes\<rparr>)" "line_text (p\<lparr>p_lineBytes := bytes\<rparr>) = line_text p"
    using assms(1) by (simp_all add: parser_inv_def line_segmented_def line_text_def)
  ultimately show ?thesis
    using assms(1) appendLine_text [of "p\<lparr>p_lineBytes := bytes\<rparr>" u] q
    by (simp add: parser_inv_def data_segmented_def data_text_def bytes_def)
qed

lemma data_field_inv:
  assumes "parser_inv p" and "data_field v p = Inr q"
  shows "parser_inv q"
proof -
  define bytes where "bytes = p_eventDataBytes p + (if length v = 0 then 0 else utf8_length v) + 1"
  let ?p1 = "p\<lparr>p_eventDataBytes := bytes\<rparr>"
  have bound: "bytes \<le> maximumEventDataBytes"
    and q: "q = (if length v = 0 then ?p1\<lparr>p_emptyDataLines := p_emptyDataLines ?p1 + 1\<rparr>
                 else appendData (v @ [uLF]) (flushEmptyData ?p1))"
    using assms(2) by (auto simp: data_field_def bytes_def Let_def split: if_splits)
  have p1: "data_segmented ?p1" "data_text ?p1 = data_text p"
    using assms(1) by (simp_all add: parser_inv_def data_segmented_def data_text_def)
  have len: "length (data_text p) \<le> p_eventDataBytes p" "length v \<le> utf8_length v"
    using assms(1) length_le_utf8_length by (simp_all add: parser_inv_def)
  show ?thesis
  proof (cases "length v = 0")
    case True
    with assms(1) q bound len show ?thesis
      by (simp add: parser_inv_def bytes_def data_text_def data_segmented_def line_segmented_def
          line_text_def)
  next
    case False
    let ?f = "flushEmptyData ?p1"
    have f: "data_text ?f = data_text p" "data_segmented ?f"
      using flushEmptyData_text [OF p1(1)] p1(2) by simp_all
    have "data_text q = data_text p @ v @ [uLF] \<and> data_segmented q"
      using appendData_text [OF f(2), of "v @ [uLF]"] f(1) False q by (simp add: data_text_def)
    with assms(1) q bound len False show ?thesis
      by (simp add: parser_inv_def bytes_def line_segmented_def line_text_def)
  qed
qed

lemma dispatchBlock_inv: "parser_inv p \<Longrightarrow> parser_inv (dispatchBlock p)"
  by (simp add: parser_inv_def dispatchBlock_def Let_def line_segmented_def line_text_def
      data_segmented_def data_text_def segmented_def segmentSize_def)

lemma handleLine_inv: "parser_inv p \<Longrightarrow> handleLine line p = Inr q \<Longrightarrow> parser_inv q"
  by (auto simp: handleLine_def Let_def dispatchBlock_inv id_field_def retry_field_def
      intro: data_field_inv split: if_splits option.splits)
    (simp_all add: parser_inv_def line_segmented_def data_segmented_def line_text_def data_text_def)

lemma end_line_inv:
  assumes "parser_inv p" and "end_line d p = Inr q"
  shows "parser_inv q"
proof -
  obtain r where r: "handleLine (concat (p_lineFragments p) @ p_pendingLine p) p = Inr r"
    and q: "q = r\<lparr>p_lineFragments := [], p_pendingLine := [], p_lineBytes := 0,
                  p_skipLineFeed := (d = uCR)\<rparr>"
    using assms(2) by (auto simp: end_line_def rbind_Inr_iff)
  have "parser_inv r" using assms(1) r by (rule handleLine_inv)
  then show ?thesis
    unfolding q
    by (simp add: parser_inv_def line_segmented_def data_segmented_def line_text_def data_text_def
      segmented_def segmentSize_def)
qed

lemma feed_loop_inv: "parser_inv p \<Longrightarrow> feed_loop p s = Inr q \<Longrightarrow> parser_inv q"
proof (induction p s rule: feed_loop_induct)
  case (Skip p s)
  then show ?case by (simp add: feed_loop_skip)
next
  case (Last p c s)
  then have "add_fragment (c # s) (p\<lparr>p_skipLineFeed := False\<rparr>) = Inr q"
    using feed_loop_line [OF Last(1), of s] feed_line_Nil [OF Last(2)] by simp
  from add_fragment_inv [OF _ this] Last.prems(1) show ?case by simp
next
  case (Line p c s d rest)
  then obtain p1 p2 where p1: "add_fragment (next_fragment (c # s)) (p\<lparr>p_skipLineFeed := False\<rparr>) = Inr p1"
    and p2: "end_line d p1 = Inr p2" "feed_loop p2 rest = Inr q"
    using feed_loop_line [OF Line(1), of s] feed_line_Cons [OF Line(2)]
    by (auto simp: rbind_Inr_iff)
  have "parser_inv p1" using add_fragment_inv [OF _ p1] Line.prems(1) by simp
  then have "parser_inv p2" using p2(1) by (rule end_line_inv)
  then show ?case using p2(2) by (rule Line.IH)
qed simp

lemma feed_inv:
  assumes "parser_inv p" and "feed p s = Inr q"
  shows "parser_inv q"
proof (cases "p_atStart p \<and> 0 < length s")
  case True
  with assms(2) have "feed_loop (p\<lparr>p_atStart := False\<rparr>)
      (if starts_with s [uBOM] then tl s else s) = Inr q"
    by (simp add: feed_def)
  from feed_loop_inv [OF _ this] assms(1) show ?thesis by simp
next
  case False
  with assms(2) have "feed_loop p s = Inr q" by (auto simp: feed_def)
  with assms(1) show ?thesis by (rule feed_loop_inv)
qed

lemma feed_Nil: "feed p [] = Inr p"
  by (simp add: feed_def)

interpretation sse_feed: incremental feed parser_inv clean_cut
proof unfold_locales
  show "feed s (a @ b) = rbind (feed s a) (\<lambda>t. feed t b)"
    if "parser_inv s" "clean_cut a b" for s a b
    using that by (intro feed_append) (simp_all add: parser_inv_def)
qed (rule feed_Nil, erule (1) feed_inv)

end
