(* ===== verification/SseReference.thy ===== *)
theory SseReference
  imports SseParser
begin

text \<open>
  The reference semantics of an event stream, with no buffers and no byte counters: the text is
  cut into lines at CR, LF or CR LF, and each line is one field of the current block. The
  refinement lemma \<open>feed_refines\<close> shows that the incremental parser emits the items of the
  reference; \<open>feed_total\<close> shows that it does emit them for every text within the event budget.
\<close>

section \<open>Reference semantics\<close>

fun lines_from :: "bool \<Rightarrow> jsstr \<Rightarrow> jsstr \<Rightarrow> jsstr list" where
  "lines_from skip line [] = []"
| "lines_from skip line (c # s) =
     (if skip \<and> c = uLF then lines_from False line s
      else if c = uCR then line # lines_from True [] s
      else if c = uLF then line # lines_from False [] s
      else lines_from False (line @ [c]) s)"

definition strip_bom :: "jsstr \<Rightarrow> jsstr" where
  "strip_bom s = (if starts_with s [uBOM] then tl s else s)"

definition sse_lines :: "jsstr \<Rightarrow> jsstr list" where
  "sse_lines s = lines_from False [] (strip_bom s)"

record sse_block =
  b_data :: "jsstr list"
  b_type :: jsstr
  b_id :: jsstr
  b_changed :: bool

definition new_block :: "jsstr \<Rightarrow> sse_block" where
  "new_block i = \<lparr>b_data = [], b_type = [], b_id = i, b_changed = False\<rparr>"

definition block_items :: "sse_block \<Rightarrow> sse_item list" where
  "block_items b =
     (if b_data b \<noteq> []
      then [ItemEvent \<lparr>se_event = (if b_type b = [] then js ''message'' else b_type b),
                       se_data = join_with [uLF] (b_data b), se_lastEventId = b_id b\<rparr>]
      else if b_changed b then [ItemCheckpoint (b_id b)] else [])"

definition process_line :: "jsstr \<Rightarrow> sse_block \<Rightarrow> sse_item list \<times> sse_block" where
  "process_line line b =
     (if line = [] then (block_items b, new_block (b_id b))
      else if starts_with line [uCOLON] then ([], b)
      else let field = field_name line; v = field_value line
           in if field = js ''data'' then ([], b\<lparr>b_data := b_data b @ [v]\<rparr>)
              else if field = js ''event'' then ([], b\<lparr>b_type := v\<rparr>)
              else if field = js ''id'' then
                ([], if uNUL \<in> set v then b else b\<lparr>b_id := v, b_changed := True\<rparr>)
              else if field = js ''retry'' then
                (case retry_value v of None \<Rightarrow> ([], b) | Some n \<Rightarrow> ([ItemRetry n], b))
              else ([], b))"

fun process_lines :: "jsstr list \<Rightarrow> sse_block \<Rightarrow> sse_item list \<times> sse_block" where
  "process_lines [] b = ([], b)"
| "process_lines (l # ls) b =
     (let (items, b1) = process_line l b; (more, b2) = process_lines ls b1 in (items @ more, b2))"

definition sse_reference :: "jsstr \<Rightarrow> jsstr \<Rightarrow> sse_item list" where
  "sse_reference lastEventId s = fst (process_lines (sse_lines s) (new_block lastEventId))"

section \<open>Refinement\<close>

definition data_lines_text :: "jsstr list \<Rightarrow> jsstr" where
  "data_lines_text ls = concat (map (\<lambda>l. l @ [uLF]) ls)"

lemma data_lines_text_snoc: "data_lines_text (ls @ [l]) = data_lines_text ls @ l @ [uLF]"
  by (simp add: data_lines_text_def)

lemma butlast_data_lines: "ls \<noteq> [] \<Longrightarrow> butlast (data_lines_text ls) = join_with [uLF] ls"
  by (induction ls rule: induct_list012)
    (auto simp: data_lines_text_def butlast_append)

text \<open>The block a parser is in the middle of.\<close>

definition represents :: "sse_parser \<Rightarrow> sse_block \<Rightarrow> bool" where
  "represents p b \<longleftrightarrow>
     data_segmented p \<and> data_text p = data_lines_text (b_data b) \<and>
     (p_eventDataBytes p = 0 \<longleftrightarrow> b_data b = []) \<and>
     p_eventType p = b_type b \<and> p_lastEventId p = b_id b \<and> p_blockIdChanged p = b_changed b"

lemma represents_new: "represents (new_parser i) (new_block i)"
  by (simp add: represents_def new_parser_def new_block_def data_segmented_def segmented_def
      segmentSize_def data_text_def data_lines_text_def)

lemma represents_line [simp]:
  "represents (p\<lparr>p_skipLineFeed := k\<rparr>) b = represents p b"
  "represents (p\<lparr>p_atStart := k\<rparr>) b = represents p b"
  "represents (p\<lparr>p_lineBytes := n\<rparr>) b = represents p b"
  "represents (p\<lparr>p_lineFragments := f\<rparr>) b = represents p b"
  "represents (p\<lparr>p_pendingLine := l\<rparr>) b = represents p b"
  "represents (p\<lparr>p_items := xs\<rparr>) b = represents p b"
  by (simp_all add: represents_def data_segmented_def data_text_def)

lemma represents_appendLine [simp]: "represents (appendLine u p) b = represents p b"
  by (simp add: represents_def data_segmented_def data_text_def)

lemma dispatch_refines:
  assumes "represents p b"
  shows "p_items (dispatchBlock p) = p_items p @ block_items b \<and>
    represents (dispatchBlock p) (new_block (b_id b))"
proof -
  have rep: "represents (dispatchBlock p) (new_block (b_id b))"
    using assms
    by (simp add: dispatchBlock_def Let_def represents_def new_block_def data_segmented_def
        segmented_def segmentSize_def data_text_def data_lines_text_def)
  have "concat (p_dataFragments (flushEmptyData p)) @ p_pendingData (flushEmptyData p)
      = data_lines_text (b_data b)"
    using flushEmptyData_text [of p] assms by (simp add: represents_def data_text_def)
  then have "p_items (dispatchBlock p) = p_items p @ block_items b"
    using assms
    by (auto simp: dispatchBlock_def Let_def block_items_def represents_def butlast_data_lines)
  with rep show ?thesis by simp
qed

lemma data_refines:
  assumes "represents p b" and "data_field v p = Inr q"
  shows "p_items q = p_items p \<and> represents q (b\<lparr>b_data := b_data b @ [v]\<rparr>)"
proof -
  define bytes where "bytes = p_eventDataBytes p + (if length v = 0 then 0 else utf8_length v) + 1"
  let ?p1 = "p\<lparr>p_eventDataBytes := bytes\<rparr>"
  have q: "q = (if length v = 0 then ?p1\<lparr>p_emptyDataLines := p_emptyDataLines ?p1 + 1\<rparr>
                 else appendData (v @ [uLF]) (flushEmptyData ?p1))"
    using assms(2) by (auto simp: data_field_def bytes_def Let_def split: if_splits)
  have p1: "data_segmented ?p1" "data_text ?p1 = data_lines_text (b_data b)"
    using assms(1) by (simp_all add: represents_def data_segmented_def data_text_def)
  have "data_text q = data_text ?p1 @ v @ [uLF] \<and> data_segmented q"
  proof (cases "v = []")
    case True
    with q have "data_text q = data_text ?p1 @ [uLF]"
      by (simp add: data_text_def replicate_append_same)
    with True q p1 show ?thesis by (simp add: data_segmented_def)
  next
    case False
    let ?f = "flushEmptyData ?p1"
    from flushEmptyData_text [OF p1(1)] have f: "data_text ?f = data_text ?p1" "data_segmented ?f"
      by simp_all
    with appendData_text [OF f(2), of "v @ [uLF]"] False q show ?thesis
      by (simp add: data_text_def)
  qed
  with q p1 assms(1) show ?thesis
    by (auto simp: represents_def data_lines_text_snoc bytes_def)
qed

lemma handleLine_refines:
  assumes "represents p b" and "handleLine line p = Inr q" and "process_line line b = (items, b')"
  shows "p_items q = p_items p @ items \<and> represents q b'"
proof -
  consider "line = []" | "line \<noteq> []" "starts_with line [uCOLON]"
    | "line \<noteq> []" "\<not> starts_with line [uCOLON]" "field_name line = js ''data''"
    | "line \<noteq> []" "\<not> starts_with line [uCOLON]" "field_name line \<noteq> js ''data''"
    by blast
  then show ?thesis
  proof cases
    case 1
    with assms dispatch_refines [OF assms(1)] show ?thesis
      by (simp add: handleLine_def process_line_def)
  next
    case 2
    with assms show ?thesis by (simp add: handleLine_def process_line_def)
  next
    case 3
    with assms(2) have "data_field (field_value line) p = Inr q"
      by (simp add: handleLine_def Let_def)
    from data_refines [OF assms(1) this] 3 assms(3) show ?thesis
      by (auto simp: process_line_def Let_def)
  next
    case 4
    with assms show ?thesis
      by (auto simp: handleLine_def process_line_def Let_def id_field_def retry_field_def
          represents_def data_segmented_def data_text_def split: if_splits option.splits)
  qed
qed

lemma lines_from_fragment:
  "list_all (\<lambda>c. \<not> line_delimiter c) f \<Longrightarrow> lines_from False l (f @ s) = lines_from False (l @ f) s"
  by (induction f arbitrary: l) (auto simp: line_delimiter_def)

lemma lines_from_skip_other:
  "\<not> (skip \<and> c = uLF) \<Longrightarrow> lines_from skip l (c # s) = lines_from False l (c # s)"
  by auto

lemma next_fragment_all: "list_all (\<lambda>c. \<not> line_delimiter c) (next_fragment s)"
  by (auto simp: next_fragment_def list_all_iff dest: set_takeWhileD)

lemma lines_from_Last:
  assumes "from_delimiter s = []"
  shows "lines_from False l s = []"
  using lines_from_fragment [OF next_fragment_all, of l s "[]"] from_delimiter_Nil [OF assms]
  by simp

lemma lines_from_Line:
  assumes "from_delimiter s = d # rest"
  shows "lines_from False l s = (l @ next_fragment s) # lines_from (d = uCR) [] rest"
proof -
  have "lines_from False l s = lines_from False l (next_fragment s @ d # rest)"
    using line_parts [of s] assms by simp
  also have "\<dots> = lines_from False (l @ next_fragment s) (d # rest)"
    by (rule lines_from_fragment [OF next_fragment_all])
  also have "\<dots> = (l @ next_fragment s) # lines_from (d = uCR) [] rest"
    using from_delimiter_hd [OF assms] by (auto simp: line_delimiter_def)
  finally show ?thesis .
qed

lemma add_fragment_items:
  "add_fragment u p = Inr q \<Longrightarrow> p_items q = p_items p \<and> (represents q b = represents p b)"
  by (auto simp: add_fragment_def Let_def split: if_splits)

lemma feed_loop_refines:
  assumes "feed_loop p s = Inr q" and "represents p b" and "line_segmented p"
    and "process_lines (lines_from (p_skipLineFeed p) (line_text p) s) b = (items, b')"
  shows "p_items q = p_items p @ items \<and> represents q b'"
  using assms
proof (induction p s arbitrary: b items rule: feed_loop_induct)
  case (Skip p s)
  from Skip.IH [of b items] Skip.hyps Skip.prems show ?case
    by (simp add: feed_loop_skip line_segmented_def line_text_def)
next
  case (Last p c s)
  then have q: "add_fragment (c # s) (p\<lparr>p_skipLineFeed := False\<rparr>) = Inr q"
    using feed_loop_line [OF Last(1), of s] feed_line_Nil [OF Last(2)] by simp
  have "process_lines (lines_from (p_skipLineFeed p) (line_text p) (c # s)) b = ([], b)"
    using lines_from_skip_other [OF Last(1)] lines_from_Last [OF Last(2)] by simp
  with Last.prems add_fragment_items [OF q, of b] show ?case by simp
next
  case (Line p c s d rest)
  let ?p0 = "p\<lparr>p_skipLineFeed := False\<rparr>"
  obtain p1 p2 where p1: "add_fragment (next_fragment (c # s)) ?p0 = Inr p1"
    and p2: "end_line d p1 = Inr p2" "feed_loop p2 rest = Inr q"
    using Line.prems(1) feed_loop_line [OF Line(1), of s] feed_line_Cons [OF Line(2), of ?p0]
    by (auto simp: rbind_Inr_iff)
  have f1: "line_text p1 = line_text p @ next_fragment (c # s)" "represents p1 b"
    "p_items p1 = p_items p"
    using add_fragment_frame [OF p1] add_fragment_items [OF p1, of b] Line.prems
    by (simp_all add: line_segmented_def line_text_def)
  obtain r where r: "handleLine (line_text p1) p1 = Inr r"
    and p2r: "p2 = r\<lparr>p_lineFragments := [], p_pendingLine := [], p_lineBytes := 0,
                  p_skipLineFeed := (d = uCR)\<rparr>"
    using p2(1) by (auto simp: end_line_def rbind_Inr_iff line_text_def)
  obtain i1 b1 where pl: "process_line (line_text p1) b = (i1, b1)" by fastforce
  obtain i2 where rest: "process_lines (lines_from (d = uCR) [] rest) b1 = (i2, b')"
    and items: "items = i1 @ i2"
    using Line.prems(4) lines_from_skip_other [OF Line(1)] lines_from_Line [OF Line(2)] pl f1(1)
    by (auto split: prod.splits)
  have hr: "p_items r = p_items p @ i1 \<and> represents r b1"
    using handleLine_refines [OF f1(2) r pl] f1(3) by simp
  have e: "line_segmented p2" "line_text p2 = []" "p_skipLineFeed p2 = (d = uCR)"
    using end_line_frame [OF p2(1)] by simp_all
  have "p_items q = p_items p2 @ i2 \<and> represents q b'"
    using Line.IH [OF p2(2), of b1 i2] e hr rest p2r by simp
  with hr items p2r show ?case by simp
qed simp

lemma feed_refines:
  assumes "feed (new_parser i) s = Inr q"
  shows "p_items q = sse_reference i s"
proof -
  have new: "p_items (new_parser i) = []" "line_segmented (new_parser i)"
    "line_text (new_parser i) = []" "\<not> p_skipLineFeed (new_parser i)"
    using parser_inv_new [of i] by (simp_all add: new_parser_def parser_inv_def line_text_def)
  obtain b' where pl: "process_lines (sse_lines s) (new_block i) = (sse_reference i s, b')"
    by (metis prod.collapse sse_reference_def)
  show ?thesis
  proof (cases "s = []")
    case True
    then have "q = new_parser i" using assms by (simp add: feed_def)
    moreover have "sse_reference i s = []"
      using True by (simp add: sse_reference_def sse_lines_def strip_bom_def)
    ultimately show ?thesis using new by simp
  next
    case False
    then have "feed_loop ((new_parser i)\<lparr>p_atStart := False\<rparr>) (strip_bom s) = Inr q"
      using assms by (simp add: feed_def strip_bom_def new_parser_def)
    moreover have "represents ((new_parser i)\<lparr>p_atStart := False\<rparr>) (new_block i)"
      using represents_new by simp
    ultimately show ?thesis
      using feed_loop_refines [of "(new_parser i)\<lparr>p_atStart := False\<rparr>" "strip_bom s" q
          "new_block i" "sse_reference i s" b'] pl
      by (simp add: new_parser_def line_segmented_def line_text_def sse_lines_def segmented_def
          segmentSize_def)
  qed
qed

section \<open>The parser accepts every text within the event budget\<close>

lemma feed_loop_error:
  "feed_loop p s = Inl e \<Longrightarrow> e = SseLimitError ''Sse.lineSize'' \<or> e = SseLimitError ''Sse.eventSize''"
proof (induction p s rule: feed_loop_induct)
  case (Skip p s)
  then show ?case by (simp add: feed_loop_skip)
next
  case (Last p c s)
  then show ?case
    using feed_loop_line [OF Last(1), of s] feed_line_Nil [OF Last(2)]
    by (auto simp: add_fragment_def Let_def split: if_splits)
next
  case (Line p c s d rest)
  have hl: "handleLine l r = Inl e \<Longrightarrow> e = SseLimitError ''Sse.eventSize''" for l r
    by (auto simp: handleLine_def Let_def data_field_def split: if_splits)
  from Line show ?case
    using feed_loop_line [OF Line(1), of s] feed_line_Cons [OF Line(2)] hl
    by (auto simp: rbind_Inl_iff add_fragment_def end_line_def Let_def split: if_splits)
qed simp

lemma utf8_length_ascii_Cons: "unat c < 128 \<Longrightarrow> utf8_length (c # s) = 1 + utf8_length s"
proof -
  assume c: "unat c < 128"
  then have "clean_cut [c] s" by (auto simp: clean_cut_def is_high_def in_range_def)
  moreover have "utf8_length [c] = 1"
    using c by (simp add: utf8_length_def utf8_encode_def utf8_cp_def surrogate_cp_def)
  ultimately show ?thesis using utf8_length_append [of "[c]" s] by simp
qed

lemma utf8_length_tl: "s \<noteq> [] \<Longrightarrow> unat (hd s) < 128 \<Longrightarrow> utf8_length (tl s) < utf8_length s"
  by (cases s) (auto simp: utf8_length_ascii_Cons)

text \<open>A data line is longer than its value: it starts with the field name.\<close>

lemma field_value_shorter:
  assumes "field_name line = js ''data''"
  shows "utf8_length (field_value line) + 4 \<le> utf8_length line"
proof -
  let ?rest = "dropWhile (\<lambda>c. c \<noteq> uCOLON) line"
  have "line = js ''data'' @ ?rest"
    using assms takeWhile_dropWhile_id [of "\<lambda>c. c \<noteq> uCOLON" line] by (simp add: field_name_def)
  then have "utf8_length line = utf8_length (js ''data'' @ ?rest)" by (rule arg_cong)
  then have len: "utf8_length line = 4 + utf8_length ?rest"
    by (simp add: js_def utf8_length_ascii_Cons)
  have tl: "utf8_length (tl ?rest) \<le> utf8_length ?rest"
  proof (cases ?rest)
    case (Cons c t)
    then have "c = uCOLON" by (metis (mono_tags) dropWhile_eq_Cons_conv)
    with Cons utf8_length_tl [of ?rest] show ?thesis by simp
  next
    case Nil
    then show ?thesis unfolding Nil by simp
  qed
  have "utf8_length (field_value line) \<le> utf8_length (tl ?rest)"
  proof (cases "starts_with (tl ?rest) [uSP]")
    case True
    then obtain t where t: "tl ?rest = uSP # t" by (auto simp: starts_with_iff)
    have "field_value line = t" unfolding field_value_def t by (simp add: starts_with_iff)
    with t show ?thesis by (simp add: utf8_length_ascii_Cons)
  next
    case False
    then show ?thesis by (simp add: field_value_def Let_def)
  qed
  with len tl show ?thesis by linarith
qed

text \<open>What a line may add to the bytes counted so far.\<close>

lemma handleLine_total:
  assumes "p_eventDataBytes p + utf8_length line \<le> maximumEventDataBytes"
  shows "\<exists>q. handleLine line p = Inr q \<and>
    p_eventDataBytes q \<le> p_eventDataBytes p + utf8_length line"
proof -
  let ?v = "field_value line"
  show ?thesis
  proof (cases "line \<noteq> [] \<and> \<not> starts_with line [uCOLON] \<and> field_name line = js ''data''")
    case True
    define bytes where "bytes = p_eventDataBytes p + (if length ?v = 0 then 0 else utf8_length ?v) + 1"
    have "utf8_length ?v + 4 \<le> utf8_length line" using True by (intro field_value_shorter) simp
    then have le: "bytes \<le> p_eventDataBytes p + utf8_length line" by (simp add: bytes_def)
    with assms True show ?thesis
      by (auto simp: handleLine_def Let_def data_field_def bytes_def)
  next
    case False
    then show ?thesis
      by (auto simp: handleLine_def Let_def dispatchBlock_def id_field_def retry_field_def
          split: option.splits)
  qed
qed

lemma feed_line_total:
  assumes "line_segmented p" and "line_text p = []" and "p_lineBytes p = 0"
    and "p_eventDataBytes p + utf8_length s \<le> maximumEventDataBytes"
  shows "\<exists>q. feed_loop p s = Inr q"
  using assms
proof (induction p s rule: feed_loop_induct)
  case (Skip p s)
  then show ?case
    by (simp add: feed_loop_skip line_segmented_def line_text_def utf8_length_ascii_Cons)
next
  case (Last p c s)
  then show ?case
    by (auto simp: feed_loop_line feed_line_Nil add_fragment_def maximumLineBytes_def)
next
  case (Line p c s d rest)
  let ?p0 = "p\<lparr>p_skipLineFeed := False\<rparr>" and ?f = "next_fragment (c # s)"
  have d: "unat d < 128" using from_delimiter_hd [OF Line(2)] by (auto simp: line_delimiter_def)
  have parts: "?f @ d # rest = c # s" using line_parts [of "c # s"] Line(2) by simp
  have "clean_cut ?f (d # rest)"
    using d by (auto simp: clean_cut_def is_low_def in_range_def)
  then have len: "utf8_length (c # s) = utf8_length ?f + (1 + utf8_length rest)"
    using utf8_length_append [of ?f "d # rest"] parts d by (simp add: utf8_length_ascii_Cons)
  then have "(if length ?f = 0 then 0 else utf8_length ?f) \<le> maximumLineBytes"
    using Line.prems(4) by (simp add: maximumLineBytes_def)
  then obtain p1 where p1: "add_fragment ?f ?p0 = Inr p1"
    using Line.prems(3) by (simp add: add_fragment_def Let_def not_less)
  have f1: "line_text p1 = ?f" "p_eventDataBytes p1 = p_eventDataBytes p"
    using add_fragment_frame [OF p1] Line.prems p1
    by (auto simp: line_segmented_def line_text_def add_fragment_def Let_def split: if_splits)
  obtain r where r: "handleLine ?f p1 = Inr r"
    and rb: "p_eventDataBytes r \<le> p_eventDataBytes p + utf8_length ?f"
    using handleLine_total [of p1 ?f] f1 Line.prems(4) len by auto
  then obtain p2 where p2: "end_line d p1 = Inr p2" "p_eventDataBytes p2 = p_eventDataBytes r"
    using f1(1) by (auto simp: end_line_def line_text_def)
  have "\<exists>q. feed_loop p2 rest = Inr q"
    using end_line_frame [OF p2(1)] p2(2) rb Line.prems(4) len by (intro Line.IH) auto
  with p1 p2(1) show ?case
    using feed_loop_line [OF Line(1), of s] feed_line_Cons [OF Line(2), of ?p0] by auto
qed simp

lemma feed_total:
  assumes "utf8_length s \<le> maximumEventDataBytes"
  shows "feed (new_parser i) s \<noteq> Inl e"
proof (cases "s = []")
  case True
  then show ?thesis by (simp add: feed_def)
next
  case False
  have "utf8_length (strip_bom s) \<le> utf8_length s"
  proof (cases "starts_with s [uBOM]")
    case True
    then obtain t where t: "s = [uBOM] @ t" by (auto simp: starts_with_iff)
    have "clean_cut [uBOM] t" by (simp add: clean_cut_def is_high_def in_range_def)
    with t utf8_length_append [of "[uBOM]" t] show ?thesis
      by (simp add: strip_bom_def)
  qed (simp add: strip_bom_def)
  with assms False have "\<exists>q. feed_loop ((new_parser i)\<lparr>p_atStart := False\<rparr>) (strip_bom s) = Inr q"
    by (intro feed_line_total)
      (auto simp: new_parser_def line_segmented_def segmented_def segmentSize_def line_text_def)
  then show ?thesis using False by (auto simp: feed_def strip_bom_def new_parser_def)
qed

section \<open>Properties\<close>

text \<open>C2: whatever text the incremental parser accepts, in whatever pieces (cut anywhere but inside
  a surrogate pair), the items it has queued are those of the one-pass reference reading of the whole
  text: strip the byte order mark, split into lines at CR, LF or CRLF, and run the event stream rules line by line.\<close>

theorem sse_parser_refines_reference:
  assumes "clean_chunks clean_cut chunks" and "run_chunks feed (new_parser i) chunks = Inr q"
  shows "p_items q = sse_reference i (concat chunks)"
  using assms by (intro feed_refines) (simp add: sse_feed.run_chunks_concat)

definition sample_chunks :: "jsstr list" where
  "sample_chunks = [[100, 97, 116], [97, 58, 120, 13], [10, 13], [10]]"

lemma sample_chunks_feed: "\<exists>q. run_chunks feed (new_parser []) sample_chunks = Inr q"
proof -
  have "utf8_length (concat sample_chunks) \<le> maximumEventDataBytes"
    by (simp add: sample_chunks_def utf8_length_def utf8_encode_def is_high_def in_range_def
        maximumEventDataBytes_def utf8_cp_def)
  then have "feed (new_parser []) (concat sample_chunks) \<noteq> Inl e" for e :: exn by (rule feed_total)
  moreover have "run_chunks feed (new_parser []) sample_chunks = feed (new_parser []) (concat sample_chunks)"
    by (rule sse_feed.run_chunks_concat)
      (simp_all add: sample_chunks_def clean_cut_def is_high_def in_range_def)
  ultimately show ?thesis by (metis sum.exhaust)
qed

theorem sse_parser_refines_reference_witness:
  "\<exists>q. run_chunks feed (new_parser []) sample_chunks = Inr q \<and>
     p_items q = [ItemEvent \<lparr>se_event = js ''message'', se_data = [120], se_lastEventId = []\<rparr>]"
proof -
  obtain q where q: "run_chunks feed (new_parser []) sample_chunks = Inr q"
    using sample_chunks_feed by blast
  have "sse_reference [] (concat sample_chunks) =
      [ItemEvent \<lparr>se_event = js ''message'', se_data = [120], se_lastEventId = []\<rparr>]"
    by (simp add: sample_chunks_def sse_reference_def sse_lines_def strip_bom_def new_block_def
        process_line_def field_name_def field_value_def block_items_def starts_with_def js_eval)
  moreover have "clean_chunks clean_cut sample_chunks"
    by (simp add: sample_chunks_def clean_cut_def is_high_def in_range_def)
  ultimately show ?thesis using sse_parser_refines_reference [OF _ q] q by simp
qed

text \<open>The way a text is cut into pieces does not change what the parser does with it: the same
  final state, or the same error.\<close>

theorem sse_chunking_irrelevant:
  assumes "clean_chunks clean_cut xs" and "clean_chunks clean_cut ys" and "concat xs = concat ys"
  shows "run_chunks feed (new_parser i) xs = run_chunks feed (new_parser i) ys"
  using parser_inv_new assms by (rule sse_feed.chunking_irrelevant)

theorem sse_chunking_irrelevant_witness:
  "run_chunks feed (new_parser []) [[uCR], [uLF]] = run_chunks feed (new_parser []) [[uCR, uLF]]"
  by (rule sse_chunking_irrelevant) (simp_all add: clean_cut_def is_high_def in_range_def)

text \<open>C5: while the parser runs, its buffers stay within the two limits, and both are kept in segments
  of 4096 code units: the text of the open line is at most \<open>maximumLineBytes\<close>, that of the open
  event at most \<open>maximumEventDataBytes\<close>.\<close>

theorem sse_parser_bounded:
  assumes "run_chunks feed (new_parser i) chunks = Inr q"
  shows "length (line_text q) \<le> p_lineBytes q \<and> p_lineBytes q \<le> maximumLineBytes \<and>
    length (data_text q) \<le> p_eventDataBytes q \<and> p_eventDataBytes q \<le> maximumEventDataBytes \<and>
    line_segmented q \<and> data_segmented q"
  using sse_feed.run_chunks_inv [OF parser_inv_new assms] by (simp add: parser_inv_def)

theorem sse_parser_bounded_witness:
  "\<exists>q. run_chunks feed (new_parser []) [[100, 97, 116, 97, 58, 120, 10], [100, 97]] = Inr q \<and>
     line_text q = [100, 97] \<and> p_lineBytes q = 2 \<and> p_lineBytes q \<le> maximumLineBytes \<and>
     data_text q = [120, 10] \<and> p_eventDataBytes q = 2 \<and> p_eventDataBytes q \<le> maximumEventDataBytes \<and>
     line_segmented q \<and> data_segmented q"
proof -
  have bytes: "utf8_length [100, 97] = 2" "utf8_length [100, 97, 116, 97, 58, 120] = 6" "utf8_length [120] = 1"
    by (simp_all add: utf8_length_def utf8_encode_def is_high_def in_range_def utf8_cp_def surrogate_cp_def)
  obtain q where q: "run_chunks feed (new_parser []) [[100, 97, 116, 97, 58, 120, 10], [100, 97]] = Inr q"
    "line_text q = [100, 97]" "p_lineBytes q = 2" "data_text q = [120, 10]" "p_eventDataBytes q = 2"
    by (simp add: feed_def new_parser_def starts_with_def feed_loop.simps next_fragment_def from_delimiter_def
        line_delimiter_def add_fragment_def bytes maximumLineBytes_def maximumEventDataBytes_def appendLine_def
        append_segments.simps segmentSize_def end_line_def handleLine_def field_name_def field_value_def
        data_field_def appendData_def flushEmptyData_def rbind_def line_text_def data_text_def js_eval Let_def)
  with sse_parser_bounded [OF q(1)] show ?thesis by blast
qed

text \<open>C6: the parser accepts every text whose UTF-8 length is within the event limit, and when it
  rejects a text the error is one of the two size limits.\<close>

theorem sse_parser_total:
  "(utf8_length s \<le> maximumEventDataBytes \<longrightarrow> (\<exists>q. feed (new_parser i) s = Inr q)) \<and>
   (\<forall>e. feed (new_parser i) s = Inl e \<longrightarrow>
      e = SseLimitError ''Sse.lineSize'' \<or> e = SseLimitError ''Sse.eventSize'')"
proof (intro conjI impI allI)
  assume "utf8_length s \<le> maximumEventDataBytes"
  then show "\<exists>q. feed (new_parser i) s = Inr q"
    using feed_total [of s i] by (cases "feed (new_parser i) s") auto
next
  fix e
  assume "feed (new_parser i) s = Inl e"
  then show "e = SseLimitError ''Sse.lineSize'' \<or> e = SseLimitError ''Sse.eventSize''"
    using feed_loop_error by (auto simp: feed_def split: if_splits)
qed

theorem sse_parser_total_witness:
  "\<exists>q. feed (new_parser []) [100, 97, 116, 97] = Inr q"
proof -
  have "utf8_length [100, 97, 116, 97] \<le> maximumEventDataBytes"
    by (simp add: utf8_length_def utf8_encode_def is_high_def in_range_def maximumEventDataBytes_def utf8_cp_def)
  with sse_parser_total show ?thesis by blast
qed

end
