(* ===== verification/NumberText.thy ===== *)
theory NumberText
  imports JsonValue "HOL-Library.Log_Nat"
begin

text \<open>
  The numerals of JSON and the binary64 value \<^verbatim>\<open>Number\<close> gives them: the regular
  expression of a JSON number, its parts, its exact rational value, and rounding to the nearest
  double with ties to even. The last section is the digit arithmetic behind exact integers.
\<close>

section \<open>Lexemes\<close>

definition uE :: code_unit where "uE = 101"
definition uE_upper :: code_unit where "uE_upper = 69"

definition is_exp :: "code_unit \<Rightarrow> bool" where
  "is_exp c \<longleftrightarrow> c = uE \<or> c = uE_upper"

abbreviation digits_of :: "jsstr \<Rightarrow> jsstr" where
  "digits_of \<equiv> takeWhile is_digit"

definition int_part :: "jsstr \<Rightarrow> jsstr" where
  "int_part s = (case s of [] \<Rightarrow> [] | c # r \<Rightarrow> if c = uZERO then [c] else digits_of s)"

definition frac_part :: "jsstr \<Rightarrow> jsstr" where
  "frac_part s =
     (case s of [] \<Rightarrow> [] | c # r \<Rightarrow> if c = uDOT \<and> digits_of r \<noteq> [] then c # digits_of r else [])"

definition sign_part :: "jsstr \<Rightarrow> jsstr" where
  "sign_part s = (case s of [] \<Rightarrow> [] | c # r \<Rightarrow> if c = uPLUS \<or> c = uMINUS then [c] else [])"

definition exp_part :: "jsstr \<Rightarrow> jsstr" where
  "exp_part s =
     (case s of [] \<Rightarrow> []
      | c # r \<Rightarrow>
          let sg = sign_part r; ds = digits_of (drop (length sg) r)
          in if is_exp c \<and> ds \<noteq> [] then c # sg @ ds else [])"

definition minus_part :: "jsstr \<Rightarrow> jsstr" where
  "minus_part s = (case s of [] \<Rightarrow> [] | c # r \<Rightarrow> if c = uMINUS then [c] else [])"

text \<open>The match of
  \<^verbatim>\<open>/-?(?:0|[1-9][0-9]*)(?:\.[0-9]+)?(?:[eE][+-]?[0-9]+)?/y\<close> at the start of a text.\<close>

definition number_lexeme :: "jsstr \<Rightarrow> jsstr option" where
  "number_lexeme s =
     (let m = minus_part s; r = drop (length m) s; i = int_part r; r1 = drop (length i) r;
          f = frac_part r1; r2 = drop (length f) r1
      in if i = [] then None else Some (m @ i @ f @ exp_part r2))"

text \<open>The groups of
  \<^verbatim>\<open>/^(-?)([0-9]+)(?:\.([0-9]+))?(?:[eE]([+-]?[0-9]+))?$/\<close>: sign, integer digits, fraction
  digits and exponent.\<close>

fun exponent_value :: "jsstr \<Rightarrow> int option" where
  "exponent_value [] = None"
| "exponent_value (c # r) =
     (if c = uMINUS then (if r \<noteq> [] \<and> list_all is_digit r then Some (- int (dec_value r)) else None)
      else if c = uPLUS then (if r \<noteq> [] \<and> list_all is_digit r then Some (int (dec_value r)) else None)
      else if list_all is_digit (c # r) then Some (int (dec_value (c # r))) else None)"

definition lexeme_parts :: "jsstr \<Rightarrow> (bool \<times> jsstr \<times> jsstr \<times> int) option" where
  "lexeme_parts l =
     (let m = minus_part l; r = drop (length m) l; i = digits_of r; r1 = drop (length i) r;
          f = frac_part r1; r2 = drop (length f) r1
      in if i = [] then None
         else if r2 = [] then Some (m \<noteq> [], i, drop 1 f, 0)
         else if is_exp (hd r2)
         then map_option (\<lambda>e. (m \<noteq> [], i, drop 1 f, e)) (exponent_value (tl r2))
         else None)"

section \<open>Values\<close>

definition pow10 :: "int \<Rightarrow> rat" where
  "pow10 e = 10 powi e"

definition pow2 :: "int \<Rightarrow> rat" where
  "pow2 e = 2 powi e"

text \<open>The exact value of a numeral.\<close>

definition lexeme_value :: "jsstr \<Rightarrow> rat option" where
  "lexeme_value l =
     (case lexeme_parts l of
        None \<Rightarrow> None
      | Some (neg, i, f, e) \<Rightarrow>
          Some ((if neg then -1 else 1) * of_nat (dec_value (i @ f)) * pow10 (e - int (length f))))"

text \<open>The binary exponent of a positive rational.\<close>

definition ilog2 :: "rat \<Rightarrow> int" where
  "ilog2 a =
     (let (p, q) = quotient_of a; e = int (floorlog 2 (nat p)) - int (floorlog 2 (nat q))
      in if pow2 e \<le> a then e else e - 1)"

definition round_half_even :: "rat \<Rightarrow> int" where
  "round_half_even a =
     (let f = \<lfloor>a\<rfloor>; d = a - of_int f
      in if d < 1 / 2 then f else if 1 / 2 < d then f + 1 else if even f then f else f + 1)"

definition round64 :: "rat \<Rightarrow> jsnum" where
  "round64 r =
     (if r = 0 then Fin 0
      else let a = \<bar>r\<bar>; u = pow2 (max (ilog2 a - 52) (- 1074));
               x = of_int (round_half_even (a / u)) * u
           in if 2 ^ 1024 \<le> x then (if 0 < r then PosInf else NegInf)
              else Fin (if 0 < r then x else - x))"

text \<open>\<^verbatim>\<open>Number\<close> of a JSON numeral.\<close>

definition number_of :: "jsstr \<Rightarrow> jsnum" where
  "number_of l = (case lexeme_value l of None \<Rightarrow> NaN | Some r \<Rightarrow> round64 r)"

section \<open>The match is a prefix\<close>

lemma int_part_prefix: "s = int_part s @ drop (length (int_part s)) s"
proof -
  have "s = digits_of s @ drop (length (digits_of s)) s"
    by (metis dropWhile_eq_drop takeWhile_dropWhile_id)
  then show ?thesis by (cases s) (auto simp: int_part_def)
qed

lemma digits_prefix: "digits_of s @ drop (length (digits_of s)) s = s"
  by (metis dropWhile_eq_drop takeWhile_dropWhile_id)

lemma frac_part_prefix: "frac_part s @ drop (length (frac_part s)) s = s"
  by (cases s) (auto simp: frac_part_def digits_prefix)

lemma sign_part_prefix: "sign_part s @ drop (length (sign_part s)) s = s"
  by (cases s) (auto simp: sign_part_def)

lemma minus_part_prefix: "minus_part s @ drop (length (minus_part s)) s = s"
  by (cases s) (auto simp: minus_part_def)

lemma exp_part_prefix: "exp_part s @ drop (length (exp_part s)) s = s"
proof (cases s)
  case (Cons c r)
  let ?ds = "digits_of (drop (length (sign_part r)) r)"
  have "sign_part r @ ?ds @ drop (length ?ds) (drop (length (sign_part r)) r) = r"
    by (simp only: digits_prefix sign_part_prefix)
  then show ?thesis
    using Cons by (auto simp: exp_part_def Let_def add.commute)
qed (simp add: exp_part_def)

lemma number_lexeme_prefix:
  assumes "number_lexeme s = Some l"
  shows "l \<noteq> [] \<and> l @ drop (length l) s = s"
proof -
  define m where "m = minus_part s"
  define r where "r = drop (length m) s"
  define i where "i = int_part r"
  define r1 where "r1 = drop (length i) r"
  define f where "f = frac_part r1"
  define r2 where "r2 = drop (length f) r1"
  define x where "x = exp_part r2"
  have l: "l = m @ i @ f @ x" and i: "i \<noteq> []"
    using assms
    by (auto simp: number_lexeme_def Let_def m_def r_def i_def r1_def f_def r2_def x_def
        split: if_splits)
  have "s = m @ r" "r = i @ r1" "r1 = f @ r2" "r2 = x @ drop (length x) r2"
    using minus_part_prefix int_part_prefix frac_part_prefix exp_part_prefix
    by (metis m_def r_def, metis i_def r1_def, metis f_def r2_def, metis x_def)
  then have s: "s = l @ drop (length x) r2"
    by (metis append.assoc l)
  then have "drop (length l) s = drop (length x) r2" by (metis append_eq_conv_conj)
  with s i l show ?thesis by simp
qed

text \<open>The first unit of a numeral.\<close>

definition number_start :: "code_unit \<Rightarrow> bool" where
  "number_start c \<longleftrightarrow> is_digit c \<or> c = uMINUS"

lemma number_lexeme_start: "number_lexeme (c # s) = Some l \<Longrightarrow> number_start c \<and> hd l = c"
proof -
  assume a: "number_lexeme (c # s) = Some l"
  have p: "l \<noteq> []" "l @ drop (length l) (c # s) = c # s"
    using number_lexeme_prefix [OF a] by simp_all
  then have h: "hd l = c" by (metis append_Cons list.collapse list.inject)
  have "number_start c"
  proof (cases "c = uMINUS")
    case False
    then have "int_part (c # s) \<noteq> []"
      using a by (auto simp: number_lexeme_def minus_part_def Let_def split: if_splits)
    then show ?thesis
      by (auto simp: int_part_def number_start_def char_class_defs split: if_splits)
  qed (simp add: number_start_def)
  with h show ?thesis by simp
qed

text \<open>What can follow a numeral without being part of it.\<close>

definition number_cont :: "code_unit \<Rightarrow> bool" where
  "number_cont c \<longleftrightarrow> is_digit c \<or> c = uDOT \<or> is_exp c \<or> c = uPLUS \<or> c = uMINUS"

text \<open>A text after a numeral that does not continue it leaves the match as it is.\<close>

definition number_break :: "jsstr \<Rightarrow> bool" where
  "number_break s \<longleftrightarrow> s = [] \<or> \<not> number_cont (hd s)"

lemma digits_of_break: "number_break t \<Longrightarrow> digits_of (s @ t) = digits_of s"
  by (cases t)
    (auto simp: number_break_def number_cont_def takeWhile_append takeWhile_eq_all_conv [THEN iffD2])

lemma parts_break:
  assumes "number_break t"
  shows "minus_part (s @ t) = minus_part s" "int_part (s @ t) = int_part s"
    "sign_part (s @ t) = sign_part s" "frac_part (s @ t) = frac_part s"
  using assms digits_of_break [OF assms] digits_of_break [OF assms, of "[]"]
  by (cases s; cases t; auto simp: minus_part_def int_part_def sign_part_def frac_part_def
      number_break_def number_cont_def char_class_defs)+

lemma part_length:
  "length (minus_part s) \<le> length s" "length (int_part s) \<le> length s"
  "length (sign_part s) \<le> length s" "length (frac_part s) \<le> length s"
  using minus_part_prefix [of s] int_part_prefix [of s] sign_part_prefix [of s]
    frac_part_prefix [of s]
  by (metis le_add1 length_append)+

lemma exp_part_break:
  assumes "number_break t"
  shows "exp_part (s @ t) = exp_part s"
proof (cases s)
  case Nil
  with assms show ?thesis
    by (cases t) (auto simp: exp_part_def number_break_def number_cont_def Let_def)
next
  case (Cons c r)
  then show ?thesis
    by (simp add: exp_part_def parts_break [OF assms] part_length digits_of_break [OF assms]
        Let_def)
qed

lemma number_lexeme_break:
  assumes "number_break t"
  shows "number_lexeme (s @ t) = number_lexeme s"
proof -
  have d: "drop (length (p s)) (s @ t) = drop (length (p s)) s @ t"
    if "\<And>s. length (p s) \<le> length s" for p :: "jsstr \<Rightarrow> jsstr" and s
    using that by simp
  show ?thesis
    by (simp only: number_lexeme_def Let_def parts_break [OF assms] exp_part_break [OF assms]
        d part_length)
qed

section \<open>Overflow of the rounding\<close>

lemma floorlog_bounds:
  assumes "0 < p"
  shows "2 powi (int (floorlog 2 (nat p)) - 1) \<le> (of_int p :: rat)"
    and "(of_int p :: rat) < 2 powi int (floorlog 2 (nat p))"
proof -
  let ?m = "floorlog 2 (nat p)"
  have p: "0 < nat p" using assms by simp
  have "?m \<noteq> 0" using p by (simp add: floorlog_def)
  then obtain k where k: "?m = Suc k" by (cases ?m) auto
  have b: "2 ^ k \<le> nat p \<and> nat p < 2 ^ Suc k"
    using floorlog_bounds [OF p, of 2] k by simp
  then have "2 ^ k \<le> p" "p < 2 ^ Suc k"
    by (metis assms nat_int of_nat_numeral of_nat_power less_imp_le nat_le_eq_zle zero_le_numeral zero_le_power)
      (metis b assms nat_less_eq_zless less_imp_le nat_power_eq nat_numeral zero_le_numeral)
  then have "(of_int (2 ^ k) :: rat) \<le> of_int p" "(of_int p :: rat) < of_int (2 ^ Suc k)"
    by (simp_all only: of_int_le_iff of_int_less_iff)
  then show "2 powi (int ?m - 1) \<le> (of_int p :: rat)" "(of_int p :: rat) < 2 powi int ?m"
    by (simp_all add: k power_int_of_nat power_int_add)
qed

lemma ilog2_bounds:
  assumes "0 < a"
  shows "pow2 (ilog2 a) \<le> a" and "a < pow2 (ilog2 a + 1)"
proof -
  obtain p q where pq: "quotient_of a = (p, q)" by force
  then have q: "0 < q" and a: "a = of_int p / of_int q"
    by (auto dest: quotient_of_denom_pos quotient_of_div)
  with assms have p: "0 < p" by (simp add: zero_less_divide_iff)
  define m where "m = int (floorlog 2 (nat p))"
  define n where "n = int (floorlog 2 (nat q))"
  note bp = floorlog_bounds [OF p] and bq = floorlog_bounds [OF q]
  have qpos: "(0 :: rat) < of_int q" using q by simp
  have "a * 2 powi (n - 1) \<le> a * of_int q"
    using bq(1) assms by (simp add: n_def)
  also have "a * of_int q = of_int p" using q by (simp add: a)
  also have "\<dots> < 2 powi m" using bp(2) by (simp add: m_def)
  finally have "a < 2 powi m / 2 powi (n - 1)" by (simp add: field_simps)
  then have up: "a < pow2 (m - n + 1)"
    by (simp add: pow2_def power_int_diff [symmetric] algebra_simps)
  have "2 powi (m - 1) \<le> (of_int p :: rat)" using bp(1) by (simp add: m_def)
  also have "of_int p = a * of_int q" using q by (simp add: a)
  also have "\<dots> < a * 2 powi n" using bq(2) assms by (simp add: n_def)
  finally have "2 powi (m - 1) / 2 powi n \<le> a" by (simp add: field_simps)
  then have lo: "pow2 (m - n - 1) \<le> a"
    by (simp add: pow2_def power_int_diff [symmetric] algebra_simps)
  have e: "ilog2 a = (if pow2 (m - n) \<le> a then m - n else m - n - 1)"
    by (simp add: ilog2_def pq m_def n_def Let_def)
  show "pow2 (ilog2 a) \<le> a" using lo by (simp add: e)
  show "a < pow2 (ilog2 a + 1)" using up by (auto simp: e)
qed

text \<open>Rounding does not go below a power of two.\<close>

lemma rounded_lower:
  assumes "2 powi k \<le> a" and "- 1022 \<le> k"
  shows "2 powi k \<le> of_int (round_half_even (a / pow2 (max (ilog2 a - 52) (- 1074))))
    * pow2 (max (ilog2 a - 52) (- 1074))"
proof -
  have apos: "0 < a" using assms(1) by (meson less_le_trans zero_less_numeral zero_less_power_int)
  have e: "k \<le> ilog2 a"
  proof (rule ccontr)
    assume "\<not> k \<le> ilog2 a"
    then have "ilog2 a + 1 \<le> k" by simp
    then have "(2 :: rat) powi (ilog2 a + 1) \<le> 2 powi k" by (rule power_int_increasing) simp
    with ilog2_bounds(2) [OF apos] assms(1) show False by (simp add: pow2_def)
  qed
  define u where "u = pow2 (max (ilog2 a - 52) (- 1074))"
  have "max (ilog2 a - 52) (- 1074) = ilog2 a - 52" using e assms(2) by simp
  then have u: "u = 2 powi (ilog2 a - 52)" by (simp add: u_def pow2_def)
  then have upos: "0 < u" by simp
  have q: "2 powi (ilog2 a) / u = 2 ^ 52"
    unfolding u by (subst power_int_diff [symmetric]) simp_all
  then have "2 ^ 52 \<le> a / u"
    using ilog2_bounds(1) [OF apos] upos by (simp add: pow2_def field_simps)
  then have "2 ^ 52 \<le> \<lfloor>a / u\<rfloor>" by (simp add: le_floor_iff)
  moreover have "\<lfloor>a / u\<rfloor> \<le> round_half_even (a / u)"
    by (simp add: round_half_even_def Let_def)
  ultimately have "2 ^ 52 \<le> round_half_even (a / u)" by linarith
  then have "(of_int (2 ^ 52) :: rat) \<le> of_int (round_half_even (a / u))"
    by (simp only: of_int_le_iff)
  then have "2 ^ 52 * u \<le> of_int (round_half_even (a / u)) * u"
    using upos by simp
  moreover have "2 ^ 52 * u = 2 powi (ilog2 a)" using q upos by (simp add: field_simps)
  moreover have "(2 :: rat) powi k \<le> 2 powi (ilog2 a)" using e by (rule power_int_increasing) simp
  ultimately have "2 powi k \<le> of_int (round_half_even (a / u)) * u" by linarith
  then show ?thesis by (simp add: u_def)
qed

lemma round64_overflow:
  assumes "2 ^ 1024 \<le> \<bar>r\<bar>"
  shows "\<not> num_is_finite (round64 r)"
proof -
  have pos: "(0 :: rat) < 2 ^ 1024" by (rule zero_less_power) simp
  then have "r \<noteq> 0" using assms by auto
  moreover have p: "(2 :: rat) powi 1024 = 2 ^ 1024" by (simp only: power_int_numeral)
  ultimately show ?thesis
    using rounded_lower [of 1024 "\<bar>r\<bar>"] assms unfolding p round64_def Let_def
    by (simp only: if_False if_True num_is_finite.simps not_False_eq_True split: if_splits) simp
qed

lemma round64_large:
  assumes "2 ^ 53 \<le> r" and "round64 r = Fin x"
  shows "2 ^ 53 \<le> x"
proof -
  have "0 < r" using assms(1) by (meson less_le_trans zero_less_numeral zero_less_power)
  moreover have "(2 :: rat) powi 53 = 2 ^ 53" by (simp only: power_int_numeral)
  ultimately show ?thesis
    using rounded_lower [of 53 r] assms by (simp add: round64_def Let_def split: if_splits)
qed

lemma round64_NaN [simp]: "round64 r \<noteq> NaN"
  by (simp add: round64_def Let_def)

section \<open>Integers\<close>

lemma digits_of_all: "list_all is_digit s \<Longrightarrow> digits_of s = s"
  by (simp add: takeWhile_eq_all_conv list_all_iff)

lemma int_part_decimal: "canonical_decimal s \<Longrightarrow> int_part s = s"
  by (cases s) (auto simp: canonical_decimal_def int_part_def digits_of_all)

lemma minus_part_decimal: "canonical_decimal s \<Longrightarrow> minus_part s = []"
  by (cases s) (auto simp: canonical_decimal_def minus_part_def char_class_defs)

lemma int_string_form:
  "int_string n = (if n < 0 then [uMINUS] else []) @ dec_string (nat \<bar>n\<bar>)"
  by (simp add: int_string_def)

lemma minus_part_int: "minus_part (int_string n) = (if n < 0 then [uMINUS] else [])"
  using minus_part_decimal [OF canonical_dec_string]
  by (simp add: int_string_form) (simp add: minus_part_def)

lemma number_lexeme_int: "number_lexeme (int_string n) = Some (int_string n)"
proof -
  have "drop (length (minus_part (int_string n))) (int_string n) = dec_string (nat \<bar>n\<bar>)"
    by (simp add: minus_part_int) (simp add: int_string_form)
  then have "number_lexeme (int_string n) = Some (minus_part (int_string n) @ dec_string (nat \<bar>n\<bar>))"
    by (simp add: number_lexeme_def Let_def int_part_decimal [OF canonical_dec_string]
        frac_part_def exp_part_def)
  then show ?thesis unfolding minus_part_int int_string_form [symmetric] .
qed

lemma lexeme_value_int: "lexeme_value (int_string n) = Some (of_int n)"
proof -
  have "drop (length (minus_part (int_string n))) (int_string n) = dec_string (nat \<bar>n\<bar>)"
    by (simp add: minus_part_int) (simp add: int_string_form)
  then have "lexeme_parts (int_string n) = Some (n < 0, dec_string (nat \<bar>n\<bar>), [], 0)"
    by (simp add: lexeme_parts_def Let_def digits_of_all [OF dec_string_digits] frac_part_def)
      (simp add: minus_part_int)
  then show ?thesis by (simp add: lexeme_value_def pow10_def)
qed

lemma round_half_even_int [simp]: "round_half_even (of_int k) = k"
  by (simp add: round_half_even_def)

lemma round64_int:
  assumes "\<bar>n\<bar> < 2 ^ 53"
  shows "round64 (of_int n) = Fin (of_int n)"
proof (cases "n = 0")
  case False
  define a :: rat where "a = of_int \<bar>n\<bar>"
  have a: "1 \<le> a" using False by (simp add: a_def)
  have up: "a < 2 ^ 53"
    using assms unfolding a_def by (metis of_int_less_iff of_int_numeral of_int_power)
  have "pow2 (ilog2 a) < 2 powi 53"
    using ilog2_bounds(1) [of a] a up by (simp add: power_int_def)
  then have hi: "ilog2 a \<le> 52"
    by (rule contrapos_pp) (use power_int_increasing [of 53 "ilog2 a" "2 :: rat"] in \<open>simp add: pow2_def not_less\<close>)
  have "(2 :: rat) powi 0 < 2 powi (ilog2 a + 1)"
    using ilog2_bounds(2) [of a] a by (simp add: pow2_def)
  then have lo: "0 \<le> ilog2 a"
    by (rule contrapos_pp) (use power_int_increasing [of "ilog2 a + 1" 0 "2 :: rat"] in \<open>simp add: not_less\<close>)
  define k where "k = nat (52 - ilog2 a)"
  have u: "pow2 (max (ilog2 a - 52) (- 1074)) = 1 / 2 ^ k"
    using hi lo by (simp add: pow2_def max_def k_def power_int_def power_divide)
  have "a / (1 / 2 ^ k) = of_int (\<bar>n\<bar> * 2 ^ k)" by (simp add: a_def)
  then have x: "of_int (round_half_even (a / (1 / 2 ^ k))) * (1 / 2 ^ k) = a"
    by (simp only: round_half_even_int) (simp add: a_def)
  have small: "\<not> 2 ^ 1024 \<le> a"
  proof -
    have "(2 :: rat) ^ 53 \<le> 2 ^ 1024" by (rule power_increasing) simp_all
    with up show ?thesis by linarith
  qed
  show ?thesis
    using False x u small by (auto simp: round64_def Let_def a_def abs_if split: if_splits)
qed (simp add: round64_def)

lemma number_of_int: "\<bar>n\<bar> < 2 ^ 53 \<Longrightarrow> number_of (int_string n) = num_of_int n"
  by (simp add: number_of_def lexeme_value_int round64_int num_of_int_def)

end
