(* ===== verification/JsonText.thy ===== *)
theory JsonText
  imports NumberText
begin

text \<open>
  \<^verbatim>\<open>JSON.parse\<close> and \<^verbatim>\<open>JSON.stringify\<close> on UTF-16 texts. The reader is a lexer and a
  push-down machine over its tokens, so both are total without fuel; it yields a syntax tree
  that still holds the numerals as they are written, and \<open>json_of\<close> turns the tree into a value:
  numerals are rounded to doubles, duplicate members keep their first place and last value, and
  members named by array indices come first. The printer's numerals are a parameter, the
  \<^verbatim>\<open>Number::toString\<close> of ECMAScript.
\<close>

section \<open>Lexer\<close>

datatype token =
    TLBrace | TRBrace | TLBracket | TRBracket | TColon | TComma
  | TNull | TBool bool | TNum jsstr | TStr jsstr

definition json_space :: "code_unit \<Rightarrow> bool" where
  "json_space c \<longleftrightarrow> unat c \<in> {9, 10, 13, 32}"

definition punct :: "code_unit \<Rightarrow> token option" where
  "punct c =
     (if c = 123 then Some TLBrace else if c = 125 then Some TRBrace
      else if c = 91 then Some TLBracket else if c = 93 then Some TRBracket
      else if c = uCOLON then Some TColon else if c = uCOMMA then Some TComma else None)"

definition hex_digit :: "code_unit \<Rightarrow> nat" where
  "hex_digit c =
     (if is_digit c then unat c - 48 else if in_range 65 70 c then unat c - 55 else unat c - 87)"

definition hex4 :: "code_unit \<Rightarrow> code_unit \<Rightarrow> code_unit \<Rightarrow> code_unit \<Rightarrow> code_unit" where
  "hex4 a b c d =
     word_of_nat (4096 * hex_digit a + 256 * hex_digit b + 16 * hex_digit c + hex_digit d)"

definition simple_escape :: "code_unit \<Rightarrow> code_unit option" where
  "simple_escape c =
     (if c = uQUOTE \<or> c = uBACKSLASH \<or> c = uSLASH then Some c
      else if c = 98 then Some 8 else if c = 102 then Some 12 else if c = 110 then Some 10
      else if c = 114 then Some 13 else if c = 116 then Some 9 else None)"

definition cons_fst :: "'a \<Rightarrow> ('a list \<times> 'b) option \<Rightarrow> ('a list \<times> 'b) option" where
  "cons_fst x m = map_option (\<lambda>(xs, r). (x # xs, r)) m"

text \<open>A string after its opening quote: its content and what follows the closing quote.\<close>

fun scan_string :: "jsstr \<Rightarrow> (jsstr \<times> jsstr) option" where
  "scan_string [] = None"
| "scan_string (c # s) =
     (if c = uQUOTE then Some ([], s)
      else if c = uBACKSLASH then
        (case s of
           [] \<Rightarrow> None
         | e # s1 \<Rightarrow>
             if e = 117 then
               (case s1 of
                  h1 # h2 # h3 # h4 # s2 \<Rightarrow>
                    if is_hex h1 \<and> is_hex h2 \<and> is_hex h3 \<and> is_hex h4
                    then cons_fst (hex4 h1 h2 h3 h4) (scan_string s2) else None
                | _ \<Rightarrow> None)
             else (case simple_escape e of None \<Rightarrow> None | Some x \<Rightarrow> cons_fst x (scan_string s1)))
      else if unat c < 32 then None
      else cons_fst c (scan_string s))"

definition word_null :: jsstr where "word_null = [110, 117, 108, 108]"
definition word_true :: jsstr where "word_true = [116, 114, 117, 101]"
definition word_false :: jsstr where "word_false = [102, 97, 108, 115, 101]"

definition keyword :: "jsstr \<Rightarrow> (token \<times> nat) option" where
  "keyword s =
     (if starts_with s word_null then Some (TNull, 4)
      else if starts_with s word_true then Some (TBool True, 4)
      else if starts_with s word_false then Some (TBool False, 5) else None)"

text \<open>The first token of a text, none for white space, and the rest.\<close>

definition lex_one :: "code_unit \<Rightarrow> jsstr \<Rightarrow> (token list \<times> jsstr) option" where
  "lex_one c r =
     (if json_space c then Some ([], r)
      else case punct c of
        Some t \<Rightarrow> Some ([t], r)
      | None \<Rightarrow>
          if c = uQUOTE then map_option (\<lambda>(t, r'). ([TStr t], r')) (scan_string r)
          else case number_lexeme (c # r) of
            Some l \<Rightarrow> Some ([TNum l], drop (length l) (c # r))
          | None \<Rightarrow> map_option (\<lambda>(t, n). ([t], drop n (c # r))) (keyword (c # r)))"

lemma cons_fst_Some:
  "cons_fst x m = Some (y, r) \<longleftrightarrow> (\<exists>xs. m = Some (xs, r) \<and> y = x # xs)"
  by (auto simp: cons_fst_def)

lemma scan_string_shorter: "scan_string s = Some (t, r) \<Longrightarrow> length r < length s"
proof (induction s arbitrary: t r rule: scan_string.induct)
  case (2 c s)
  consider (quote) "c = uQUOTE" | (hex) "c = uBACKSLASH" "hd s = 117"
    | (escape) "c = uBACKSLASH" "hd s \<noteq> 117" | (plain) "c \<noteq> uQUOTE" "c \<noteq> uBACKSLASH" by blast
  then show ?case
  proof cases
    case hex
    with 2(4) obtain e h1 h2 h3 h4 s2 t' where
      "s = e # h1 # h2 # h3 # h4 # s2" "scan_string s2 = Some (t', r)"
      "is_hex h1 \<and> is_hex h2 \<and> is_hex h3 \<and> is_hex h4" "e = 117"
      by (auto simp: cons_fst_Some split: if_splits list.splits)
    with 2(1) [OF _ _ _ _ refl refl refl refl, of e h1 h2 h3 h4 s2 t' r] hex show ?thesis by simp
  next
    case escape
    with 2(4) obtain e x s1 t' where
      "s = e # s1" "e \<noteq> 117" "simple_escape e = Some x" "scan_string s1 = Some (t', r)"
      by (auto simp: cons_fst_Some split: if_splits list.splits option.splits)
    with 2(2) [of e s1 x t' r] escape show ?thesis by simp
  next
    case plain
    with 2(3,4) show ?thesis by (fastforce simp: cons_fst_Some split: if_splits)
  next
    case quote
    with 2(4) show ?thesis by simp
  qed
qed simp

lemma lex_one_shorter:
  assumes "lex_one c r = Some (ts, r')"
  shows "length r' < length (c # r)"
proof (cases "json_space c \<or> punct c \<noteq> None")
  case True
  with assms show ?thesis by (auto simp: lex_one_def split: if_splits)
next
  case plain: False
  show ?thesis
  proof (cases "c = uQUOTE")
    case True
    with plain assms show ?thesis
      by (auto simp: lex_one_def dest!: scan_string_shorter)
  next
    case False
    show ?thesis
    proof (cases "number_lexeme (c # r)")
      case None
      with plain False assms show ?thesis
        by (auto simp: lex_one_def keyword_def split: if_splits)
    next
      case (Some l)
      then have "l \<noteq> []" using number_lexeme_prefix by blast
      with plain False assms Some show ?thesis
        by (cases l) (auto simp: lex_one_def)
    qed
  qed
qed

function tokens :: "jsstr \<Rightarrow> token list option" where
  "tokens [] = Some []"
| "tokens (c # r) =
     (case lex_one c r of
        None \<Rightarrow> None
      | Some (ts, r') \<Rightarrow> map_option ((@) ts) (tokens r'))"
  by pat_completeness auto
termination
  by (relation "measure length") (auto dest!: lex_one_shorter)

section \<open>Parser\<close>

datatype jtree =
    NullT
  | BoolT bool
  | NumT jsstr
  | StrT jsstr
  | ArrT "jtree list"
  | ObjT "(jsstr \<times> jtree) list"

text \<open>What the machine is inside of, and what it expects next.\<close>

datatype frame =
    InArr "jtree list"
  | InObj "(jsstr \<times> jtree) list" jsstr

datatype expects =
    Value
  | ItemOrEnd
  | KeyOrEnd
  | Key
  | AfterKey
  | After jtree

fun scalar_token :: "token \<Rightarrow> jtree option" where
  "scalar_token TNull = Some NullT"
| "scalar_token (TBool b) = Some (BoolT b)"
| "scalar_token (TNum l) = Some (NumT l)"
| "scalar_token (TStr s) = Some (StrT s)"
| "scalar_token _ = None"

definition start_value :: "token \<Rightarrow> frame list \<Rightarrow> (expects \<times> frame list) option" where
  "start_value t st =
     (if t = TLBracket then Some (ItemOrEnd, InArr [] # st)
      else if t = TLBrace then Some (KeyOrEnd, InObj [] [] # st)
      else map_option (\<lambda>v. (After v, st)) (scalar_token t))"

definition take_key :: "token \<Rightarrow> frame list \<Rightarrow> (expects \<times> frame list) option" where
  "take_key t st =
     (case (t, st) of (TStr k, InObj ms _ # st') \<Rightarrow> Some (AfterKey, InObj ms k # st') | _ \<Rightarrow> None)"

fun parse_step :: "token \<Rightarrow> expects \<times> frame list \<Rightarrow> (expects \<times> frame list) option" where
  "parse_step t (Value, st) = start_value t st"
| "parse_step t (ItemOrEnd, st) =
     (if t = TRBracket then Some (After (ArrT []), tl st) else start_value t st)"
| "parse_step t (KeyOrEnd, st) =
     (if t = TRBrace then Some (After (ObjT []), tl st) else take_key t st)"
| "parse_step t (Key, st) = take_key t st"
| "parse_step t (AfterKey, st) = (if t = TColon then Some (Value, st) else None)"
| "parse_step t (After v, []) = None"
| "parse_step t (After v, InArr vs # st) =
     (if t = TComma then Some (Value, InArr (vs @ [v]) # st)
      else if t = TRBracket then Some (After (ArrT (vs @ [v])), st) else None)"
| "parse_step t (After v, InObj ms k # st) =
     (if t = TComma then Some (Key, InObj (ms @ [(k, v)]) k # st)
      else if t = TRBrace then Some (After (ObjT (ms @ [(k, v)])), st) else None)"

fun parse_run :: "token list \<Rightarrow> expects \<times> frame list \<Rightarrow> (expects \<times> frame list) option" where
  "parse_run [] s = Some s"
| "parse_run (t # ts) s = (case parse_step t s of None \<Rightarrow> None | Some s' \<Rightarrow> parse_run ts s')"

definition parse_tokens :: "token list \<Rightarrow> jtree option" where
  "parse_tokens ts =
     (case parse_run ts (Value, []) of Some (After v, []) \<Rightarrow> Some v | _ \<Rightarrow> None)"

definition parse_tree :: "jsstr \<Rightarrow> jtree option" where
  "parse_tree s = (case tokens s of None \<Rightarrow> None | Some ts \<Rightarrow> parse_tokens ts)"

section \<open>Values\<close>

text \<open>The order of own property keys: array indices ascending, then the other names in the order
  of their first definition.\<close>

definition array_index :: "jsstr \<Rightarrow> bool" where
  "array_index k \<longleftrightarrow> canonical_decimal k \<and> dec_value k < 4294967295"

fun set_member :: "jsstr \<Rightarrow> 'a \<Rightarrow> (jsstr \<times> 'a) list \<Rightarrow> (jsstr \<times> 'a) list" where
  "set_member k v [] = [(k, v)]"
| "set_member k v ((k', v') # ms) = (if k' = k then (k, v) # ms else (k', v') # set_member k v ms)"

definition own_members :: "(jsstr \<times> 'a) list \<Rightarrow> (jsstr \<times> 'a) list" where
  "own_members ms =
     (let ds = foldl (\<lambda>acc (k, v). set_member k v acc) [] ms
      in sort_key (\<lambda>(k, _). dec_value k) (filter (\<lambda>(k, _). array_index k) ds)
         @ filter (\<lambda>(k, _). \<not> array_index k) ds)"

fun json_of :: "jtree \<Rightarrow> json" where
  "json_of NullT = JNull"
| "json_of (BoolT b) = JBool b"
| "json_of (NumT l) = JNum (number_of l)"
| "json_of (StrT s) = JStr s"
| "json_of (ArrT vs) = JArr (map json_of vs)"
| "json_of (ObjT ms) = JObj (own_members (map (\<lambda>(k, v). (k, json_of v)) ms))"

definition json_parse :: "jsstr \<Rightarrow> json option" where
  "json_parse s = map_option json_of (parse_tree s)"

section \<open>Printing\<close>

definition hex_lower :: "nat \<Rightarrow> code_unit" where
  "hex_lower n = word_of_nat (if n < 10 then 48 + n else 87 + n)"

definition unicode_escape :: "code_unit \<Rightarrow> jsstr" where
  "unicode_escape c =
     [uBACKSLASH, 117, hex_lower (unat c div 4096), hex_lower (unat c div 256 mod 16),
      hex_lower (unat c div 16 mod 16), hex_lower (unat c mod 16)]"

definition escape_unit :: "code_unit \<Rightarrow> jsstr" where
  "escape_unit c =
     (if c = 8 then [uBACKSLASH, 98] else if c = 9 then [uBACKSLASH, 116]
      else if c = 10 then [uBACKSLASH, 110] else if c = 12 then [uBACKSLASH, 102]
      else if c = 13 then [uBACKSLASH, 114]
      else if c = uQUOTE \<or> c = uBACKSLASH then [uBACKSLASH, c]
      else if unat c < 32 \<or> is_high c \<or> is_low c then unicode_escape c else [c])"

fun json_escape :: "jsstr \<Rightarrow> jsstr" where
  "json_escape [] = []"
| "json_escape [c] = escape_unit c"
| "json_escape (c # d # s) =
     (if is_high c \<and> is_low d then c # d # json_escape s else escape_unit c @ json_escape (d # s))"

text \<open>\<^verbatim>\<open>JSON.stringify\<close> of a string.\<close>

definition json_quote :: "jsstr \<Rightarrow> jsstr" where
  "json_quote s = uQUOTE # json_escape s @ [uQUOTE]"

fun commas :: "'a \<Rightarrow> 'a list list \<Rightarrow> 'a list" where
  "commas d [] = []"
| "commas d [x] = x"
| "commas d (x # y # xs) = x @ d # commas d (y # xs)"

fun print_tree :: "jtree \<Rightarrow> jsstr" where
  "print_tree NullT = word_null"
| "print_tree (BoolT b) = (if b then word_true else word_false)"
| "print_tree (NumT l) = l"
| "print_tree (StrT s) = json_quote s"
| "print_tree (ArrT vs) = 91 # commas uCOMMA (map print_tree vs) @ [93]"
| "print_tree (ObjT ms) =
     123 # commas uCOMMA (map (\<lambda>(k, v). json_quote k @ uCOLON # print_tree v) ms) @ [125]"

text \<open>The tree of a value, its numbers written by \<open>nm\<close>.\<close>

fun tree_of :: "(jsnum \<Rightarrow> jsstr) \<Rightarrow> json \<Rightarrow> jtree" where
  "tree_of nm JNull = NullT"
| "tree_of nm (JBool b) = BoolT b"
| "tree_of nm (JNum x) = NumT (nm x)"
| "tree_of nm (JStr s) = StrT s"
| "tree_of nm (JArr vs) = ArrT (map (tree_of nm) vs)"
| "tree_of nm (JObj ms) = ObjT (map (\<lambda>(k, v). (k, tree_of nm v)) ms)"

definition json_print :: "(jsnum \<Rightarrow> jsstr) \<Rightarrow> json \<Rightarrow> jsstr" where
  "json_print nm v = print_tree (tree_of nm v)"

section \<open>Reading back what is printed\<close>

lemma append_sections:
  "(@) [] = (\<lambda>ys. ys)"
  "(@) (x # xs) = (\<lambda>ys. x # xs @ ys)"
  "(@) (xs @ zs) = (\<lambda>ys. xs @ zs @ ys)"
  by (simp_all add: fun_eq_iff)

lemma unat_hex_lower: "n < 16 \<Longrightarrow> unat (hex_lower n) = (if n < 10 then 48 + n else 87 + n)"
  by (simp add: hex_lower_def unat_of_nat take_bit_nat_eq_self del: of_nat_add)

lemma hex_lower_digit: "n < 16 \<Longrightarrow> is_hex (hex_lower n) \<and> hex_digit (hex_lower n) = n"
  by (auto simp: char_class_defs hex_digit_def unat_hex_lower)

lemma hex4_unicode:
  "hex4 (hex_lower (unat c div 4096)) (hex_lower (unat c div 256 mod 16))
     (hex_lower (unat c div 16 mod 16)) (hex_lower (unat c mod 16)) = c"
proof -
  let ?n = "unat c"
  have "?n < 65536" using unsigned_less [of c, where ?'a = nat] by simp
  then have "?n div 4096 < 16" by simp
  moreover have "4096 * (?n div 4096) + 256 * (?n div 256 mod 16) + 16 * (?n div 16 mod 16)
      + ?n mod 16 = ?n"
  proof -
    have "?n div 16 div 16 = ?n div 256" "?n div 256 div 16 = ?n div 4096"
      by (simp_all flip: div_mult2_eq)
    then show ?thesis
      using mult_div_mod_eq [of 16 ?n] mult_div_mod_eq [of 16 "?n div 16"]
        mult_div_mod_eq [of 16 "?n div 256"] by linarith
  qed
  ultimately show ?thesis by (simp add: hex4_def hex_lower_digit del: of_nat_add of_nat_mult)
qed

lemma scan_escape_unit: "scan_string (escape_unit c @ t) = cons_fst c (scan_string t)"
proof -
  have u: "scan_string (unicode_escape c @ t) = cons_fst c (scan_string t)"
  proof -
    have "unat c div 4096 < 16" using unsigned_less [of c, where ?'a = nat] by simp
    then show ?thesis by (simp add: unicode_escape_def hex_lower_digit hex4_unicode)
  qed
  have e: "scan_string (uBACKSLASH # k # t) = cons_fst x (scan_string t)"
    if "simple_escape k = Some x" for k x
    using that by (auto simp: simple_escape_def split: if_splits)
  consider "c = 8" | "c = 9" | "c = 10" | "c = 12" | "c = 13" | "c = uQUOTE" | "c = uBACKSLASH"
    | (unicode) "c \<notin> {8, 9, 10, 12, 13, uQUOTE, uBACKSLASH}" "unat c < 32 \<or> is_high c \<or> is_low c"
    | (plain) "c \<notin> {8, 9, 10, 12, 13, uQUOTE, uBACKSLASH}" "\<not> (unat c < 32 \<or> is_high c \<or> is_low c)"
    by blast
  then show ?thesis
  proof cases
    case unicode
    then show ?thesis by (simp add: escape_unit_def u del: scan_string.simps)
  next
    case plain
    then show ?thesis by (simp add: escape_unit_def)
  qed (simp_all add: escape_unit_def e simple_escape_def del: scan_string.simps)
qed

lemma scan_plain:
  "c \<noteq> uQUOTE \<Longrightarrow> c \<noteq> uBACKSLASH \<Longrightarrow> 32 \<le> unat c \<Longrightarrow> scan_string (c # t) = cons_fst c (scan_string t)"
  by simp

lemma surrogate_plain: "is_high c \<or> is_low c \<Longrightarrow> c \<noteq> uQUOTE \<and> c \<noteq> uBACKSLASH \<and> 32 \<le> unat c"
  by (auto simp: is_high_def is_low_def in_range_def)

lemma scan_json_escape: "scan_string (json_escape s @ t) =
    map_option (\<lambda>(u, r). (s @ u, r)) (scan_string t)"
proof (induction s rule: json_escape.induct)
  case 1
  then show ?case by (simp add: option.map_ident split_def)
next
  case (2 c)
  then show ?case by (simp add: scan_escape_unit cons_fst_def)
next
  case (3 c d s)
  show ?case
  proof (cases "is_high c \<and> is_low d")
    case True
    then have "scan_string (c # d # json_escape s @ t) = cons_fst c (cons_fst d (scan_string (json_escape s @ t)))"
      using surrogate_plain [of c] surrogate_plain [of d] by (simp del: scan_string.simps add: scan_plain)
    with True 3(1) show ?thesis
      by (simp del: scan_string.simps) (cases "scan_string t", auto simp: cons_fst_def)
  next
    case False
    with 3(2) show ?thesis
      by (simp add: scan_escape_unit del: scan_string.simps)
        (cases "scan_string t", auto simp: cons_fst_def)
  qed
qed

lemma scan_json_quote: "scan_string (json_escape s @ uQUOTE # t) = Some (s, t)"
  by (simp add: scan_json_escape)

lemma punct_not_space [simp]: "punct c = Some t \<Longrightarrow> \<not> json_space c"
  by (auto simp: punct_def json_space_def split: if_splits)

lemma tokens_punct: "punct c = Some t \<Longrightarrow> tokens (c # r) = map_option ((#) t) (tokens r)"
  by (simp add: lex_one_def append_sections)

lemma tokens_quote: "tokens (json_quote s @ r) = map_option ((#) (TStr s)) (tokens r)"
  by (simp add: json_quote_def lex_one_def json_space_def punct_def scan_json_quote append_sections)

lemma number_start_plain: "number_start c \<Longrightarrow> \<not> json_space c \<and> punct c = None \<and> c \<noteq> uQUOTE"
  by (auto simp: number_start_def json_space_def punct_def char_class_defs)

lemma tokens_number:
  assumes "number_lexeme l = Some l" and "number_break r"
  shows "tokens (l @ r) = map_option ((#) (TNum l)) (tokens r)"
proof -
  obtain c l' where l: "l = c # l'"
    using number_lexeme_prefix [OF assms(1)] by (cases l) auto
  then have "number_start c" using assms(1) number_lexeme_start by blast
  moreover have "number_lexeme (c # l' @ r) = Some (c # l')"
    using number_lexeme_break [OF assms(2), of l] assms(1) l by simp
  ultimately show ?thesis
    by (simp add: l lex_one_def number_start_plain append_sections)
qed

lemma tokens_word:
  "tokens (word_null @ r) = map_option ((#) TNull) (tokens r)"
  "tokens (word_true @ r) = map_option ((#) (TBool True)) (tokens r)"
  "tokens (word_false @ r) = map_option ((#) (TBool False)) (tokens r)"
  by (simp_all add: word_null_def word_true_def word_false_def lex_one_def json_space_def punct_def
      number_lexeme_def minus_part_def int_part_def is_digit_def in_range_def Let_def keyword_def
      starts_with_def append_sections)

fun toks :: "jtree \<Rightarrow> token list" where
  "toks NullT = [TNull]"
| "toks (BoolT b) = [TBool b]"
| "toks (NumT l) = [TNum l]"
| "toks (StrT s) = [TStr s]"
| "toks (ArrT vs) = TLBracket # commas TComma (map toks vs) @ [TRBracket]"
| "toks (ObjT ms) =
     TLBrace # commas TComma (map (\<lambda>(k, v). TStr k # TColon # toks v) ms) @ [TRBrace]"

fun valid_tree :: "jtree \<Rightarrow> bool" where
  "valid_tree (NumT l) \<longleftrightarrow> number_lexeme l = Some l"
| "valid_tree (ArrT vs) \<longleftrightarrow> list_all valid_tree vs"
| "valid_tree (ObjT ms) \<longleftrightarrow> list_all (\<lambda>(k, v). valid_tree v) ms"
| "valid_tree _ \<longleftrightarrow> True"

text \<open>A text that the lexer reads as given tokens wherever it stands before a break.\<close>

definition lexes :: "jsstr \<Rightarrow> token list \<Rightarrow> bool" where
  "lexes s ts \<longleftrightarrow> (\<forall>r. number_break r \<longrightarrow> tokens (s @ r) = map_option ((@) ts) (tokens r))"

lemma number_break_simps [simp]:
  "number_break []" "number_break (uCOMMA # r)" "number_break (93 # r)" "number_break (125 # r)"
  by (simp_all add: number_break_def number_cont_def char_class_defs is_exp_def uE_def uE_upper_def)

lemma punct_simps [simp]:
  "punct 123 = Some TLBrace" "punct 125 = Some TRBrace" "punct 91 = Some TLBracket"
  "punct 93 = Some TRBracket" "punct uCOLON = Some TColon" "punct uCOMMA = Some TComma"
  by (simp_all add: punct_def)

lemma map_option_append: "map_option ((@) (a @ b)) m = map_option ((@) a) (map_option ((@) b) m)"
  by (cases m) auto

lemma lexes_commas:
  assumes "\<And>x. x \<in> set xs \<Longrightarrow> lexes (p x) (q x)"
  shows "lexes (commas uCOMMA (map p xs)) (commas TComma (map q xs))"
  using assms
proof (induction xs rule: induct_list012)
  case 1
  then show ?case by (simp add: lexes_def append_sections option.map_ident)
next
  case (3 x y xs)
  have x: "lexes (p x) (q x)" and "lexes (commas uCOMMA (map p (y # xs))) (commas TComma (map q (y # xs)))"
    using 3 by auto
  then have "tokens (p x @ uCOMMA # commas uCOMMA (map p (y # xs)) @ r) =
      map_option ((@) (q x)) (map_option ((#) TComma)
        (map_option ((@) (commas TComma (map q (y # xs)))) (tokens r)))" if "number_break r" for r
    using that by (simp add: lexes_def tokens_punct del: tokens.simps)
  then show ?case
    by (simp add: lexes_def append_sections option.map_comp comp_def del: tokens.simps)
qed simp

lemma lexes_print: "valid_tree t \<Longrightarrow> lexes (print_tree t) (toks t)"
proof (induction t)
  case (ArrT vs)
  then have "lexes (commas uCOMMA (map print_tree vs)) (commas TComma (map toks vs))"
    by (intro lexes_commas) (auto simp: list_all_iff)
  then show ?case
    by (simp add: lexes_def tokens_punct append_sections option.map_comp comp_def del: tokens.simps)
next
  case (ObjT ms)
  have "lexes ((\<lambda>(k, v). json_quote k @ uCOLON # print_tree v) m)
      ((\<lambda>(k, v). TStr k # TColon # toks v) m)" if "m \<in> set ms" for m
  proof (cases m)
    case (Pair k v)
    with ObjT that have "lexes (print_tree v) (toks v)" by (auto simp: list_all_iff)
    then show ?thesis
      by (simp add: Pair lexes_def tokens_quote tokens_punct append_sections option.map_comp comp_def
          del: tokens.simps)
  qed
  then have "lexes (commas uCOMMA (map (\<lambda>(k, v). json_quote k @ uCOLON # print_tree v) ms))
      (commas TComma (map (\<lambda>(k, v). TStr k # TColon # toks v) ms))"
    by (rule lexes_commas)
  then show ?case
    by (simp add: lexes_def tokens_punct append_sections option.map_comp comp_def del: tokens.simps)
qed (simp_all add: lexes_def tokens_quote tokens_number tokens_word append_sections del: tokens.simps)

text \<open>The machine on the tokens of a tree.\<close>

definition starting :: "expects \<Rightarrow> bool" where
  "starting e \<longleftrightarrow> e = Value \<or> e = ItemOrEnd"

definition runs_to :: "token list \<Rightarrow> jtree \<Rightarrow> bool" where
  "runs_to ts t \<longleftrightarrow>
     (\<forall>e st us. starting e \<longrightarrow> parse_run (ts @ us) (e, st) = parse_run us (After t, st))"

lemma runs_to_scalar: "scalar_token k = Some t \<Longrightarrow> runs_to [k] t"
  by (cases k) (auto simp: runs_to_def starting_def start_value_def)

lemma runs_to_items:
  assumes "\<And>v. v \<in> set vs \<Longrightarrow> runs_to (toks v) v" and "vs \<noteq> []" and "starting e"
  shows "parse_run (commas TComma (map toks vs) @ TRBracket # us) (e, InArr acc # st) =
    parse_run us (After (ArrT (acc @ vs)), st)"
  using assms
proof (induction vs arbitrary: acc e rule: induct_list012)
  case (2 v)
  then show ?case by (simp add: runs_to_def)
next
  case (3 v w vs)
  have "runs_to (toks v) v" using 3 by simp
  then have "parse_run (toks v @ TComma # commas TComma (map toks (w # vs)) @ TRBracket # us) (e, InArr acc # st)
      = parse_run (commas TComma (map toks (w # vs)) @ TRBracket # us) (Value, InArr (acc @ [v]) # st)"
    using 3(5) by (simp add: runs_to_def)
  also have "\<dots> = parse_run us (After (ArrT ((acc @ [v]) @ w # vs)), st)"
    by (rule 3) (use 3 in \<open>auto simp: starting_def\<close>)
  finally show ?case by simp
qed simp

lemma runs_to_members:
  assumes "\<And>k v. (k, v) \<in> set ms \<Longrightarrow> runs_to (toks v) v" and "ms \<noteq> []"
    and "e = Key \<or> e = KeyOrEnd"
  shows "parse_run (commas TComma (map (\<lambda>(k, v). TStr k # TColon # toks v) ms) @ TRBrace # us)
      (e, InObj acc k0 # st) = parse_run us (After (ObjT (acc @ ms)), st)"
  using assms
proof (induction ms arbitrary: acc e k0 rule: induct_list012)
  case (2 m)
  then show ?case
    by (cases m) (auto simp: runs_to_def starting_def take_key_def)
next
  case (3 m m' ms)
  obtain k v where m: "m = (k, v)" by force
  let ?p = "\<lambda>(k, v). TStr k # TColon # toks v"
  have "runs_to (toks v) v" using 3(3) [of k v] m by simp
  then have "parse_run (?p m @ TComma # commas TComma (map ?p (m' # ms)) @ TRBrace # us) (e, InObj acc k0 # st)
      = parse_run (commas TComma (map ?p (m' # ms)) @ TRBrace # us) (Key, InObj (acc @ [m]) k # st)"
    using 3(5) by (auto simp: runs_to_def m starting_def take_key_def)
  also have "\<dots> = parse_run us (After (ObjT ((acc @ [m]) @ m' # ms)), st)"
    by (rule 3(2)) (use 3(3) in auto)
  finally show ?case by simp
qed simp

lemma runs_to_tree: "runs_to (toks t) t"
proof (induction t)
  case (ArrT vs)
  show ?case
  proof (cases "vs = []")
    case True
    then show ?thesis by (auto simp: runs_to_def starting_def start_value_def)
  next
    case False
    then show ?thesis
      using runs_to_items [of vs ItemOrEnd _ "[]"] ArrT
      by (auto simp: runs_to_def starting_def start_value_def)
  qed
next
  case (ObjT ms)
  show ?case
  proof (cases "ms = []")
    case True
    then show ?thesis by (auto simp: runs_to_def starting_def start_value_def)
  next
    case False
    have "\<And>k v. (k, v) \<in> set ms \<Longrightarrow> runs_to (toks v) v"
      using ObjT by fastforce
    then show ?thesis
      using runs_to_members [of ms KeyOrEnd _ "[]" "[]"] False
      by (auto simp: runs_to_def starting_def start_value_def)
  qed
qed (simp_all add: runs_to_scalar)

lemma parse_print_tree:
  assumes "valid_tree t"
  shows "parse_tree (print_tree t) = Some t"
proof -
  have "tokens (print_tree t @ []) = Some (toks t @ [])"
    using lexes_print [OF assms] unfolding lexes_def by (metis number_break_simps(1) tokens.simps(1) option.map(2))
  moreover have "parse_run (toks t @ []) (Value, []) = Some (After t, [])"
    using runs_to_tree [of t] unfolding runs_to_def starting_def by (metis parse_run.simps(1))
  ultimately show ?thesis by (simp add: parse_tree_def parse_tokens_def)
qed

text \<open>Values whose numbers are finite and whose objects are in the order of their own keys.\<close>

fun plain_json :: "(jsnum \<Rightarrow> bool) \<Rightarrow> json \<Rightarrow> bool" where
  "plain_json ok (JNum x) \<longleftrightarrow> ok x"
| "plain_json ok (JArr vs) \<longleftrightarrow> list_all (plain_json ok) vs"
| "plain_json ok (JObj ms) \<longleftrightarrow> own_members ms = ms \<and> list_all (\<lambda>(k, v). plain_json ok v) ms"
| "plain_json ok _ \<longleftrightarrow> True"

text \<open>What the SDK relies on of \<^verbatim>\<open>Number::toString\<close>: a JSON numeral that reads back as the
  number.\<close>

definition numeral_law :: "(jsnum \<Rightarrow> jsstr) \<Rightarrow> (jsnum \<Rightarrow> bool) \<Rightarrow> bool" where
  "numeral_law nm ok \<longleftrightarrow>
     (\<forall>x. ok x \<longrightarrow> number_lexeme (nm x) = Some (nm x) \<and> number_of (nm x) = x)"

lemma valid_tree_of: "numeral_law nm ok \<Longrightarrow> plain_json ok v \<Longrightarrow> valid_tree (tree_of nm v)"
  by (induction v) (fastforce simp: numeral_law_def list_all_iff)+

lemma json_of_tree_of: "numeral_law nm ok \<Longrightarrow> plain_json ok v \<Longrightarrow> json_of (tree_of nm v) = v"
proof (induction v)
  case (JArr vs)
  then show ?case by (auto simp: list_all_iff intro!: map_idI)
next
  case (JObj ms)
  have "map ((\<lambda>(k, v). (k, json_of v)) \<circ> (\<lambda>(k, v). (k, tree_of nm v))) ms = ms"
    using JObj by (fastforce simp: list_all_iff intro!: map_idI)
  with JObj.prems show ?case by simp
qed (simp_all add: numeral_law_def)

lemma json_parse_print:
  "numeral_law nm ok \<Longrightarrow> plain_json ok v \<Longrightarrow> json_parse (json_print nm v) = Some v"
  by (simp add: json_parse_def json_print_def parse_print_tree [OF valid_tree_of] json_of_tree_of)

end
