(* ===== verification/ProtocolJson.thy ===== *)
theory ProtocolJson
  imports JsonText
begin

text \<open>
  \<^verbatim>\<open>http/bounded-json.ts\<close> below the byte reader, and \<^verbatim>\<open>protocol/validate.ts\<close>: the
  mirror text in which every numeral is a string, the walk over a value and its mirror, the
  parser that keeps the numerals a document was written with, and the exact integer test. A
  parsed value travels with its mirror: \<^verbatim>\<open>numericLexemes\<close> maps an object and a key to the
  numeral at that place, which is the string at the same place of the mirror.
\<close>

section \<open>The mirror text\<close>

text \<open>\<^verbatim>\<open>source.indexOf("\"", index)\<close>.\<close>

definition quote_at :: "jsstr \<Rightarrow> nat \<Rightarrow> nat option" where
  "quote_at src i =
     (let q = i + length (takeWhile (\<lambda>c. c \<noteq> uQUOTE) (drop i src))
      in if q < length src then Some q else None)"

text \<open>The backslashes right before a position: \<^verbatim>\<open>quote - slash - 1\<close>.\<close>

definition slashes_before :: "jsstr \<Rightarrow> nat \<Rightarrow> nat" where
  "slashes_before src q = length (takeWhile (\<lambda>c. c = uBACKSLASH) (rev (take q src)))"

lemma quote_at_Some: "quote_at src i = Some q \<Longrightarrow> i \<le> q \<and> q < length src"
  by (auto simp: quote_at_def Let_def split: if_splits)

text \<open>The index after a string whose content starts at \<open>i\<close>.\<close>

function string_end :: "jsstr \<Rightarrow> nat \<Rightarrow> nat" where
  "string_end src i =
     (if i < length src then
        (case quote_at src i of
           None \<Rightarrow> length src
         | Some q \<Rightarrow> if even (slashes_before src q) then q + 1 else string_end src (q + 1))
      else i)"
  by auto
termination
  by (relation "measure (\<lambda>(src, i). length src - i)") (auto dest: quote_at_Some)

declare string_end.simps [simp del]

lemma string_end_ge: "i \<le> string_end src i"
proof (induction src i rule: string_end.induct)
  case (1 src i)
  then show ?case
    by (subst string_end.simps) (fastforce split: option.splits dest: quote_at_Some)
qed

text \<open>The loop of \<^verbatim>\<open>numericMirror\<close>: the text it still appends, from the position it has
  copied up to and the position it reads.\<close>

function mirror_from :: "jsstr \<Rightarrow> nat \<Rightarrow> nat \<Rightarrow> jsstr" where
  "mirror_from src copied i =
     (if i < length src then
        if src ! i = uQUOTE then mirror_from src copied (string_end src (i + 1))
        else (case number_lexeme (drop i src) of
                None \<Rightarrow> mirror_from src copied (i + 1)
              | Some l \<Rightarrow>
                  take (i - copied) (drop copied src) @ json_quote l
                    @ mirror_from src (i + length l) (i + length l))
      else drop copied src)"
  by auto
termination
proof (relation "measure (\<lambda>(src, copied, i). length src - i)")
  fix src copied i
  show "i < length src \<Longrightarrow> ((src, copied, string_end src (i + 1)), src, copied, i)
      \<in> measure (\<lambda>(src, copied, i). length src - i)"
    using string_end_ge [of "i + 1" src] by auto
next
  fix src copied i l
  assume "i < length src" and "number_lexeme (drop i src) = Some l"
  then show "((src, i + length l, i + length l), src, copied, i)
      \<in> measure (\<lambda>(src, copied, i). length src - i)"
    using number_lexeme_prefix [of "drop i src" l] by (cases l) auto
qed auto

declare mirror_from.simps [simp del]

definition numericMirror :: "jsstr \<Rightarrow> jsstr" where
  "numericMirror source = mirror_from source 0 0"

section \<open>The walk over a value and its mirror\<close>

text \<open>\<^verbatim>\<open>Object.keys\<close> of an object or the indices of an array, with the children.\<close>

fun entries :: "json \<Rightarrow> (jsstr \<times> json) list" where
  "entries (JArr vs) = zip (map dec_string [0..<length vs]) vs"
| "entries (JObj ms) = ms"
| "entries _ = []"

text \<open>\<^verbatim>\<open>value[key]\<close>.\<close>

definition js_get :: "json \<Rightarrow> jsstr \<Rightarrow> json option" where
  "js_get v k = map_of (entries v) k"

fun is_container :: "json \<Rightarrow> bool" where
  "is_container (JArr _) = True"
| "is_container (JObj _) = True"
| "is_container _ = False"

text \<open>A call of the walker's callback: whether there is a parent, the number, the value at the
  same place of the mirror.\<close>

type_synonym visited = "bool \<times> jsnum \<times> json option"

fun number_event :: "bool \<Rightarrow> json \<Rightarrow> json option \<Rightarrow> visited list" where
  "number_event inside (JNum x) lexical = [(inside, x, lexical)]"
| "number_event inside _ lexical = []"

text \<open>A frame: the children still to visit and the mirror of the container.\<close>

type_synonym visit_frame = "(jsstr \<times> json) list \<times> json option"

definition push_frame :: "json \<Rightarrow> json option \<Rightarrow> visit_frame list" where
  "push_frame child lexical = (if is_container child then [(entries child, lexical)] else [])"

fun json_weight :: "json \<Rightarrow> nat" where
  "json_weight (JArr vs) = 2 + sum_list (map json_weight vs)"
| "json_weight (JObj ms) = 2 + sum_list (map (\<lambda>(k, v). json_weight v) ms)"
| "json_weight _ = 1"

definition frame_weight :: "visit_frame \<Rightarrow> nat" where
  "frame_weight f = 1 + sum_list (map (\<lambda>(k, v). json_weight v) (fst f))"

lemma entries_weight: "is_container v \<Longrightarrow> 1 + sum_list (map (\<lambda>(k, c). json_weight c) (entries v)) < json_weight v"
proof (cases v)
  case (JArr vs)
  have "map (\<lambda>(k, c). json_weight c) (zip (map dec_string [0..<length vs]) vs) = map json_weight vs"
    by (rule nth_equalityI) auto
  with JArr show ?thesis by simp
qed auto

function visit_frames :: "visit_frame list \<Rightarrow> visited list" where
  "visit_frames [] = []"
| "visit_frames (([], m) # fs) = visit_frames fs"
| "visit_frames (((k, c) # es, m) # fs) =
     (let lexical = (case m of None \<Rightarrow> None | Some mv \<Rightarrow> js_get mv k)
      in number_event True c lexical @ visit_frames (push_frame c lexical @ (es, m) # fs))"
  by pat_completeness auto
termination
proof (relation "measure (\<lambda>fs. sum_list (map frame_weight fs))")
  fix k :: jsstr and c es m fs and x :: "json option"
  have "sum_list (map frame_weight (push_frame c x)) < json_weight c"
  proof (cases "is_container c")
    case True
    then show ?thesis using entries_weight [of c] by (simp add: push_frame_def frame_weight_def)
  next
    case False
    then show ?thesis by (cases c) (simp_all add: push_frame_def)
  qed
  then show "(push_frame c x @ (es, m) # fs, ((k, c) # es, m) # fs)
      \<in> measure (\<lambda>fs. sum_list (map frame_weight fs))"
    by (simp add: frame_weight_def)
qed (auto simp: frame_weight_def)

definition visitJson :: "json \<Rightarrow> json option \<Rightarrow> visited list" where
  "visitJson value mirror = number_event False value mirror @ visit_frames (push_frame value mirror)"

definition visited_finite :: "visited list \<Rightarrow> bool" where
  "visited_finite = list_all (\<lambda>(_, x, _). num_is_finite x)"

section \<open>Parsing and decoding\<close>

text \<open>A value with the mirror its numerals are read from, if it was parsed from a text.\<close>

type_synonym parsed = "json \<times> json option"

definition parseProtocolJson :: "jsstr \<Rightarrow> string \<Rightarrow> parsed result" where
  "parseProtocolJson source validatorName =
     (case json_parse (numericMirror source) of
        None \<Rightarrow> Inl (ProtocolValidationError validatorName)
      | Some mirror \<Rightarrow>
          case json_parse source of
            None \<Rightarrow> Inl (ProtocolValidationError validatorName)
          | Some value \<Rightarrow>
              if visited_finite (visitJson value (Some mirror)) then Inr (value, Some mirror)
              else Inl (ProtocolValidationError (validatorName @ ''.number'')))"

definition assertFiniteNumbers :: "json \<Rightarrow> string \<Rightarrow> exn option" where
  "assertFiniteNumbers value validatorName =
     (if visited_finite (visitJson value None) then None
      else Some (ProtocolValidationError (validatorName @ ''.number'')))"

text \<open>A validator sees the value and the numerals it was written with.\<close>

type_synonym validator = "parsed \<Rightarrow> bool"

definition decodeProtocolValue :: "parsed \<Rightarrow> validator \<Rightarrow> string \<Rightarrow> json result" where
  "decodeProtocolValue v validator validatorName =
     (case assertFiniteNumbers (fst v) validatorName of
        Some e \<Rightarrow> Inl e
      | None \<Rightarrow>
          if validator v then Inr (fst v) else Inl (ProtocolValidationError validatorName))"

text \<open>\<^verbatim>\<open>numericLexemes.get(parent)?.get(String(key))\<close>, given the mirror of the parent.\<close>

definition lexeme_at :: "json option \<Rightarrow> jsstr \<Rightarrow> jsstr option" where
  "lexeme_at m k =
     (case m of None \<Rightarrow> None
      | Some mv \<Rightarrow> (case js_get mv k of None \<Rightarrow> None | Some l \<Rightarrow> json_string l))"

section \<open>Exact integers\<close>

definition is_zero :: "code_unit \<Rightarrow> bool" where
  "is_zero c \<longleftrightarrow> c = uZERO"

definition isExactJsonInteger :: "jsnum \<Rightarrow> jsstr option \<Rightarrow> bool" where
  "isExactJsonInteger value token =
     (case num_integer value of
        None \<Rightarrow> False
      | Some n \<Rightarrow>
          case token of
            None \<Rightarrow> True
          | Some l \<Rightarrow>
              case lexeme_parts l of
                None \<Rightarrow> False
              | Some (neg, i, fraction, e) \<Rightarrow>
                  let digits = dropWhile is_zero (i @ fraction);
                      significant = rev (dropWhile is_zero (rev digits));
                      scale = e - int (length fraction) + int (length digits) - int (length significant)
                  in if digits = [] then True
                     else if scale < 0 \<or> 309 < int (length significant) + scale then False
                     else (if neg then -1 else 1)
                       * int (dec_value (significant @ replicate (nat scale) uZERO)) = n)"

section \<open>The integer test is exact\<close>

lemma dec_value_append: "dec_value (s @ t) = dec_value s * 10 ^ length t + dec_value t"
  by (induction t rule: rev_induct) (simp_all add: dec_value_def algebra_simps)

lemma dec_value_Cons: "dec_value (c # s) = digit_val c * 10 ^ length s + dec_value s"
  using dec_value_append [of "[c]" s] by (simp add: dec_value_def)

lemma digit_val_zero [simp]: "digit_val uZERO = 0"
  by (simp add: digit_val_def)

lemma dec_value_leading: "dec_value (dropWhile is_zero s) = dec_value s"
  by (induction s) (simp_all add: dec_value_Cons is_zero_def)

lemma dec_value_zeros [simp]: "dec_value (replicate n uZERO) = 0"
  by (induction n) (simp_all add: dec_value_Cons, simp add: dec_value_def)

lemma digit_val_pos: "is_digit c \<Longrightarrow> \<not> is_zero c \<Longrightarrow> 0 < digit_val c \<and> digit_val c < 10"
  using digit_val_less [of c] digit_unit_digit_val [of c]
  by (cases "digit_val c = 0") (auto simp: is_zero_def)

text \<open>Stripping zeros at the end: the rest ends in another digit and the value is the same power
  of ten.\<close>

lemma strip_end:
  fixes s :: jsstr
  defines "t \<equiv> rev (dropWhile is_zero (rev s))"
  shows "s = t @ replicate (length s - length t) uZERO"
    and "length t \<le> length s"
    and "t \<noteq> [] \<Longrightarrow> \<not> is_zero (last t)"
    and "set t \<subseteq> set s"
proof -
  have "rev s = takeWhile is_zero (rev s) @ dropWhile is_zero (rev s)" by simp
  moreover have "takeWhile is_zero (rev s) = replicate (length (takeWhile is_zero (rev s))) uZERO"
    by (rule replicate_eqI [symmetric, THEN sym]) (auto simp: is_zero_def dest: set_takeWhileD)
  ultimately have s: "s = t @ replicate (length (takeWhile is_zero (rev s))) uZERO"
    unfolding t_def by (metis rev_append rev_replicate rev_rev_ident)
  then have "length s = length t + length (takeWhile is_zero (rev s))"
    by (metis length_append length_replicate)
  with s show "s = t @ replicate (length s - length t) uZERO" "length t \<le> length s" by simp_all
  show "set t \<subseteq> set s" by (auto simp: t_def dest: set_dropWhileD)
  show "t \<noteq> [] \<Longrightarrow> \<not> is_zero (last t)"
    unfolding t_def by (simp add: last_rev hd_dropWhile)
qed

lemma dec_value_lower: "list_all is_digit s \<Longrightarrow> s \<noteq> [] \<Longrightarrow> \<not> is_zero (hd s) \<Longrightarrow> 10 ^ (length s - 1) \<le> dec_value s"
proof (cases s)
  case (Cons c t)
  moreover assume "list_all is_digit s" "\<not> is_zero (hd s)"
  ultimately have "1 \<le> digit_val c" using digit_val_pos [of c] by simp
  then have "10 ^ length t \<le> digit_val c * 10 ^ length t" by simp
  with Cons show ?thesis by (auto simp: dec_value_Cons intro: trans_le_add1)
qed simp

lemma dec_value_last_digit:
  assumes "list_all is_digit s" and "s \<noteq> []" and "\<not> is_zero (last s)"
  shows "\<not> 10 dvd dec_value s"
proof -
  obtain t c where s: "s = t @ [c]" using assms(2) by (cases s rule: rev_exhaust) auto
  then have "dec_value s = 10 * dec_value t + digit_val c" by (simp add: dec_value_snoc)
  moreover have "0 < digit_val c" "digit_val c < 10"
    using assms s digit_val_pos [of c] by auto
  ultimately show ?thesis by presburger
qed

lemma lexeme_parts_digits:
  assumes "lexeme_parts l = Some (neg, i, f, e)"
  shows "list_all is_digit (i @ f)"
proof -
  have t: "list_all is_digit (digits_of s)" for s
    by (auto simp: list_all_iff dest: set_takeWhileD)
  have "list_all is_digit (drop 1 (frac_part s))" for s
    by (cases s) (auto simp: frac_part_def t)
  with assms t show ?thesis
    by (auto simp: lexeme_parts_def Let_def split: if_splits)
qed

lemma rat_eq_int_iff: "(of_int a :: rat) = of_int b \<longleftrightarrow> a = b"
  by simp

lemma num_integer_None: "num_integer x = None \<Longrightarrow> x \<noteq> num_of_int n"
  by auto

text \<open>The value is an exact integer exactly when the digits without their trailing zeros can be
  scaled up.\<close>

lemma scaled_integer:
  fixes sg :: rat
  assumes "\<not> 10 dvd s" and that: "sg = 1 \<or> sg = - 1"
  shows "(\<exists>n :: int. sg * of_nat s * pow10 e = of_int n) \<longleftrightarrow> 0 \<le> e"
proof
  assume "0 \<le> e"
  then have "sg * of_nat s * pow10 e = of_int ((if sg = 1 then 1 else - 1) * int s * 10 ^ nat e)"
    using that by (auto simp: pow10_def power_int_def)
  then show "\<exists>n. sg * of_nat s * pow10 e = of_int n" by blast
next
  assume "\<exists>n. sg * of_nat s * pow10 e = of_int n"
  then obtain n where n: "sg * of_nat s * pow10 e = of_int n" by blast
  show "0 \<le> e"
  proof (rule ccontr)
    assume "\<not> 0 \<le> e"
    then obtain k where k: "nat (- e) = Suc k" and e: "e = - int (Suc k)"
      by (metis int_nat_eq linorder_not_le minus_minus neg_0_less_iff_less nat_eq_iff not0_implies_Suc zero_less_iff_neq_zero zero_less_nat_eq)
    have "pow10 e = 1 / 10 ^ Suc k"
      unfolding pow10_def e power_int_minus by (simp add: field_simps power_int_add)
    then have "pow10 e * 10 ^ Suc k = 1" by simp
    then have "sg * of_nat s = of_int n * 10 ^ Suc k"
      by (metis mult.assoc mult.right_neutral n)
    then have "(of_int (int s) :: rat) = of_int (\<bar>n\<bar> * 10 ^ Suc k)"
    proof -
      assume "sg * of_nat s = of_int n * 10 ^ Suc k"
      then have "\<bar>sg * of_nat s\<bar> = \<bar>of_int n * 10 ^ Suc k\<bar>" by simp
      moreover have "\<bar>sg * of_nat s\<bar> = of_nat s" using that by auto
      ultimately show ?thesis by (simp only: abs_mult of_int_mult of_int_abs of_int_power
            of_int_numeral of_int_of_nat_eq power_abs abs_numeral)
    qed
    then have "int s = \<bar>n\<bar> * 10 ^ Suc k" by (simp only: rat_eq_int_iff)
    then have "10 dvd int s" by simp
    with assms int_dvd_int_iff [of 10 s] show False by simp
  qed
qed

lemma isExactJsonInteger_exact:
  assumes "num_is_finite (number_of l)"
  shows "isExactJsonInteger (number_of l) (Some l) \<longleftrightarrow>
    (\<exists>n. lexeme_value l = Some (of_int n) \<and> number_of l = num_of_int n)"
proof (cases "lexeme_parts l")
  case None
  with assms show ?thesis by (simp add: number_of_def lexeme_value_def)
next
  case (Some p)
  obtain neg i f e where p: "lexeme_parts l = Some (neg, i, f, e)"
    using Some by (cases p) auto
  define sg :: rat where "sg = (if neg then - 1 else 1)"
  define D where "D = dropWhile is_zero (i @ f)"
  define S where "S = rev (dropWhile is_zero (rev D))"
  define scale where "scale = e - int (length f) + int (length D) - int (length S)"
  have digs: "list_all is_digit D" "list_all is_digit S"
    using lexeme_parts_digits [OF p] strip_end(4) [of D] set_dropWhileD [of _ is_zero "i @ f"]
    by (auto simp: D_def S_def list_all_iff)
  have D: "D = S @ replicate (length D - length S) uZERO" "length S \<le> length D"
    using strip_end(1,2) [of D] by (simp_all add: S_def)
  have valD: "dec_value (i @ f) = dec_value S * 10 ^ (length D - length S)"
    using dec_value_append [of S "replicate (length D - length S) uZERO"] D(1)
    by (metis D_def add.right_neutral dec_value_leading dec_value_zeros length_replicate)
  have "pow10 (e - int (length f)) * 10 ^ (length D - length S) = pow10 scale"
  proof -
    have "scale = (e - int (length f)) + int (length D - length S)"
      using D(2) by (simp add: scale_def of_nat_diff)
    then show ?thesis by (simp add: pow10_def power_int_add)
  qed
  then have val: "lexeme_value l = Some (sg * of_nat (dec_value S) * pow10 scale)"
    by (simp add: lexeme_value_def p valD sg_def mult_ac)
  have num: "number_of l = round64 (sg * of_nat (dec_value S) * pow10 scale)"
    by (simp add: number_of_def val)
  have test: "isExactJsonInteger (number_of l) (Some l) \<longleftrightarrow>
      (\<exists>n. number_of l = num_of_int n \<and>
        (D = [] \<or> (0 \<le> scale \<and> int (length S) + scale \<le> 309 \<and>
          (if neg then - 1 else 1) * int (dec_value (S @ replicate (nat scale) uZERO)) = n)))"
  proof -
    have "isExactJsonInteger (number_of l) (Some l) =
        (case num_integer (number_of l) of None \<Rightarrow> False
         | Some n \<Rightarrow> if D = [] then True else if scale < 0 \<or> 309 < int (length S) + scale then False
             else (if neg then - 1 else 1) * int (dec_value (S @ replicate (nat scale) uZERO)) = n)"
      by (simp only: isExactJsonInteger_def p option.case prod.case Let_def D_def S_def scale_def)
    then show ?thesis
      by (cases "num_integer (number_of l)") (auto simp: num_integer_Some num_integer_None not_less)
  qed
  show ?thesis
  proof (cases "D = []")
    case True
    then have "dec_value S = 0" using D(2) by (simp add: dec_value_def)
    then have "lexeme_value l = Some 0" "number_of l = Fin 0"
      using val num by (simp_all add: round64_def)
    with True show ?thesis unfolding test by (auto simp: num_of_int_def)
  next
    case False
    then have hdD: "\<not> is_zero (hd D)" unfolding D_def by (rule hd_dropWhile)
    have S: "S \<noteq> []"
    proof
      assume "S = []"
      then have "hd D = uZERO" using D False by (metis append_Nil hd_replicate replicate_empty)
      with hdD show False by (simp add: is_zero_def)
    qed
    then have hdS: "\<not> is_zero (hd S)" using hdD D(1) by (metis hd_append)
    have lastS: "\<not> is_zero (last S)" using strip_end(3) [of D] S by (simp add: S_def)
    have sg: "sg = 1 \<or> sg = - 1" by (simp add: sg_def)
    note int_iff = scaled_integer [OF dec_value_last_digit [OF digs(2) S lastS] sg, of scale]
    have bound: "int (length S) + scale \<le> 309" if "0 \<le> scale"
    proof (rule ccontr)
      assume "\<not> ?thesis"
      then have n: "309 \<le> length S - 1 + nat scale" using that S by (cases S) auto
      have "(10 :: nat) ^ (length S - 1 + nat scale) \<le> dec_value S * 10 ^ nat scale"
        using dec_value_lower [OF digs(2) S hdS] by (simp add: power_add)
      moreover have "(10 :: nat) ^ 309 \<le> 10 ^ (length S - 1 + nat scale)"
        using n by (rule power_increasing) simp
      moreover have "(2 :: nat) ^ 1024 \<le> 10 ^ 309" by simp
      ultimately have "(2 :: nat) ^ 1024 \<le> dec_value S * 10 ^ nat scale" by (meson le_trans)
      then have "(of_nat (2 ^ 1024) :: rat) \<le> of_nat (dec_value S * 10 ^ nat scale)"
        by (simp only: of_nat_le_iff)
      moreover have "\<bar>sg * of_nat (dec_value S) * pow10 scale\<bar> = of_nat (dec_value S * 10 ^ nat scale)"
        using that by (simp add: sg_def abs_mult pow10_def power_int_def)
      ultimately have "2 ^ 1024 \<le> \<bar>sg * of_nat (dec_value S) * pow10 scale\<bar>"
        by (metis of_nat_numeral of_nat_power)
      with assms num show False using round64_overflow by metis
    qed
    have eq: "sg * of_nat (dec_value S) * pow10 scale =
        of_int ((if neg then - 1 else 1) * int (dec_value (S @ replicate (nat scale) uZERO)))"
      if "0 \<le> scale"
      using that by (simp add: sg_def pow10_def power_int_def dec_value_append)
    show ?thesis
    proof (cases "0 \<le> scale")
      case True
      with False bound show ?thesis
        unfolding test val eq [OF True] by (auto simp del: of_int_mult)
    next
      case neg: False
      then have "\<nexists>n. lexeme_value l = Some (of_int n)" using int_iff val by auto
      with neg False show ?thesis unfolding test by auto
    qed
  qed
qed

section \<open>The mirror of a JSON text\<close>

subsection \<open>The end of a string\<close>

text \<open>Looking for the closing quote from the left: the number of backslashes right before, and the
  distance to the first quote after an even number.\<close>

fun closing :: "nat \<Rightarrow> jsstr \<Rightarrow> nat option" where
  "closing k [] = None"
| "closing k (c # s) =
     (if c = uQUOTE \<and> even k then Some 0
      else map_option Suc (closing (if c = uBACKSLASH then Suc k else 0) s))"

lemma slashes_before_Suc:
  "i < length src \<Longrightarrow>
     slashes_before src (Suc i) = (if src ! i = uBACKSLASH then Suc (slashes_before src i) else 0)"
  by (simp add: slashes_before_def take_Suc_conv_app_nth)

lemma closing_skip:
  assumes "uQUOTE \<notin> set u" and "drop i src = u @ t"
  shows "closing (slashes_before src i) (drop i src) =
    map_option ((+) (length u)) (closing (slashes_before src (i + length u)) t)"
  using assms
proof (induction u arbitrary: i)
  case Nil
  then show ?case by (simp add: option.map_ident)
next
  case (Cons c u)
  then have i: "i < length src" by (cases "i < length src") auto
  then have "drop i src = src ! i # drop (Suc i) src" by (simp add: Cons_nth_drop_Suc)
  with Cons.prems i have i: "i < length src" "src ! i = c" "drop (Suc i) src = u @ t" by simp_all
  have "closing (slashes_before src i) (drop i src) =
      map_option Suc (closing (slashes_before src (Suc i)) (drop (Suc i) src))"
    using Cons.prems i by (simp add: slashes_before_Suc)
  also have "\<dots> = map_option Suc (map_option ((+) (length u)) (closing (slashes_before src (Suc i + length u)) t))"
    using Cons.IH [of "Suc i"] Cons.prems i by simp
  finally show ?case by (simp add: option.map_comp comp_def)
qed

lemma string_end_closing:
  assumes "i < length src"
  shows "string_end src i =
    (case closing (slashes_before src i) (drop i src) of None \<Rightarrow> length src | Some n \<Rightarrow> i + n + 1)"
  using assms
proof (induction src i rule: string_end.induct)
  case (1 src i)
  define u where "u = takeWhile (\<lambda>c. c \<noteq> uQUOTE) (drop i src)"
  have u: "uQUOTE \<notin> set u" by (auto simp: u_def dest: set_takeWhileD)
  show ?case
  proof (cases "quote_at src i")
    case None
    then have "length (drop i src) \<le> length u"
      using 1(2) by (auto simp: quote_at_def Let_def u_def split: if_splits)
    moreover have "u = take (length u) (drop i src)" by (simp add: u_def takeWhile_eq_take [symmetric])
    ultimately have "drop i src = u @ []" by simp
    from closing_skip [OF u this] show ?thesis
      using 1(2) None by (subst string_end.simps) simp
  next
    case (Some q)
    then have q: "q = i + length u" "q < length src"
      by (auto simp: quote_at_def Let_def u_def split: if_splits)
    have w: "drop q src = dropWhile (\<lambda>c. c \<noteq> uQUOTE) (drop i src)"
      by (simp add: q(1) u_def dropWhile_eq_drop add.commute)
    then have d: "drop i src = u @ drop q src" by (simp add: u_def)
    have "src ! q = uQUOTE"
      using hd_dropWhile [of "\<lambda>c. c \<noteq> uQUOTE" "drop i src"] q(2)
      by (simp add: w [symmetric] hd_drop_conv_nth)
    then have dq: "drop q src = uQUOTE # drop (Suc q) src"
      using q(2) Cons_nth_drop_Suc by metis
    have c: "closing (slashes_before src i) (drop i src) =
        map_option ((+) (length u)) (closing (slashes_before src q) (uQUOTE # drop (Suc q) src))"
      using closing_skip [OF u d] q(1) dq by simp
    show ?thesis
    proof (cases "even (slashes_before src q)")
      case True
      then show ?thesis using 1(2) Some c q by (subst string_end.simps) simp
    next
      case False
      have z: "slashes_before src (Suc q) = 0"
        using q(2) \<open>src ! q = uQUOTE\<close> by (simp add: slashes_before_Suc)
      have e: "string_end src i = string_end src (q + 1)"
        using 1(2) Some False by (subst string_end.simps) simp
      show ?thesis
      proof (cases "Suc q < length src")
        case True
        then have "string_end src (q + 1) =
            (case closing 0 (drop (Suc q) src) of None \<Rightarrow> length src | Some n \<Rightarrow> q + 1 + n + 1)"
          using 1(1) [OF 1(2) Some False] z by simp
        with c False q e show ?thesis
          by (cases "closing 0 (drop (Suc q) src)") simp_all
      next
        case last: False
        then have "string_end src (q + 1) = length src"
          using q(2) by (subst string_end.simps) simp
        with c False e last q show ?thesis by simp
      qed
    qed
  qed
qed

text \<open>The raw content of a string the lexer accepts.\<close>

fun escaped :: "jsstr \<Rightarrow> bool" where
  "escaped [] = True"
| "escaped (c # w) =
     (if c = uBACKSLASH then (case w of [] \<Rightarrow> False | e # w' \<Rightarrow> escaped w')
      else c \<noteq> uQUOTE \<and> escaped w)"

lemma closing_escaped: "escaped w \<Longrightarrow> even k \<Longrightarrow> closing k (w @ uQUOTE # r) = Some (length w)"
proof (induction w arbitrary: k rule: escaped.induct)
  case (2 c w)
  show ?case
  proof (cases "c = uBACKSLASH")
    case True
    with 2(3) obtain e w' where w: "w = e # w'" "escaped w'" by (auto split: list.splits)
    with True 2(4) 2(1) [OF True w(1) w(2), of 0] 2(1) [OF True w(1) w(2), of "Suc (Suc k)"]
    show ?thesis by simp
  next
    case False
    with 2(2) [OF False, of 0] 2(3,4) show ?thesis by simp
  qed
qed simp

lemma escaped_plain: "uQUOTE \<notin> set u \<Longrightarrow> uBACKSLASH \<notin> set u \<Longrightarrow> escaped (u @ w) = escaped w"
  by (induction u) auto

lemma is_hex_plain: "is_hex c \<Longrightarrow> c \<noteq> uQUOTE \<and> c \<noteq> uBACKSLASH"
  by (auto simp: char_class_defs)

lemma scan_string_escaped:
  "scan_string s = Some (t, r) \<Longrightarrow>
     \<exists>w. s = w @ uQUOTE # r \<and> escaped w \<and> (\<forall>u. scan_string (w @ uQUOTE # u) = Some (t, u))"
proof (induction s arbitrary: t r rule: scan_string.induct)
  case (2 c s)
  consider (quote) "c = uQUOTE" | (hex) "c = uBACKSLASH" "hd s = 117"
    | (escape) "c = uBACKSLASH" "hd s \<noteq> 117" | (plain) "c \<noteq> uQUOTE" "c \<noteq> uBACKSLASH" by blast
  then show ?case
  proof cases
    case quote
    with 2(4) show ?thesis by (intro exI [of _ "[]"]) simp
  next
    case hex
    with 2(4) obtain e h1 h2 h3 h4 s2 t' where s:
      "s = e # h1 # h2 # h3 # h4 # s2" "scan_string s2 = Some (t', r)"
      "is_hex h1 \<and> is_hex h2 \<and> is_hex h3 \<and> is_hex h4" "e = 117"
      by (auto simp: cons_fst_Some split: if_splits list.splits)
    obtain w where w: "s2 = w @ uQUOTE # r" "escaped w"
      and loc: "\<And>u. scan_string (w @ uQUOTE # u) = Some (t', u)"
      using 2(1) [OF _ _ _ _ refl refl refl refl, of e h1 h2 h3 h4 s2 t' r] hex s by auto
    have h: "uQUOTE \<notin> set [h1, h2, h3, h4]" "uBACKSLASH \<notin> set [h1, h2, h3, h4]"
      using s(3) by (auto dest: is_hex_plain)
    have "escaped ([h1, h2, h3, h4] @ w)" using escaped_plain [OF h] w(2) by simp
    then show ?thesis
      using s w(1) hex 2(4) loc
      by (intro exI [of _ "c # e # h1 # h2 # h3 # h4 # w"]) (simp add: cons_fst_def)
  next
    case escape
    with 2(4) obtain e x s1 t' where s:
      "s = e # s1" "e \<noteq> 117" "simple_escape e = Some x" "scan_string s1 = Some (t', r)"
      by (auto simp: cons_fst_Some split: if_splits list.splits option.splits)
    obtain w where "s1 = w @ uQUOTE # r" "escaped w" "\<And>u. scan_string (w @ uQUOTE # u) = Some (t', u)"
      using 2(2) [of e s1 x t' r] s escape by auto
    then show ?thesis
      using s escape 2(4) by (intro exI [of _ "c # e # w"]) (simp add: cons_fst_def)
  next
    case plain
    with 2(4) obtain t' where t': "scan_string s = Some (t', r)" and ge: "\<not> unat c < 32"
      by (auto simp: cons_fst_Some split: if_splits)
    obtain w where "s = w @ uQUOTE # r" "escaped w" "\<And>u. scan_string (w @ uQUOTE # u) = Some (t', u)"
      using 2(3) [OF plain ge t'] by blast
    then show ?thesis using plain ge t' 2(4) by (intro exI [of _ "c # w"]) (simp add: cons_fst_def)
  qed
qed simp

lemma string_end_scan:
  assumes "i < length src" and "src ! i = uQUOTE" and "drop (Suc i) src = w @ uQUOTE # r" and "escaped w"
  shows "string_end src (i + 1) = Suc i + length w + 1" and "drop (Suc i + length w + 1) src = r"
proof -
  have "Suc i < length src" using assms(3) by (metis append_is_Nil_conv drop_all list.discI not_le)
  moreover have "slashes_before src (Suc i) = 0" using assms by (simp add: slashes_before_Suc)
  ultimately show "string_end src (i + 1) = Suc i + length w + 1"
    using assms(3,4) by (simp add: string_end_closing closing_escaped)
  have "drop (length w + 1) (drop (Suc i) src) = r" using assms(3) by simp
  then show "drop (Suc i + length w + 1) src = r" by (simp add: add.commute)
qed

subsection \<open>The tokens of the mirror\<close>

lemma quote_at_le: "string_end src i \<le> max i (length src)"
proof (induction src i rule: string_end.induct)
  case (1 src i)
  then show ?case
    by (subst string_end.simps) (fastforce split: option.splits dest: quote_at_Some)
qed

text \<open>One turn of the loop, and the text copied so far.\<close>

lemma mirror_from_end: "length src \<le> i \<Longrightarrow> mirror_from src copied i = drop copied src"
  by (subst mirror_from.simps) simp

lemma mirror_from_string:
  "i < length src \<Longrightarrow> src ! i = uQUOTE \<Longrightarrow>
     mirror_from src copied i = mirror_from src copied (string_end src (i + 1))"
  by (subst mirror_from.simps) simp

lemma mirror_from_number:
  "i < length src \<Longrightarrow> src ! i \<noteq> uQUOTE \<Longrightarrow> number_lexeme (drop i src) = Some l \<Longrightarrow>
     mirror_from src copied i =
       take (i - copied) (drop copied src) @ json_quote l @ mirror_from src (i + length l) (i + length l)"
  by (subst mirror_from.simps) simp

lemma mirror_from_other:
  "i < length src \<Longrightarrow> src ! i \<noteq> uQUOTE \<Longrightarrow> number_lexeme (drop i src) = None \<Longrightarrow>
     mirror_from src copied i = mirror_from src copied (i + 1)"
  by (subst mirror_from.simps) simp

lemma slice_split:
  assumes "c \<le> i" and "i \<le> j"
  shows "take (j - c) (drop c src) = take (i - c) (drop c src) @ take (j - i) (drop i src)"
proof -
  have "take (i - c + (j - i)) (drop c src) = take (i - c) (drop c src) @ take (j - i) (drop (i - c) (drop c src))"
    by (rule take_add)
  with assms show ?thesis by simp
qed

lemma mirror_from_copied:
  assumes "copied \<le> i" and "i \<le> length src"
  shows "mirror_from src copied i = take (i - copied) (drop copied src) @ mirror_from src i i"
  using assms
proof (induction "length src - i" arbitrary: copied i rule: less_induct)
  case less
  have jump: "mirror_from src c j = take (i - c) (drop c src) @ take (j - i) (drop i src) @ mirror_from src j j"
    if "i < j" "j \<le> length src" "c \<le> i" for c j
    using less(1) [of j c] slice_split [of c i j src] that by simp
  consider (over) "i = length src" | (quote) "i < length src" "src ! i = uQUOTE"
    | (num) l where "i < length src" "src ! i \<noteq> uQUOTE" "number_lexeme (drop i src) = Some l"
    | (other) "i < length src" "src ! i \<noteq> uQUOTE" "number_lexeme (drop i src) = None"
    using less(3) by (cases "number_lexeme (drop i src)") fastforce+
  then show ?case
  proof cases
    case over
    then show ?thesis by (simp add: mirror_from_end)
  next
    case quote
    then have "i < string_end src (i + 1)" "string_end src (i + 1) \<le> length src"
      using string_end_ge [of "i + 1" src] quote_at_le [of src "i + 1"] by auto
    then show ?thesis
      using jump [of "string_end src (i + 1)" copied] jump [of "string_end src (i + 1)" i] less(2)
      by (simp add: mirror_from_string [OF quote])
  next
    case num
    then show ?thesis by (simp add: mirror_from_number)
  next
    case other
    then show ?thesis
      using jump [of "i + 1" copied] jump [of "i + 1" i] less(2)
      by (simp add: mirror_from_other [OF other])
  qed
qed

text \<open>What the loop writes for each token of the source.\<close>

definition mirror_at :: "jsstr \<Rightarrow> nat \<Rightarrow> jsstr" where
  "mirror_at src i = mirror_from src i i"

fun mirror_token :: "token \<Rightarrow> token" where
  "mirror_token (TNum l) = TStr l"
| "mirror_token t = t"

lemma mirror_at_other:
  assumes "drop i src = c # r" and "c \<noteq> uQUOTE" and "\<not> number_start c"
  shows "mirror_at src i = c # mirror_at src (i + 1)"
proof -
  have i: "i < length src" using assms(1) by (cases "i < length src") auto
  have c: "src ! i = c" using assms(1) by (rule nth_via_drop)
  have "number_lexeme (drop i src) = None"
    using number_lexeme_start assms(1,3) by (cases "number_lexeme (drop i src)") auto
  then have "mirror_at src i = mirror_from src i (i + 1)"
    unfolding mirror_at_def using i c assms(2) by (intro mirror_from_other) auto
  also have "\<dots> = take 1 (drop i src) @ mirror_from src (i + 1) (i + 1)"
    using mirror_from_copied [of i "i + 1" src] i by simp
  finally show ?thesis using assms(1) by (simp add: mirror_at_def)
qed

lemma drop_Cons_Suc: "drop i src = c # r \<Longrightarrow> drop (i + 1) src = r"
  by (metis Suc_eq_plus1 drop_Suc list.sel(3) tl_drop)

lemma mirror_at_others:
  assumes "drop i src = u @ r" and "uQUOTE \<notin> set u" and "list_all (\<lambda>c. \<not> number_start c) u"
  shows "mirror_at src i = u @ mirror_at src (i + length u)"
  using assms
proof (induction u arbitrary: i)
  case (Cons c u)
  then have "mirror_at src i = c # mirror_at src (i + 1)"
    by (intro mirror_at_other) auto
  moreover have "mirror_at src (i + 1) = u @ mirror_at src (i + 1 + length u)"
    using Cons drop_Cons_Suc [of i src c "u @ r"] by (intro Cons.IH) auto
  ultimately show ?case by simp
qed simp

lemma mirror_at_number:
  assumes "drop i src = c # r" and "c \<noteq> uQUOTE" and "number_lexeme (c # r) = Some l"
  shows "mirror_at src i = json_quote l @ mirror_at src (i + length l)"
proof -
  have "i < length src" "src ! i = c"
    using assms(1) by (cases "i < length src", auto) (rule nth_via_drop)
  then show ?thesis using assms by (simp add: mirror_at_def mirror_from_number)
qed

lemma mirror_at_string:
  assumes "drop i src = uQUOTE # r" and "scan_string r = Some (t, r')"
  shows "\<exists>j w. mirror_at src i = uQUOTE # w @ mirror_at src j \<and> drop j src = r'
    \<and> i < j \<and> r = w @ r' \<and> (\<forall>s. scan_string (w @ s) = Some (t, s))"
proof -
  have i: "i < length src" "src ! i = uQUOTE"
    using assms(1) by (cases "i < length src", auto) (rule nth_via_drop)
  have r: "drop (Suc i) src = r" using drop_Cons_Suc [OF assms(1)] by simp
  obtain w where w: "r = w @ uQUOTE # r'" "escaped w"
    and loc: "\<And>u. scan_string (w @ uQUOTE # u) = Some (t, u)"
    using scan_string_escaped [OF assms(2)] by blast
  define j where "j = Suc i + length w + 1"
  have e: "string_end src (i + 1) = j" and d: "drop j src = r'"
    using string_end_scan [OF i _ w(2), of r'] r w(1) by (simp_all add: j_def)
  have j: "j \<le> length src" using quote_at_le [of src "i + 1"] e i by simp
  have "mirror_at src i = mirror_from src i j"
    unfolding mirror_at_def using mirror_from_string [OF i] e by simp
  also have "\<dots> = take (j - i) (drop i src) @ mirror_at src j"
    using mirror_from_copied [of i j src] j by (simp add: j_def mirror_at_def)
  also have "take (j - i) (drop i src) = uQUOTE # w @ [uQUOTE]"
    using assms(1) w(1) by (simp add: j_def)
  finally have "mirror_at src i = uQUOTE # (w @ [uQUOTE]) @ mirror_at src j" by simp
  moreover have "\<forall>s. scan_string ((w @ [uQUOTE]) @ s) = Some (t, s)"
    using loc by simp
  ultimately show ?thesis
    using d w(1) by (intro exI [of _ j] exI [of _ "w @ [uQUOTE]"]) (simp add: j_def)
qed

lemma mirror_token_other: "(\<And>l. t \<noteq> TNum l) \<Longrightarrow> mirror_token t = t"
  by (cases t) auto

lemma map_option_comp2: "map_option f (map_option g m) = map_option (\<lambda>x. f (g x)) m"
  by (simp add: option.map_comp comp_def)

lemma word_split: "starts_with s p \<Longrightarrow> p @ drop (length p) s = s"
  unfolding starts_with_def by (metis append_take_drop_id)

lemma word_length: "length word_null = 4" "length word_true = 4" "length word_false = 5"
  by (simp_all add: word_null_def word_true_def word_false_def)

lemma keyword_Some:
  assumes "keyword s = Some (t, n)"
  obtains u where "s = u @ drop n s" "length u = n" "t \<in> {TNull, TBool True, TBool False}"
    "\<And>r. tokens (u @ r) = map_option ((#) t) (tokens r)" "uQUOTE \<notin> set u"
    "list_all (\<lambda>c. \<not> number_start c) u"
proof -
  consider "s = word_null @ drop n s" "t = TNull" "n = 4"
    | "s = word_true @ drop n s" "t = TBool True" "n = 4"
    | "s = word_false @ drop n s" "t = TBool False" "n = 5"
    using assms word_split [of s word_null] word_split [of s word_true] word_split [of s word_false]
    by (auto simp: keyword_def word_length split: if_splits)
  then show thesis
  proof cases
    case 1
    show thesis
      by (rule that [of word_null])
        (use 1 in \<open>simp_all add: tokens_word\<close>, simp_all add: word_null_def number_start_def char_class_defs)
  next
    case 2
    show thesis
      by (rule that [of word_true])
        (use 2 in \<open>simp_all add: tokens_word\<close>, simp_all add: word_true_def number_start_def char_class_defs)
  next
    case 3
    show thesis
      by (rule that [of word_false])
        (use 3 in \<open>simp_all add: tokens_word\<close>, simp_all add: word_false_def number_start_def char_class_defs)
  qed
qed

lemma tokens_mirror_at:
  "drop i src = s \<Longrightarrow> tokens s = Some ts \<Longrightarrow> tokens (mirror_at src i) = Some (map mirror_token ts)"
proof (induction s arbitrary: i ts rule: tokens.induct)
  case 1
  then show ?case by (simp add: mirror_at_def mirror_from_end)
next
  case (2 c r)
  obtain hd_ts r' us where l: "lex_one c r = Some (hd_ts, r')" and us: "tokens r' = Some us"
    and ts: "ts = hd_ts @ us"
    using 2(3) by (auto split: option.splits)
  note IH = 2(1) [OF l refl, of _ us]
  consider (space) "json_space c" | (punct) t where "\<not> json_space c" "punct c = Some t"
    | (str) "\<not> json_space c" "punct c = None" "c = uQUOTE"
    | (num) n where "\<not> json_space c" "punct c = None" "c \<noteq> uQUOTE" "number_lexeme (c # r) = Some n"
    | (word) "\<not> json_space c" "punct c = None" "c \<noteq> uQUOTE" "number_lexeme (c # r) = None"
    by (cases "punct c"; cases "number_lexeme (c # r)") blast+
  then show ?case
  proof cases
    case space
    then have "c \<noteq> uQUOTE \<and> \<not> number_start c" using number_start_plain by (auto simp: json_space_def)
    then have "mirror_at src i = c # mirror_at src (i + 1)" using 2(2) by (intro mirror_at_other) auto
    moreover have "hd_ts = []" "r' = r" using l space by (simp_all add: lex_one_def)
    ultimately show ?thesis
      using IH drop_Cons_Suc [OF 2(2)] us ts space by (simp add: lex_one_def)
  next
    case punct
    then have "c \<noteq> uQUOTE \<and> \<not> number_start c"
      using number_start_plain [of c] by (auto simp: punct_def)
    then have "mirror_at src i = c # mirror_at src (i + 1)" using 2(2) by (intro mirror_at_other) auto
    moreover have h: "hd_ts = [t]" "r' = r" using l punct by (simp_all add: lex_one_def)
    moreover have "mirror_token t = t"
      using punct(2) by (auto simp: punct_def split: if_splits)
    ultimately show ?thesis
      using IH drop_Cons_Suc [OF 2(2)] us ts punct by (simp add: tokens_punct del: tokens.simps)
  next
    case str
    then obtain t where t: "scan_string r = Some (t, r')" "hd_ts = [TStr t]"
      using l by (auto simp: lex_one_def)
    obtain j w where w: "mirror_at src i = uQUOTE # w @ mirror_at src j" "drop j src = r'"
      "\<And>s. scan_string (w @ s) = Some (t, s)"
      using mirror_at_string [of i src r t r'] 2(2) t(1) str(3) by blast
    have "tokens (uQUOTE # w @ mirror_at src j) = map_option ((#) (TStr t)) (tokens (mirror_at src j))"
      by (simp add: lex_one_def json_space_def punct_def w(3) append_sections)
    then show ?thesis using IH [OF w(2) us] w(1) ts t(2) by simp
  next
    case num
    have h: "hd_ts = [TNum n]" "r' = drop (length n) (c # r)" using l num by (simp_all add: lex_one_def)
    have "mirror_at src i = json_quote n @ mirror_at src (i + length n)"
      using 2(2) num by (intro mirror_at_number) auto
    moreover have "drop (i + length n) src = r'" using 2(2) h(2) by (metis add.commute drop_drop)
    ultimately show ?thesis
      using IH us ts h(1) by (simp add: tokens_quote del: tokens.simps)
  next
    case word
    then obtain t n where k: "keyword (c # r) = Some (t, n)" "hd_ts = [t]" "r' = drop n (c # r)"
      using l by (auto simp: lex_one_def)
    obtain u where u: "c # r = u @ r'" "length u = n" "t \<in> {TNull, TBool True, TBool False}"
      "\<And>r. tokens (u @ r) = map_option ((#) t) (tokens r)" "uQUOTE \<notin> set u"
      "list_all (\<lambda>c. \<not> number_start c) u"
      using keyword_Some [OF k(1)] k(3) by metis
    have "mirror_at src i = u @ mirror_at src (i + n)"
      using mirror_at_others [of i src u r'] 2(2) u by simp
    moreover have "drop (i + n) src = r'" using 2(2) k(3) by (metis add.commute drop_drop)
    moreover have "mirror_token t = t" using u(3) by auto
    ultimately show ?thesis using IH us ts k(2) u(4) by simp
  qed
qed

lemma tokens_numericMirror:
  "tokens s = Some ts \<Longrightarrow> tokens (numericMirror s) = Some (map mirror_token ts)"
  using tokens_mirror_at [of 0 s] by (simp add: mirror_at_def numericMirror_def)

subsection \<open>The tree of the mirror\<close>

fun mirror_tree :: "jtree \<Rightarrow> jtree" where
  "mirror_tree (NumT l) = StrT l"
| "mirror_tree (ArrT vs) = ArrT (map mirror_tree vs)"
| "mirror_tree (ObjT ms) = ObjT (map (\<lambda>(k, v). (k, mirror_tree v)) ms)"
| "mirror_tree t = t"

fun mirror_frame :: "frame \<Rightarrow> frame" where
  "mirror_frame (InArr vs) = InArr (map mirror_tree vs)"
| "mirror_frame (InObj ms k) = InObj (map (\<lambda>(k, v). (k, mirror_tree v)) ms) k"

fun mirror_expects :: "expects \<Rightarrow> expects" where
  "mirror_expects (After v) = After (mirror_tree v)"
| "mirror_expects e = e"

definition mirror_state :: "expects \<times> frame list \<Rightarrow> expects \<times> frame list" where
  "mirror_state = (\<lambda>(e, st). (mirror_expects e, map mirror_frame st))"

lemma start_value_mirror:
  "start_value t st = Some s \<Longrightarrow>
     start_value (mirror_token t) (map mirror_frame st) = Some (mirror_state s)"
  by (cases t) (auto simp: start_value_def mirror_state_def)

lemma take_key_mirror:
  "take_key t st = Some s \<Longrightarrow> take_key (mirror_token t) (map mirror_frame st) = Some (mirror_state s)"
  by (auto simp: take_key_def mirror_state_def split: token.splits list.splits frame.splits)

lemma mirror_token_eq [simp]:
  "mirror_token t = TRBracket \<longleftrightarrow> t = TRBracket" "mirror_token t = TRBrace \<longleftrightarrow> t = TRBrace"
  "mirror_token t = TColon \<longleftrightarrow> t = TColon" "mirror_token t = TComma \<longleftrightarrow> t = TComma"
  by (cases t; simp)+

lemma parse_step_mirror:
  "parse_step t s = Some s' \<Longrightarrow> parse_step (mirror_token t) (mirror_state s) = Some (mirror_state s')"
  by (induction t s rule: parse_step.induct)
    (auto simp: mirror_state_def map_tl start_value_mirror [unfolded mirror_state_def]
      take_key_mirror [unfolded mirror_state_def] split: if_splits)

lemma parse_run_mirror:
  "parse_run ts s = Some s' \<Longrightarrow>
     parse_run (map mirror_token ts) (mirror_state s) = Some (mirror_state s')"
proof (induction ts arbitrary: s)
  case (Cons t ts)
  then obtain s1 where "parse_step t s = Some s1" "parse_run ts s1 = Some s'"
    by (auto split: option.splits)
  then show ?case using Cons.IH [of s1] parse_step_mirror [of t s s1] by simp
qed simp

lemma parse_tree_Some:
  "parse_tree s = Some t \<longleftrightarrow>
     (\<exists>ts. tokens s = Some ts \<and> parse_run ts (Value, []) = Some (After t, []))"
  by (auto simp: parse_tree_def parse_tokens_def split: option.splits prod.splits list.splits
      expects.splits)

lemma parse_tree_mirror:
  assumes "parse_tree s = Some t"
  shows "parse_tree (numericMirror s) = Some (mirror_tree t)"
proof -
  obtain ts where "tokens s = Some ts" "parse_run ts (Value, []) = Some (After t, [])"
    using assms parse_tree_Some by blast
  then have "tokens (numericMirror s) = Some (map mirror_token ts)"
    "parse_run (map mirror_token ts) (Value, []) = Some (After (mirror_tree t), [])"
    using tokens_numericMirror parse_run_mirror [of ts "(Value, [])"]
    by (auto simp: mirror_state_def)
  then show ?thesis using parse_tree_Some by blast
qed

subsection \<open>What the walk visits\<close>

fun finite_numbers :: "json \<Rightarrow> bool" where
  "finite_numbers (JNum x) \<longleftrightarrow> num_is_finite x"
| "finite_numbers (JArr vs) \<longleftrightarrow> list_all finite_numbers vs"
| "finite_numbers (JObj ms) \<longleftrightarrow> list_all (\<lambda>(k, v). finite_numbers v) ms"
| "finite_numbers _ \<longleftrightarrow> True"

abbreviation finite_children :: "(jsstr \<times> json) list \<Rightarrow> bool" where
  "finite_children \<equiv> list_all (\<lambda>(k, v). finite_numbers v)"

lemma visited_finite_simps [simp]:
  "visited_finite []" "visited_finite (a @ b) \<longleftrightarrow> visited_finite a \<and> visited_finite b"
  by (simp_all add: visited_finite_def)

lemma entries_finite:
  "finite_numbers v \<longleftrightarrow> visited_finite (number_event b v m) \<and> (is_container v \<longrightarrow> finite_children (entries v))"
proof (cases v)
  case (JArr vs)
  have "finite_children (zip (map dec_string [0..<length vs]) vs) \<longleftrightarrow> list_all finite_numbers vs"
    by (simp add: list_all_length)
  with JArr show ?thesis by simp
qed (auto simp: visited_finite_def)

lemma visit_frames_finite:
  "visited_finite (visit_frames fs) \<longleftrightarrow> list_all (\<lambda>(es, m). finite_children es) fs"
proof (induction fs rule: visit_frames.induct)
  case (3 k c es m fs)
  then show ?case
    using entries_finite [of c True "case m of None \<Rightarrow> None | Some mv \<Rightarrow> js_get mv k"]
    by (simp add: Let_def push_frame_def)
qed auto

lemma visitJson_finite: "visited_finite (visitJson v m) \<longleftrightarrow> finite_numbers v"
  using entries_finite [of v False m]
  by (simp add: visitJson_def visit_frames_finite push_frame_def)

lemma assertFiniteNumbers_None: "assertFiniteNumbers v n = None \<longleftrightarrow> finite_numbers v"
  by (simp add: assertFiniteNumbers_def visitJson_finite)

lemma decodeProtocolValue_Inr:
  "decodeProtocolValue v validator n = Inr w \<longleftrightarrow> w = fst v \<and> finite_numbers (fst v) \<and> validator v"
  using assertFiniteNumbers_None [of "fst v" n]
  by (cases "assertFiniteNumbers (fst v) n") (auto simp: decodeProtocolValue_def)

lemma decodeProtocolValue_Inl:
  "decodeProtocolValue v validator n = Inl e \<Longrightarrow> is_protocol_validation e"
  by (auto simp: decodeProtocolValue_def assertFiniteNumbers_def split: if_splits)

text \<open>The parser, said without the mirror text and the walk.\<close>

lemma parseProtocolJson_tree:
  "parseProtocolJson source n =
     (case parse_tree source of
        None \<Rightarrow> Inl (ProtocolValidationError n)
      | Some t \<Rightarrow>
          if finite_numbers (json_of t) then Inr (json_of t, Some (json_of (mirror_tree t)))
          else Inl (ProtocolValidationError (n @ ''.number'')))"
proof (cases "parse_tree source")
  case None
  then show ?thesis by (simp add: parseProtocolJson_def json_parse_def split: option.splits)
next
  case (Some t)
  then show ?thesis
    by (simp add: parseProtocolJson_def json_parse_def parse_tree_mirror visitJson_finite)
qed

lemma parseProtocolJson_Inl: "parseProtocolJson source n = Inl e \<Longrightarrow> is_protocol_validation e"
  by (auto simp: parseProtocolJson_tree split: option.splits if_splits)

subsection \<open>Numerals found through the mirror\<close>

lemma set_member_map:
  "set_member k (f v) (map (\<lambda>(k, v). (k, f v)) ms) = map (\<lambda>(k, v). (k, f v)) (set_member k v ms)"
  by (induction ms) auto

lemma insort_key_map:
  "insort_key f (g x) (map g xs) = map g (insort_key (\<lambda>y. f (g y)) x xs)"
  by (induction xs) auto

lemma sort_key_map: "sort_key f (map g xs) = map g (sort_key (\<lambda>y. f (g y)) xs)"
  by (induction xs) (simp_all add: insort_key_map)

lemma own_members_map:
  "own_members (map (\<lambda>(k, v). (k, f v)) ms) = map (\<lambda>(k, v). (k, f v)) (own_members ms)"
proof -
  have d: "foldl (\<lambda>acc (k, v). set_member k v acc) (map (\<lambda>(k, v). (k, f v)) acc) (map (\<lambda>(k, v). (k, f v)) ms)
      = map (\<lambda>(k, v). (k, f v)) (foldl (\<lambda>acc (k, v). set_member k v acc) acc ms)" for acc
    by (induction ms arbitrary: acc) (auto simp: set_member_map)
  show ?thesis
    using d [of "[]"]
    by (simp add: own_members_def Let_def filter_map comp_def split_def sort_key_map)
qed

text \<open>At every place of a parsed document where there is a number, the mirror has the numeral that
  number was read from.\<close>

fun lexemes_match :: "json \<Rightarrow> json \<Rightarrow> bool" where
  "lexemes_match (JNum x) m \<longleftrightarrow> (\<exists>l. m = JStr l \<and> x = number_of l)"
| "lexemes_match (JArr vs) m \<longleftrightarrow> (\<exists>us. m = JArr us \<and> list_all2 lexemes_match vs us)"
| "lexemes_match (JObj ms) m \<longleftrightarrow>
     (\<exists>ns. m = JObj ns \<and> list_all2 (\<lambda>(k, v) (k', u). k = k' \<and> lexemes_match v u) ms ns)"
| "lexemes_match v m \<longleftrightarrow> m = v"

lemma own_members_set: "set (own_members ms) \<subseteq> set ms"
proof -
  have one: "set (set_member k v acc) \<subseteq> insert (k, v) (set acc)" for k and v :: 'a and acc
    by (induction acc) (auto split: if_splits)
  have "set (foldl (\<lambda>acc (k, v). set_member k v acc) acc ms) \<subseteq> set acc \<union> set ms" for acc
  proof (induction ms arbitrary: acc)
    case (Cons m ms)
    obtain k v where m: "m = (k, v)" by force
    show ?case using Cons [of "set_member k v acc"] one [of k v acc] by (auto simp: m)
  qed simp
  from this [of "[]"] show ?thesis by (auto simp: own_members_def Let_def)
qed

text \<open>Being in the order of the own keys is a property of the keys.\<close>

lemma own_members_keys:
  assumes k: "map fst ms = map fst ns" and d: "distinct (map fst ms)" and "own_members ms = ms"
  shows "own_members ns = ns"
proof -
  have c: "map (\<lambda>(k, v). (k, ())) xs = map (\<lambda>k. (k, ())) (map fst xs)" for xs :: "(jsstr \<times> 'c) list"
    by (simp add: split_def)
  have "map (\<lambda>(k, v). (k, ())) (own_members ns) = own_members (map (\<lambda>(k, v). (k, ())) ns)"
    by (simp add: own_members_map)
  also have "\<dots> = map (\<lambda>(k, v). (k, ())) (own_members ms)"
    using own_members_map [of "\<lambda>_. ()" ms] by (simp add: c k)
  finally have e: "map (\<lambda>k. (k, ())) (map fst (own_members ns)) = map (\<lambda>k. (k, ())) (map fst ns)"
    unfolding c by (simp only: assms(3) k)
  have "map fst (map (\<lambda>k. (k, ())) xs) = xs" for xs :: "jsstr list" by (simp add: comp_def)
  then have keys: "map fst (own_members ns) = map fst ns" using e by metis
  then have "own_members ns ! i = ns ! i" if "i < length ns" for i
  proof -
    have "i < length (own_members ns)" using that keys by (metis length_map)
    then have "own_members ns ! i \<in> set ns" using own_members_set by force
    moreover have "fst (own_members ns ! i) = fst (ns ! i)"
      using keys that by (metis \<open>i < length (own_members ns)\<close> nth_map)
    moreover have "ns ! i \<in> set ns" using that by simp
    ultimately show ?thesis
      using d k by (metis eq_key_imp_eq_value prod.collapse)
  qed
  moreover have "length (own_members ns) = length ns"
    using keys by (metis length_map)
  ultimately show ?thesis by (intro nth_equalityI) auto
qed

lemma lexemes_match_tree: "lexemes_match (json_of t) (json_of (mirror_tree t))"
proof (induction t)
  case (ArrT vs)
  then show ?case by (auto simp: list_all2_conv_all_nth)
next
  case (ObjT ms)
  let ?ds = "own_members ms"
  have "list_all2 (\<lambda>(k, v) (k', u). k = k' \<and> lexemes_match v u)
      (map (\<lambda>(k, v). (k, json_of v)) ?ds) (map (\<lambda>(k, v). (k, json_of (mirror_tree v))) ?ds)"
    using own_members_set [of ms] ObjT
    by (fastforce simp: list_all2_map1 list_all2_map2 list_all2_same)
  moreover have "map (\<lambda>(k, v). (k, json_of v)) (map (\<lambda>(k, v). (k, mirror_tree v)) ms) =
      map (\<lambda>(k, v). (k, json_of (mirror_tree v))) ms"
    by auto
  ultimately show ?case
    by (simp add: own_members_map [of json_of] own_members_map [of "\<lambda>v. json_of (mirror_tree v)"]
        del: map_map)
qed auto

subsection \<open>The numerals of a text\<close>

text \<open>The numerals of a syntax tree in the order they are written, and texts that have given pieces one
  after the other.\<close>

fun tree_numerals :: "jtree \<Rightarrow> jsstr list" where
  "tree_numerals (NumT l) = [l]"
| "tree_numerals (ArrT vs) = concat (map tree_numerals vs)"
| "tree_numerals (ObjT ms) = concat (map (\<lambda>(k, v). tree_numerals v) ms)"
| "tree_numerals t = []"

fun occur_in_order :: "jsstr list \<Rightarrow> jsstr \<Rightarrow> bool" where
  "occur_in_order [] s = True"
| "occur_in_order (l # ls) s = (\<exists>a b. s = a @ l @ b \<and> occur_in_order ls b)"

lemma occur_in_order_prefix: "occur_in_order ls s \<Longrightarrow> occur_in_order ls (u @ s)"
  by (cases ls) (auto, metis append_assoc)

definition token_numerals :: "token list \<Rightarrow> jsstr list" where
  "token_numerals ts = concat (map (\<lambda>t. case t of TNum l \<Rightarrow> [l] | _ \<Rightarrow> []) ts)"

lemma token_numerals_simps [simp]:
  "token_numerals [] = []" "token_numerals (TNum l # ts) = l # token_numerals ts"
  "(\<And>l. t \<noteq> TNum l) \<Longrightarrow> token_numerals (t # ts) = token_numerals ts"
  "token_numerals (us @ ts) = token_numerals us @ token_numerals ts"
  by (auto simp: token_numerals_def split: token.splits)

lemma lex_one_parts:
  assumes "lex_one c r = Some (ts, r')"
  shows "\<exists>u. c # r = u @ r' \<and> (token_numerals ts = [] \<or> token_numerals ts = [u])"
proof -
  consider (space) "json_space c" | (punct) t where "\<not> json_space c" "punct c = Some t"
    | (str) "\<not> json_space c" "punct c = None" "c = uQUOTE"
    | (num) n where "\<not> json_space c" "punct c = None" "c \<noteq> uQUOTE" "number_lexeme (c # r) = Some n"
    | (word) "\<not> json_space c" "punct c = None" "c \<noteq> uQUOTE" "number_lexeme (c # r) = None"
    by (cases "punct c"; cases "number_lexeme (c # r)") blast+
  then show ?thesis
  proof cases
    case space
    with assms show ?thesis by (auto simp: lex_one_def)
  next
    case punct
    with assms show ?thesis by (auto simp: lex_one_def punct_def split: if_splits)
  next
    case str
    with assms obtain t where "scan_string r = Some (t, r')" "ts = [TStr t]" by (auto simp: lex_one_def)
    with scan_string_escaped [of r t r'] obtain w where "r = w @ uQUOTE # r'" by blast
    then have "c # r = (c # w @ [uQUOTE]) @ r'" by simp
    with \<open>ts = [TStr t]\<close> show ?thesis by (intro exI [of _ "c # w @ [uQUOTE]"]) simp
  next
    case num
    with assms number_lexeme_prefix [OF num(4)] show ?thesis by (auto simp: lex_one_def)
  next
    case word
    with assms obtain t n where k: "keyword (c # r) = Some (t, n)" "ts = [t]" "r' = drop n (c # r)"
      by (auto simp: lex_one_def)
    obtain u where u: "c # r = u @ r'" "t \<in> {TNull, TBool True, TBool False}" using keyword_Some [OF k(1)] k(3) by metis
    then have "token_numerals ts = []" using k(2) by auto
    with u(1) show ?thesis by blast
  qed
qed

lemma tokens_occur: "tokens s = Some ts \<Longrightarrow> occur_in_order (token_numerals ts) s"
proof (induction s arbitrary: ts rule: tokens.induct)
  case (2 c r)
  then obtain hd_ts r' us where l: "lex_one c r = Some (hd_ts, r')" "tokens r' = Some us" "ts = hd_ts @ us"
    by (auto split: option.splits)
  then have "occur_in_order (token_numerals us) r'" using 2(1) [OF l(1) refl] by blast
  with lex_one_parts [OF l(1)] l(3) show ?case
    by (auto intro: occur_in_order_prefix) (metis append_Nil)
qed simp

fun frame_numerals :: "frame \<Rightarrow> jsstr list" where
  "frame_numerals (InArr vs) = concat (map tree_numerals vs)"
| "frame_numerals (InObj ms k) = concat (map (\<lambda>(k, v). tree_numerals v) ms)"

definition state_numerals :: "expects \<times> frame list \<Rightarrow> jsstr list" where
  "state_numerals s = concat (rev (map frame_numerals (snd s))) @
     (case fst s of After v \<Rightarrow> tree_numerals v | _ \<Rightarrow> [])"

definition opened :: "expects \<times> frame list \<Rightarrow> bool" where
  "opened s \<longleftrightarrow> (fst s = ItemOrEnd \<or> fst s = KeyOrEnd \<longrightarrow> snd s \<noteq> [] \<and> frame_numerals (hd (snd s)) = [])"

lemma start_value_numerals:
  "start_value t st = Some s \<Longrightarrow>
     state_numerals s = concat (rev (map frame_numerals st)) @ token_numerals [t] \<and> opened s"
  by (cases t) (auto simp: start_value_def state_numerals_def opened_def)

lemma take_key_numerals:
  "take_key t st = Some s \<Longrightarrow>
     state_numerals s = concat (rev (map frame_numerals st)) @ token_numerals [t] \<and> opened s"
  by (auto simp: take_key_def state_numerals_def opened_def split: token.splits list.splits frame.splits)

lemma parse_step_numerals:
  "parse_step t s = Some s' \<Longrightarrow> opened s \<Longrightarrow>
     state_numerals s' = state_numerals s @ token_numerals [t] \<and> opened s'"
proof (induction t s rule: parse_step.induct)
  case (2 t st)
  then show ?case
    by (cases st) (auto simp: state_numerals_def opened_def split: if_splits dest: start_value_numerals)
next
  case (3 t st)
  then show ?case
    by (cases st) (auto simp: state_numerals_def opened_def split: if_splits dest: take_key_numerals)
qed (auto simp: state_numerals_def opened_def split: if_splits dest: start_value_numerals take_key_numerals)

lemma parse_run_numerals:
  "parse_run ts s = Some s' \<Longrightarrow> opened s \<Longrightarrow> state_numerals s' = state_numerals s @ token_numerals ts"
proof (induction ts arbitrary: s)
  case (Cons t ts)
  then obtain s1 where s1: "parse_step t s = Some s1" "parse_run ts s1 = Some s'"
    by (auto split: option.splits)
  from parse_step_numerals [OF s1(1) Cons(3)] Cons(1) [OF s1(2)] show ?case
    using token_numerals_simps(4) [of "[t]" ts] by simp
qed simp

lemma tree_numerals_written:
  assumes "parse_tree s = Some t"
  shows "occur_in_order (tree_numerals t) s"
proof -
  obtain ts where ts: "tokens s = Some ts" "parse_run ts (Value, []) = Some (After t, [])"
    using assms parse_tree_Some by blast
  have "tree_numerals t = token_numerals ts"
    using parse_run_numerals [OF ts(2)] by (simp add: opened_def state_numerals_def)
  with tokens_occur [OF ts(1)] show ?thesis by simp
qed

text \<open>The value at a path of member names (array indices included), and the numeral at the same path.\<close>

fun at_path :: "json \<Rightarrow> jsstr list \<Rightarrow> json option" where
  "at_path v [] = Some v"
| "at_path v (k # ks) = (case js_get v k of None \<Rightarrow> None | Some c \<Rightarrow> at_path c ks)"

lemma js_get_tree:
  assumes "js_get (json_of t) k = Some c"
  obtains t' where "c = json_of t'" and "js_get (json_of (mirror_tree t)) k = Some (json_of (mirror_tree t'))"
    and "set (tree_numerals t') \<subseteq> set (tree_numerals t)"
proof (cases t)
  case (ArrT vs)
  then obtain i where i: "k = dec_string i" "i < length vs" "c = json_of (vs ! i)"
    using assms by (auto simp: js_get_def set_zip dest!: map_of_SomeD)
  have "distinct (map dec_string [0..<length vs])" by (simp add: distinct_map inj_on_def dec_string_inject)
  then have "js_get (json_of (mirror_tree t)) k = Some (json_of (mirror_tree (vs ! i)))"
    using i ArrT by (auto simp: js_get_def set_zip intro!: map_of_is_SomeI exI [of _ i])
  moreover have "vs ! i \<in> set vs" using i(2) by simp
  then have "set (tree_numerals (vs ! i)) \<subseteq> set (tree_numerals t)" using ArrT by auto
  ultimately show thesis using that i(3) by blast
next
  case (ObjT ms)
  have m: "map_of (map (\<lambda>(k, v). (k, f v)) xs) k = map_option f (map_of xs k)" for f :: "jtree \<Rightarrow> json" and xs
    by (induction xs) auto
  have c: "map (\<lambda>(k, v). (k, json_of v)) (map (\<lambda>(k, v). (k, mirror_tree v)) ms) =
      map (\<lambda>(k, v). (k, json_of (mirror_tree v))) ms" by auto
  obtain t' where t': "map_of (own_members ms) k = Some t'" "c = json_of t'"
    using assms ObjT by (auto simp: js_get_def own_members_map m)
  then have "(k, t') \<in> set ms" using own_members_set map_of_SomeD by fastforce
  then have "set (tree_numerals t') \<subseteq> set (tree_numerals t)" using ObjT by force
  moreover have "js_get (json_of (mirror_tree t)) k = Some (json_of (mirror_tree t'))"
    using ObjT t'(1) by (simp add: js_get_def c own_members_map [of "\<lambda>v. json_of (mirror_tree v)"] m del: map_map)
  ultimately show thesis using that t'(2) by blast
qed (use assms in \<open>auto simp: js_get_def\<close>)

lemma at_path_tree:
  assumes "at_path (json_of t) ks = Some c"
  obtains t' where "c = json_of t'" and "at_path (json_of (mirror_tree t)) ks = Some (json_of (mirror_tree t'))"
    and "set (tree_numerals t') \<subseteq> set (tree_numerals t)"
  using assms
proof (induction ks arbitrary: t thesis)
  case (Cons k ks)
  from Cons(3) obtain d where d: "js_get (json_of t) k = Some d" "at_path d ks = Some c"
    by (auto split: option.splits)
  obtain t1 where t1: "d = json_of t1" "js_get (json_of (mirror_tree t)) k = Some (json_of (mirror_tree t1))"
    "set (tree_numerals t1) \<subseteq> set (tree_numerals t)" using js_get_tree [OF d(1)] by blast
  from d(2) t1(1) have "at_path (json_of t1) ks = Some c" by simp
  from Cons(1) [OF _ this] obtain t2 where "c = json_of t2"
    "at_path (json_of (mirror_tree t1)) ks = Some (json_of (mirror_tree t2))"
    "set (tree_numerals t2) \<subseteq> set (tree_numerals t1)" by blast
  with t1 show ?case by (intro Cons(2) [of t2]) auto
qed auto

lemma at_path_numeral:
  assumes "at_path (json_of t) ks = Some (JNum x)"
  obtains l where "at_path (json_of (mirror_tree t)) ks = Some (JStr l)" and "l \<in> set (tree_numerals t)"
    and "x = number_of l"
proof -
  obtain t' where t': "JNum x = json_of t'" "at_path (json_of (mirror_tree t)) ks = Some (json_of (mirror_tree t'))"
    "set (tree_numerals t') \<subseteq> set (tree_numerals t)" using at_path_tree [OF assms] by blast
  with that show thesis by (cases t') auto
qed

section \<open>Properties\<close>

text \<open>C13: \<^verbatim>\<open>parseProtocolJson\<close> is \<^verbatim>\<open>JSON.parse\<close> with a record of the numerals: it
  fails exactly on texts that are no JSON and on values with a number that overflows, and otherwise
  returns the value \<^verbatim>\<open>JSON.parse\<close> gives for the syntax tree of the text together with a
  mirror of that tree that has, at the place of every number, its numeral as a string; the numerals of
  the tree occur, unit for unit and in this order, in the source. Duplicate members and the reordering
  of keys are included. The mirror text, whose strings are found by counting backslashes, and the
  explicit stack of the walk are in the definition.\<close>

theorem protocol_json_keeps_numerals:
  "case parse_tree source of
     None \<Rightarrow> json_parse source = None \<and> parseProtocolJson source n = Inl (ProtocolValidationError n)
   | Some t \<Rightarrow>
       json_parse source = Some (json_of t) \<and> occur_in_order (tree_numerals t) source \<and>
       (if finite_numbers (json_of t)
        then parseProtocolJson source n = Inr (json_of t, Some (json_of (mirror_tree t))) \<and>
          lexemes_match (json_of t) (json_of (mirror_tree t))
        else parseProtocolJson source n = Inl (ProtocolValidationError (n @ ''.number'')))"
  using lexemes_match_tree tree_numerals_written [of source]
  by (cases "parse_tree source") (auto simp: parseProtocolJson_tree json_parse_def)

text \<open>The integer test of the schema validators is exact although it works on the digits of
  the numeral with a bound of 309 places: for every numeral that reads as a finite double, the
  test passes exactly when the numeral's exact rational value is an integer and the double has
  not changed it.\<close>

theorem exact_integer_test:
  assumes "num_is_finite (number_of l)"
  shows "isExactJsonInteger (number_of l) (Some l) \<longleftrightarrow>
    (\<exists>n. lexeme_value l = Some (of_int n) \<and> number_of l = num_of_int n)"
  using assms by (rule isExactJsonInteger_exact)

theorem exact_integer_test_witness:
  "isExactJsonInteger (number_of (int_string 12)) (Some (int_string 12))"
  using exact_integer_test [of "int_string 12"] lexeme_value_int [of 12] number_of_int [of 12]
  by (simp add: num_of_int_def)

end
