(* ===== verification/RequestSnapshot.thy ===== *)
theory RequestSnapshot
  imports ProtocolJson
begin

text \<open>
  \<^verbatim>\<open>http/json-request-snapshot.ts\<close>: the copy of a caller's value that is validated and sent.
  The caller's objects live in a heap and are seen through the reflection the code uses: their
  prototype, their own keys in order and the descriptor of each. The copy is a JSON value
  together with its text; anything that a JSON text cannot hold without loss is refused, cycles
  included.
\<close>

section \<open>Objects as reflection shows them\<close>

datatype jsval =
    VUndefined
  | VNull
  | VBool bool
  | VNum jsnum
  | VStr jsstr
  | VOther
  | VObj nat

datatype prop_key = KStr jsstr | KSym nat

datatype descriptor = DataProp bool jsval | AccessorProp bool

datatype prototype = ObjectProto | ArrayProto | NoProto | OtherProto

record js_object =
  o_array :: bool
  o_proto :: prototype
  o_props :: "(prop_key \<times> descriptor) list"

type_synonym heap = "js_object list"

definition length_key :: prop_key where
  "length_key = KStr [108, 101, 110, 103, 116, 104]"

text \<open>The \<^verbatim>\<open>length\<close> an array has, when its descriptor is a non-negative integer.\<close>

definition array_length :: "js_object \<Rightarrow> nat option" where
  "array_length ob =
     (case map_of (o_props ob) length_key of
        Some (DataProp _ (VNum x)) \<Rightarrow>
          (case num_integer x of Some n \<Rightarrow> if 0 \<le> n then Some (nat n) else None | None \<Rightarrow> None)
      | _ \<Rightarrow> None)"

text \<open>\<^verbatim>\<open>String(Number(key)) === key\<close> for an index below the length.\<close>

fun key_index :: "nat \<Rightarrow> prop_key \<Rightarrow> nat option" where
  "key_index n (KStr k) = (if canonical_decimal k \<and> dec_value k < n then Some (dec_value k) else None)"
| "key_index n (KSym _) = None"

fun string_key :: "prop_key \<Rightarrow> jsstr option" where
  "string_key (KStr k) = Some k"
| "string_key (KSym _) = None"

section \<open>The copy\<close>

record json_snapshot =
  sn_value :: json
  sn_body :: jsstr

definition snapshot :: "json \<Rightarrow> jsstr \<Rightarrow> json_snapshot" where
  "snapshot v b = \<lparr>sn_value = v, sn_body = b\<rparr>"

text \<open>The members of an array or object from their copies.\<close>

definition snapshot_array :: "json_snapshot list \<Rightarrow> json_snapshot" where
  "snapshot_array cs =
     snapshot (JArr (map sn_value cs)) (91 # commas uCOMMA (map sn_body cs) @ [93])"

definition snapshot_object :: "(jsstr \<times> json_snapshot) list \<Rightarrow> json_snapshot" where
  "snapshot_object ms =
     snapshot (JObj (map (\<lambda>(k, c). (k, sn_value c)) ms))
       (123 # commas uCOMMA (map (\<lambda>(k, c). json_quote k @ uCOLON # sn_body c) ms) @ [125])"

text \<open>\<^verbatim>\<open>copyJsonArray\<close> after its children are copied: \<^verbatim>\<open>children[index] = child\<close>.\<close>

definition place_items :: "nat \<Rightarrow> (prop_key \<times> json_snapshot) list \<Rightarrow> json_snapshot option" where
  "place_items n cs =
     (case those (map (\<lambda>(k, c). map_option (\<lambda>i. (i, c)) (key_index n k)) cs) of
        None \<Rightarrow> None
      | Some ics \<Rightarrow> map_option snapshot_array (those (map (map_of ics) [0..<n])))"

definition name_members :: "(prop_key \<times> json_snapshot) list \<Rightarrow> json_snapshot option" where
  "name_members cs =
     map_option snapshot_object (those (map (\<lambda>(k, c). map_option (\<lambda>s. (s, c)) (string_key k)) cs))"

definition item_props :: "js_object \<Rightarrow> (prop_key \<times> descriptor) list" where
  "item_props ob = filter (\<lambda>(k, _). k \<noteq> length_key) (o_props ob)"

text \<open>The objects that are not ancestors yet: what bounds the depth of the copy.\<close>

definition room :: "heap \<Rightarrow> nat set \<Rightarrow> nat" where
  "room h a = card ({..<length h} - a)"

lemma room_insert: "\<not> (r \<in> a \<or> length h \<le> r) \<Longrightarrow> room h (insert r a) < room h a"
  unfolding room_def by (subst Diff_insert) (rule card_Diff1_less; simp)

definition copy_room :: "('n \<times> heap \<times> nat set \<times> 'v) + ('n \<times> heap \<times> nat set \<times> 'p) \<Rightarrow> nat" where
  "copy_room x = (case x of Inl (_, h, a, _) \<Rightarrow> room h a | Inr (_, h, a, _) \<Rightarrow> room h a)"

definition copy_rest :: "('n \<times> heap \<times> nat set \<times> 'v) + ('n \<times> heap \<times> nat set \<times> 'p list) \<Rightarrow> nat" where
  "copy_rest x = (case x of Inl _ \<Rightarrow> 0 | Inr (_, _, _, ps) \<Rightarrow> Suc (length ps))"

text \<open>\<open>None\<close> is \<^verbatim>\<open>InvalidRequestBodyError\<close>, which is all the copy ever throws.\<close>

function copyJsonValue :: "(jsnum \<Rightarrow> jsstr) \<Rightarrow> heap \<Rightarrow> nat set \<Rightarrow> jsval \<Rightarrow> json_snapshot option"
  and copyProps :: "(jsnum \<Rightarrow> jsstr) \<Rightarrow> heap \<Rightarrow> nat set \<Rightarrow> (prop_key \<times> descriptor) list
    \<Rightarrow> (prop_key \<times> json_snapshot) list option" where
  "copyJsonValue nm h ancestors v =
     (case v of
        VNull \<Rightarrow> Some (snapshot JNull word_null)
      | VStr s \<Rightarrow> Some (snapshot (JStr s) (json_quote s))
      | VBool b \<Rightarrow> Some (snapshot (JBool b) (if b then word_true else word_false))
      | VNum x \<Rightarrow> if num_is_finite x then Some (snapshot (JNum x) (nm x)) else None
      | VObj r \<Rightarrow>
          if r \<in> ancestors \<or> length h \<le> r then None
          else let ob = h ! r
               in if o_array ob then
                    (if o_proto ob \<noteq> ArrayProto then None
                     else case array_length ob of
                       None \<Rightarrow> None
                     | Some n \<Rightarrow>
                         if length (o_props ob) \<noteq> n + 1 then None
                         else (case copyProps nm h (insert r ancestors) (item_props ob) of
                                 None \<Rightarrow> None
                               | Some cs \<Rightarrow> place_items n cs))
                  else if o_proto ob \<noteq> ObjectProto \<and> o_proto ob \<noteq> NoProto then None
                  else (case copyProps nm h (insert r ancestors) (o_props ob) of
                          None \<Rightarrow> None
                        | Some cs \<Rightarrow> name_members cs)
      | _ \<Rightarrow> None)"
| "copyProps nm h ancestors [] = Some []"
| "copyProps nm h ancestors ((k, d) # ps) =
     (case d of
        DataProp True v \<Rightarrow>
          (case copyJsonValue nm h ancestors v of
             None \<Rightarrow> None
           | Some c \<Rightarrow> map_option ((#) (k, c)) (copyProps nm h ancestors ps))
      | _ \<Rightarrow> None)"
  by pat_completeness auto
termination
  by (relation "measures [copy_room, copy_rest]") (simp_all add: room_insert copy_room_def copy_rest_def)

declare copyJsonValue.simps [simp del]

text \<open>\<^verbatim>\<open>snapshotJsonRequest\<close>.\<close>

definition snapshotJsonRequest ::
    "(jsnum \<Rightarrow> jsstr) \<Rightarrow> heap \<Rightarrow> jsval \<Rightarrow> nat option \<Rightarrow> json_snapshot result" where
  "snapshotJsonRequest nm h value maximumBytes =
     (case copyJsonValue nm h {} value of
        None \<Rightarrow> Inl InvalidRequestBodyError
      | Some s \<Rightarrow>
          (case maximumBytes of
             Some m \<Rightarrow>
               if m < utf8_length (sn_body s) then Inl (ProtocolValidationError ''request.body.size'')
               else Inr s
           | None \<Rightarrow> Inr s))"

section \<open>What is copied\<close>

text \<open>The JSON value a value of the caller stands for, if it stands for one: the objects below it
  are plain, all their properties are enumerable data, and there is no cycle, because the
  derivation is finite.\<close>

inductive denotes :: "heap \<Rightarrow> jsval \<Rightarrow> json \<Rightarrow> bool" where
  denotes_null: "denotes h VNull JNull"
| denotes_bool: "denotes h (VBool b) (JBool b)"
| denotes_str: "denotes h (VStr s) (JStr s)"
| denotes_num: "num_is_finite x \<Longrightarrow> denotes h (VNum x) (JNum x)"
| denotes_array: "r < length h \<Longrightarrow> o_array (h ! r) \<Longrightarrow> o_proto (h ! r) = ArrayProto \<Longrightarrow>
    array_length (h ! r) = Some (length vs) \<Longrightarrow>
    list_all2 (\<lambda>i v. map_of (o_props (h ! r)) (KStr (dec_string i)) = Some (DataProp True v))
      [0..<length vs] vs \<Longrightarrow>
    list_all2 (denotes h) vs us \<Longrightarrow> denotes h (VObj r) (JArr us)"
| denotes_object: "r < length h \<Longrightarrow> \<not> o_array (h ! r) \<Longrightarrow> o_proto (h ! r) \<in> {ObjectProto, NoProto} \<Longrightarrow>
    list_all2 (\<lambda>p (k, v). p = (KStr k, DataProp True v)) (o_props (h ! r)) ms \<Longrightarrow>
    list_all2 (\<lambda>p q. fst p = fst q \<and> denotes h (snd p) (snd q)) ms us \<Longrightarrow>
    denotes h (VObj r) (JObj us)"

text \<open>What every object of a JavaScript heap satisfies: its own keys are distinct, and its string
  keys come in the order of \<^verbatim>\<open>OrdinaryOwnPropertyKeys\<close>.\<close>

definition string_props :: "js_object \<Rightarrow> (jsstr \<times> descriptor) list" where
  "string_props ob = List.map_filter (\<lambda>(k, d). map_option (\<lambda>s. (s, d)) (string_key k)) (o_props ob)"

definition heap_ok :: "heap \<Rightarrow> bool" where
  "heap_ok h \<longleftrightarrow>
     (\<forall>ob \<in> set h. distinct (map fst (o_props ob)) \<and> own_members (string_props ob) = string_props ob)"

text \<open>The numbers of a value and of a heap are among the given ones (the doubles of the
  platform).\<close>

fun val_ok :: "(jsnum \<Rightarrow> bool) \<Rightarrow> jsval \<Rightarrow> bool" where
  "val_ok ok (VNum x) \<longleftrightarrow> (num_is_finite x \<longrightarrow> ok x)"
| "val_ok ok _ \<longleftrightarrow> True"

fun prop_ok :: "(jsnum \<Rightarrow> bool) \<Rightarrow> prop_key \<times> descriptor \<Rightarrow> bool" where
  "prop_ok ok (k, DataProp e v) \<longleftrightarrow> val_ok ok v"
| "prop_ok ok (k, AccessorProp e) \<longleftrightarrow> True"

definition numbers_ok :: "(jsnum \<Rightarrow> bool) \<Rightarrow> heap \<Rightarrow> bool" where
  "numbers_ok ok h \<longleftrightarrow> list_all (\<lambda>ob. list_all (prop_ok ok) (o_props ob)) h"

definition good_copy :: "(jsnum \<Rightarrow> bool) \<Rightarrow> (jsnum \<Rightarrow> jsstr) \<Rightarrow> heap \<Rightarrow> jsval \<Rightarrow> json_snapshot \<Rightarrow> bool" where
  "good_copy ok nm h v c \<longleftrightarrow>
     denotes h v (sn_value c) \<and> sn_body c = json_print nm (sn_value c)
     \<and> plain_json ok (sn_value c)"

definition good_prop :: "(jsnum \<Rightarrow> bool) \<Rightarrow> (jsnum \<Rightarrow> jsstr) \<Rightarrow> heap \<Rightarrow> prop_key \<times> descriptor \<Rightarrow> prop_key \<times> json_snapshot \<Rightarrow> bool" where
  "good_prop ok nm h = (\<lambda>(k, d) (k', c). k = k' \<and> (\<exists>v. d = DataProp True v \<and> good_copy ok nm h v c))"

lemma snapshot_simps [simp]: "sn_value (snapshot v b) = v" "sn_body (snapshot v b) = b"
  by (simp_all add: snapshot_def)

lemma those_Some: "those xs = Some ys \<longleftrightarrow> xs = map Some ys"
proof (induction xs arbitrary: ys)
  case (Cons x xs)
  then show ?case by (cases x; cases ys) auto
qed (auto simp: eq_commute)

lemma json_print_JArr:
  "json_print nm (JArr vs) = 91 # commas uCOMMA (map (json_print nm) vs) @ [93]"
  by (simp add: json_print_def comp_def fun_eq_iff cong: map_cong)

lemma json_print_JObj:
  "json_print nm (JObj ms) =
     123 # commas uCOMMA (map (\<lambda>(k, v). json_quote k @ uCOLON # json_print nm v) ms) @ [125]"
  by (simp add: json_print_def comp_def split_def cong: map_cong)

lemma key_index_Some: "key_index n k = Some i \<longleftrightarrow> k = KStr (dec_string i) \<and> i < n"
  by (cases k) (auto simp: dec_string_dec_value canonical_dec_string)

lemma place_items_good:
  assumes "place_items n cs = Some c" and "list_all2 (good_prop ok nm h) ps cs"
    and "distinct (map fst (o_props (h ! r)))" and "set ps \<subseteq> set (o_props (h ! r))"
    and "r < length h" "o_array (h ! r)" "o_proto (h ! r) = ArrayProto" "array_length (h ! r) = Some n"
  shows "good_copy ok nm h (VObj r) c"
proof -
  obtain ics items where ics: "map (\<lambda>(k, c). map_option (\<lambda>i. (i, c)) (key_index n k)) cs = map Some ics"
    and items: "map (map_of ics) [0..<n] = map Some items" and c: "c = snapshot_array items"
    using assms(1) by (auto simp: place_items_def those_Some split: option.splits)
  have len: "length items = n" using items by (metis diff_zero length_map length_upt)
  have item: "\<exists>v. map_of (o_props (h ! r)) (KStr (dec_string i)) = Some (DataProp True v)
      \<and> good_copy ok nm h v (items ! i)" if i: "i < n" for i
  proof -
    have "map_of ics i = Some (items ! i)"
      using arg_cong [OF items, of "\<lambda>xs. xs ! i"] i len by simp
    then have "(i, items ! i) \<in> set ics" by (rule map_of_SomeD)
    then have "Some (i, items ! i) \<in> set (map Some ics)" by simp
    then obtain k where k: "(k, items ! i) \<in> set cs" "key_index n k = Some i"
      unfolding ics [symmetric] by (auto simp: eq_commute [of "Some (i, items ! i)"])
    then obtain j where j: "j < length cs" "cs ! j = (k, items ! i)" by (auto simp: in_set_conv_nth)
    then have "good_prop ok nm h (ps ! j) (k, items ! i)"
      using list_all2_nthD2 [OF assms(2), of j] by simp
    then obtain v where v: "ps ! j = (k, DataProp True v)" "good_copy ok nm h v (items ! i)"
      by (cases "ps ! j") (auto simp: good_prop_def)
    have "ps ! j \<in> set ps" using j(1) assms(2) by (simp add: list_all2_lengthD)
    then have "(k, DataProp True v) \<in> set (o_props (h ! r))" using v(1) assms(4) by auto
    then have "map_of (o_props (h ! r)) k = Some (DataProp True v)"
      using assms(3) by simp
    with v(2) k(2) show ?thesis by (auto simp: key_index_Some)
  qed
  define vs where "vs = map (\<lambda>i. SOME v. map_of (o_props (h ! r)) (KStr (dec_string i)) = Some (DataProp True v)
      \<and> good_copy ok nm h v (items ! i)) [0..<n]"
  have vs: "map_of (o_props (h ! r)) (KStr (dec_string i)) = Some (DataProp True (vs ! i))"
    "good_copy ok nm h (vs ! i) (items ! i)" if "i < n" for i
    using someI_ex [OF item [OF that]] that by (simp_all add: vs_def)
  have lvs: "length vs = n" by (simp add: vs_def)
  have "denotes h (VObj r) (JArr (map sn_value items))"
  proof (rule denotes_array [where vs = vs])
    show "list_all2 (\<lambda>i v. map_of (o_props (h ! r)) (KStr (dec_string i)) = Some (DataProp True v))
        [0..<length vs] vs"
      by (simp add: list_all2_conv_all_nth lvs vs)
    show "list_all2 (denotes h) vs (map sn_value items)"
      using vs(2) by (simp add: list_all2_conv_all_nth lvs len good_copy_def)
  qed (use assms lvs in simp_all)
  moreover have "map sn_body items = map (json_print nm) (map sn_value items)"
    using vs(2) len by (intro nth_equalityI) (simp_all add: good_copy_def)
  moreover have "list_all (plain_json ok) (map sn_value items)"
    using vs(2) len by (simp add: list_all_length good_copy_def)
  ultimately show ?thesis
    by (simp add: good_copy_def c snapshot_array_def json_print_JArr del: map_map)
qed


lemma name_members_good:
  assumes "name_members cs = Some c" and "list_all2 (good_prop ok nm h) (o_props (h ! r)) cs"
    and "own_members (string_props (h ! r)) = string_props (h ! r)"
    and "distinct (map fst (o_props (h ! r)))"
    and "r < length h" "\<not> o_array (h ! r)" "o_proto (h ! r) \<in> {ObjectProto, NoProto}"
  shows "good_copy ok nm h (VObj r) c"
proof -
  obtain ns where ns: "map (\<lambda>(k, c). map_option (\<lambda>s. (s, c)) (string_key k)) cs = map Some ns"
    and c: "c = snapshot_object ns"
    using assms(1) by (auto simp: name_members_def those_Some)
  have cs: "cs = map (\<lambda>(s, c). (KStr s, c)) ns"
    using ns
  proof (induction cs arbitrary: ns)
    case (Cons p cs)
    then obtain q qs where "ns = q # qs" by (cases ns) auto
    with Cons show ?case by (cases p; cases "fst p") auto
  qed simp
  have len: "length (o_props (h ! r)) = length ns"
    using list_all2_lengthD [OF assms(2)] cs by simp
  have item: "\<exists>v. o_props (h ! r) ! i = (KStr (fst (ns ! i)), DataProp True v) \<and> good_copy ok nm h v (snd (ns ! i))"
    if "i < length ns" for i
    using list_all2_nthD [OF assms(2), of i] that len cs
    by (cases "o_props (h ! r) ! i"; cases "ns ! i") (auto simp: good_prop_def)
  define vs where "vs = map (\<lambda>i. SOME v. o_props (h ! r) ! i = (KStr (fst (ns ! i)), DataProp True v)
      \<and> good_copy ok nm h v (snd (ns ! i))) [0..<length ns]"
  have vs: "o_props (h ! r) ! i = (KStr (fst (ns ! i)), DataProp True (vs ! i))"
    "good_copy ok nm h (vs ! i) (snd (ns ! i))" if "i < length ns" for i
    using someI_ex [OF item [OF that]] that by (simp_all add: vs_def)
  have lvs: "length vs = length ns" by (simp add: vs_def)
  define ms where "ms = zip (map fst ns) vs"
  define us where "us = map (\<lambda>(k, c). (k, sn_value c)) ns"
  have props: "o_props (h ! r) = map (\<lambda>(k, v). (KStr k, DataProp True v)) ms"
    using vs(1) len by (intro nth_equalityI) (auto simp: ms_def lvs)
  have "denotes h (VObj r) (JObj us)"
  proof (rule denotes_object [where ms = ms])
    show "list_all2 (\<lambda>p (k, v). p = (KStr k, DataProp True v)) (o_props (h ! r)) ms"
      by (auto simp: props list_all2_map1 intro: list_all2_refl)
    show "list_all2 (\<lambda>p q. fst p = fst q \<and> denotes h (snd p) (snd q)) ms us"
      using vs(2) by (auto simp: list_all2_conv_all_nth ms_def us_def lvs good_copy_def split_def)
  qed (use assms in simp_all)
  moreover have "map (\<lambda>(k, c). json_quote k @ uCOLON # sn_body c) ns
      = map (\<lambda>(k, v). json_quote k @ uCOLON # json_print nm v) us"
    using vs(2) by (intro nth_equalityI) (auto simp: us_def good_copy_def split_def)
  moreover have "list_all (\<lambda>(k, v). plain_json ok v) us"
    using vs(2) by (auto simp: us_def list_all_length good_copy_def split_def)
  moreover have "own_members us = us"
  proof (rule own_members_keys [OF _ _ assms(3)])
    have k: "string_props (h ! r) = map (\<lambda>(k, v). (k, DataProp True v)) ms"
      by (simp add: string_props_def props List.map_filter_def comp_def split_def filter_map)
    then show "map fst (string_props (h ! r)) = map fst us"
      by (intro nth_equalityI) (auto simp: ms_def us_def lvs split_def)
    have "distinct (map KStr (map fst ms))"
      using assms(4) by (simp add: props comp_def split_def)
    then have "distinct (map fst ms)" unfolding distinct_map [of KStr "map fst ms"] by blast
    moreover have "map fst (string_props (h ! r)) = map fst ms" by (simp add: k comp_def split_def)
    ultimately show "distinct (map fst (string_props (h ! r)))" by simp
  qed
  ultimately show ?thesis
    by (simp add: good_copy_def c snapshot_object_def json_print_JObj us_def [symmetric] del: map_map)
qed

lemma copy_object_cases:
  assumes "copyJsonValue nm h a (VObj r) = Some c"
  obtains (array) n cs where "r < length h" "o_array (h ! r)" "o_proto (h ! r) = ArrayProto"
      "array_length (h ! r) = Some n" "length (o_props (h ! r)) = n + 1"
      "copyProps nm h (insert r a) (item_props (h ! r)) = Some cs"
      "place_items n cs = Some c" "r \<notin> a"
    | (plain) cs where "r < length h" "\<not> o_array (h ! r)" "o_proto (h ! r) \<in> {ObjectProto, NoProto}"
      "copyProps nm h (insert r a) (o_props (h ! r)) = Some cs" "name_members cs = Some c" "r \<notin> a"
  using assms
  by (subst (asm) copyJsonValue.simps)
    (auto simp: Let_def split: if_splits option.splits)

lemma copy_good:
  "heap_ok h \<Longrightarrow> numbers_ok ok h \<Longrightarrow> val_ok ok v \<Longrightarrow> copyJsonValue nm h a v = Some c \<Longrightarrow>
     good_copy ok nm h v c"
  "heap_ok h \<Longrightarrow> numbers_ok ok h \<Longrightarrow> list_all (prop_ok ok) ps \<Longrightarrow> copyProps nm h a ps = Some cs \<Longrightarrow>
     list_all2 (good_prop ok nm h) ps cs"
proof (induction nm h a v and nm h a ps arbitrary: c and cs rule: copyJsonValue_copyProps.induct)
  case (1 nm h a v)
  show ?case
  proof (cases v)
    case (VObj r)
    have wf: "distinct (map fst (o_props (h ! r)))"
      "own_members (string_props (h ! r)) = string_props (h ! r)"
      "list_all (prop_ok ok) (o_props (h ! r))" if "r < length h"
      using 1(3,4) that by (auto simp: heap_ok_def numbers_ok_def list_all_length)
    from 1(6) [unfolded VObj] show ?thesis
    proof (cases rule: copy_object_cases)
      case (array n cs)
      then have "list_all (prop_ok ok) (item_props (h ! r))"
        using wf by (auto simp: item_props_def list_all_iff)
      with array have "list_all2 (good_prop ok nm h) (item_props (h ! r)) cs"
        using 1(1) [OF VObj _ refl] 1(3,4) by fastforce
      then show ?thesis
        using array wf VObj by (auto intro!: place_items_good simp: item_props_def)
    next
      case (plain cs)
      then have "list_all2 (good_prop ok nm h) (o_props (h ! r)) cs"
        using 1(2) [OF VObj _ refl] 1(3,4) wf by fastforce
      then show ?thesis
        using plain wf VObj by (auto intro!: name_members_good)
    qed
  qed (use 1(5,6) in \<open>auto simp: good_copy_def json_print_def copyJsonValue.simps
      split: if_splits intro: denotes.intros\<close>)
next
  case (3 nm h a k d ps)
  then obtain v c cs' where d: "d = DataProp True v" "copyJsonValue nm h a v = Some c"
    "copyProps nm h a ps = Some cs'" "cs = (k, c) # cs'"
    by (auto split: descriptor.splits bool.splits option.splits)
  then show ?case
    using 3(1) [OF d(1) refl 3(3,4) _ d(2)] 3(2) [OF d(1) refl d(2) 3(3,4) _ d(3)] 3(5)
    by (simp add: good_prop_def)
qed simp

lemma snapshotJsonRequest_Inr:
  "snapshotJsonRequest nm h v m = Inr s \<longleftrightarrow>
     copyJsonValue nm h {} v = Some s \<and> (\<forall>n. m = Some n \<longrightarrow> utf8_length (sn_body s) \<le> n)"
  by (auto simp: snapshotJsonRequest_def split: option.splits if_splits)

lemma snapshotJsonRequest_Inl:
  "snapshotJsonRequest nm h v m = Inl e \<Longrightarrow>
     e = InvalidRequestBodyError \<or> e = ProtocolValidationError ''request.body.size''"
  by (auto simp: snapshotJsonRequest_def split: option.splits if_splits)

text \<open>C14: the request body the SDK sends is lossless: whatever value the caller passes, if a
  snapshot is taken then the value stands for a JSON value (plain acyclic data), the copy is that
  value, and parsing the text that will be sent gives back exactly the copy, in at most the
  allowed number of bytes. The heap is one a JavaScript engine can have, its numbers are among
  those \<^verbatim>\<open>Number::toString\<close> writes so that they read back.\<close>

theorem snapshot_lossless:
  assumes "heap_ok h" and "numbers_ok ok h" and "val_ok ok v" and "numeral_law nm ok"
    and "snapshotJsonRequest nm h v m = Inr s"
  shows "denotes h v (sn_value s) \<and> json_parse (sn_body s) = Some (sn_value s)
    \<and> (\<forall>n. m = Some n \<longrightarrow> utf8_length (sn_body s) \<le> n)"
proof -
  have "good_copy ok nm h v s"
    using assms copy_good by (auto simp: snapshotJsonRequest_Inr)
  with assms show ?thesis
    by (auto simp: good_copy_def snapshotJsonRequest_Inr json_parse_print)
qed

text \<open>Safe integers, written in decimal, satisfy the law of numerals.\<close>

definition safe_integer :: "jsnum \<Rightarrow> bool" where
  "safe_integer x \<longleftrightarrow> num_is_safe_integer x"

definition safe_numeral :: "jsnum \<Rightarrow> jsstr" where
  "safe_numeral x = (case num_integer x of None \<Rightarrow> [] | Some n \<Rightarrow> int_string n)"

lemma safe_numeral_law: "numeral_law safe_numeral safe_integer"
  unfolding numeral_law_def
proof (intro allI impI)
  fix x
  assume "safe_integer x"
  then obtain n where n: "x = num_of_int n" "\<bar>n\<bar> < 2 ^ 53"
    by (auto simp: safe_integer_def num_is_safe_integer_def is_safe_integer_def max_safe_integer_def
        num_integer_Some split: option.splits)
  then show "number_lexeme (safe_numeral x) = Some (safe_numeral x) \<and> number_of (safe_numeral x) = x"
    by (simp add: safe_numeral_def number_lexeme_int number_of_int)
qed

definition sample_heap :: heap where
  "sample_heap =
     [\<lparr>o_array = False, o_proto = ObjectProto,
        o_props = [(KStr [97], DataProp True (VObj 1)), (KStr [98], DataProp True (VStr [uQUOTE]))]\<rparr>,
      \<lparr>o_array = True, o_proto = ArrayProto,
        o_props = [(KStr [uZERO], DataProp True (VNum (Fin 7))),
          (length_key, DataProp False (VNum (Fin 1)))]\<rparr>]"

lemma sample_heap_nth:
  "sample_heap ! 0 = \<lparr>o_array = False, o_proto = ObjectProto,
     o_props = [(KStr [97], DataProp True (VObj (Suc 0))), (KStr [98], DataProp True (VStr [uQUOTE]))]\<rparr>"
  "sample_heap ! Suc 0 = \<lparr>o_array = True, o_proto = ArrayProto,
     o_props = [(KStr [uZERO], DataProp True (VNum (Fin 7))), (length_key, DataProp False (VNum (Fin 1)))]\<rparr>"
  "length sample_heap = 2"
  by (simp_all add: sample_heap_def)

lemma sample_array:
  "copyJsonValue safe_numeral sample_heap a (VObj (Suc 0)) =
     (if Suc 0 \<in> a then None else Some (snapshot_array [snapshot (JNum (Fin 7)) (safe_numeral (Fin 7))]))"
  by (subst copyJsonValue.simps)
    (simp add: sample_heap_nth Let_def array_length_def item_props_def length_key_def place_items_def
      copyJsonValue.simps [of _ _ _ "VNum x" for x] canonical_decimal_def char_class_defs
      dec_value_def digit_val_def)

lemma sample_copy:
  "\<exists>s. copyJsonValue safe_numeral sample_heap {} (VObj 0) = Some s \<and>
     sn_value s = JObj [([97], JArr [JNum (Fin 7)]), ([98], JStr [uQUOTE])]
     \<and> utf8_length (sn_body s) \<le> 100"
  by (subst copyJsonValue.simps)
    (simp add: sample_heap_nth sample_array name_members_def copyJsonValue.simps [of _ _ _ "VStr x" for x]
      snapshot_object_def snapshot_array_def safe_numeral_def int_string_def dec_string.simps
      json_quote_def escape_unit_def utf8_length_def utf8_encode_def utf8_cp_def Let_def
      is_high_def is_low_def in_range_def surrogate_cp_def digit_unit_def)

theorem snapshot_lossless_witness:
  "\<exists>s. snapshotJsonRequest safe_numeral sample_heap (VObj 0) (Some 100) = Inr s
    \<and> denotes sample_heap (VObj 0) (JObj [([97], JArr [JNum (Fin 7)]), ([98], JStr [uQUOTE])])
    \<and> json_parse (sn_body s) = Some (JObj [([97], JArr [JNum (Fin 7)]), ([98], JStr [uQUOTE])])"
proof -
  obtain s where s: "copyJsonValue safe_numeral sample_heap {} (VObj 0) = Some s"
    "sn_value s = JObj [([97], JArr [JNum (Fin 7)]), ([98], JStr [uQUOTE])]"
    "utf8_length (sn_body s) \<le> 100"
    using sample_copy by blast
  then have r: "snapshotJsonRequest safe_numeral sample_heap (VObj 0) (Some 100) = Inr s"
    by (simp add: snapshotJsonRequest_Inr)
  have "heap_ok sample_heap"
    by (simp add: heap_ok_def sample_heap_def string_props_def List.map_filter_def own_members_def
        array_index_def canonical_decimal_def char_class_defs length_key_def dec_value_def digit_val_def)
  moreover have "numbers_ok safe_integer sample_heap" "val_ok safe_integer (VObj 0)"
    by (simp_all add: numbers_ok_def sample_heap_def safe_integer_def num_is_safe_integer_def
        is_safe_integer_def max_safe_integer_def length_key_def)
  ultimately show ?thesis
    using snapshot_lossless [OF _ _ _ safe_numeral_law r] r s(2) by auto
qed

end
