(* ===== verification/Utf8.thy ===== *)
theory Utf8
  imports JsPrelude
begin

text \<open>
  The streaming UTF-8 decoder behind \<^verbatim>\<open>TextDecoder\<close>, as the WHATWG Encoding standard
  states it: one byte at a time, malformed sequences replaced by U+FFFD. The lemmas show that
  what it emits is well-formed UTF-16 (\<open>decode_bytes_clean\<close>), that decoding in pieces is
  decoding the whole (\<open>decode_bytes_append\<close>), and that it inverts \<^verbatim>\<open>TextEncoder\<close> on
  well-formed strings (\<open>utf8_text_encode\<close>).
\<close>

section \<open>The decoder\<close>

record utf8_state =
  u_needed :: nat
  u_seen :: nat
  u_cp :: nat
  u_lower :: nat
  u_upper :: nat

definition utf8_init :: utf8_state where
  "utf8_init = \<lparr>u_needed = 0, u_seen = 0, u_cp = 0, u_lower = 128, u_upper = 191\<rparr>"

definition replacement_cp :: nat where
  "replacement_cp = 65533"

text \<open>The first byte of a sequence.\<close>

definition lead_byte :: "nat \<Rightarrow> utf8_state \<times> nat list" where
  "lead_byte b =
     (if b \<le> 127 then (utf8_init, [b])
      else if 194 \<le> b \<and> b \<le> 223 then (utf8_init\<lparr>u_needed := 1, u_cp := b - 192\<rparr>, [])
      else if 224 \<le> b \<and> b \<le> 239 then
        (utf8_init\<lparr>u_needed := 2, u_cp := b - 224,
                   u_lower := (if b = 224 then 160 else 128),
                   u_upper := (if b = 237 then 159 else 191)\<rparr>, [])
      else if 240 \<le> b \<and> b \<le> 244 then
        (utf8_init\<lparr>u_needed := 3, u_cp := b - 240,
                   u_lower := (if b = 240 then 144 else 128),
                   u_upper := (if b = 244 then 143 else 191)\<rparr>, [])
      else (utf8_init, [replacement_cp]))"

definition decode_byte :: "utf8_state \<Rightarrow> byte \<Rightarrow> utf8_state \<times> nat list" where
  "decode_byte st w =
     (let b = unat w
      in if u_needed st = 0 then lead_byte b
         else if b < u_lower st \<or> u_upper st < b
         then (let (st', out) = lead_byte b in (st', replacement_cp # out))
         else let cp = u_cp st * 64 + (b - 128)
              in if Suc (u_seen st) \<noteq> u_needed st
                 then (st\<lparr>u_lower := 128, u_upper := 191, u_cp := cp, u_seen := Suc (u_seen st)\<rparr>, [])
                 else (utf8_init, [cp]))"

text \<open>A code point as UTF-16.\<close>

definition units_of_cp :: "nat \<Rightarrow> jsstr" where
  "units_of_cp n =
     (if n < 65536 then [word_of_nat n]
      else [word_of_nat (55296 + (n - 65536) div 1024), word_of_nat (56320 + (n - 65536) mod 1024)])"

definition units_of :: "nat list \<Rightarrow> jsstr" where
  "units_of cps = concat (map units_of_cp cps)"

fun decode_cps :: "utf8_state \<Rightarrow> byte list \<Rightarrow> utf8_state \<times> nat list" where
  "decode_cps st [] = (st, [])"
| "decode_cps st (b # bs) =
     (let (st1, out1) = decode_byte st b; (st2, out2) = decode_cps st1 bs in (st2, out1 @ out2))"

definition decode_bytes :: "utf8_state \<Rightarrow> byte list \<Rightarrow> utf8_state \<times> jsstr" where
  "decode_bytes st bs = (let (st', cps) = decode_cps st bs in (st', units_of cps))"

text \<open>\<^verbatim>\<open>decoder.decode()\<close> with nothing more to come.\<close>

definition decode_flush :: "utf8_state \<Rightarrow> jsstr" where
  "decode_flush st = (if u_needed st = 0 then [] else units_of [replacement_cp])"

text \<open>A whole byte sequence, with the byte order mark kept.\<close>

definition utf8_text :: "byte list \<Rightarrow> jsstr" where
  "utf8_text bs = (let (st, text) = decode_bytes utf8_init bs in text @ decode_flush st)"

section \<open>Decoding in pieces\<close>

lemma units_of_simps [simp]:
  "units_of [] = []"
  "units_of (n # ns) = units_of_cp n @ units_of ns"
  "units_of (ms @ ns) = units_of ms @ units_of ns"
  by (simp_all add: units_of_def)

lemma decode_cps_append:
  "decode_cps st (a @ b) =
     (let (st1, out1) = decode_cps st a; (st2, out2) = decode_cps st1 b in (st2, out1 @ out2))"
  by (induction a arbitrary: st) (auto simp: Let_def split: prod.splits)

lemma decode_bytes_append:
  "decode_bytes st (a @ b) =
     (let (st1, out1) = decode_bytes st a; (st2, out2) = decode_bytes st1 b in (st2, out1 @ out2))"
  by (auto simp: decode_bytes_def decode_cps_append Let_def split: prod.splits)

lemma decode_bytes_Nil [simp]: "decode_bytes st [] = (st, [])"
  by (simp add: decode_bytes_def)

section \<open>What the decoder emits\<close>

text \<open>A Unicode scalar value.\<close>

definition scalar_value :: "nat \<Rightarrow> bool" where
  "scalar_value n \<longleftrightarrow> n < 1114112 \<and> \<not> surrogate_cp n"

text \<open>Where the decoder is inside a sequence bounds the code point under construction.\<close>

definition utf8_inv :: "utf8_state \<Rightarrow> bool" where
  "utf8_inv st \<longleftrightarrow>
     128 \<le> u_lower st \<and> u_upper st \<le> 191 \<and>
     (u_needed st = 0 \<longrightarrow> st = utf8_init) \<and>
     (u_needed st = 0 \<or>
      (u_needed st = 1 \<and> u_seen st = 0 \<and> u_cp st \<le> 31) \<or>
      (u_needed st = 2 \<and> u_seen st = 0 \<and> u_cp st \<le> 15 \<and> (u_cp st = 13 \<longrightarrow> u_upper st \<le> 159)) \<or>
      (u_needed st = 2 \<and> u_seen st = 1 \<and> u_cp st \<le> 1023 \<and> \<not> (864 \<le> u_cp st \<and> u_cp st \<le> 895)) \<or>
      (u_needed st = 3 \<and> u_seen st = 0 \<and> u_cp st \<le> 4 \<and> (u_cp st = 0 \<longrightarrow> 144 \<le> u_lower st) \<and>
         (u_cp st = 4 \<longrightarrow> u_upper st \<le> 143)) \<or>
      (u_needed st = 3 \<and> u_seen st = 1 \<and> 16 \<le> u_cp st \<and> u_cp st \<le> 271) \<or>
      (u_needed st = 3 \<and> u_seen st = 2 \<and> 1024 \<le> u_cp st \<and> u_cp st \<le> 17407))"

lemma utf8_inv_init [simp]: "utf8_inv utf8_init"
  by (simp add: utf8_inv_def utf8_init_def)

lemma scalar_replacement [simp]: "scalar_value replacement_cp"
  by (simp add: scalar_value_def surrogate_cp_def replacement_cp_def)

lemma lead_byte_inv:
  assumes "lead_byte b = (st, out)"
  shows "utf8_inv st \<and> list_all scalar_value out"
proof -
  consider "b \<le> 127" | "194 \<le> b" "b \<le> 223" | "224 \<le> b" "b \<le> 239" | "240 \<le> b" "b \<le> 244"
    | "(127 < b \<and> b < 194) \<or> 244 < b"
    by linarith
  then show ?thesis
  proof cases
    case 1
    with assms have "st = utf8_init" "out = [b]" by (simp_all add: lead_byte_def)
    with 1 show ?thesis by (simp add: scalar_value_def surrogate_cp_def)
  next
    case 2
    with assms have s: "st = utf8_init\<lparr>u_needed := 1, u_cp := b - 192\<rparr>" "out = []"
      by (simp_all add: lead_byte_def)
    from 2 have "b - 192 \<le> 31" by linarith
    with s show ?thesis by (simp add: utf8_inv_def utf8_init_def)
  next
    case 3
    with assms have s: "st = utf8_init\<lparr>u_needed := 2, u_cp := b - 224,
        u_lower := (if b = 224 then 160 else 128), u_upper := (if b = 237 then 159 else 191)\<rparr>" "out = []"
      by (simp_all add: lead_byte_def)
    from 3 have "b - 224 \<le> 15" "b - 224 = 13 \<longleftrightarrow> b = 237" by linarith+
    with s show ?thesis by (simp add: utf8_inv_def utf8_init_def)
  next
    case 4
    with assms have s: "st = utf8_init\<lparr>u_needed := 3, u_cp := b - 240,
        u_lower := (if b = 240 then 144 else 128), u_upper := (if b = 244 then 143 else 191)\<rparr>" "out = []"
      by (simp_all add: lead_byte_def)
    from 4 have "b - 240 \<le> 4" "b - 240 = 4 \<longleftrightarrow> b = 244" "b - 240 = 0 \<longleftrightarrow> b = 240" by linarith+
    with s show ?thesis by (simp add: utf8_inv_def utf8_init_def)
  next
    case 5
    with assms have "st = utf8_init" "out = [replacement_cp]"
      by (auto simp: lead_byte_def)
    then show ?thesis by simp
  qed
qed

text \<open>Inside a sequence: how many bytes are still missing, and the bounds on the value so far.\<close>

lemma utf8_inv_cases:
  assumes "utf8_inv st" and "u_needed st \<noteq> 0"
  obtains
    (last1) "u_needed st = 1" "u_seen st = 0" "u_cp st \<le> 31"
  | (first2) "u_needed st = 2" "u_seen st = 0" "u_cp st \<le> 15" "u_cp st = 13 \<longrightarrow> u_upper st \<le> 159"
  | (last2) "u_needed st = 2" "u_seen st = 1" "u_cp st \<le> 1023" "u_cp st < 864 \<or> 895 < u_cp st"
  | (first3) "u_needed st = 3" "u_seen st = 0" "u_cp st \<le> 4" "u_cp st = 0 \<longrightarrow> 144 \<le> u_lower st"
      "u_cp st = 4 \<longrightarrow> u_upper st \<le> 143"
  | (mid3) "u_needed st = 3" "u_seen st = 1" "16 \<le> u_cp st" "u_cp st \<le> 271"
  | (last3) "u_needed st = 3" "u_seen st = 2" "1024 \<le> u_cp st" "u_cp st \<le> 17407"
proof -
  from assms have c: "(u_needed st = 1 \<and> u_seen st = 0 \<and> u_cp st \<le> 31) \<or>
      (u_needed st = 2 \<and> u_seen st = 0 \<and> u_cp st \<le> 15 \<and> (u_cp st = 13 \<longrightarrow> u_upper st \<le> 159)) \<or>
      (u_needed st = 2 \<and> u_seen st = 1 \<and> u_cp st \<le> 1023 \<and> (u_cp st < 864 \<or> 895 < u_cp st)) \<or>
      (u_needed st = 3 \<and> u_seen st = 0 \<and> u_cp st \<le> 4 \<and> (u_cp st = 0 \<longrightarrow> 144 \<le> u_lower st) \<and>
         (u_cp st = 4 \<longrightarrow> u_upper st \<le> 143)) \<or>
      (u_needed st = 3 \<and> u_seen st = 1 \<and> 16 \<le> u_cp st \<and> u_cp st \<le> 271) \<or>
      (u_needed st = 3 \<and> u_seen st = 2 \<and> 1024 \<le> u_cp st \<and> u_cp st \<le> 17407)"
    unfolding utf8_inv_def not_le de_Morgan_conj by argo
  show thesis
    using c by (elim disjE conjE) (metis that)+
qed

lemma continuation_inv:
  assumes "utf8_inv st" and "u_needed st \<noteq> 0" and "u_lower st \<le> b" and "b \<le> u_upper st"
  shows "if Suc (u_seen st) = u_needed st then scalar_value (u_cp st * 64 + (b - 128))
    else utf8_inv (st\<lparr>u_lower := 128, u_upper := 191, u_cp := u_cp st * 64 + (b - 128),
                      u_seen := Suc (u_seen st)\<rparr>)"
proof -
  have b: "128 \<le> b" "b \<le> 191" using assms by (simp_all add: utf8_inv_def)
  define k where "k = b - 128"
  with b have k: "b = 128 + k" "k \<le> 63" by simp_all
  from assms(1,2) show ?thesis
  proof (cases rule: utf8_inv_cases)
    case last1
    with k show ?thesis by (simp add: scalar_value_def surrogate_cp_def)
  next
    case first2
    with k assms(4) have "u_cp st * 64 + k < 864 \<or> 895 < u_cp st * 64 + k"
      by (cases "u_cp st = 13") auto
    with first2 k show ?thesis by (auto simp: utf8_inv_def)
  next
    case last2
    with k have "u_cp st * 64 + k < 55296 \<or> 57343 < u_cp st * 64 + k" by linarith
    with last2 k show ?thesis by (auto simp: scalar_value_def surrogate_cp_def)
  next
    case first3
    with k assms(3,4) have "16 \<le> u_cp st * 64 + k" "u_cp st * 64 + k \<le> 271"
      by (cases "u_cp st = 0"; cases "u_cp st = 4"; auto)+
    with first3 k show ?thesis by (simp add: utf8_inv_def)
  next
    case mid3
    with k show ?thesis by (simp add: utf8_inv_def)
  next
    case last3
    with k show ?thesis by (simp add: scalar_value_def surrogate_cp_def)
  qed
qed

lemma decode_byte_inv:
  assumes "utf8_inv st" and "decode_byte st w = (st', out)"
  shows "utf8_inv st' \<and> list_all scalar_value out"
proof -
  let ?b = "unat w"
  consider "u_needed st = 0" | "u_needed st \<noteq> 0" "?b < u_lower st \<or> u_upper st < ?b"
    | "u_needed st \<noteq> 0" "u_lower st \<le> ?b" "?b \<le> u_upper st"
    by linarith
  then show ?thesis
  proof cases
    case 1
    with assms(2) have "lead_byte ?b = (st', out)" by (simp add: decode_byte_def)
    then show ?thesis by (rule lead_byte_inv)
  next
    case 2
    then obtain out' where "lead_byte ?b = (st', out')" "out = replacement_cp # out'"
      using assms(2) by (auto simp: decode_byte_def Let_def split: prod.splits)
    with lead_byte_inv show ?thesis by fastforce
  next
    case 3
    with assms(2) continuation_inv [OF assms(1) 3] show ?thesis
      by (auto simp: decode_byte_def Let_def split: if_splits)
  qed
qed

lemma decode_cps_inv:
  "utf8_inv st \<Longrightarrow> decode_cps st bs = (st', out) \<Longrightarrow> utf8_inv st' \<and> list_all scalar_value out"
proof (induction bs arbitrary: st out)
  case (Cons b bs)
  obtain st1 out1 where 1: "decode_byte st b = (st1, out1)" by fastforce
  obtain out2 where 2: "decode_cps st1 bs = (st', out2)" "out = out1 @ out2"
    using Cons.prems(2) 1 by (auto split: prod.splits)
  from decode_byte_inv [OF Cons.prems(1) 1] have "utf8_inv st1" "list_all scalar_value out1" by auto
  with Cons.IH [OF _ 2(1)] 2(2) show ?case by simp
qed simp

text \<open>A string that ends on a code point boundary can be cut there.\<close>

definition ends_clean :: "jsstr \<Rightarrow> bool" where
  "ends_clean s \<longleftrightarrow> s = [] \<or> \<not> is_high (last s)"

lemma ends_clean_cut: "ends_clean s \<Longrightarrow> clean_cut s t"
  by (auto simp: ends_clean_def clean_cut_def)

lemma unat_unit: "n < 65536 \<Longrightarrow> unat (word_of_nat n :: code_unit) = n"
  by (simp add: unat_of_nat take_bit_nat_eq_self)

lemma units_of_cp_last:
  assumes "scalar_value n"
  shows "\<not> is_high (last (units_of_cp n)) \<and> units_of_cp n \<noteq> []"
proof (cases "n < 65536")
  case True
  with assms show ?thesis
    by (auto simp: units_of_cp_def is_high_def in_range_def unat_unit scalar_value_def surrogate_cp_def)
next
  case False
  have "unat (word_of_nat (56320 + (n - 65536) mod 1024) :: code_unit) = 56320 + (n - 65536) mod 1024"
    by (rule unat_unit) (use mod_less_divisor [of 1024 "n - 65536"] in linarith)
  with False show ?thesis by (simp add: units_of_cp_def is_high_def in_range_def del: of_nat_add)
qed

lemma units_of_ends_clean: "list_all scalar_value cps \<Longrightarrow> ends_clean (units_of cps)"
  by (induction cps rule: rev_induct) (auto simp: ends_clean_def units_of_cp_last)

lemma decode_bytes_clean:
  assumes "utf8_inv st" and "decode_bytes st bs = (st', s)"
  shows "utf8_inv st' \<and> ends_clean s"
  using assms decode_cps_inv units_of_ends_clean
  by (auto simp: decode_bytes_def split: prod.splits)

section \<open>Decoding inverts encoding\<close>

lemma unat_byte: "n < 256 \<Longrightarrow> unat (word_of_nat n :: byte) = n"
  by (simp add: unat_of_nat take_bit_nat_eq_self)

lemma decode_lead:
  "b < 256 \<Longrightarrow> u_needed st = 0 \<Longrightarrow> decode_byte st (word_of_nat b) = lead_byte b"
  by (simp add: decode_byte_def unat_byte)

lemma decode_continuation:
  assumes "k < 64" and "u_needed st \<noteq> 0" and "u_lower st \<le> 128 + k" and "128 + k \<le> u_upper st"
  shows "decode_byte st (word_of_nat (128 + k)) =
    (if Suc (u_seen st) \<noteq> u_needed st
     then (st\<lparr>u_lower := 128, u_upper := 191, u_cp := u_cp st * 64 + k, u_seen := Suc (u_seen st)\<rparr>, [])
     else (utf8_init, [u_cp st * 64 + k]))"
  using assms by (simp add: decode_byte_def unat_byte Let_def del: of_nat_add)

lemma utf8_init_simps [simp]:
  "u_needed utf8_init = 0" "u_seen utf8_init = 0" "u_cp utf8_init = 0"
  "u_lower utf8_init = 128" "u_upper utf8_init = 191"
  by (simp_all add: utf8_init_def)

lemma div_64_64: "n div 4096 = n div 64 div (64::nat)"
  using div_mult2_eq [of n 64 64] by simp

lemma div_64_64_64: "n div 262144 = n div 64 div 64 div (64::nat)"
  using div_mult2_eq [of n 64 4096] div_64_64 [of "n div 64"] by simp

lemma decode_two:
  assumes "128 \<le> n" and "n < 2048"
  shows "decode_cps utf8_init [word_of_nat (192 + n div 64), word_of_nat (128 + n mod 64)] = (utf8_init, [n])"
proof -
  have d: "2 \<le> n div 64" "n div 64 < 32" using assms by linarith+
  have n: "n div 64 * 64 + n mod 64 = n" by (rule div_mult_mod_eq)
  from d have "decode_byte utf8_init (word_of_nat (192 + n div 64)) =
      (utf8_init\<lparr>u_needed := 1, u_cp := n div 64\<rparr>, [])"
    by (subst decode_lead) (simp_all add: lead_byte_def)
  with n show ?thesis by (simp add: decode_continuation del: of_nat_add)
qed

lemma decode_three:
  assumes "2048 \<le> n" and "n < 65536" and "\<not> surrogate_cp n"
  shows "decode_cps utf8_init [word_of_nat (224 + n div 4096), word_of_nat (128 + n div 64 mod 64),
    word_of_nat (128 + n mod 64)] = (utf8_init, [n])"
proof -
  define a b c where abc: "a = n div 4096" "b = n div 64 mod 64" "c = n mod 64"
  have n: "(a * 64 + b) * 64 + c = n"
    unfolding abc div_64_64 by (simp only: div_mult_mod_eq)
  have "n div 4096 < 16" using assms(2) by linarith
  then have r: "a < 16" "b < 64" "c < 64" unfolding abc by simp_all
  have s: "n < 55296 \<or> 57343 < n" using assms(3) unfolding surrogate_cp_def by linarith
  from n have n': "a * 4096 + b * 64 + c = n" by simp
  have lo: "32 \<le> b" if "a = 0" using that assms(1) n' r by linarith
  have hi: "b < 32" if "a = 13" using s
  proof
    assume "n < 55296"
    with that n' show ?thesis by linarith
  next
    assume "57343 < n"
    with that n' r show ?thesis by linarith
  qed
  let ?st = "utf8_init\<lparr>u_needed := 2, u_cp := a, u_lower := (if a = 0 then 160 else 128),
      u_upper := (if a = 13 then 159 else 191)\<rparr>"
  let ?st' = "utf8_init\<lparr>u_needed := 2, u_seen := 1, u_cp := a * 64 + b\<rparr>"
  have 1: "decode_byte utf8_init (word_of_nat (224 + a)) = (?st, [])"
    using r by (subst decode_lead) (simp_all add: lead_byte_def)
  have 2: "decode_byte ?st (word_of_nat (128 + b)) = (?st', [])"
    using r lo hi by (subst decode_continuation) (auto simp: utf8_init_def)
  have 3: "decode_byte ?st' (word_of_nat (128 + c)) = (utf8_init, [n])"
    using r n by (subst decode_continuation) simp_all
  show ?thesis unfolding abc [symmetric] by (simp only: decode_cps.simps Let_def 1 2 3 prod.case append_Nil append_Nil2)
qed

lemma decode_four:
  assumes "65536 \<le> n" and "n < 1114112"
  shows "decode_cps utf8_init [word_of_nat (240 + n div 262144), word_of_nat (128 + n div 4096 mod 64),
    word_of_nat (128 + n div 64 mod 64), word_of_nat (128 + n mod 64)] = (utf8_init, [n])"
proof -
  define a b c d where abcd: "a = n div 262144" "b = n div 4096 mod 64" "c = n div 64 mod 64" "d = n mod 64"
  have n: "((a * 64 + b) * 64 + c) * 64 + d = n"
    unfolding abcd div_64_64 div_64_64_64 by (simp only: div_mult_mod_eq)
  have "n div 262144 < 5" using assms(2) by linarith
  then have r: "a < 5" "b < 64" "c < 64" "d < 64" unfolding abcd by simp_all
  from n have n': "a * 262144 + b * 4096 + c * 64 + d = n" by simp
  have lo: "16 \<le> b" if "a = 0" using that assms(1) n' r by linarith
  have hi: "b < 16" if "a = 4" using that assms(2) n' by linarith
  let ?st = "utf8_init\<lparr>u_needed := 3, u_cp := a, u_lower := (if a = 0 then 144 else 128),
      u_upper := (if a = 4 then 143 else 191)\<rparr>"
  let ?st' = "utf8_init\<lparr>u_needed := 3, u_seen := 1, u_cp := a * 64 + b\<rparr>"
  let ?st'' = "utf8_init\<lparr>u_needed := 3, u_seen := 2, u_cp := (a * 64 + b) * 64 + c\<rparr>"
  have 1: "decode_byte utf8_init (word_of_nat (240 + a)) = (?st, [])"
    using r by (subst decode_lead) (simp_all add: lead_byte_def)
  have 2: "decode_byte ?st (word_of_nat (128 + b)) = (?st', [])"
    using r lo hi by (subst decode_continuation) (auto simp: utf8_init_def)
  have 3: "decode_byte ?st' (word_of_nat (128 + c)) = (?st'', [])"
    using r by (subst decode_continuation) (simp_all add: utf8_init_def)
  have 4: "decode_byte ?st'' (word_of_nat (128 + d)) = (utf8_init, [n])"
    using r n by (subst decode_continuation) simp_all
  show ?thesis unfolding abcd [symmetric]
    by (simp only: decode_cps.simps Let_def 1 2 3 4 prod.case append_Nil append_Nil2)
qed

lemma decode_utf8_cp:
  assumes "scalar_value n"
  shows "decode_cps utf8_init (utf8_cp n) = (utf8_init, [n])"
proof -
  have n: "\<not> surrogate_cp n" "n < 1114112" using assms by (simp_all add: scalar_value_def)
  consider "n < 128" | "128 \<le> n" "n < 2048" | "2048 \<le> n" "n < 65536" | "65536 \<le> n" by linarith
  then show ?thesis
  proof cases
    case 1
    with n show ?thesis by (simp add: utf8_cp_def decode_lead lead_byte_def)
  next
    case 2
    with n decode_two [OF 2] show ?thesis by (simp add: utf8_cp_def)
  next
    case 3
    with n decode_three [OF 3 n(1)] show ?thesis by (simp add: utf8_cp_def)
  next
    case 4
    with n decode_four [OF 4 n(2)] show ?thesis by (simp add: utf8_cp_def)
  qed
qed

lemma decode_utf8_cps:
  "list_all scalar_value cps \<Longrightarrow>
     decode_cps utf8_init (concat (map utf8_cp cps)) = (utf8_init, cps)"
  by (induction cps) (auto simp: decode_cps_append decode_utf8_cp)

lemma unit_of_unat [simp]: "word_of_nat (unat c) = (c :: code_unit)"
  by simp

lemma units_of_pair:
  assumes "is_high c" and "is_low d"
  shows "units_of_cp (pair_value c d) = [c, d]"
proof -
  define h l where hl: "h = unat c - 55296" "l = unat d - 56320"
  have "unat c = 55296 + h" "unat d = 56320 + l" "l < 1024"
    using assms unfolding hl is_high_def is_low_def in_range_def by linarith+
  then have c: "word_of_nat (55296 + h) = c" and d: "word_of_nat (56320 + l) = d" and l: "l < 1024"
    by (metis unit_of_unat)+
  from l have "(65536 + h * 1024 + l - 65536) div 1024 = h"
    "(65536 + h * 1024 + l - 65536) mod 1024 = l" by simp_all
  then show ?thesis
    using c d unfolding units_of_cp_def pair_value_def hl [symmetric] by (simp del: of_nat_add)
qed

lemma units_of_code_points: "units_of (code_points s) = s"
proof (induction s rule: code_points.induct)
  case (2 c)
  have "unat c < 65536" using unsigned_less [of c, where ?'a = nat] by simp
  then show ?case by (simp add: units_of_cp_def)
next
  case (3 c d s)
  have "unat c < 65536" using unsigned_less [of c, where ?'a = nat] by simp
  then have "units_of_cp (unat c) = [c]" by (simp add: units_of_cp_def)
  with 3 show ?case
    by (cases "is_high c \<and> is_low d") (simp_all only: code_points.simps if_True if_False units_of_simps
        units_of_pair append_Cons append_Nil simp_thms)
qed simp

text \<open>A string without unpaired surrogates.\<close>

definition well_formed :: "jsstr \<Rightarrow> bool" where
  "well_formed s \<longleftrightarrow> list_all scalar_value (code_points s)"

lemma utf8_text_encode: "well_formed s \<Longrightarrow> utf8_text (utf8_encode s) = s"
  by (simp add: utf8_text_def decode_bytes_def utf8_encode_def well_formed_def decode_utf8_cps
      units_of_code_points decode_flush_def)

section \<open>Properties\<close>

definition decode_chunks :: "byte list list \<Rightarrow> utf8_state \<times> jsstr list" where
  "decode_chunks cs =
     foldl (\<lambda>(st, out) bs. let (st', t) = decode_bytes st bs in (st', out @ [t])) (utf8_init, []) cs"

lemma decode_chunks_append:
  "fst (foldl (\<lambda>(st, out) bs. let (st', t) = decode_bytes st bs in (st', out @ [t])) (st, out) cs) =
     fst (decode_bytes st (concat cs)) \<and>
   concat (snd (foldl (\<lambda>(st, out) bs. let (st', t) = decode_bytes st bs in (st', out @ [t])) (st, out) cs)) =
     concat out @ snd (decode_bytes st (concat cs))"
  by (induction cs arbitrary: st out) (auto simp: decode_bytes_append Let_def split: prod.splits)

lemma decode_chunks_clean:
  "utf8_inv st \<Longrightarrow> list_all ends_clean out \<Longrightarrow>
   list_all ends_clean (snd (foldl (\<lambda>(st, out) bs. let (st', t) = decode_bytes st bs in (st', out @ [t])) (st, out) cs))"
proof (induction cs arbitrary: st out)
  case (Cons bs cs)
  obtain st' t where "decode_bytes st bs = (st', t)" by fastforce
  with decode_bytes_clean [OF Cons.prems(1) this] Cons show ?case by simp
qed simp

text \<open>The streaming decoder returns what the encoder was given, for every string without
  unpaired surrogates and every way the bytes are cut into chunks, and all it emits is well-formed UTF-16
  that can be cut between chunks.\<close>

theorem utf8_chunked_roundtrip:
  assumes "well_formed s" and "concat cs = utf8_encode s"
  shows "concat (snd (decode_chunks cs)) = s \<and> decode_flush (fst (decode_chunks cs)) = [] \<and>
    list_all ends_clean (snd (decode_chunks cs))"
proof -
  have d: "decode_bytes utf8_init (utf8_encode s) = (utf8_init, s)"
    using assms(1) by (simp add: decode_bytes_def utf8_encode_def well_formed_def decode_utf8_cps
        units_of_code_points)
  show ?thesis
    using decode_chunks_append [of utf8_init "[]" cs] decode_chunks_clean [of utf8_init "[]" cs]
    unfolding decode_chunks_def assms(2) d by (simp add: decode_flush_def)
qed

theorem utf8_chunked_roundtrip_witness:
  "concat (snd (decode_chunks [[226], [130], [172]])) = [8364]"
proof -
  have "well_formed [8364]" by (simp add: well_formed_def scalar_value_def surrogate_cp_def)
  moreover have "concat [[226], [130], [172]] = utf8_encode [8364 :: code_unit]"
    by (simp add: utf8_encode_def utf8_cp_def surrogate_cp_def)
  ultimately show ?thesis by (rule utf8_chunked_roundtrip [THEN conjunct1])
qed

end
