(* ===== verification/UriText.thy ===== *)
theory UriText
  imports Utf8 Errors
begin

text \<open>
  The two percent encodings the SDK writes request targets with: \<^verbatim>\<open>encodeURIComponent\<close> for a
  path segment and the \<^verbatim>\<open>application/x-www-form-urlencoded\<close> serializer behind
  \<^verbatim>\<open>URLSearchParams.toString\<close> for a query. Beside each encoder is the decoder a server
  applies, and the lemmas that the decoder recovers what was encoded and that an encoded text
  holds none of the characters that separate the parts of a target.
\<close>

section \<open>Percent-encoded bytes\<close>

definition hex_upper :: "nat \<Rightarrow> code_unit" where
  "hex_upper n = word_of_nat (if n < 10 then 48 + n else 55 + n)"

definition percent_byte :: "byte \<Rightarrow> jsstr" where
  "percent_byte b = [uPERCENT, hex_upper (unat b div 16), hex_upper (unat b mod 16)]"

definition hex_value :: "code_unit \<Rightarrow> nat" where
  "hex_value c =
     (if is_digit c then unat c - 48 else if in_range 65 70 c then unat c - 55 else unat c - 87)"

definition hex_pair :: "code_unit \<Rightarrow> code_unit \<Rightarrow> byte" where
  "hex_pair h l = word_of_nat (16 * hex_value h + hex_value l)"

text \<open>The bytes of a percent-encoded text.\<close>

fun percent_decode :: "jsstr \<Rightarrow> byte list" where
  "percent_decode [] = []"
| "percent_decode [c] = [ucast c]"
| "percent_decode [c, d] = [ucast c, ucast d]"
| "percent_decode (c # h # l # s) =
     (if c = uPERCENT \<and> is_hex h \<and> is_hex l then hex_pair h l # percent_decode s
      else ucast c # percent_decode (h # l # s))"

lemma percent_decode_plain: "c \<noteq> uPERCENT \<Longrightarrow> percent_decode (c # s) = ucast c # percent_decode s"
  by (cases s rule: percent_decode.cases) auto

lemma unat_hex_upper: "n < 16 \<Longrightarrow> unat (hex_upper n) = (if n < 10 then 48 + n else 55 + n)"
  by (simp add: hex_upper_def unat_of_nat take_bit_nat_eq_self del: of_nat_add)

lemma hex_upper_hex: "n < 16 \<Longrightarrow> is_hex (hex_upper n) \<and> hex_value (hex_upper n) = n"
  by (auto simp: char_class_defs hex_value_def unat_hex_upper)

lemma unat_byte_less: "unat (b :: byte) < 256"
  using unsigned_less [of b, where ?'a = nat] by simp

lemma percent_decode_byte [simp]: "percent_decode (percent_byte b @ s) = b # percent_decode s"
proof -
  have "unat b div 16 < 16" "unat b mod 16 < 16"
    using unat_byte_less [of b] by simp_all
  then show ?thesis
    by (simp add: percent_byte_def hex_upper_hex hex_pair_def mult.commute)
qed

lemma percent_decode_bytes [simp]:
  "percent_decode (concat (map percent_byte bs) @ s) = bs @ percent_decode s"
  by (induction bs) simp_all

section \<open>encodeURIComponent\<close>

definition uri_unreserved :: "code_unit \<Rightarrow> bool" where
  "uri_unreserved c \<longleftrightarrow> is_alnum c \<or> unat c \<in> {45, 95, 46, 33, 126, 42, 39, 40, 41}"

definition encode_cp :: "nat \<Rightarrow> jsstr" where
  "encode_cp n =
     (if n < 128 \<and> uri_unreserved (word_of_nat n) then [word_of_nat n]
      else concat (map percent_byte (utf8_cp n)))"

definition encodeURIComponent :: "jsstr \<Rightarrow> jsstr result" where
  "encodeURIComponent s =
     (if list_ex surrogate_cp (code_points s) then Inl URIError
      else Inr (concat (map encode_cp (code_points s))))"

text \<open>\<^verbatim>\<open>decodeURIComponent\<close> of a well-formed encoding.\<close>

definition uri_decode :: "jsstr \<Rightarrow> jsstr" where
  "uri_decode e = utf8_text (percent_decode e)"

lemma code_point_bound: "n \<in> set (code_points s) \<Longrightarrow> n < 1114112"
proof (induction s rule: code_points.induct)
  case (2 c)
  then show ?case using unsigned_less [of c, where ?'a = nat] by simp
next
  case (3 c d s)
  have "unat c < 65536" using unsigned_less [of c, where ?'a = nat] by simp
  moreover have "pair_value c d < 1114112" if "is_high c" "is_low d"
  proof -
    have "(unat c - 55296) * 1024 \<le> 1023 * 1024" and "unat d - 56320 \<le> 1023"
      using that by (auto simp: is_high_def is_low_def in_range_def)
    then show ?thesis by (simp add: pair_value_def)
  qed
  ultimately show ?case using 3 by (auto split: if_splits)
qed simp

lemma well_formed_surrogates: "well_formed s \<longleftrightarrow> \<not> list_ex surrogate_cp (code_points s)"
  by (auto simp: well_formed_def scalar_value_def list_all_iff list_ex_iff dest: code_point_bound)

lemma utf8_cp_ascii: "n < 128 \<Longrightarrow> utf8_cp n = [word_of_nat n]"
  by (simp add: utf8_cp_def Let_def surrogate_cp_def)

lemma ucast_small: "n < 128 \<Longrightarrow> (ucast (word_of_nat n :: code_unit) :: byte) = word_of_nat n"
  by (simp add: word_unat_eq_iff unsigned_ucast_eq unsigned_of_nat take_bit_eq_mod)

lemma uri_unreserved_no_percent: "uri_unreserved c \<Longrightarrow> c \<noteq> uPERCENT"
  by (auto simp: uri_unreserved_def char_class_defs)

lemma percent_decode_encode_cp:
  "percent_decode (encode_cp n @ s) = utf8_cp n @ percent_decode s"
  by (auto simp: encode_cp_def utf8_cp_ascii ucast_small percent_decode_plain
      uri_unreserved_no_percent)

lemma percent_decode_component:
  assumes "encodeURIComponent s = Inr e"
  shows "percent_decode (e @ t) = utf8_encode s @ percent_decode t"
proof -
  have "percent_decode (concat (map encode_cp ns) @ t) = concat (map utf8_cp ns) @ percent_decode t"
    for ns
    by (induction ns) (simp_all add: percent_decode_encode_cp)
  with assms show ?thesis
    by (auto simp: encodeURIComponent_def utf8_encode_def split: if_splits)
qed

lemma encodeURIComponent_ok: "well_formed s \<longleftrightarrow> (\<exists>e. encodeURIComponent s = Inr e)"
  by (simp add: encodeURIComponent_def well_formed_surrogates)

lemma encodeURIComponent_error: "encodeURIComponent s = Inl e \<Longrightarrow> e = URIError \<and> \<not> well_formed s"
  by (auto simp: encodeURIComponent_def well_formed_surrogates split: if_splits)

lemma uri_decode_encode: "encodeURIComponent s = Inr e \<Longrightarrow> uri_decode e = s"
  using percent_decode_component [of s e "[]"] encodeURIComponent_ok [of s]
  by (auto simp: uri_decode_def utf8_text_encode)

lemma encodeURIComponent_inject:
  "encodeURIComponent s = Inr e \<Longrightarrow> encodeURIComponent t = Inr e \<Longrightarrow> s = t"
  by (metis uri_decode_encode)

text \<open>The characters an encoded component is made of.\<close>

definition uri_char :: "code_unit \<Rightarrow> bool" where
  "uri_char c \<longleftrightarrow> uri_unreserved c \<or> c = uPERCENT"

lemma percent_byte_chars: "c \<in> set (percent_byte b) \<Longrightarrow> c = uPERCENT \<or> is_alnum c"
proof -
  have "is_alnum (hex_upper n)" if "n < 16" for n
    using that by (auto simp: char_class_defs unat_hex_upper)
  then have "is_alnum (hex_upper (unat b div 16))" "is_alnum (hex_upper (unat b mod 16))"
    using unat_byte_less [of b] by simp_all
  then show "c \<in> set (percent_byte b) \<Longrightarrow> c = uPERCENT \<or> is_alnum c"
    by (auto simp: percent_byte_def)
qed

lemma encode_cp_chars: "c \<in> set (encode_cp n) \<Longrightarrow> uri_char c"
  by (auto simp: encode_cp_def uri_char_def uri_unreserved_def dest!: percent_byte_chars
      split: if_splits)

lemma encodeURIComponent_chars: "encodeURIComponent s = Inr e \<Longrightarrow> c \<in> set e \<Longrightarrow> uri_char c"
  by (auto simp: encodeURIComponent_def dest: encode_cp_chars split: if_splits)

lemma uri_char_not_separator:
  "uri_char c \<Longrightarrow> c \<notin> {uSLASH, uQMARK, uHASH, uBACKSLASH, 38, 61} \<and> 33 \<le> unat c \<and> unat c < 127"
  by (auto simp: uri_char_def uri_unreserved_def char_class_defs)

lemma encode_cp_not_Nil: "encode_cp n \<noteq> []"
  by (auto simp: encode_cp_def utf8_cp_def Let_def percent_byte_def)

lemma code_points_eq_Nil [simp]: "code_points s = [] \<longleftrightarrow> s = []"
  by (cases s rule: code_points.cases) auto

lemma encodeURIComponent_Nil: "encodeURIComponent s = Inr e \<Longrightarrow> e = [] \<longleftrightarrow> s = []"
  by (cases "code_points s")
    (auto simp: encodeURIComponent_def encode_cp_not_Nil split: if_splits)

section \<open>URLSearchParams\<close>

definition form_plain :: "code_unit \<Rightarrow> bool" where
  "form_plain c \<longleftrightarrow> is_alnum c \<or> unat c \<in> {42, 45, 46, 95}"

definition form_byte :: "byte \<Rightarrow> jsstr" where
  "form_byte b =
     (if b = 32 then [uPLUS]
      else if form_plain (ucast b) then [ucast b]
      else percent_byte b)"

text \<open>\<^verbatim>\<open>append\<close> converts its arguments to scalar value strings, as \<open>utf8_encode\<close> does.\<close>

definition form_encode :: "jsstr \<Rightarrow> jsstr" where
  "form_encode s = concat (map form_byte (utf8_encode s))"

definition uAMP :: code_unit where "uAMP = 38"
definition uEQ :: code_unit where "uEQ = 61"

definition form_pair :: "jsstr \<times> jsstr \<Rightarrow> jsstr" where
  "form_pair = (\<lambda>(n, v). form_encode n @ [uEQ] @ form_encode v)"

text \<open>\<^verbatim>\<open>URLSearchParams.prototype.toString\<close> of the appended pairs.\<close>

definition search_params :: "(jsstr \<times> jsstr) list \<Rightarrow> jsstr" where
  "search_params ps = join_with [uAMP] (map form_pair ps)"

text \<open>The form decoder: pieces at \<^verbatim>\<open>&\<close>, the name up to the first \<^verbatim>\<open>=\<close>, plus signs
  for spaces.\<close>

definition form_decode :: "jsstr \<Rightarrow> jsstr" where
  "form_decode s = utf8_text (percent_decode (map (\<lambda>c. if c = uPLUS then uSP else c) s))"

definition form_unpair :: "jsstr \<Rightarrow> jsstr \<times> jsstr" where
  "form_unpair p =
     (form_decode (takeWhile (\<lambda>c. c \<noteq> uEQ) p), form_decode (drop 1 (dropWhile (\<lambda>c. c \<noteq> uEQ) p)))"

definition search_parse :: "jsstr \<Rightarrow> (jsstr \<times> jsstr) list" where
  "search_parse q = map form_unpair (filter (\<lambda>p. p \<noteq> []) (split_on uAMP q))"

abbreviation unplus :: "jsstr \<Rightarrow> jsstr" where
  "unplus \<equiv> map (\<lambda>c. if c = uPLUS then uSP else c)"

lemma unplus_percent_byte: "unplus (percent_byte b) = percent_byte b"
proof -
  have "c \<noteq> uPLUS" if "c \<in> set (percent_byte b)" for c
    using percent_byte_chars [OF that] by (auto simp: char_class_defs)
  then show ?thesis by (intro map_idI) auto
qed

lemma ucast_ucast_byte: "(ucast (ucast (b :: byte) :: code_unit) :: byte) = b"
  by transfer simp

lemma form_plain_not: "form_plain c \<Longrightarrow> c \<noteq> uPLUS \<and> c \<noteq> uPERCENT"
  by (auto simp: form_plain_def char_class_defs)

lemma percent_decode_form_byte:
  "percent_decode (unplus (form_byte b) @ s) = b # percent_decode s"
proof -
  consider (space) "b = 32" | (plain) "b \<noteq> 32" "form_plain (ucast b)"
    | (other) "b \<noteq> 32" "\<not> form_plain (ucast b)" by blast
  then show ?thesis
  proof cases
    case space
    then show ?thesis by (simp add: form_byte_def percent_decode_plain)
  next
    case plain
    then show ?thesis
      by (simp add: form_byte_def percent_decode_plain form_plain_not ucast_ucast_byte)
  next
    case other
    then show ?thesis by (simp add: form_byte_def unplus_percent_byte)
  qed
qed

lemma percent_decode_form_encode:
  "percent_decode (unplus (form_encode s)) = utf8_encode s"
proof -
  have "percent_decode (unplus (concat (map form_byte bs)) @ []) = bs @ percent_decode []" for bs
    by (induction bs) (simp_all add: percent_decode_form_byte)
  then show ?thesis by (simp add: form_encode_def)
qed

lemma form_decode_encode: "well_formed s \<Longrightarrow> form_decode (form_encode s) = s"
  by (simp add: form_decode_def percent_decode_form_encode utf8_text_encode)

lemma form_byte_chars: "c \<in> set (form_byte b) \<Longrightarrow> c = uPLUS \<or> c = uPERCENT \<or> form_plain c"
  by (auto simp: form_byte_def form_plain_def dest!: percent_byte_chars split: if_splits)

definition form_char :: "code_unit \<Rightarrow> bool" where
  "form_char c \<longleftrightarrow> c = uPLUS \<or> c = uPERCENT \<or> form_plain c"

lemma form_encode_chars: "c \<in> set (form_encode s) \<Longrightarrow> form_char c"
  by (auto simp: form_encode_def form_char_def dest: form_byte_chars)

lemma form_char_not_separator:
  "form_char c \<Longrightarrow> c \<notin> {uSLASH, uQMARK, uHASH, uAMP, uEQ} \<and> 33 \<le> unat c \<and> unat c < 127"
  by (auto simp: form_char_def form_plain_def char_class_defs uAMP_def uEQ_def)

lemma form_encode_no_sep: "uAMP \<notin> set (form_encode s) \<and> uEQ \<notin> set (form_encode s)"
  using form_encode_chars form_char_not_separator by blast

lemma form_unpair_pair:
  assumes "well_formed n" and "well_formed v"
  shows "form_unpair (form_pair (n, v)) = (n, v)"
proof -
  have "takeWhile (\<lambda>c. c \<noteq> uEQ) (form_encode n @ uEQ # t) = form_encode n"
    and "dropWhile (\<lambda>c. c \<noteq> uEQ) (form_encode n @ uEQ # t) = uEQ # t" for t
    using form_encode_no_sep [of n] by (auto simp: takeWhile_append dropWhile_append)
  with assms show ?thesis by (simp add: form_unpair_def form_pair_def form_decode_encode)
qed

lemma form_pair_no_amp: "uAMP \<notin> set (form_pair p)"
  using form_encode_no_sep by (cases p) (auto simp: form_pair_def uAMP_def uEQ_def)

lemma form_pair_not_Nil [simp]: "form_pair p \<noteq> []"
  by (cases p) (simp add: form_pair_def)

lemma search_parse_params:
  assumes "\<forall>(n, v) \<in> set ps. well_formed n \<and> well_formed v"
  shows "search_parse (search_params ps) = ps"
proof (cases "ps = []")
  case True
  then show ?thesis by (simp add: search_parse_def search_params_def)
next
  case False
  then have "split_on uAMP (search_params ps) = map form_pair ps"
    unfolding search_params_def by (intro split_join) (auto simp: form_pair_no_amp)
  moreover have "filter (\<lambda>p. p \<noteq> []) (map form_pair ps) = map form_pair ps"
    by (simp add: filter_id_conv)
  moreover have "map form_unpair (map form_pair ps) = ps"
    using assms by (auto simp: comp_def form_unpair_pair intro!: map_idI)
  ultimately show ?thesis by (simp add: search_parse_def)
qed

lemma join_with_set: "c \<in> set (join_with d ps) \<Longrightarrow> c \<in> set d \<or> (\<exists>p \<in> set ps. c \<in> set p)"
  by (induction d ps rule: join_with.induct) auto

lemma search_params_chars:
  "c \<in> set (search_params ps) \<Longrightarrow> form_char c \<or> c = uAMP \<or> c = uEQ"
  by (fastforce simp: search_params_def form_pair_def dest!: join_with_set dest: form_encode_chars)

lemma search_params_eq_Nil [simp]: "search_params ps = [] \<longleftrightarrow> ps = []"
proof -
  have "join_with d (p # qs) \<noteq> []" if "p \<noteq> []" for d p qs
    using that by (cases qs) auto
  then show ?thesis by (cases ps) (auto simp: search_params_def)
qed

end
