(* ===== verification/Http.thy ===== *)
theory Http
  imports Errors
begin

text \<open>
  The parts of the Fetch standard the SDK reads and writes: header lists with normalised values,
  responses with a body that is a script of read outcomes, and the release of a body the SDK does
  not consume (\<^verbatim>\<open>http/response-ownership.ts\<close>).
\<close>

section \<open>Headers\<close>

text \<open>A header list, by lower-case name; a \<^verbatim>\<open>Headers\<close> object the SDK builds has one value per name.\<close>

type_synonym headers = "(jsstr \<times> jsstr) list"

definition http_space :: "code_unit \<Rightarrow> bool" where
  "http_space c \<longleftrightarrow> unat c \<in> {9, 10, 13, 32}"

text \<open>\<^verbatim>\<open>Headers.set\<close> strips HTTP white space from both ends of a value, and then refuses
  a value with a null, a line break or a unit that is no byte.\<close>

definition normalize_value :: "jsstr \<Rightarrow> jsstr" where
  "normalize_value v = rev (dropWhile http_space (rev (dropWhile http_space v)))"

definition valid_value :: "jsstr \<Rightarrow> bool" where
  "valid_value v \<longleftrightarrow> list_all (\<lambda>c. unat c \<le> 255 \<and> unat c \<notin> {0, 10, 13}) v"

text \<open>The \<^verbatim>\<open>TypeError\<close> of the platform.\<close>

definition type_error :: exn where
  "type_error = ForeignError 0"

definition header_get :: "jsstr \<Rightarrow> headers \<Rightarrow> jsstr option" where
  "header_get name hs = map_of hs (js_lower name)"

definition header_has :: "jsstr \<Rightarrow> headers \<Rightarrow> bool" where
  "header_has name hs \<longleftrightarrow> header_get name hs \<noteq> None"

definition header_put :: "jsstr \<Rightarrow> jsstr \<Rightarrow> headers \<Rightarrow> headers" where
  "header_put name v hs = filter (\<lambda>(n, _). n \<noteq> js_lower name) hs @ [(js_lower name, v)]"

definition header_set :: "jsstr \<Rightarrow> jsstr \<Rightarrow> headers \<Rightarrow> headers result" where
  "header_set name v hs =
     (let n = normalize_value v
      in if valid_value n then Inr (header_put name n hs) else Inl type_error)"

lemma map_of_other: "map_of (filter (\<lambda>(n, _). n \<noteq> a) hs) b = (if a = b then None else map_of hs b)"
  by (induction hs) auto

lemma header_get_put:
  "header_get a (header_put b v hs) = (if js_lower a = js_lower b then Some v else header_get a hs)"
  by (auto simp: header_get_def header_put_def map_of_other map_add_def split: option.splits)

lemma header_get_set:
  "header_set b v hs = Inr hs' \<Longrightarrow>
     header_get a hs' = (if js_lower a = js_lower b then Some (normalize_value v) else header_get a hs)"
  by (auto simp: header_set_def Let_def header_get_put split: if_splits)

lemma header_get_Nil [simp]: "header_get n [] = None"
  by (simp add: header_get_def)

text \<open>A value the SDK has checked for control characters and bytes is accepted.\<close>

definition isByteString :: "jsstr \<Rightarrow> bool" where
  "isByteString value = list_all (\<lambda>c. \<not> 255 < unat c) value"

lemma dropWhile_set: "c \<in> set (dropWhile p s) \<Longrightarrow> c \<in> set s"
  by (induction s) (auto split: if_splits)

lemma normalize_value_set: "set (normalize_value v) \<subseteq> set v"
  by (auto simp: normalize_value_def dest!: dropWhile_set)

lemma checked_value_valid:
  assumes "\<not> containsControlCharacters v" and "isByteString v"
  shows "valid_value (normalize_value v)"
proof -
  have "31 < unat c \<and> unat c \<le> 255" if "c \<in> set v" for c
    using assms that
    by (auto simp: isByteString_def containsControlCharacters_units list_ex_iff list_all_iff
        control_unit_def not_less not_le)
  then have "31 < unat c \<and> unat c \<le> 255" if "c \<in> set (normalize_value v)" for c
    using normalize_value_set that by blast
  then show ?thesis by (fastforce simp: valid_value_def list_all_iff)
qed

lemma normalize_value_id:
  assumes "v = [] \<or> (\<not> http_space (hd v) \<and> \<not> http_space (last v))"
  shows "normalize_value v = v"
proof -
  have "dropWhile http_space v = v" "dropWhile http_space (rev v) = rev v"
    unfolding dropWhile_eq_self_iff using assms by (auto simp: hd_rev)
  then show ?thesis by (simp add: normalize_value_def)
qed

section \<open>Responses\<close>

text \<open>What a read of the body gives.\<close>

datatype read_outcome = ReadChunk "byte list" | ReadDone | ReadRejected

text \<open>A response: no body is \<open>None\<close>.\<close>

record response =
  r_status :: nat
  r_headers :: headers
  r_body :: "read_outcome list option"
  r_locked :: bool

definition r_ok :: "response \<Rightarrow> bool" where
  "r_ok r \<longleftrightarrow> 200 \<le> r_status r \<and> r_status r \<le> 299"

definition r_header :: "jsstr \<Rightarrow> response \<Rightarrow> jsstr option" where
  "r_header name r = header_get name (r_headers r)"

text \<open>\<^verbatim>\<open>cancelResponseBody\<close>: whether it cancels the body.\<close>

definition cancelResponseBody :: "response \<Rightarrow> bool" where
  "cancelResponseBody r \<longleftrightarrow> r_body r \<noteq> None \<and> \<not> r_locked r"

text \<open>\<^verbatim>\<open>withResponseOwnership\<close>: the result of the consumer, and whether the body is
  cancelled. The consumer reports whether the body is locked or gone when it fails.\<close>

definition withResponseOwnership ::
    "response \<Rightarrow> (response \<Rightarrow> 'a result \<times> response) \<Rightarrow> 'a result \<times> bool" where
  "withResponseOwnership r consume =
     (case consume r of
        (Inr v, _) \<Rightarrow> (Inr v, False)
      | (Inl e, r') \<Rightarrow> (Inl e, cancelResponseBody r'))"

end
