(* ===== verification/OpaqueValues.thy ===== *)
theory OpaqueValues
  imports Errors
begin

text \<open>
  The branded strings of the SDK: \<^verbatim>\<open>core/opaque-values.ts\<close>, \<^verbatim>\<open>http/strong-etag.ts\<close>,
  \<^verbatim>\<open>commands/idempotency.ts\<close>, \<^verbatim>\<open>commands/safety.ts\<close>,
  \<^verbatim>\<open>asCapabilityId\<close> of \<^verbatim>\<open>core/capabilities.ts\<close>, and the two of
  \<^verbatim>\<open>core/errors.ts\<close>. The locale \<open>checked_string\<close> is the contract all of them share.
\<close>

section \<open>The brands\<close>

definition asOpaqueCursor :: "jsstr \<Rightarrow> jsstr result" where
  "asOpaqueCursor value =
     (if length value = 0 \<or> containsControlCharacters value
      then Inl InvalidOpaqueCursorError else Inr value)"

text \<open>\<^verbatim>\<open>/^"[^"]+"$/u\<close>, and the same after an optional \<^verbatim>\<open>W/\<close>.\<close>

fun strongEntityTagPattern :: "jsstr \<Rightarrow> bool" where
  "strongEntityTagPattern [] = False"
| "strongEntityTagPattern (q # s) =
     (q = uQUOTE \<and> s \<noteq> [] \<and> last s = uQUOTE \<and> butlast s \<noteq> [] \<and> uQUOTE \<notin> set (butlast s))"

definition entityTagPattern :: "jsstr \<Rightarrow> bool" where
  "entityTagPattern s \<longleftrightarrow>
     strongEntityTagPattern s \<or>
     (starts_with s (js ''W/'') \<and> strongEntityTagPattern (drop 2 s))"

definition asEntityTag :: "jsstr \<Rightarrow> jsstr result" where
  "asEntityTag value =
     (if containsControlCharacters value \<or> \<not> entityTagPattern value
      then Inl InvalidEntityTagError else Inr value)"

definition maximumStrongEntityTagLength :: nat where
  "maximumStrongEntityTagLength = 512"

fun isStrongEntityTag :: "js_arg \<Rightarrow> bool" where
  "isStrongEntityTag (StringArg value) =
     (\<not> containsControlCharacters value \<and> strongEntityTagPattern value)"
| "isStrongEntityTag OtherArg = False"

fun asStrongEntityTag :: "js_arg \<Rightarrow> jsstr result" where
  "asStrongEntityTag (StringArg value) =
     (if maximumStrongEntityTagLength < length value \<or> \<not> isStrongEntityTag (StringArg value)
      then Inl InvalidStrongEntityTagError else Inr value)"
| "asStrongEntityTag OtherArg = Inl InvalidStrongEntityTagError"

definition asCapabilityId :: "jsstr \<Rightarrow> jsstr result" where
  "asCapabilityId value =
     (if length value = 0 \<or> containsControlCharacters value
      then Inl InvalidCapabilityError else Inr value)"

text \<open>\<^verbatim>\<open>/^[0-9a-f]{8}-[0-9a-f]{4}-[0-9a-f]{4}-[0-9a-f]{4}-[0-9a-f]{12}$/iu\<close>: the
  groups between the dashes and their widths.\<close>

definition uuid_shape :: "(code_unit \<Rightarrow> bool) \<Rightarrow> jsstr \<Rightarrow> bool" where
  "uuid_shape hex s \<longleftrightarrow>
     map length (split_on uMINUS s) = [8, 4, 4, 4, 12] \<and>
     list_all (list_all hex) (split_on uMINUS s)"

definition uuidPattern :: "jsstr \<Rightarrow> bool" where
  "uuidPattern s \<longleftrightarrow> uuid_shape is_hex s"

fun asIdempotencyKey :: "js_arg \<Rightarrow> jsstr result" where
  "asIdempotencyKey (StringArg value) =
     (if uuidPattern value then Inr value else Inl InvalidIdempotencyKeyError)"
| "asIdempotencyKey OtherArg = Inl InvalidIdempotencyKeyError"

section \<open>Command safety\<close>

text \<open>The \<^verbatim>\<open>retry\<close> field is \<^verbatim>\<open>unknown\<close>: any JavaScript value.\<close>

record unchecked_command_safety =
  us_idempotencyKey :: jsstr
  us_retry :: js_arg

definition assertCommandSafety :: "unchecked_command_safety \<Rightarrow> unit result" where
  "assertCommandSafety safety =
     (if length (js_trim (us_idempotencyKey safety)) = 0
      then Inl (CommandSafetyError MissingIdempotencyKey)
      else if containsControlCharacters (us_idempotencyKey safety)
      then Inl (CommandSafetyError InvalidIdempotencyKeyReason)
      else if us_retry safety \<noteq> StringArg (js ''never'')
      then Inl (CommandSafetyError AutomaticRetryForbidden)
      else Inr ())"

section \<open>The contract of a checked string\<close>

locale checked_string =
  fixes check :: "jsstr \<Rightarrow> jsstr result"
    and accepts :: "jsstr \<Rightarrow> bool"
    and rejection :: exn
  assumes check_eq: "check s = (if accepts s then Inr s else Inl rejection)"
    and accepts_nonempty: "accepts s \<Longrightarrow> s \<noteq> []"
    and accepts_printable: "accepts s \<Longrightarrow> \<not> containsControlCharacters s"
begin

lemma check_Inr_iff: "check s = Inr t \<longleftrightarrow> t = s \<and> accepts s"
  by (auto simp: check_eq)

lemma check_Inl_iff: "check s = Inl e \<longleftrightarrow> e = rejection \<and> \<not> accepts s"
  by (auto simp: check_eq)

lemma check_idempotent: "rbind (check s) check = check s"
  by (simp add: check_eq)

lemma check_header_safe:
  "check s = Inr t \<Longrightarrow> t \<noteq> [] \<and> uCR \<notin> set t \<and> uLF \<notin> set t \<and> uNUL \<notin> set t"
  using accepts_nonempty accepts_printable no_control_no_crlf by (auto simp: check_Inr_iff)

end

lemma strong_pattern_nonempty: "strongEntityTagPattern s \<Longrightarrow> s \<noteq> []"
  by auto

lemma entity_pattern_nonempty: "entityTagPattern s \<Longrightarrow> s \<noteq> []"
  by (auto simp: entityTagPattern_def)

lemma uuid_shape_units:
  assumes "uuid_shape hex s" and "c \<in> set s"
  shows "hex c \<or> c = uMINUS"
proof -
  have "set (join_with [d] ps) \<subseteq> insert d (\<Union> (set ` set ps))" for d :: code_unit and ps
    by (induction ps rule: induct_list012) auto
  from this [of uMINUS "split_on uMINUS s"] have "set s \<subseteq> insert uMINUS (\<Union> (set ` set (split_on uMINUS s)))"
    by simp
  with assms show ?thesis by (auto simp: uuid_shape_def list_all_iff)
qed

lemma is_hex_printable: "is_hex c \<Longrightarrow> \<not> control_unit c"
  by (auto simp: char_class_defs control_unit_def)

lemma uuid_shape_printable:
  assumes "uuid_shape hex s" and "\<And>c. hex c \<Longrightarrow> is_hex c"
  shows "\<not> containsControlCharacters s"
proof -
  have "\<not> control_unit c" if "c \<in> set s" for c
    using uuid_shape_units [OF assms(1) that] assms(2) is_hex_printable
    by (auto simp: control_unit_def)
  then show ?thesis by (auto simp: containsControlCharacters_units list_ex_iff)
qed

interpretation opaque_cursor: checked_string asOpaqueCursor
  "\<lambda>s. s \<noteq> [] \<and> \<not> containsControlCharacters s" InvalidOpaqueCursorError
  by unfold_locales (auto simp: asOpaqueCursor_def)

interpretation capability_id: checked_string asCapabilityId
  "\<lambda>s. s \<noteq> [] \<and> \<not> containsControlCharacters s" InvalidCapabilityError
  by unfold_locales (auto simp: asCapabilityId_def)

interpretation protocol_error_code: checked_string asProtocolErrorCode
  "\<lambda>s. s \<noteq> [] \<and> \<not> containsControlCharacters s" InvalidProtocolErrorCodeError
  by unfold_locales (auto simp: asProtocolErrorCode_def)

interpretation safe_request_id: checked_string asSafeRequestId
  "\<lambda>s. s \<noteq> [] \<and> length s \<le> 256 \<and> \<not> containsControlCharacters s" InvalidSafeRequestIdError
  by unfold_locales (auto simp: asSafeRequestId_def maximumSafeRequestIdLength_def)

interpretation entity_tag: checked_string asEntityTag
  "\<lambda>s. \<not> containsControlCharacters s \<and> entityTagPattern s" InvalidEntityTagError
  by unfold_locales (auto simp: asEntityTag_def dest: entity_pattern_nonempty)

interpretation strong_entity_tag: checked_string "\<lambda>s. asStrongEntityTag (StringArg s)"
  "\<lambda>s. length s \<le> 512 \<and> isStrongEntityTag (StringArg s)" InvalidStrongEntityTagError
  by unfold_locales (auto simp: maximumStrongEntityTagLength_def dest: strong_pattern_nonempty)

interpretation idempotency_key: checked_string "\<lambda>s. asIdempotencyKey (StringArg s)"
  uuidPattern InvalidIdempotencyKeyError
proof unfold_locales
  show "uuidPattern s \<Longrightarrow> s \<noteq> []" for s
    by (auto simp: uuidPattern_def uuid_shape_def)
  show "uuidPattern s \<Longrightarrow> \<not> containsControlCharacters s" for s
    by (auto simp: uuidPattern_def dest: uuid_shape_printable)
qed simp

text \<open>A strong tag is an entity tag, and a strong tag never carries the weak prefix.\<close>

lemma strong_is_entity_tag:
  "isStrongEntityTag (StringArg s) \<Longrightarrow> asEntityTag s = Inr s"
  by (simp add: asEntityTag_def entityTagPattern_def)

lemma strong_not_weak: "strongEntityTagPattern s \<Longrightarrow> \<not> starts_with s (js ''W/'')"
  by (cases s) (auto simp: starts_with_iff js_eval)

end
