(* ===== verification/Models.thy ===== *)
theory Models
  imports JsonValue OpaqueValues
begin

text \<open>
  The protocol documents the client logic reads field by field (\<^verbatim>\<open>protocol/models.ts\<close> over
  \<^verbatim>\<open>generated/protocol.ts\<close>): the Hub descriptor with its capabilities, endpoints and
  limits, the command request, and the response metadata and result types of
  \<^verbatim>\<open>client/operations.ts\<close>. Resource payloads the client passes through unread stay
  JSON values.
\<close>

section \<open>Discovery\<close>

record protocol_info =
  pi_current_version :: jsstr
  pi_supported_versions :: "jsstr list"
  pi_minimum_client_version :: jsstr

datatype command_class = Climate | Charging | Access | Nuisance | VehicleState

record command_descriptor =
  cd_name :: jsstr
  cd_command_class :: command_class
  cd_confirmation_required :: bool
  cd_parameters_schema :: json
  cd_expected_state_schema :: json

record capability =
  cap_id :: jsstr
  cap_commands :: "command_descriptor list option"

record endpoints =
  ep_well_known :: jsstr
  ep_api :: jsstr
  ep_events :: jsstr
  ep_openapi :: jsstr

record limits =
  lim_max_request_body_bytes :: nat
  lim_max_page_size :: nat
  lim_max_history_range_days :: nat
  lim_max_dense_range_days :: nat

record hub_descriptor =
  d_hub_id :: jsstr
  d_protocol :: protocol_info
  d_capabilities :: "capability list"
  d_endpoints :: endpoints
  d_limits :: limits

text \<open>The descriptor's \<^verbatim>\<open>Object.values(descriptor.endpoints)\<close>, in order.\<close>

definition endpoint_values :: "endpoints \<Rightarrow> jsstr list" where
  "endpoint_values e = [ep_well_known e, ep_api e, ep_events e, ep_openapi e]"

section \<open>Commands\<close>

record command_request =
  cr_vehicle_id :: jsstr
  cr_command :: jsstr
  cr_command_class :: command_class
  cr_parameters :: json
  cr_expected_state :: json
  cr_expires_at :: jsstr
  cr_confirmation :: "json option"

section \<open>Supported protocol versions\<close>

datatype supported_version = V1_0_0 | V1_1_0 | V1_2_0

fun version_string :: "supported_version \<Rightarrow> jsstr" where
  "version_string V1_0_0 = js ''1.0.0''"
| "version_string V1_1_0 = js ''1.1.0''"
| "version_string V1_2_0 = js ''1.2.0''"

lemma version_string_inject [simp]: "version_string v = version_string w \<longleftrightarrow> v = w"
  by (cases v; cases w) simp_all

fun version_rank :: "supported_version \<Rightarrow> nat" where
  "version_rank V1_0_0 = 0"
| "version_rank V1_1_0 = 1"
| "version_rank V1_2_0 = 2"

instantiation supported_version :: linorder
begin

definition less_eq_supported_version :: "supported_version \<Rightarrow> supported_version \<Rightarrow> bool" where
  "less_eq_supported_version v w \<longleftrightarrow> version_rank v \<le> version_rank w"

definition less_supported_version :: "supported_version \<Rightarrow> supported_version \<Rightarrow> bool" where
  "less_supported_version v w \<longleftrightarrow> version_rank v < version_rank w"

instance
proof
  fix x y :: supported_version
  show "x \<le> y \<Longrightarrow> y \<le> x \<Longrightarrow> x = y"
    by (cases x; cases y) (simp_all add: less_eq_supported_version_def)
qed (auto simp: less_eq_supported_version_def less_supported_version_def)

end

section \<open>Results of operations\<close>

record response_metadata =
  rm_status :: nat
  rm_etag :: "jsstr option"
  rm_location :: "jsstr option"
  rm_requestId :: "jsstr option"
  rm_protocolVersion :: "jsstr option"

datatype 'a read_result =
    Modified 'a response_metadata
  | NotModified response_metadata

fun read_metadata :: "'a read_result \<Rightarrow> response_metadata" where
  "read_metadata (Modified _ m) = m"
| "read_metadata (NotModified m) = m"

record 'a write_result =
  wr_value :: 'a
  wr_metadata :: response_metadata

end
