(* ===== verification/RequestBuilder.thy ===== *)
theory RequestBuilder
  imports RequestSnapshot UriText Http Models
begin

text \<open>
  \<^verbatim>\<open>http/request-builder.ts\<close>: the table of the Hub's operations, the interpolation of path
  templates and the requests built from them. The properties say what a request target means to
  the server that takes it apart: no value an application passes can change the path it is a
  segment of, or the query beside it.
\<close>

section \<open>Operations\<close>

datatype read_operation =
    DiscoverHub
  | ListVehicles
  | GetVehicleCurrentState
  | ListVehicleDrives
  | GetDrive
  | ListDrivePositions
  | ListVehicleCharges
  | GetCharge
  | ListChargeSamples
  | ListVehicleStates
  | ListVehicleUpdates
  | ListDataQuality
  | ListVehicleMetadata
  | GetMetadata
  | GetCommand

datatype write_operation = CreateMetadata | ReplaceMetadata | DeleteMetadata | CreateCommand

record read_descriptor =
  rd_pathTemplate :: jsstr
  rd_queryNames :: "jsstr list"
  rd_versioned :: bool

datatype write_method = POST | PUT | DELETE

record write_descriptor =
  wd_pathTemplate :: jsstr
  wd_method :: write_method
  wd_hasJsonBody :: bool

definition read_desc :: "string \<Rightarrow> string list \<Rightarrow> bool \<Rightarrow> read_descriptor" where
  "read_desc pathTemplate queryNames versioned =
     \<lparr>rd_pathTemplate = js pathTemplate, rd_queryNames = map js queryNames, rd_versioned = versioned\<rparr>"

definition write_desc :: "string \<Rightarrow> write_method \<Rightarrow> bool \<Rightarrow> write_descriptor" where
  "write_desc pathTemplate method hasJsonBody =
     \<lparr>wd_pathTemplate = js pathTemplate, wd_method = method, wd_hasJsonBody = hasJsonBody\<rparr>"

fun readOperationDescriptors :: "read_operation \<Rightarrow> read_descriptor" where
  "readOperationDescriptors DiscoverHub = read_desc ''/.well-known/teslatlas-hub'' [] False"
| "readOperationDescriptors ListVehicles = read_desc ''/v1/vehicles'' [''cursor'', ''limit''] True"
| "readOperationDescriptors GetVehicleCurrentState =
     read_desc ''/v1/vehicles/{vehicle_id}/current'' [] True"
| "readOperationDescriptors ListVehicleDrives =
     read_desc ''/v1/vehicles/{vehicle_id}/drives'' [''cursor'', ''limit'', ''from'', ''to''] True"
| "readOperationDescriptors GetDrive = read_desc ''/v1/drives/{drive_id}'' [] True"
| "readOperationDescriptors ListDrivePositions =
     read_desc ''/v1/drives/{drive_id}/positions'' [''cursor'', ''limit'', ''from'', ''to''] True"
| "readOperationDescriptors ListVehicleCharges =
     read_desc ''/v1/vehicles/{vehicle_id}/charges'' [''cursor'', ''limit'', ''from'', ''to''] True"
| "readOperationDescriptors GetCharge = read_desc ''/v1/charges/{charge_id}'' [] True"
| "readOperationDescriptors ListChargeSamples =
     read_desc ''/v1/charges/{charge_id}/samples'' [''cursor'', ''limit'', ''from'', ''to''] True"
| "readOperationDescriptors ListVehicleStates =
     read_desc ''/v1/vehicles/{vehicle_id}/states'' [''cursor'', ''limit'', ''from'', ''to''] True"
| "readOperationDescriptors ListVehicleUpdates =
     read_desc ''/v1/vehicles/{vehicle_id}/updates'' [''cursor'', ''limit'', ''from'', ''to''] True"
| "readOperationDescriptors ListDataQuality =
     read_desc ''/v1/data-quality'' [''cursor'', ''limit'', ''from'', ''to'', ''vehicle_id''] True"
| "readOperationDescriptors ListVehicleMetadata =
     read_desc ''/v1/vehicles/{vehicle_id}/metadata'' [''cursor'', ''limit'', ''kind''] True"
| "readOperationDescriptors GetMetadata = read_desc ''/v1/metadata/{metadata_id}'' [] True"
| "readOperationDescriptors GetCommand = read_desc ''/v1/commands/{command_id}'' [] True"

fun writeOperationDescriptors :: "write_operation \<Rightarrow> write_descriptor" where
  "writeOperationDescriptors CreateMetadata =
     write_desc ''/v1/vehicles/{vehicle_id}/metadata'' POST True"
| "writeOperationDescriptors ReplaceMetadata = write_desc ''/v1/metadata/{metadata_id}'' PUT True"
| "writeOperationDescriptors DeleteMetadata = write_desc ''/v1/metadata/{metadata_id}'' DELETE False"
| "writeOperationDescriptors CreateCommand = write_desc ''/v1/commands'' POST True"

section \<open>Paths\<close>

type_synonym path_values = "(jsstr \<times> jsstr) list"

definition uLBRACE :: code_unit where "uLBRACE = 123"
definition uRBRACE :: code_unit where "uRBRACE = 125"

text \<open>\<^verbatim>\<open>template.replace(/\{([^}]+)\}/gu, ...)\<close> with the names it used.\<close>

function replace_names :: "path_values \<Rightarrow> jsstr \<Rightarrow> (jsstr \<times> jsstr list) result" where
  "replace_names vs [] = Inr ([], [])"
| "replace_names vs (c # s) =
     (let name = takeWhile (\<lambda>d. d \<noteq> uRBRACE) s; rest = dropWhile (\<lambda>d. d \<noteq> uRBRACE) s
      in if c = uLBRACE \<and> name \<noteq> [] \<and> rest \<noteq> [] then
           (case map_of vs name of
              None \<Rightarrow> Inl InvalidRequestPathError
            | Some v \<Rightarrow>
                rbind (encodeURIComponent v) (\<lambda>e.
                rbind (replace_names vs (tl rest)) (\<lambda>(p, used). Inr (e @ p, name # used))))
         else rbind (replace_names vs s) (\<lambda>(p, used). Inr (c # p, used)))"
  by pat_completeness auto
termination
proof (relation "measure (length \<circ> snd)")
  fix s :: jsstr
  have "length (dropWhile (\<lambda>d. d \<noteq> uRBRACE) s) \<le> length s" by (rule length_dropWhile_le)
  then show "\<And>vs c x xa. x = takeWhile (\<lambda>d. d \<noteq> uRBRACE) s \<Longrightarrow>
      xa = dropWhile (\<lambda>d. d \<noteq> uRBRACE) s \<Longrightarrow> c = uLBRACE \<and> x \<noteq> [] \<and> xa \<noteq> [] \<Longrightarrow>
      ((vs, tl xa), vs, c # s) \<in> measure (length \<circ> snd)"
    by auto
qed auto

definition interpolatePath :: "jsstr \<Rightarrow> path_values \<Rightarrow> jsstr result" where
  "interpolatePath template vs =
     rbind (replace_names vs template) (\<lambda>(path, used).
       if \<not> starts_with path [uSLASH] \<or> starts_with path [uSLASH, uSLASH]
          \<or> list_ex (\<lambda>(name, _). name \<notin> set used) vs
       then Inl InvalidRequestPathError else Inr path)"

section \<open>Requests\<close>

datatype query_value = QString jsstr | QNumber jsnum | QList "jsstr list"

type_synonym query_values = "(jsstr \<times> query_value) list"

text \<open>The init of a request: the caller's signal and dispatch callback are marked as present.\<close>

record request_init =
  ri_method :: "jsstr option"
  ri_headers :: headers
  ri_redirect :: "string option"
  ri_body :: "jsstr option"
  ri_ifNoneMatch :: "jsstr option"
  ri_signal :: bool
  ri_onDispatch :: bool

record built_request =
  br_path :: jsstr
  br_init :: request_init

text \<open>\<^verbatim>\<open>query.append(name, ...)\<close> for the values present; \<^verbatim>\<open>nm\<close> is \<^verbatim>\<open>String\<close> of
  a number.\<close>

definition query_pairs :: "(jsnum \<Rightarrow> jsstr) \<Rightarrow> jsstr list \<Rightarrow> query_values \<Rightarrow> (jsstr \<times> jsstr) list" where
  "query_pairs nm names qs =
     concat (map (\<lambda>name.
       case map_of qs name of
         None \<Rightarrow> []
       | Some (QList items) \<Rightarrow> map (\<lambda>item. (name, item)) items
       | Some (QString s) \<Rightarrow> [(name, s)]
       | Some (QNumber x) \<Rightarrow> [(name, nm x)]) names)"

definition version_header :: jsstr where
  "version_header = js ''Teslatlas-Protocol-Version''"

definition buildReadRequest ::
    "(jsnum \<Rightarrow> jsstr) \<Rightarrow> read_descriptor \<Rightarrow> path_values \<Rightarrow> query_values \<Rightarrow> supported_version
     \<Rightarrow> jsstr option \<Rightarrow> bool \<Rightarrow> built_request result" where
  "buildReadRequest nm operation pathValues queryValues protocolVersion ifNoneMatch signal =
     rbind (interpolatePath (rd_pathTemplate operation) pathValues) (\<lambda>path.
       let encodedQuery = search_params (query_pairs nm (rd_queryNames operation) queryValues)
       in rbind (if rd_versioned operation then header_set version_header (version_string protocolVersion) []
                 else Inr []) (\<lambda>headers.
         Inr \<lparr>br_path = (if length encodedQuery = 0 then path else path @ uQMARK # encodedQuery),
              br_init = \<lparr>ri_method = None, ri_headers = headers, ri_redirect = Some ''error'',
                ri_body = None, ri_ifNoneMatch = ifNoneMatch, ri_signal = signal,
                ri_onDispatch = False\<rparr>\<rparr>))"

text \<open>The body of a write: a snapshot, or a value the builder takes a snapshot of.\<close>

datatype request_body = BodySnapshot json_snapshot | BodyValue jsval

record write_options =
  wo_body :: "request_body option"
  wo_ifMatch :: "jsstr option"
  wo_idempotencyKey :: "jsstr option"
  wo_signal :: bool
  wo_onDispatch :: bool

definition method_string :: "write_method \<Rightarrow> jsstr" where
  "method_string m = (case m of POST \<Rightarrow> js ''POST'' | PUT \<Rightarrow> js ''PUT'' | DELETE \<Rightarrow> js ''DELETE'')"

definition set_optional :: "string \<Rightarrow> jsstr option \<Rightarrow> headers \<Rightarrow> headers result" where
  "set_optional name v hs = (case v of None \<Rightarrow> Inr hs | Some x \<Rightarrow> header_set (js name) x hs)"

definition write_body ::
    "(jsnum \<Rightarrow> jsstr) \<Rightarrow> heap \<Rightarrow> write_descriptor \<Rightarrow> request_body option \<Rightarrow> headers
     \<Rightarrow> (jsstr option \<times> headers) result" where
  "write_body nm h operation body hs =
     (if wd_hasJsonBody operation then
        (case body of
           None \<Rightarrow> Inl InvalidRequestBodyError
         | Some b \<Rightarrow>
             rbind (header_set (js ''Content-Type'') (js ''application/json'') hs) (\<lambda>hs'.
             case b of
               BodySnapshot s \<Rightarrow> Inr (Some (sn_body s), hs')
             | BodyValue v \<Rightarrow>
                 rbind (snapshotJsonRequest nm h v None) (\<lambda>s. Inr (Some (sn_body s), hs'))))
      else (case body of None \<Rightarrow> Inr (None, hs) | Some _ \<Rightarrow> Inl InvalidRequestBodyError))"

definition buildWriteRequest ::
    "(jsnum \<Rightarrow> jsstr) \<Rightarrow> heap \<Rightarrow> write_descriptor \<Rightarrow> path_values \<Rightarrow> supported_version \<Rightarrow> write_options
     \<Rightarrow> built_request result" where
  "buildWriteRequest nm h operation pathValues protocolVersion options =
     rbind (interpolatePath (wd_pathTemplate operation) pathValues) (\<lambda>path.
     rbind (header_set version_header (version_string protocolVersion) []) (\<lambda>hs0.
     rbind (set_optional ''If-Match'' (wo_ifMatch options) hs0) (\<lambda>hs1.
     rbind (set_optional ''Idempotency-Key'' (wo_idempotencyKey options) hs1) (\<lambda>hs2.
     rbind (write_body nm h operation (wo_body options) hs2) (\<lambda>(body, hs3).
       Inr \<lparr>br_path = path,
            br_init = \<lparr>ri_method = Some (method_string (wd_method operation)), ri_headers = hs3,
              ri_redirect = Some ''error'', ri_body = body, ri_ifNoneMatch = None,
              ri_signal = wo_signal options, ri_onDispatch = wo_onDispatch options\<rparr>\<rparr>)))))"

section \<open>What a target means\<close>

text \<open>A segment of a template is literal text or a name in braces.\<close>

definition segment_name :: "jsstr \<Rightarrow> jsstr option" where
  "segment_name s = (if s \<noteq> [] \<and> hd s = uLBRACE then Some (butlast (tl s)) else None)"

definition wf_segment :: "jsstr \<Rightarrow> bool" where
  "wf_segment s \<longleftrightarrow>
     (case segment_name s of
        None \<Rightarrow> list_all uri_unreserved s
      | Some n \<Rightarrow> n \<noteq> [] \<and> uRBRACE \<notin> set n \<and> s = uLBRACE # n @ [uRBRACE])"

text \<open>What the server should read in the place of a segment.\<close>

definition segment_value :: "path_values \<Rightarrow> jsstr \<Rightarrow> jsstr" where
  "segment_value vs s =
     (case segment_name s of None \<Rightarrow> s | Some n \<Rightarrow> (case map_of vs n of Some v \<Rightarrow> v | None \<Rightarrow> []))"

definition segment_encodes :: "path_values \<Rightarrow> jsstr \<Rightarrow> jsstr \<Rightarrow> bool" where
  "segment_encodes vs s e \<longleftrightarrow>
     (case segment_name s of
        None \<Rightarrow> e = s
      | Some n \<Rightarrow> \<exists>v. map_of vs n = Some v \<and> encodeURIComponent v = Inr e)"

lemma unreserved_ascii: "uri_unreserved c \<Longrightarrow> unat c < 128 \<and> \<not> is_high c"
  by (auto simp: uri_unreserved_def char_class_defs is_high_def)

lemma encode_unreserved: "list_all uri_unreserved l \<Longrightarrow> encodeURIComponent l = Inr l"
proof -
  assume l: "list_all uri_unreserved l"
  then have "code_points l = map unat l"
    by (induction l rule: code_points.induct) (auto dest: unreserved_ascii)
  moreover have "\<not> list_ex surrogate_cp (map unat l)"
    using l by (fastforce simp: list_ex_iff list_all_iff surrogate_cp_def dest: unreserved_ascii)
  moreover have "concat (map encode_cp (map unat l)) = l"
    using l by (induction l) (auto simp: encode_cp_def dest: unreserved_ascii)
  ultimately show ?thesis by (simp add: encodeURIComponent_def)
qed

lemma replace_names_lit:
  "uLBRACE \<notin> set l \<Longrightarrow>
     replace_names vs (l @ t) = rbind (replace_names vs t) (\<lambda>(p, used). Inr (l @ p, used))"
proof (induction l)
  case Nil
  then show ?case by (cases "replace_names vs t") auto
next
  case (Cons c l)
  then show ?case by (cases "replace_names vs t") (auto simp: Let_def)
qed

lemma replace_names_param:
  assumes "n \<noteq> []" and "uRBRACE \<notin> set n"
  shows "replace_names vs (uLBRACE # n @ uRBRACE # t) =
    (case map_of vs n of
       None \<Rightarrow> Inl InvalidRequestPathError
     | Some v \<Rightarrow> rbind (encodeURIComponent v) (\<lambda>e.
         rbind (replace_names vs t) (\<lambda>(p, used). Inr (e @ p, n # used))))"
proof -
  have "takeWhile (\<lambda>d. d \<noteq> uRBRACE) (n @ uRBRACE # t) = n"
    "dropWhile (\<lambda>d. d \<noteq> uRBRACE) (n @ uRBRACE # t) = uRBRACE # t"
    using assms(2) by (auto simp: takeWhile_append dropWhile_append)
  with assms(1) show ?thesis by (simp add: Let_def split: option.split)
qed

lemma lbrace_reserved: "\<not> uri_unreserved uLBRACE"
  by (simp add: uri_unreserved_def char_class_defs uLBRACE_def)

text \<open>One segment, with what comes after it.\<close>

lemma replace_names_segment:
  assumes "wf_segment s" and "replace_names vs (s @ t) = Inr (p, used)"
  shows "\<exists>e p' used'. segment_encodes vs s e \<and> replace_names vs t = Inr (p', used')
    \<and> p = e @ p' \<and> set used = set_option (segment_name s) \<union> set used'"
proof (cases "segment_name s")
  case None
  then have "uLBRACE \<notin> set s"
    using assms(1) lbrace_reserved by (auto simp: wf_segment_def list_all_iff)
  with None assms(2) show ?thesis
    by (auto simp: replace_names_lit segment_encodes_def rbind_Inr_iff)
next
  case (Some n)
  then have n: "n \<noteq> []" "uRBRACE \<notin> set n" "s = uLBRACE # n @ [uRBRACE]"
    using assms(1) by (auto simp: wf_segment_def)
  with Some assms(2) show ?thesis
    by (auto simp: replace_names_param segment_encodes_def rbind_Inr_iff
        simp del: replace_names.simps split: option.splits)
qed

lemma replace_names_template:
  assumes "list_all wf_segment ss" and "ss \<noteq> []" and "replace_names vs (join_with [uSLASH] ss) = Inr (p, used)"
  shows "\<exists>es. list_all2 (segment_encodes vs) ss es \<and> p = join_with [uSLASH] es
    \<and> set used = (\<Union>s \<in> set ss. set_option (segment_name s))"
  using assms
proof (induction ss arbitrary: p used rule: induct_list012)
  case (2 s)
  then obtain e where "segment_encodes vs s e" "p = e" "set used = set_option (segment_name s)"
    using replace_names_segment [of s vs "[]" p used] by auto
  then show ?case by (intro exI [of _ "[e]"]) simp
next
  case (3 s s' ss)
  let ?t = "join_with [uSLASH] (s' # ss)"
  obtain e p1 used1 where e: "segment_encodes vs s e" "replace_names vs (uSLASH # ?t) = Inr (p1, used1)"
    "p = e @ p1" "set used = set_option (segment_name s) \<union> set used1"
    using replace_names_segment [of s vs "uSLASH # ?t" p used] 3 by auto
  have "uLBRACE \<notin> set [uSLASH]" by (simp add: uLBRACE_def)
  then obtain p2 where p2: "replace_names vs ?t = Inr (p2, used1)" "p1 = uSLASH # p2"
    using e(2) replace_names_lit [of "[uSLASH]" vs ?t] by (auto simp: rbind_Inr_iff)
  obtain es where es: "list_all2 (segment_encodes vs) (s' # ss) es" "p2 = join_with [uSLASH] es"
    "set used1 = (\<Union>s \<in> set (s' # ss). set_option (segment_name s))"
    using 3(2) [of p2 used1] 3(3) p2(1) by auto
  obtain e' es' where "es = e' # es'" using es(1) by (cases es) auto
  with es e p2 show ?case by (intro exI [of _ "e # es"]) auto
qed simp

lemma segment_encodes_decode: "wf_segment s \<Longrightarrow> segment_encodes vs s e \<Longrightarrow> uri_decode e = segment_value vs s"
  by (auto simp: wf_segment_def segment_encodes_def segment_value_def
      intro: uri_decode_encode encode_unreserved split: option.splits)

lemma segment_encodes_chars:
  "wf_segment s \<Longrightarrow> segment_encodes vs s e \<Longrightarrow> c \<in> set e \<Longrightarrow> uri_char c"
  by (auto simp: wf_segment_def segment_encodes_def uri_char_def list_all_iff
      dest: encodeURIComponent_chars [unfolded uri_char_def] split: option.splits)

definition wf_template :: "jsstr \<Rightarrow> bool" where
  "wf_template t \<longleftrightarrow> list_all wf_segment (split_on uSLASH t)"

text \<open>A path the builder returns, taken apart at its slashes and decoded, is the template with its
  names replaced by the values, whatever the values hold.\<close>

lemma interpolatePath_meaning:
  assumes "wf_template t" and "interpolatePath t vs = Inr p"
  shows "map uri_decode (split_on uSLASH p) = map (segment_value vs) (split_on uSLASH t)"
    and "c \<in> set p \<Longrightarrow> uri_char c \<or> c = uSLASH"
    and "starts_with p [uSLASH] \<and> \<not> starts_with p [uSLASH, uSLASH]"
    and "fst ` set vs \<subseteq> (\<Union>s \<in> set (split_on uSLASH t). set_option (segment_name s))"
proof -
  let ?ss = "split_on uSLASH t"
  obtain used where r: "replace_names vs t = Inr (p, used)"
    and ok: "starts_with p [uSLASH] \<and> \<not> starts_with p [uSLASH, uSLASH]"
      "\<forall>(n, _) \<in> set vs. n \<in> set used"
    using assms(2) by (auto simp: interpolatePath_def rbind_Inr_iff list_ex_iff split: if_splits)
  have "replace_names vs (join_with [uSLASH] ?ss) = Inr (p, used)" using r by simp
  then obtain es where es: "list_all2 (segment_encodes vs) ?ss es" "p = join_with [uSLASH] es"
    "set used = (\<Union>s \<in> set ?ss. set_option (segment_name s))"
    using replace_names_template [of ?ss vs p used] assms(1) by (auto simp: wf_template_def)
  have char: "uri_char c" if "e \<in> set es" "c \<in> set e" for e c
    using es(1) that assms(1) segment_encodes_chars
    by (fastforce simp: wf_template_def list_all2_conv_all_nth list_all_length in_set_conv_nth)
  have "es \<noteq> []" using es(1) by auto
  then have sp: "split_on uSLASH p = es"
    using char uri_char_not_separator unfolding es(2) by (intro split_join) fastforce+
  show "map uri_decode (split_on uSLASH p) = map (segment_value vs) ?ss"
    unfolding sp using es(1) assms(1)
    by - (rule nth_equalityI, auto simp: wf_template_def list_all2_conv_all_nth list_all_length
        segment_encodes_decode)
  show "c \<in> set p \<Longrightarrow> uri_char c \<or> c = uSLASH"
    using char by (auto simp: es(2) dest!: join_with_set)
  show "starts_with p [uSLASH] \<and> \<not> starts_with p [uSLASH, uSLASH]" by (rule ok(1))
  show "fst ` set vs \<subseteq> (\<Union>s \<in> set ?ss. set_option (segment_name s))"
    using ok(2) es(3) by auto
qed

text \<open>Every template of the table is of this form.\<close>

lemmas template_eval = wf_template_def wf_segment_def segment_name_def uri_unreserved_def
  uLBRACE_def uRBRACE_def js_eval

lemma read_templates: "wf_template (rd_pathTemplate (readOperationDescriptors op))"
  by (cases op) (simp_all add: read_desc_def template_eval)

lemma write_templates: "wf_template (wd_pathTemplate (writeOperationDescriptors op))"
  by (cases op) (simp_all add: write_desc_def template_eval)

section \<open>Properties\<close>

lemma uri_path_no_query: "uri_char c \<or> c = uSLASH \<Longrightarrow> c \<noteq> uQMARK \<and> c \<noteq> uHASH"
  using uri_char_not_separator by fastforce

lemma form_no_hash: "form_char c \<or> c = uAMP \<or> c = uEQ \<Longrightarrow> c \<noteq> uHASH"
  using form_char_not_separator by (fastforce simp: uAMP_def uEQ_def)

text \<open>C15: nothing an application passes can escape its place in a request target. Whatever the
  path and query values hold (slashes, question marks, percent signs, surrogates), the target of a
  read splits at its first question mark into a path and a query; the path has exactly the
  segments of the operation's template, each decoding to the literal text or to the very value
  passed for it; the query decodes to exactly the listed names present, in the table's order, with
  their values; there is no fragment, the path starts with a single slash, and redirects are
  refused.\<close>

theorem read_request_target:
  assumes "buildReadRequest nm (readOperationDescriptors op) vs qs version etag sig = Inr req"
    and "\<forall>(n, v) \<in> set (query_pairs nm (rd_queryNames (readOperationDescriptors op)) qs).
      well_formed n \<and> well_formed v"
  shows "\<exists>path query. br_path req = path @ (if query = [] then [] else uQMARK # query)
    \<and> uQMARK \<notin> set path \<and> uHASH \<notin> set (br_path req)
    \<and> starts_with path [uSLASH] \<and> \<not> starts_with path [uSLASH, uSLASH]
    \<and> map uri_decode (split_on uSLASH path) =
        map (segment_value vs) (split_on uSLASH (rd_pathTemplate (readOperationDescriptors op)))
    \<and> search_parse query = query_pairs nm (rd_queryNames (readOperationDescriptors op)) qs
    \<and> ri_redirect (br_init req) = Some ''error'' \<and> ri_ifNoneMatch (br_init req) = etag"
proof -
  let ?d = "readOperationDescriptors op"
  let ?q = "search_params (query_pairs nm (rd_queryNames ?d) qs)"
  obtain path where path: "interpolatePath (rd_pathTemplate ?d) vs = Inr path"
    and req: "br_path req = (if ?q = [] then path else path @ uQMARK # ?q)"
      "ri_redirect (br_init req) = Some ''error''" "ri_ifNoneMatch (br_init req) = etag"
    using assms(1) by (auto simp: buildReadRequest_def rbind_Inr_iff Let_def simp del: search_params_eq_Nil)
  note m = interpolatePath_meaning [OF read_templates path]
  have "uQMARK \<notin> set path" "uHASH \<notin> set path" using m(2) uri_path_no_query by blast+
  moreover have "uHASH \<notin> set ?q" using search_params_chars form_no_hash by blast
  ultimately show ?thesis
    using m(1,3) req search_parse_params [OF assms(2)]
    by (intro exI [of _ path] exI [of _ ?q]) (simp del: search_params_eq_Nil)
qed

definition sample_id :: jsstr where
  "sample_id = [97, uSLASH, 98, uQMARK, 99]"

theorem read_request_target_witness:
  "\<exists>req path query.
     buildReadRequest (\<lambda>_. []) (readOperationDescriptors GetDrive) [(js ''drive_id'', sample_id)] [] V1_2_0 None False
       = Inr req
     \<and> br_path req = path @ (if query = [] then [] else uQMARK # query)
     \<and> map uri_decode (split_on uSLASH path) = [[], js ''v1'', js ''drives'', sample_id]"
proof -
  let ?vs = "[(js ''drive_id'', sample_id)]" and ?d = "readOperationDescriptors GetDrive"
  obtain e where e: "encodeURIComponent sample_id = Inr e"
    using encodeURIComponent_ok [of sample_id]
    by (auto simp: sample_id_def well_formed_def scalar_value_def surrogate_cp_def is_high_def in_range_def)
  have t: "rd_pathTemplate ?d = js ''/v1/drives/'' @ uLBRACE # js ''drive_id'' @ uRBRACE # []"
    by (simp add: read_desc_def js_append [symmetric] uLBRACE_def uRBRACE_def js_eval)
  have "replace_names ?vs (rd_pathTemplate ?d) = Inr (js ''/v1/drives/'' @ e, [js ''drive_id''])"
    unfolding t
    by (subst replace_names_lit, simp add: js_eval uLBRACE_def)
      (subst replace_names_param, simp, simp add: js_eval uRBRACE_def, simp add: e)
  then have "interpolatePath (rd_pathTemplate ?d) ?vs = Inr (js ''/v1/drives/'' @ e)"
    by (simp add: interpolatePath_def starts_with_def) (simp add: js_eval)
  then have "\<exists>req. buildReadRequest (\<lambda>_. []) ?d ?vs [] V1_2_0 None False = Inr req"
    by (auto simp: buildReadRequest_def Let_def header_set_def normalize_value_def valid_value_def
        http_space_def read_desc_def js_eval)
  then obtain req where r: "buildReadRequest (\<lambda>_. []) ?d ?vs [] V1_2_0 None False = Inr req" by blast
  have q: "\<forall>(n, v) \<in> set (query_pairs (\<lambda>_. []) (rd_queryNames ?d) []). well_formed n \<and> well_formed v"
    by (simp add: query_pairs_def read_desc_def)
  have s: "map (segment_value ?vs) (split_on uSLASH (rd_pathTemplate ?d)) =
      [[], js ''v1'', js ''drives'', sample_id]"
    by (simp add: read_desc_def segment_value_def segment_name_def uLBRACE_def js_eval)
  obtain path query where "br_path req = path @ (if query = [] then [] else uQMARK # query)"
    "map uri_decode (split_on uSLASH path) = [[], js ''v1'', js ''drives'', sample_id]"
    using read_request_target [OF r q] unfolding s by (elim exE conjE)
  with r show ?thesis by (intro exI conjI)
qed

text \<open>The headers and the body of a write.\<close>

lemma write_body_cases:
  assumes "write_body nm h (writeOperationDescriptors op) body hs = Inr (b, hs')"
  obtains (none) "op = DeleteMetadata" "body = None" "b = None" "hs' = hs"
    | (snap) s where "op \<noteq> DeleteMetadata" "body = Some (BodySnapshot s)" "b = Some (sn_body s)"
      "header_set (js ''Content-Type'') (js ''application/json'') hs = Inr hs'"
    | (val) v s where "op \<noteq> DeleteMetadata" "body = Some (BodyValue v)" "b = Some (sn_body s)"
      "snapshotJsonRequest nm h v None = Inr s"
      "header_set (js ''Content-Type'') (js ''application/json'') hs = Inr hs'"
proof (cases "op = DeleteMetadata")
  case True
  with assms none show thesis by (auto simp: write_body_def write_desc_def split: option.splits)
next
  case False
  then have "wd_hasJsonBody (writeOperationDescriptors op)"
    by (cases op) (simp_all add: write_desc_def)
  then show thesis
    using assms False snap val
    by (cases body; cases "the body") (auto simp: write_body_def rbind_Inr_iff)
qed

lemma buildWriteRequest_parts:
  assumes "buildWriteRequest nm h (writeOperationDescriptors op) vs version options = Inr req"
  obtains path hs where "interpolatePath (wd_pathTemplate (writeOperationDescriptors op)) vs = Inr path"
    "br_path req = path" "ri_headers (br_init req) = hs"
    "ri_signal (br_init req) = wo_signal options" "ri_onDispatch (br_init req) = wo_onDispatch options"
    "ri_ifNoneMatch (br_init req) = None"
    "ri_method (br_init req) = Some (method_string (wd_method (writeOperationDescriptors op)))"
    "\<exists>hs2. write_body nm h (writeOperationDescriptors op) (wo_body options) hs2 = Inr (ri_body (br_init req), hs)"
  using assms that by (auto simp: buildWriteRequest_def rbind_Inr_iff) blast

end
