(* ===== verification/FetchTransport.thy ===== *)
theory FetchTransport
  imports RequestBuilder OpaqueValues
begin

text \<open>
  \<^verbatim>\<open>http/fetch-transport.ts\<close> and \<^verbatim>\<open>http/conditional.ts\<close>. The URL parser of the
  platform, the authorization provider and the Fetch implementation are parameters. A request is a
  function of them to its outcome (a response, an error, or a promise that never settles) and to
  the actions it took on the way: asking for credentials, telling the caller that it dispatches,
  and fetching.
\<close>

section \<open>URLs\<close>

record url =
  u_href :: jsstr
  u_protocol :: jsstr
  u_username :: jsstr
  u_password :: jsstr
  u_hostname :: jsstr
  u_origin :: jsstr
  u_pathname :: jsstr
  u_search :: jsstr
  u_hash :: jsstr

text \<open>\<^verbatim>\<open>new URL(input, base)\<close>: \<open>None\<close> when it throws.\<close>

type_synonym url_parser = "jsstr \<Rightarrow> url option \<Rightarrow> url option"

datatype url_input = UrlString jsstr | UrlObject url

definition input_href :: "url_input \<Rightarrow> jsstr" where
  "input_href v = (case v of UrlString s \<Rightarrow> s | UrlObject u \<Rightarrow> u_href u)"

definition protocol_http :: jsstr where "protocol_http = js ''http:''"
definition protocol_https :: jsstr where "protocol_https = js ''https:''"

definition parseBaseUrl :: "url_parser \<Rightarrow> url_input \<Rightarrow> url result" where
  "parseBaseUrl P v =
     (case P (input_href v) None of
        None \<Rightarrow> Inl InvalidBaseUrlError
      | Some url \<Rightarrow>
          if (u_protocol url \<noteq> protocol_http \<and> u_protocol url \<noteq> protocol_https)
             \<or> 0 < length (u_username url) \<or> 0 < length (u_password url)
          then Inl InvalidBaseUrlError else Inr url)"

definition resolveRequestUrl :: "url_parser \<Rightarrow> url \<Rightarrow> jsstr \<Rightarrow> url result" where
  "resolveRequestUrl P baseUrl path =
     (if \<not> starts_with path [uSLASH] \<or> starts_with path [uSLASH, uSLASH] \<or> containsControlCharacters path
      then Inl InvalidRequestPathError
      else case P path (Some baseUrl) of
        None \<Rightarrow> Inl type_error
      | Some url \<Rightarrow> if u_origin url \<noteq> u_origin baseUrl then Inl InvalidRequestPathError else Inr url)"

section \<open>Conditional requests\<close>

text \<open>\<^verbatim>\<open>URLSearchParams.set\<close>: the first pair of the name takes the value, the others
  go.\<close>

fun set_search_param :: "jsstr \<Rightarrow> jsstr \<Rightarrow> (jsstr \<times> jsstr) list \<Rightarrow> (jsstr \<times> jsstr) list" where
  "set_search_param n v [] = [(n, v)]"
| "set_search_param n v (p # ps) =
     (if fst p = n then (n, v) # filter (\<lambda>q. fst q \<noteq> n) ps else p # set_search_param n v ps)"

definition appendOpaqueQueryValue ::
    "(jsstr \<times> jsstr) list \<Rightarrow> jsstr \<Rightarrow> jsstr \<Rightarrow> (jsstr \<times> jsstr) list result" where
  "appendOpaqueQueryValue params parameterName value =
     (if length parameterName = 0 \<or> containsControlCharacters parameterName
      then Inl InvalidQueryParameterNameError else Inr (set_search_param parameterName value params))"

definition applyIfNoneMatch :: "headers \<Rightarrow> jsstr \<Rightarrow> headers result" where
  "applyIfNoneMatch hs entityTag = header_set (js ''If-None-Match'') entityTag hs"

definition readEntityTag :: "headers \<Rightarrow> jsstr option result" where
  "readEntityTag hs =
     (case header_get (js ''ETag'') hs of None \<Rightarrow> Inr None | Some v \<Rightarrow> map_sum id Some (asEntityTag v))"

definition isNotModified :: "nat \<Rightarrow> bool" where
  "isNotModified status \<longleftrightarrow> status = 304"

section \<open>The transport\<close>

text \<open>What the authorization provider does when it is called: it throws, its promise settles, or
  it is still pending when the request is aborted (for ever, without a signal).\<close>

datatype authorization_call =
    AuthThrows exn
  | AuthSettles "jsstr option result"
  | AuthPending

datatype fetch_call = FetchResponds response | FetchRejects exn | FetchPending

record fetch_init =
  fi_method :: jsstr
  fi_headers :: headers
  fi_body :: "jsstr option"
  fi_redirect :: "string option"
  fi_signal :: bool

record transport =
  t_baseUrl :: url
  t_authorization :: "(url \<Rightarrow> jsstr \<Rightarrow> authorization_call) option"
  t_fetch :: "url \<Rightarrow> fetch_init \<Rightarrow> fetch_call"

datatype transport_action =
    Authorize url jsstr
  | Dispatch
  | Fetch url fetch_init

text \<open>The caller's side of one request: the signal as it is observed, if there is one, and what the
  dispatch callback throws, if it throws.\<close>

record request_caller =
  c_signal :: "signal_oracle option"
  c_onDispatch :: "exn option"

definition resolveFetch ::
    "(url \<Rightarrow> fetch_init \<Rightarrow> fetch_call) option \<Rightarrow> (url \<Rightarrow> fetch_init \<Rightarrow> fetch_call) option
     \<Rightarrow> (url \<Rightarrow> fetch_init \<Rightarrow> fetch_call) result" where
  "resolveFetch injected global =
     (case injected of
        Some f \<Rightarrow> Inr f
      | None \<Rightarrow> (case global of None \<Rightarrow> Inl MissingFetchError | Some f \<Rightarrow> Inr f))"

definition createTransport ::
    "url_parser \<Rightarrow> url_input \<Rightarrow> (url \<Rightarrow> fetch_init \<Rightarrow> fetch_call) option
     \<Rightarrow> (url \<Rightarrow> fetch_init \<Rightarrow> fetch_call) option \<Rightarrow> (url \<Rightarrow> jsstr \<Rightarrow> authorization_call) option
     \<Rightarrow> transport result" where
  "createTransport P baseUrl injected global authorization =
     rbind (parseBaseUrl P baseUrl) (\<lambda>url.
     rbind (resolveFetch injected global) (\<lambda>f.
       Inr \<lparr>t_baseUrl = url, t_authorization = authorization, t_fetch = f\<rparr>))"

text \<open>The state of the signal at its \<open>k\<close>-th observation; no signal is never aborted.\<close>

definition observe :: "signal_oracle option \<Rightarrow> nat \<Rightarrow> signal_state" where
  "observe s k = (case s of None \<Rightarrow> Live | Some f \<Rightarrow> f k)"

text \<open>\<^verbatim>\<open>waitForAuthorization\<close> on a call that has returned a promise; \<open>None\<close>: it never
  settles.\<close>

definition waitForAuthorization ::
    "jsstr option result \<Rightarrow> bool \<Rightarrow> signal_oracle option \<Rightarrow> jsstr option result option" where
  "waitForAuthorization value pending signal =
     (case signal of
        None \<Rightarrow> if pending then None else Some value
      | Some f \<Rightarrow>
          if is_aborted (f 1) then Some (Inl (abort_reason (f 1)))
          else if pending then Some (Inl (abort_reason (f 2)))
          else Some value)"

definition callAuthorization ::
    "transport \<Rightarrow> url \<Rightarrow> jsstr \<Rightarrow> signal_oracle option \<Rightarrow> jsstr option result option" where
  "callAuthorization t url method signal =
     (case t_authorization t of
        None \<Rightarrow> waitForAuthorization (Inr None) False signal
      | Some provider \<Rightarrow>
          (case provider url method of
             AuthThrows e \<Rightarrow> Some (Inl e)
           | AuthSettles v \<Rightarrow> waitForAuthorization v False signal
           | AuthPending \<Rightarrow> waitForAuthorization (Inr None) True signal))"

definition authorizationHeader :: "jsstr option \<Rightarrow> headers \<Rightarrow> headers result" where
  "authorizationHeader authorization hs =
     (case authorization of
        None \<Rightarrow> Inr hs
      | Some a \<Rightarrow>
          if length a = 0 \<or> containsControlCharacters a then Inl InvalidAuthorizationValueError
          else header_set (js ''Authorization'') a hs)"

definition isAbortError :: "exn \<Rightarrow> bool" where
  "isAbortError e \<longleftrightarrow> e = DomException ''AbortError''"

text \<open>The \<^verbatim>\<open>catch\<close> of \<^verbatim>\<open>request\<close>.\<close>

definition requestError :: "signal_oracle option \<Rightarrow> exn \<Rightarrow> exn" where
  "requestError signal e =
     (if is_teslatlas_error e then e
      else if is_aborted (observe signal 4) then reason_or e (observe signal 4)
      else if isAbortError e then e
      else TransportError)"

text \<open>The body of the \<^verbatim>\<open>try\<close>: its outcome and its actions.\<close>

definition attemptRequest ::
    "transport \<Rightarrow> request_caller \<Rightarrow> url \<Rightarrow> jsstr \<Rightarrow> request_init \<Rightarrow> headers
     \<Rightarrow> response result option \<times> transport_action list" where
  "attemptRequest t caller url method init headers =
     (let signal = c_signal caller;
          asked = (if t_authorization t = None then [] else [Authorize url method])
      in if is_aborted (observe signal 0) then (Some (Inl (abort_reason (observe signal 0))), [])
         else case callAuthorization t url method signal of
           None \<Rightarrow> (None, asked)
         | Some (Inl e) \<Rightarrow> (Some (Inl e), asked)
         | Some (Inr authorization) \<Rightarrow>
             (case authorizationHeader authorization headers of
                Inl e \<Rightarrow> (Some (Inl e), asked)
              | Inr hs \<Rightarrow>
                  if is_aborted (observe signal 3)
                  then (Some (Inl (abort_reason (observe signal 3))), asked)
                  else
                    let dispatched = (if ri_onDispatch init then [Dispatch] else []);
                        finit = \<lparr>fi_method = method, fi_headers = hs, fi_body = ri_body init,
                                 fi_redirect = ri_redirect init, fi_signal = ri_signal init\<rparr>
                    in case (if ri_onDispatch init then c_onDispatch caller else None) of
                      Some e \<Rightarrow> (Some (Inl e), asked @ dispatched)
                    | None \<Rightarrow>
                        (case t_fetch t url finit of
                           FetchResponds r \<Rightarrow> (Some (Inr r), asked @ dispatched @ [Fetch url finit])
                         | FetchRejects e \<Rightarrow> (Some (Inl e), asked @ dispatched @ [Fetch url finit])
                         | FetchPending \<Rightarrow> (None, asked @ dispatched @ [Fetch url finit]))))"

definition upper_unit :: "code_unit \<Rightarrow> code_unit" where
  "upper_unit c = (if in_range 97 122 c then c - 32 else c)"

text \<open>\<^verbatim>\<open>FetchTransport.request\<close>. The method is a token of the ASCII alphabet.\<close>

definition request ::
    "url_parser \<Rightarrow> transport \<Rightarrow> request_caller \<Rightarrow> jsstr \<Rightarrow> request_init
     \<Rightarrow> response result option \<times> transport_action list" where
  "request P t caller path init =
     (case resolveRequestUrl P (t_baseUrl t) path of
        Inl e \<Rightarrow> (Some (Inl e), [])
      | Inr url \<Rightarrow>
          let method = map upper_unit (case ri_method init of None \<Rightarrow> js ''GET'' | Some m \<Rightarrow> m)
          in if header_has (js ''Authorization'') (ri_headers init)
             then (Some (Inl ReservedAuthorizationHeaderError), [])
             else case (case ri_ifNoneMatch init of
                          None \<Rightarrow> Inr (ri_headers init)
                        | Some e \<Rightarrow> applyIfNoneMatch (ri_headers init) e) of
               Inl e \<Rightarrow> (Some (Inl e), [])
             | Inr headers \<Rightarrow>
                 (case attemptRequest t caller url method init headers of
                    (Some (Inl e), acts) \<Rightarrow> (Some (Inl (requestError (c_signal caller) e)), acts)
                  | (out, acts) \<Rightarrow> (out, acts)))"

section \<open>What a request does\<close>

lemma observe_None [simp]: "observe None k = Live"
  by (simp add: observe_def)

text \<open>The method a request is made with.\<close>

definition request_method :: "request_init \<Rightarrow> jsstr" where
  "request_method init = map upper_unit (case ri_method init of None \<Rightarrow> js ''GET'' | Some m \<Rightarrow> m)"

definition asked :: "transport \<Rightarrow> url \<Rightarrow> jsstr \<Rightarrow> transport_action list" where
  "asked t url verb = (if t_authorization t = None then [] else [Authorize url verb])"

definition dispatched :: "request_init \<Rightarrow> transport_action list" where
  "dispatched init = (if ri_onDispatch init then [Dispatch] else [])"

definition fetch_init_of :: "jsstr \<Rightarrow> headers \<Rightarrow> request_init \<Rightarrow> fetch_init" where
  "fetch_init_of verb hs init =
     \<lparr>fi_method = verb, fi_headers = hs, fi_body = ri_body init, fi_redirect = ri_redirect init,
      fi_signal = ri_signal init\<rparr>"

definition callback_error :: "request_caller \<Rightarrow> request_init \<Rightarrow> exn option" where
  "callback_error caller init = (if ri_onDispatch init then c_onDispatch caller else None)"

text \<open>How far an attempt gets.\<close>

lemma attempt_cases:
  assumes "attemptRequest t caller url verb init hs = (out, acts)"
  obtains (aborted) k where "is_aborted (observe (c_signal caller) k)"
      "out = Some (Inl (abort_reason (observe (c_signal caller) k)))"
      "acts = [] \<or> acts = asked t url verb"
    | (waiting) "out = None" "acts = asked t url verb"
      "callAuthorization t url verb (c_signal caller) = None"
    | (unauthorized) e where "out = Some (Inl e)" "acts = asked t url verb"
      "callAuthorization t url verb (c_signal caller) = Some (Inl e)"
    | (refused) a e where "out = Some (Inl e)" "acts = asked t url verb"
      "callAuthorization t url verb (c_signal caller) = Some (Inr a)"
      "authorizationHeader a hs = Inl e"
    | (thrown) e where "out = Some (Inl e)" "acts = asked t url verb @ dispatched init"
      "callback_error caller init = Some e" "ri_onDispatch init"
    | (fetched) a hs' where "callAuthorization t url verb (c_signal caller) = Some (Inr a)"
      "authorizationHeader a hs = Inr hs'" "callback_error caller init = None"
      "acts = asked t url verb @ dispatched init @ [Fetch url (fetch_init_of verb hs' init)]"
      "out = (case t_fetch t url (fetch_init_of verb hs' init) of
         FetchResponds r \<Rightarrow> Some (Inr r) | FetchRejects e \<Rightarrow> Some (Inl e) | FetchPending \<Rightarrow> None)"
proof -
  let ?s = "c_signal caller"
  note defs = attemptRequest_def Let_def asked_def [symmetric] dispatched_def [symmetric]
    fetch_init_of_def [symmetric] callback_error_def [symmetric]
  show thesis
  proof (cases "is_aborted (observe ?s 0)")
    case True
    with assms aborted [of 0] show thesis by (simp add: attemptRequest_def Let_def)
  next
    case live: False
    show thesis
    proof (cases "callAuthorization t url verb ?s")
      case None
      with assms live waiting show thesis by (simp add: defs)
    next
      case (Some r)
      show thesis
      proof (cases r)
        case (Inl e)
        with assms live Some unauthorized [of e] show thesis by (auto simp: defs)
      next
        case (Inr a)
        show thesis
        proof (cases "authorizationHeader a hs")
          case (Inl e)
          with assms live Some Inr refused [of e a] show thesis by (simp add: defs)
        next
          case hs: (Inr hs')
          show thesis
          proof (cases "is_aborted (observe ?s 3)")
            case True
            with assms live Some Inr hs aborted [of 3] show thesis by (simp add: defs)
          next
            case live3: False
            show thesis
            proof (cases "callback_error caller init")
              case (Some e)
              with assms live \<open>callAuthorization t url verb ?s = Some r\<close> Inr hs live3
              have "out = Some (Inl e)" "acts = asked t url verb @ dispatched init"
                by (simp_all add: defs)
              moreover have "ri_onDispatch init"
                using Some by (simp add: callback_error_def split: if_splits)
              ultimately show thesis using Some thrown by blast
            next
              case None
              with assms live Some Inr hs live3 fetched [of a hs'] show thesis
                by (cases "t_fetch t url (fetch_init_of verb hs' init)") (simp_all add: defs)
            qed
          qed
        qed
      qed
    qed
  qed
qed

lemma request_cases:
  assumes "request P t caller path init = (out, acts)"
  obtains (early) e where "out = Some (Inl e)" "acts = []"
      "e \<in> {InvalidRequestPathError, ReservedAuthorizationHeaderError, type_error}"
    | (attempt) url hs verb out' where "resolveRequestUrl P (t_baseUrl t) path = Inr url"
      "\<not> header_has (js ''Authorization'') (ri_headers init)"
      "(case ri_ifNoneMatch init of None \<Rightarrow> Inr (ri_headers init)
        | Some e \<Rightarrow> applyIfNoneMatch (ri_headers init) e) = Inr hs"
      "attemptRequest t caller url verb init hs = (out', acts)"
      "out = map_option (map_sum (requestError (c_signal caller)) id) out'" "verb = request_method init"
proof (cases "resolveRequestUrl P (t_baseUrl t) path")
  case (Inl e)
  then have "e \<in> {InvalidRequestPathError, type_error}"
    by (auto simp: resolveRequestUrl_def split: if_splits option.splits)
  with assms Inl early [of e] show thesis by (auto simp: request_def)
next
  case (Inr url)
  show thesis
  proof (cases "header_has (js ''Authorization'') (ri_headers init)")
    case True
    with assms Inr early show thesis by (auto simp: request_def Let_def)
  next
    case False
    let ?h = "case ri_ifNoneMatch init of None \<Rightarrow> Inr (ri_headers init)
        | Some e \<Rightarrow> applyIfNoneMatch (ri_headers init) e"
    let ?m = "request_method init"
    show thesis
    proof (cases ?h)
      case (Inl e)
      then have "e = type_error"
        by (auto simp: applyIfNoneMatch_def header_set_def Let_def split: option.splits if_splits)
      with assms Inr False Inl early [of e] show thesis by (simp add: request_def Let_def)
    next
      case hs: (Inr hs)
      obtain out' acts' where a: "attemptRequest t caller url ?m init hs = (out', acts')" by force
      then have "out = map_option (map_sum (requestError (c_signal caller)) id) out'" "acts' = acts"
        using assms Inr False hs
        by (auto simp: request_def request_method_def Let_def split: option.splits sum.splits)
      with a attempt Inr False hs show thesis by blast
    qed
  qed
qed

text \<open>The provider's value as it reaches the header.\<close>

lemma authorizationHeader_get:
  assumes "authorizationHeader a hs = Inr hs'"
  shows "header_get (js ''Authorization'') hs' =
    (case a of None \<Rightarrow> header_get (js ''Authorization'') hs | Some v \<Rightarrow> Some (normalize_value v))"
    and "a = Some v \<Longrightarrow> v \<noteq> [] \<and> \<not> containsControlCharacters v"
  using assms by (auto simp: authorizationHeader_def header_get_set split: option.splits if_splits)

lemma waitForAuthorization_Inr:
  "waitForAuthorization v p s = Some (Inr a) \<Longrightarrow> v = Inr a \<and> \<not> p"
  by (auto simp: waitForAuthorization_def split: option.splits if_splits)

lemma callAuthorization_Inr:
  "callAuthorization t url verb s = Some (Inr a) \<Longrightarrow>
     (case t_authorization t of
        None \<Rightarrow> a = None
      | Some provider \<Rightarrow> provider url verb = AuthSettles (Inr a))"
  by (auto simp: callAuthorization_def dest: waitForAuthorization_Inr
      split: option.splits authorization_call.splits)

lemma if_none_match_authorization:
  assumes "(case e of None \<Rightarrow> Inr hs | Some v \<Rightarrow> applyIfNoneMatch hs v) = Inr hs'"
  shows "header_get (js ''Authorization'') hs' = header_get (js ''Authorization'') hs"
proof -
  have "js_lower (js ''Authorization'') \<noteq> js_lower (js ''If-None-Match'')"
    by (simp add: js_eval js_lower_def lower_unit_def)
  with assms show ?thesis
    by (auto simp: applyIfNoneMatch_def header_get_set split: option.splits)
qed

text \<open>C16: credentials only ever travel to the base URL's origin, and only as the provider gave
  them: whatever path and headers a request has, it fetches at most once; the URL it fetches is the
  path resolved against the base URL and has its origin; the method is the one of the request in
  upper case, GET without one; the Authorization header is absent without a provider and otherwise
  the answer of the provider, which was asked for this very URL and method, non-empty and free of
  control characters; the redirect mode and body are the request's; and the caller is told of the
  dispatch right before.\<close>

theorem transport_fetches_safely:
  assumes "request P t caller path init = (out, acts)" and "Fetch url fi \<in> set acts"
  shows "P path (Some (t_baseUrl t)) = Some url \<and> u_origin url = u_origin (t_baseUrl t)
    \<and> fi_method fi = map upper_unit (case ri_method init of None \<Rightarrow> js ''GET'' | Some m \<Rightarrow> m)
    \<and> acts = asked t url (fi_method fi) @ dispatched init @ [Fetch url fi]
    \<and> (case t_authorization t of
         None \<Rightarrow> header_get (js ''Authorization'') (fi_headers fi) = None
       | Some provider \<Rightarrow>
           \<exists>a. provider url (fi_method fi) = AuthSettles (Inr a)
             \<and> (\<forall>v. a = Some v \<longrightarrow> v \<noteq> [] \<and> \<not> containsControlCharacters v)
             \<and> header_get (js ''Authorization'') (fi_headers fi) = map_option normalize_value a)
    \<and> fi_redirect fi = ri_redirect init \<and> fi_body fi = ri_body init"
  using assms(1)
proof (cases rule: request_cases)
  case (attempt url' hs verb out')
  have url': "P path (Some (t_baseUrl t)) = Some url' \<and> u_origin url' = u_origin (t_baseUrl t)"
    using attempt(1) by (auto simp: resolveRequestUrl_def split: if_splits option.splits)
  have none: "header_get (js ''Authorization'') hs = None"
    using if_none_match_authorization [OF attempt(3)] attempt(2) by (simp add: header_has_def)
  from attempt(4) show ?thesis
  proof (cases rule: attempt_cases)
    case (fetched a hs')
    then have u: "url' = url" "fi = fetch_init_of verb hs' init"
      using assms(2) by (auto simp: asked_def dispatched_def split: if_splits)
    have h: "header_get (js ''Authorization'') (fi_headers fi) =
        (case a of None \<Rightarrow> None | Some v \<Rightarrow> Some (normalize_value v))"
      using authorizationHeader_get(1) [OF fetched(2)] none by (simp add: u fetch_init_of_def cong: option.case_cong)
    then have h': "header_get (js ''Authorization'') (fi_headers fi) = map_option normalize_value a"
      by (cases a) simp_all
    have auth: "case t_authorization t of
        None \<Rightarrow> header_get (js ''Authorization'') (fi_headers fi) = None
      | Some provider \<Rightarrow> \<exists>a. provider url verb = AuthSettles (Inr a)
          \<and> (\<forall>v. a = Some v \<longrightarrow> v \<noteq> [] \<and> \<not> containsControlCharacters v)
          \<and> header_get (js ''Authorization'') (fi_headers fi) = map_option normalize_value a"
      using callAuthorization_Inr [OF fetched(1)] authorizationHeader_get(2) [OF fetched(2)] h h' u(1)
      by (auto split: option.splits)
    have m: "fi_method fi = verb" and body: "fi_redirect fi = ri_redirect init" "fi_body fi = ri_body init"
      by (simp_all add: u(2) fetch_init_of_def)
    have "acts = asked t url verb @ dispatched init @ [Fetch url fi]" using fetched(4) u by simp
    then show ?thesis
      using url' [unfolded u(1)] auth body attempt(6) unfolding m request_method_def by blast
  qed (use assms(2) in \<open>auto simp: asked_def dispatched_def split: if_splits\<close>)
qed (use assms(2) in simp)

text \<open>A platform to evaluate requests on: a parser that resolves root-relative paths.\<close>

definition sample_url :: "jsstr \<Rightarrow> url" where
  "sample_url path =
     \<lparr>u_href = js ''https://h'' @ path, u_protocol = protocol_https, u_username = [], u_password = [],
       u_hostname = js ''h'', u_origin = js ''https://h'', u_pathname = path, u_search = [], u_hash = []\<rparr>"

definition sample_parser :: url_parser where
  "sample_parser s base = (case base of None \<Rightarrow> Some (sample_url [uSLASH]) | Some u \<Rightarrow> Some (sample_url s))"

definition sample_response :: response where
  "sample_response = \<lparr>r_status = 200, r_headers = [], r_body = None, r_locked = False\<rparr>"

definition sample_transport :: "fetch_call \<Rightarrow> transport" where
  "sample_transport answer =
     \<lparr>t_baseUrl = sample_url [uSLASH],
       t_authorization = Some (\<lambda>_ _. AuthSettles (Inr (Some [66, 120]))), t_fetch = \<lambda>_ _. answer\<rparr>"

definition sample_init :: request_init where
  "sample_init = \<lparr>ri_method = Some (js ''post''), ri_headers = [], ri_redirect = Some ''error'', ri_body = None,
     ri_ifNoneMatch = None, ri_signal = True, ri_onDispatch = True\<rparr>"

lemmas sample_eval = request_def attemptRequest_def sample_transport_def sample_parser_def
  sample_url_def sample_init_def resolveRequestUrl_def starts_with_def callAuthorization_def
  waitForAuthorization_def authorizationHeader_def control_unit_def header_has_def header_set_def
  normalize_value_def http_space_def valid_value_def observe_def Let_def

lemma sample_request:
  "request sample_parser (sample_transport answer) \<lparr>c_signal = Some live, c_onDispatch = None\<rparr> [uSLASH, 120]
     sample_init =
   (let fi = \<lparr>fi_method = map upper_unit (js ''post''),
               fi_headers = header_put (js ''Authorization'') [66, 120] [], fi_body = None,
               fi_redirect = Some ''error'', fi_signal = True\<rparr>;
        acts = [Authorize (sample_url [uSLASH, 120]) (map upper_unit (js ''post'')), Dispatch,
                Fetch (sample_url [uSLASH, 120]) fi]
    in case answer of
         FetchResponds r \<Rightarrow> (Some (Inr r), acts)
       | FetchRejects e \<Rightarrow> (Some (Inl (requestError (Some live) e)), acts)
       | FetchPending \<Rightarrow> (None, acts))"
  by (cases answer) (simp_all add: sample_eval)

theorem transport_fetches_safely_witness:
  "\<exists>out acts url fi.
     request sample_parser (sample_transport (FetchResponds sample_response))
       \<lparr>c_signal = Some live, c_onDispatch = None\<rparr> [uSLASH, 120] sample_init = (out, acts)
     \<and> Fetch url fi \<in> set acts
     \<and> header_get (js ''Authorization'') (fi_headers fi) = Some (normalize_value [66, 120])"
proof -
  obtain out acts url fi where r:
    "request sample_parser (sample_transport (FetchResponds sample_response))
       \<lparr>c_signal = Some live, c_onDispatch = None\<rparr> [uSLASH, 120] sample_init = (out, acts)"
    "Fetch url fi \<in> set acts"
    by (simp add: sample_request Let_def)
  have "header_get (js ''Authorization'') (fi_headers fi) = Some (normalize_value [66, 120])"
    using transport_fetches_safely [OF r] by (auto simp: sample_transport_def)
  with r show ?thesis by blast
qed





end
