(* ===== verification/BoundedReader.thy ===== *)
theory BoundedReader
  imports Utf8 Http
begin

text \<open>
  The consumers of a response body: \<^verbatim>\<open>readBoundedText\<close> of
  \<^verbatim>\<open>http/bounded-json.ts\<close>, with its growing buffer, and
  \<^verbatim>\<open>requireEmptyResponseBody\<close> of \<^verbatim>\<open>http/empty-body.ts\<close>. A body is the
  script of its read outcomes, the abort signal an oracle, and a script that runs out is a read that does
  not settle. The lemmas show that the buffer holds exactly the bytes received and never grows past
  the limit, and when each consumer accepts a body.
\<close>

section \<open>The buffer\<close>

definition maximumJsonResponseBytes :: nat where
  "maximumJsonResponseBytes = 16 * 1024 * 1024"

definition maximumEmptyRun :: nat where
  "maximumEmptyRun = 1024"

record byte_buffer =
  bb_body :: "byte list"
  bb_size :: nat
  bb_emptyChunks :: nat

definition new_buffer :: "nat \<Rightarrow> byte_buffer" where
  "new_buffer maximumBytes =
     \<lparr>bb_body = replicate (min 4096 maximumBytes) 0, bb_size = 0, bb_emptyChunks = 0\<rparr>"

text \<open>\<^verbatim>\<open>a.set(source, offset)\<close>, which throws a RangeError past the end.\<close>

definition array_set :: "byte list \<Rightarrow> nat \<Rightarrow> byte list \<Rightarrow> byte list option" where
  "array_set source offset a =
     (if offset + length source \<le> length a
      then Some (take offset a @ source @ drop (offset + length source) a) else None)"

definition grow :: "nat \<Rightarrow> nat \<Rightarrow> byte_buffer \<Rightarrow> byte list option" where
  "grow maximumBytes needed b =
     (if length (bb_body b) < needed
      then array_set (take (bb_size b) (bb_body b)) 0
             (replicate (min maximumBytes (max needed (length (bb_body b) * 2))) 0)
      else Some (bb_body b))"

definition range_error :: exn where
  "range_error = ForeignError 1"

definition add_chunk :: "string \<Rightarrow> nat \<Rightarrow> byte list \<Rightarrow> byte_buffer \<Rightarrow> byte_buffer result" where
  "add_chunk validatorName maximumBytes chunk b =
     (if maximumBytes - bb_size b < length chunk
      then Inl (ProtocolValidationError (validatorName @ ''.size''))
      else let emptyChunks = (if length chunk = 0 then bb_emptyChunks b + 1 else 0)
           in if maximumEmptyRun < emptyChunks
              then Inl (ProtocolValidationError (validatorName @ ''.size''))
              else case Option.bind (grow maximumBytes (bb_size b + length chunk) b)
                          (array_set chunk (bb_size b)) of
                     None \<Rightarrow> Inl range_error
                   | Some body \<Rightarrow> Inr \<lparr>bb_body = body, bb_size = bb_size b + length chunk,
                                        bb_emptyChunks = emptyChunks\<rparr>)"

section \<open>Reading a body within a limit\<close>

text \<open>How a consumer ends: with a result and whether the body was read to its end, or never.\<close>

datatype 'a read_end = ReadSettled "'a result" bool | ReadPending

definition read_failed :: "string \<Rightarrow> signal_state \<Rightarrow> exn \<Rightarrow> 'a read_end" where
  "read_failed validatorName sg e =
     ReadSettled (Inl (if is_aborted sg then reason_or e sg
                       else if is_protocol_validation e then e
                       else ProtocolValidationError validatorName)) False"

definition platform_text :: "byte list \<Rightarrow> jsstr" where
  "platform_text bs = (let t = utf8_text bs in if starts_with t [uBOM] then tl t else t)"

fun read_loop ::
    "signal_oracle \<Rightarrow> string \<Rightarrow> nat \<Rightarrow> nat \<Rightarrow> read_outcome list \<Rightarrow> byte_buffer \<Rightarrow> jsstr read_end" where
  "read_loop sig name maximumBytes n [] b = ReadPending"
| "read_loop sig name maximumBytes n (ReadRejected # rs) b = read_failed name (sig n) type_error"
| "read_loop sig name maximumBytes n (ReadDone # rs) b =
     (if is_aborted (sig n) then read_failed name (sig (Suc n)) (abort_reason (sig n))
      else ReadSettled (Inr (platform_text (take (bb_size b) (bb_body b)))) True)"
| "read_loop sig name maximumBytes n (ReadChunk chunk # rs) b =
     (if is_aborted (sig n) then read_failed name (sig (Suc n)) (abort_reason (sig n))
      else case add_chunk name maximumBytes chunk b of
             Inl e \<Rightarrow> read_failed name (sig (Suc n)) e
           | Inr b' \<Rightarrow> read_loop sig name maximumBytes (Suc n) rs b')"

definition readBoundedText :: "signal_oracle \<Rightarrow> string \<Rightarrow> nat \<Rightarrow> response \<Rightarrow> jsstr read_end" where
  "readBoundedText sig name maximumBytes r =
     (case r_body r of
        None \<Rightarrow> ReadSettled (rbind (throwIfAborted (sig 0)) (\<lambda>_. Inr [])) False
      | Some reads \<Rightarrow>
          if r_locked r then ReadSettled (Inl type_error) False
          else if is_aborted (sig 0) then read_failed name (sig 1) (abort_reason (sig 0))
          else read_loop sig name maximumBytes 1 reads (new_buffer maximumBytes))"

section \<open>Requiring an empty body\<close>

definition maximumEmptyChunks :: nat where
  "maximumEmptyChunks = 1024"

text \<open>The \<^verbatim>\<open>for\<close> loop: \<open>count\<close> reads have been made. A pending read races
  the abort of the signal, so an abort ends it.\<close>

fun empty_loop :: "signal_oracle \<Rightarrow> string \<Rightarrow> nat \<Rightarrow> read_outcome list \<Rightarrow> unit read_end" where
  "empty_loop sig name count rs =
     (if maximumEmptyChunks \<le> count then read_failed name (sig count) (ProtocolValidationError name)
      else case rs of
             [] \<Rightarrow> if is_aborted (sig count) then read_failed name (sig count) (abort_reason (sig count))
                   else ReadPending
           | ReadRejected # _ \<Rightarrow> read_failed name (sig count) type_error
           | ReadDone # _ \<Rightarrow> ReadSettled (Inr ()) True
           | ReadChunk chunk # rest \<Rightarrow>
               if length chunk \<noteq> 0 then read_failed name (sig count) (ProtocolValidationError name)
               else empty_loop sig name (Suc count) rest)"

declare empty_loop.simps [simp del]

definition requireEmptyResponseBody :: "signal_oracle \<Rightarrow> string \<Rightarrow> response \<Rightarrow> unit read_end" where
  "requireEmptyResponseBody sig name r =
     (if is_aborted (sig 0) then ReadSettled (Inl (abort_reason (sig 0))) False
      else case r_body r of
             None \<Rightarrow> ReadSettled (Inr ()) False
           | Some reads \<Rightarrow>
               if r_locked r then ReadSettled (Inl type_error) False
               else if is_aborted (sig 1) then read_failed name (sig 2) (abort_reason (sig 1))
               else empty_loop (\<lambda>n. sig (n + 2)) name 0 reads)"

section \<open>The buffer holds what was received\<close>

definition buffer_holds :: "nat \<Rightarrow> byte list \<Rightarrow> byte_buffer \<Rightarrow> bool" where
  "buffer_holds maximumBytes bs b \<longleftrightarrow>
     take (bb_size b) (bb_body b) = bs \<and> bb_size b = length bs \<and>
     bb_size b \<le> length (bb_body b) \<and> length (bb_body b) \<le> maximumBytes"

lemma buffer_holdsD:
  "buffer_holds m bs b \<Longrightarrow> take (length bs) (bb_body b) = bs"
  "buffer_holds m bs b \<Longrightarrow> bb_size b = length bs"
  by (auto simp: buffer_holds_def)

lemma new_buffer_holds: "buffer_holds m [] (new_buffer m)"
  by (simp add: buffer_holds_def new_buffer_def)

lemma grow_holds:
  assumes "buffer_holds m bs b" and "needed \<le> m" and "bb_size b \<le> needed"
  obtains a where "grow m needed b = Some a" "take (bb_size b) a = bs" "needed \<le> length a" "length a \<le> m"
proof (cases "length (bb_body b) < needed")
  case True
  let ?n = "min m (max needed (length (bb_body b) * 2))"
  have n: "needed \<le> ?n" "?n \<le> m" using assms(2) by auto
  have l: "length (take (bb_size b) (bb_body b)) = bb_size b"
    using assms(1) by (simp add: buffer_holds_def)
  let ?a = "take (bb_size b) (bb_body b) @ drop (bb_size b) (replicate ?n 0)"
  have "grow m needed b = Some ?a"
    using True l n assms(3) by (simp add: grow_def array_set_def)
  then show thesis
    by (rule that) (use assms(3) l n buffer_holdsD [OF assms(1)] in simp_all)
next
  case False
  then show thesis using assms(1) by (intro that) (auto simp: grow_def buffer_holds_def)
qed

lemma add_chunk_holds:
  assumes "buffer_holds m bs b" and "bb_size b + length chunk \<le> m"
    and "(if chunk = [] then bb_emptyChunks b + 1 else 0) \<le> maximumEmptyRun"
  obtains b' where "add_chunk name m chunk b = Inr b'" "buffer_holds m (bs @ chunk) b'"
    "bb_emptyChunks b' = (if chunk = [] then bb_emptyChunks b + 1 else 0)"
proof -
  obtain a where a: "grow m (bb_size b + length chunk) b = Some a" "take (bb_size b) a = bs"
    "bb_size b + length chunk \<le> length a" "length a \<le> m"
    using grow_holds [OF assms(1,2)] by (metis le_add1)
  let ?a = "take (bb_size b) a @ chunk @ drop (bb_size b + length chunk) a"
  let ?b = "\<lparr>bb_body = ?a, bb_size = bb_size b + length chunk,
             bb_emptyChunks = (if chunk = [] then bb_emptyChunks b + 1 else 0)\<rparr>"
  have "array_set chunk (bb_size b) a = Some ?a" using a(3) by (simp add: array_set_def)
  then have "add_chunk name m chunk b = Inr ?b"
    using a(1) assms(2,3) by (auto simp: add_chunk_def Let_def)
  moreover have "buffer_holds m (bs @ chunk) ?b"
    using a assms(1) by (auto simp: buffer_holds_def)
  ultimately show thesis by (rule that) simp
qed

text \<open>The longest run of empty chunks stays within the bound.\<close>

fun empty_runs_ok :: "nat \<Rightarrow> byte list list \<Rightarrow> bool" where
  "empty_runs_ok k [] = True"
| "empty_runs_ok k (c # cs) =
     (let k' = (if c = [] then k + 1 else 0) in k' \<le> maximumEmptyRun \<and> empty_runs_ok k' cs)"

lemma read_loop_chunks:
  assumes "buffer_holds m bs b"
  shows "read_loop live name m n (map ReadChunk cs @ [ReadDone]) b =
    (if length bs + length (concat cs) \<le> m \<and> empty_runs_ok (bb_emptyChunks b) cs
     then ReadSettled (Inr (platform_text (bs @ concat cs))) True
     else ReadSettled (Inl (ProtocolValidationError (name @ ''.size''))) False)"
  using assms
proof (induction cs arbitrary: bs b n)
  case Nil
  then show ?case by (simp add: buffer_holdsD) (simp add: buffer_holds_def)
next
  case (Cons c cs)
  have size: "bb_size b = length bs" using Cons.prems by (simp add: buffer_holds_def)
  let ?k = "if c = [] then bb_emptyChunks b + 1 else 0"
  show ?case
  proof (cases "bb_size b + length c \<le> m \<and> ?k \<le> maximumEmptyRun")
    case True
    then obtain b' where b': "add_chunk name m c b = Inr b'" "buffer_holds m (bs @ c) b'" "bb_emptyChunks b' = ?k"
      using add_chunk_holds [OF Cons.prems] by metis
    with Cons.IH [OF b'(2), of "Suc n"] True show ?thesis by (simp add: add.assoc Let_def)
  next
    case False
    moreover have "bb_size b \<le> m" using Cons.prems by (simp add: buffer_holds_def)
    ultimately have "add_chunk name m c b = Inl (ProtocolValidationError (name @ ''.size''))"
      by (auto simp: add_chunk_def Let_def)
    with False size show ?thesis
      by (auto simp: read_failed_def is_protocol_validation_def Let_def)
  qed
qed

lemma empty_loop_chunks:
  "empty_loop live name k (map ReadChunk cs @ [ReadDone]) =
     (if list_all (\<lambda>c. c = []) cs \<and> k + length cs < maximumEmptyChunks
      then ReadSettled (Inr ()) True
      else ReadSettled (Inl (ProtocolValidationError name)) False)"
proof (induction cs arbitrary: k)
  case Nil
  then show ?case
    by (simp add: empty_loop.simps [of _ _ k] read_failed_def is_protocol_validation_def)
next
  case (Cons c cs)
  then show ?case
    by (simp add: empty_loop.simps [of _ _ k] read_failed_def is_protocol_validation_def)
qed

text \<open>A text that is returned is the text of the chunks before the end of the body.\<close>

definition received :: "read_outcome list \<Rightarrow> byte list list \<Rightarrow> bool" where
  "received reads cs \<longleftrightarrow> (\<exists>rest. reads = map ReadChunk cs @ ReadDone # rest)"

lemma received_Nil [simp]: "received (ReadDone # rest) []"
  by (simp add: received_def)

lemma received_Cons: "received reads cs \<Longrightarrow> received (ReadChunk c # reads) (c # cs)"
  by (auto simp: received_def)

lemma received_unique: "received reads cs \<Longrightarrow> received reads cs' \<Longrightarrow> cs = cs'"
proof (induction cs arbitrary: reads cs')
  case Nil
  then show ?case by (cases cs') (auto simp: received_def)
next
  case (Cons c cs)
  then show ?case by (cases cs') (auto simp: received_def)
qed

lemma read_loop_outcome:
  assumes "buffer_holds m bs b" and "read_loop sig name m n rs b = ReadSettled (Inr t) completed"
  shows "\<exists>cs. received rs cs \<and> t = platform_text (bs @ concat cs) \<and> length (bs @ concat cs) \<le> m \<and> completed"
  using assms
proof (induction rs arbitrary: bs b n)
  case (Cons r rs)
  show ?case
  proof (cases r)
    case (ReadChunk c)
    show ?thesis
    proof (cases "add_chunk name m c b")
      case (Inr b')
      then have ok: "bb_size b + length c \<le> m" "(if c = [] then bb_emptyChunks b + 1 else 0) \<le> maximumEmptyRun"
        using Cons.prems(1)
        by (auto simp: add_chunk_def Let_def buffer_holds_def not_less split: if_splits)
      with Inr add_chunk_holds [OF Cons.prems(1)] have "buffer_holds m (bs @ c) b'"
        by (metis sum.inject(2))
      from Cons.IH [OF this, of "Suc n"] Cons.prems(2) ReadChunk Inr obtain cs where
        "received rs cs" "t = platform_text ((bs @ c) @ concat cs)" "length ((bs @ c) @ concat cs) \<le> m" completed
        by (auto simp: read_failed_def split: if_splits)
      then show ?thesis using ReadChunk by (intro exI [of _ "c # cs"]) (simp add: received_Cons)
    qed (use Cons.prems(2) ReadChunk in \<open>auto simp: read_failed_def split: if_splits\<close>)
  qed (use Cons.prems in \<open>auto simp: read_failed_def buffer_holds_def intro!: exI [of _ "[]"] split: if_splits\<close>)
qed simp

lemma readBoundedText_chunks:
  assumes "r_body r = Some (map ReadChunk cs @ [ReadDone])" and "\<not> r_locked r"
  shows "readBoundedText live name maximumBytes r =
    (if length (concat cs) \<le> maximumBytes \<and> empty_runs_ok 0 cs
     then ReadSettled (Inr (platform_text (concat cs))) True
     else ReadSettled (Inl (ProtocolValidationError (name @ ''.size''))) False)"
  using assms read_loop_chunks [OF new_buffer_holds, of name maximumBytes 1 cs]
  by (simp add: readBoundedText_def) (simp add: new_buffer_def)

lemma readBoundedText_Inr:
  assumes "readBoundedText sig name maximumBytes r = ReadSettled (Inr t) completed"
  shows "(r_body r = None \<and> t = []) \<or>
    (\<exists>reads cs. r_body r = Some reads \<and> received reads cs \<and> t = platform_text (concat cs)
       \<and> length (concat cs) \<le> maximumBytes \<and> completed)"
proof (cases "r_body r")
  case None
  with assms show ?thesis by (auto simp: readBoundedText_def rbind_Inr_iff)
next
  case (Some reads)
  with assms have "read_loop sig name maximumBytes 1 reads (new_buffer maximumBytes) = ReadSettled (Inr t) completed"
    by (auto simp: readBoundedText_def read_failed_def split: if_splits)
  from read_loop_outcome [OF new_buffer_holds this] Some show ?thesis by auto
qed

lemma empty_loop_Inr:
  "empty_loop sig name k rs = ReadSettled (Inr ()) b \<Longrightarrow>
     \<exists>cs. received rs cs \<and> list_all (\<lambda>c. c = []) cs"
proof (induction rs arbitrary: k)
  case Nil
  then show ?case by (subst (asm) empty_loop.simps) (auto simp: read_failed_def split: if_splits)
next
  case (Cons r rs)
  show ?case
  proof (cases r)
    case (ReadChunk c)
    with Cons.prems have c: "c = [] \<and> empty_loop sig name (Suc k) rs = ReadSettled (Inr ()) b"
      by (simp add: empty_loop.simps [of _ _ k] read_failed_def split: if_splits)
    then obtain cs where "received rs cs" "list_all (\<lambda>c. c = []) cs"
      using Cons.IH by blast
    with c ReadChunk show ?thesis by (intro exI [of _ "c # cs"]) (auto intro: received_Cons)
  next
    case ReadDone
    then show ?thesis by (intro exI [of _ "[]"]) simp
  next
    case ReadRejected
    with Cons.prems show ?thesis
      by (subst (asm) empty_loop.simps) (auto simp: read_failed_def split: if_splits)
  qed
qed

lemma requireEmptyResponseBody_Inr:
  assumes "requireEmptyResponseBody sig name r = ReadSettled (Inr ()) b"
  shows "r_body r = None \<or>
    (\<exists>reads cs. r_body r = Some reads \<and> received reads cs \<and> list_all (\<lambda>c. c = []) cs)"
  using assms empty_loop_Inr
  by (fastforce simp: requireEmptyResponseBody_def read_failed_def split: if_splits option.splits)

section \<open>Properties\<close>

text \<open>C12: a body that ends normally, with no abort, is read as the platform decodes all its bytes exactly
  when they are at most the limit and no run of empty chunks is longer than 1024; otherwise the
  reader fails with the size error and cancels the body. The cut into chunks does not matter otherwise.\<close>

theorem bounded_text_exact:
  assumes "r_body r = Some (map ReadChunk cs @ [ReadDone])" and "\<not> r_locked r"
  shows "readBoundedText live name maximumBytes r =
    (if length (concat cs) \<le> maximumBytes \<and> empty_runs_ok 0 cs
     then ReadSettled (Inr (platform_text (concat cs))) True
     else ReadSettled (Inl (ProtocolValidationError (name @ ''.size''))) False)"
  using assms by (rule readBoundedText_chunks)

theorem bounded_text_exact_witness:
  "readBoundedText live ''x'' 2 \<lparr>r_status = 200, r_headers = [], r_body = Some (map ReadChunk [[65], [66, 67]] @ [ReadDone]),
     r_locked = False\<rparr> = ReadSettled (Inl (ProtocolValidationError ''x.size'')) False"
  by (subst bounded_text_exact [of _ "[[65], [66, 67]]"]) simp_all

text \<open>A body that ends normally, with no abort, passes for empty exactly when all its chunks are empty
  and there are fewer than 1024 of them; otherwise the consumer fails with the validation error of its caller.\<close>

theorem empty_body_exact:
  assumes "r_body r = Some (map ReadChunk cs @ [ReadDone])" and "\<not> r_locked r"
  shows "requireEmptyResponseBody live name r =
    (if list_all (\<lambda>c. c = []) cs \<and> length cs < 1024 then ReadSettled (Inr ()) True
     else ReadSettled (Inl (ProtocolValidationError name)) False)"
  using assms empty_loop_chunks [of name 0 cs]
  by (simp add: requireEmptyResponseBody_def maximumEmptyChunks_def)

theorem empty_body_exact_witness:
  "requireEmptyResponseBody live ''x'' \<lparr>r_status = 304, r_headers = [], r_body = Some (map ReadChunk [[], []] @ [ReadDone]),
     r_locked = False\<rparr> = ReadSettled (Inr ()) True"
  by (subst empty_body_exact [of _ "[[], []]"]) simp_all

text \<open>Whatever the body and the signal do, a text is returned only for a response without a body
  (the empty text), or after the body has been read to its end: then it is what the platform decodes of all
  the bytes received, and these are within the limit.\<close>

theorem bounded_text_within_limit:
  assumes "readBoundedText sig name maximumBytes r = ReadSettled (Inr t) completed"
  shows "(r_body r = None \<and> t = []) \<or>
    (\<exists>reads cs. r_body r = Some reads \<and> received reads cs \<and> t = platform_text (concat cs)
       \<and> length (concat cs) \<le> maximumBytes \<and> completed)"
  using assms by (rule readBoundedText_Inr)

theorem bounded_text_within_limit_witness:
  "\<exists>cs. received [ReadChunk [65], ReadDone] cs \<and> platform_text [65] = platform_text (concat cs)
     \<and> length (concat cs) \<le> 1"
proof -
  have "readBoundedText live ''x'' 1 \<lparr>r_status = 200, r_headers = [], r_body = Some [ReadChunk [65], ReadDone],
     r_locked = False\<rparr> = ReadSettled (Inr (platform_text [65])) True"
    by (simp add: readBoundedText_def add_chunk_def grow_def array_set_def new_buffer_def maximumEmptyRun_def)
  from bounded_text_within_limit [OF this] show ?thesis by auto
qed

end
