(* ===== verification/ResponseDecoder.thy ===== *)
theory ResponseDecoder
  imports FetchTransport BoundedReader
begin

text \<open>
  \<^verbatim>\<open>http/response-decoder.ts\<close>: what a response of the Hub is allowed to be. The schema
  validators and the URL parser are parameters; the body is the script of
  \<open>BoundedReader\<close>, the text is parsed by \<open>ProtocolJson\<close>. An outcome is a result, or \<open>None\<close>
  for a promise that never settles because a read of the body does not.
\<close>

section \<open>Outcomes\<close>

type_synonym 'a outcome = "'a result option"

definition obind :: "'a outcome \<Rightarrow> ('a \<Rightarrow> 'b outcome) \<Rightarrow> 'b outcome" where
  "obind m f = (case m of None \<Rightarrow> None | Some (Inl e) \<Rightarrow> Some (Inl e) | Some (Inr x) \<Rightarrow> f x)"

lemma obind_simps [simp]:
  "obind None f = None" "obind (Some (Inl e)) f = Some (Inl e)" "obind (Some (Inr x)) f = f x"
  by (simp_all add: obind_def)

lemma obind_Inr_iff: "obind m f = Some (Inr y) \<longleftrightarrow> (\<exists>x. m = Some (Inr x) \<and> f x = Some (Inr y))"
  by (cases m; cases "the m") auto

lemma obind_Inl_iff:
  "obind m f = Some (Inl e) \<longleftrightarrow> m = Some (Inl e) \<or> (\<exists>x. m = Some (Inr x) \<and> f x = Some (Inl e))"
  by (cases m; cases "the m") auto

fun settled :: "'a read_end \<Rightarrow> 'a outcome" where
  "settled (ReadSettled r _) = Some r"
| "settled ReadPending = None"

text \<open>\<^verbatim>\<open>withResponseOwnership\<close>, and whether it cancels the body. The readers have
  released their lock when they settle.\<close>

definition owned :: "response \<Rightarrow> 'a outcome \<Rightarrow> 'a outcome \<times> bool" where
  "owned response out =
     (case out of
        None \<Rightarrow> (None, False)
      | Some r \<Rightarrow> (let (r', cancels) = withResponseOwnership response (\<lambda>resp. (r, resp)) in (Some r', cancels)))"

lemma owned_fst [simp]: "fst (owned response out) = out"
  by (auto simp: owned_def withResponseOwnership_def split: option.splits sum.splits)

lemma owned_snd:
  "snd (owned response out) \<longleftrightarrow> (\<exists>e. out = Some (Inl e)) \<and> cancelResponseBody response"
  by (auto simp: owned_def withResponseOwnership_def split: option.splits sum.splits)

text \<open>The abort signal as decoding observes it: before the body, while reading it, when the read
  has failed, and at the end. Without a signal all are \<open>Live\<close>.\<close>

record decode_signal =
  ds_start :: signal_state
  ds_body :: signal_oracle
  ds_catch :: signal_state
  ds_end :: signal_state

definition no_signal :: decode_signal where
  "no_signal = \<lparr>ds_start = Live, ds_body = live, ds_catch = Live, ds_end = Live\<rparr>"

section \<open>Media types and JSON\<close>

definition requireMediaType :: "response \<Rightarrow> string \<Rightarrow> string \<Rightarrow> unit result" where
  "requireMediaType response expected validatorName =
     (if map_option media_type (r_header (js ''Content-Type'') response) \<noteq> Some (js expected)
      then Inl (ProtocolValidationError (validatorName @ ''.contentType'')) else Inr ())"

text \<open>\<^verbatim>\<open>readBoundedJson\<close>: whatever fails after the text is read is the validator's
  error.\<close>

definition readBoundedJson :: "signal_oracle \<Rightarrow> string \<Rightarrow> response \<Rightarrow> parsed outcome" where
  "readBoundedJson sig validatorName response =
     obind (settled (readBoundedText sig validatorName maximumJsonResponseBytes response)) (\<lambda>body.
       case parseProtocolJson body validatorName of
         Inl _ \<Rightarrow> Some (Inl (ProtocolValidationError validatorName))
       | Inr v \<Rightarrow> Some (Inr v))"

definition readJson :: "decode_signal \<Rightarrow> string \<Rightarrow> response \<Rightarrow> parsed outcome" where
  "readJson sig validatorName response =
     (case readBoundedJson (ds_body sig) validatorName response of
        Some (Inl e) \<Rightarrow>
          Some (Inl (if is_aborted (ds_catch sig) then reason_or e (ds_catch sig)
                     else if is_protocol_validation e then e
                     else ProtocolValidationError validatorName))
      | out \<Rightarrow> out)"

section \<open>Metadata\<close>

record requirements =
  rq_requireEntityTag :: bool
  rq_requireStrongEntityTag :: bool
  rq_requireLocation :: bool
  rq_acceptedProtocolVersions :: "jsstr list option"
  rq_ifNoneMatch :: "jsstr option"

text \<open>\<^verbatim>\<open>/^(0|[1-9][0-9]*)\.(0|[1-9][0-9]*)\.(0|[1-9][0-9]*)$/u\<close>.\<close>

definition protocolVersionPattern :: "jsstr \<Rightarrow> bool" where
  "protocolVersionPattern s \<longleftrightarrow>
     length (split_on uDOT s) = 3 \<and> list_all canonical_decimal (split_on uDOT s)"

text \<open>\<^verbatim>\<open>/%(?![0-9a-f]{2})/iu\<close>.\<close>

fun stray_percent :: "jsstr \<Rightarrow> bool" where
  "stray_percent [] = False"
| "stray_percent (c # s) =
     ((c = uPERCENT \<and> \<not> (case s of h # l # _ \<Rightarrow> is_hex h \<and> is_hex l | _ \<Rightarrow> False)) \<or> stray_percent s)"

definition safeLocationBase :: jsstr where
  "safeLocationBase = js ''https://teslatlas-location.invalid''"

definition asSafeLocation :: "url_parser \<Rightarrow> jsstr \<Rightarrow> jsstr result" where
  "asSafeLocation P value =
     (if length value = 0 \<or> containsControlCharacters value \<or> \<not> starts_with value [uSLASH]
         \<or> starts_with value [uSLASH, uSLASH] \<or> uQMARK \<in> set value \<or> uHASH \<in> set value
         \<or> stray_percent value
      then Inl (ProtocolValidationError ''response.location'')
      else case P safeLocationBase None of
        None \<Rightarrow> Inl (ProtocolValidationError ''response.location'')
      | Some base \<Rightarrow>
          (case P value (Some base) of
             None \<Rightarrow> Inl (ProtocolValidationError ''response.location'')
           | Some url \<Rightarrow>
               if u_origin url \<noteq> safeLocationBase \<or> 0 < length (u_username url)
                  \<or> 0 < length (u_password url) \<or> 0 < length (u_search url) \<or> 0 < length (u_hash url)
               then Inl (ProtocolValidationError ''response.location'') else Inr value))"

definition optional :: "('a \<Rightarrow> 'b result) \<Rightarrow> 'a option \<Rightarrow> 'b option result" where
  "optional f x = (case x of None \<Rightarrow> Inr None | Some v \<Rightarrow> rbind (f v) (\<lambda>w. Inr (Some w)))"

definition require :: "bool \<Rightarrow> exn \<Rightarrow> unit result" where
  "require ok e = (if ok then Inr () else Inl e)"

text \<open>The body of the \<^verbatim>\<open>try\<close> of \<^verbatim>\<open>readResponseMetadata\<close>.\<close>

definition collectMetadata ::
    "url_parser \<Rightarrow> response \<Rightarrow> string \<Rightarrow> requirements \<Rightarrow> response_metadata result" where
  "collectMetadata P response validatorName rq =
     (let etagHeader = r_header (js ''ETag'') response;
          failure = (\<lambda>field. ProtocolValidationError (validatorName @ field))
      in
      rbind (require (\<not> (etagHeader = None \<and> (rq_requireEntityTag rq \<or> rq_requireStrongEntityTag rq)))
        (failure ''.etag'')) (\<lambda>_.
      rbind (require (\<not> (rq_requireStrongEntityTag rq
          \<and> (case etagHeader of None \<Rightarrow> False | Some v \<Rightarrow> \<not> isStrongEntityTag (StringArg v))))
        (failure ''.etag'')) (\<lambda>_.
      rbind (optional asEntityTag etagHeader) (\<lambda>etag.
      rbind (optional asSafeRequestId (r_header (js ''X-Request-ID'') response)) (\<lambda>requestId.
      let protocolVersion = r_header (js ''Teslatlas-Protocol-Version'') response in
      rbind (require (case protocolVersion of None \<Rightarrow> True | Some v \<Rightarrow> protocolVersionPattern v)
        (failure ''.protocolVersion'')) (\<lambda>_.
      rbind (require (case rq_acceptedProtocolVersions rq of
            None \<Rightarrow> True
          | Some vs \<Rightarrow> (case protocolVersion of None \<Rightarrow> False | Some v \<Rightarrow> v \<in> set vs))
        (failure ''.protocolVersion'')) (\<lambda>_.
      let locationHeader = r_header (js ''Location'') response in
      rbind (require (\<not> (locationHeader = None \<and> rq_requireLocation rq)) (failure ''.location'')) (\<lambda>_.
      rbind (optional (asSafeLocation P) locationHeader) (\<lambda>location.
        Inr \<lparr>rm_status = r_status response, rm_etag = etag, rm_location = location,
             rm_requestId = requestId, rm_protocolVersion = protocolVersion\<rparr>)))))))))"

definition readResponseMetadata ::
    "url_parser \<Rightarrow> response \<Rightarrow> string \<Rightarrow> requirements \<Rightarrow> response_metadata result" where
  "readResponseMetadata P response validatorName rq =
     (case collectMetadata P response validatorName rq of
        Inr m \<Rightarrow> Inr m
      | Inl e \<Rightarrow>
          Inl (if is_protocol_validation e then e
               else ProtocolValidationError (validatorName @ ''.metadata'')))"

section \<open>Problems\<close>

definition maximumRetryAfterSeconds :: int where
  "maximumRetryAfterSeconds = 86400"

definition retryAfterPattern :: "jsstr \<Rightarrow> bool" where
  "retryAfterPattern s \<longleftrightarrow> canonical_decimal s"

definition readRetryAfterSeconds :: "response \<Rightarrow> bool \<Rightarrow> int option \<Rightarrow> int option result" where
  "readRetryAfterSeconds response retryable fallback =
     (if \<not> retryable then Inr None
      else case r_header (js ''Retry-After'') response of
        None \<Rightarrow> Inr fallback
      | Some header \<Rightarrow>
          if \<not> retryAfterPattern header then Inl (ProtocolValidationError ''validateProblem.retryAfter'')
          else (case num_integer (number_of header) of
                  None \<Rightarrow> Inl (ProtocolValidationError ''validateProblem.retryAfter'')
                | Some parsed \<Rightarrow>
                    if \<not> is_safe_integer parsed \<or> maximumRetryAfterSeconds < parsed
                    then Inl (ProtocolValidationError ''validateProblem.retryAfter'')
                    else Inr (Some parsed)))"

text \<open>The fields the code reads of a problem, with the types it tests: code, request identifier,
  retryable and the seconds.\<close>

definition problem_fields :: "json \<Rightarrow> (jsstr \<times> jsstr \<times> bool \<times> int option) option" where
  "problem_fields problem =
     (case (member_of problem (js ''code''), member_of problem (js ''request_id''),
            member_of problem (js ''retryable''), member_of problem (js ''retry_after_seconds'')) of
        (Some (JStr code), Some (JStr requestId), Some (JBool retryable), None) \<Rightarrow>
          Some (code, requestId, retryable, None)
      | (Some (JStr code), Some (JStr requestId), Some (JBool retryable), Some (JNum x)) \<Rightarrow>
          map_option (\<lambda>n. (code, requestId, retryable, Some n)) (num_integer x)
      | _ \<Rightarrow> None)"

definition problemError :: "response \<Rightarrow> jsstr \<times> jsstr \<times> bool \<times> int option \<Rightarrow> exn" where
  "problemError response problemFields =
     (let (code, requestId, retryable, fallback) = problemFields
      in case rbind (readRetryAfterSeconds response retryable fallback) (\<lambda>retryAfter.
              rbind (asProtocolErrorCode code) (\<lambda>c.
              rbind (asSafeRequestId requestId) (\<lambda>i.
                Inr (ProtocolHttpError \<lparr>pe_code = c, pe_status = r_status response,
                  pe_requestId = Some i, he_retryable = retryable,
                  he_retryAfterSeconds = retryAfter\<rparr>)))) of
           Inr e \<Rightarrow> e
         | Inl _ \<Rightarrow> ProtocolValidationError ''validateProblem.safeFields'')"

text \<open>What follows the parse of the body.\<close>

definition decodeProblemJson :: "validator \<Rightarrow> response \<Rightarrow> parsed \<Rightarrow> 'a outcome" where
  "decodeProblemJson validateProblem response v =
     (case decodeProtocolValue v validateProblem ''validateProblem'' of
        Inl e \<Rightarrow> Some (Inl e)
      | Inr problem \<Rightarrow>
          if problem = JNull then Some (Inl type_error)
          else if member_of problem (js ''status'') \<noteq> Some (JNum (num_of_int (int (r_status response))))
          then Some (Inl (ProtocolValidationError ''validateProblem.status''))
          else (case problem_fields problem of
                  None \<Rightarrow> Some (Inl (ProtocolValidationError ''validateProblem.safeFields''))
                | Some problemFields \<Rightarrow> Some (Inl (problemError response problemFields))))"

text \<open>\<^verbatim>\<open>decodeProtocolProblemResponse\<close> always rejects, unless it never settles: the
  error, and whether the body is cancelled.\<close>

definition decodeProtocolProblem :: "validator \<Rightarrow> response \<Rightarrow> decode_signal \<Rightarrow> 'a outcome" where
  "decodeProtocolProblem validateProblem response sig =
     (case requireMediaType response ''application/problem+json'' ''validateProblem'' of
        Inl e \<Rightarrow> Some (Inl e)
      | Inr _ \<Rightarrow> obind (readJson sig ''validateProblem'' response) (decodeProblemJson validateProblem response))"

definition decodeProtocolProblemResponse ::
    "validator \<Rightarrow> response \<Rightarrow> decode_signal \<Rightarrow> 'a outcome \<times> bool" where
  "decodeProtocolProblemResponse validateProblem response sig =
     owned response (decodeProtocolProblem validateProblem response sig)"

section \<open>Successes\<close>

definition decodeJsonSuccess ::
    "url_parser \<Rightarrow> response \<Rightarrow> validator \<Rightarrow> string \<Rightarrow> decode_signal \<Rightarrow> requirements
     \<Rightarrow> json write_result outcome \<times> bool" where
  "decodeJsonSuccess P response validator validatorName sig rq =
     owned response
       (obind (Some (throwIfAborted (ds_start sig))) (\<lambda>_.
        obind (Some (requireMediaType response ''application/json'' validatorName)) (\<lambda>_.
        obind (Some (readResponseMetadata P response validatorName rq)) (\<lambda>metadata.
        obind (readJson sig validatorName response) (\<lambda>v.
        obind (Some (decodeProtocolValue v validator validatorName)) (\<lambda>value.
        obind (Some (throwIfAborted (ds_end sig))) (\<lambda>_.
          Some (Inr \<lparr>wr_value = value, wr_metadata = metadata\<rparr>))))))))"

text \<open>\<^verbatim>\<open>value.replace(/^W\//u, "")\<close>.\<close>

definition strip_weak :: "jsstr \<Rightarrow> jsstr" where
  "strip_weak s = (if starts_with s (js ''W/'') then drop 2 s else s)"

definition matchingTag :: "jsstr option \<Rightarrow> jsstr option \<Rightarrow> bool" where
  "matchingTag ifNoneMatch etag =
     (case (ifNoneMatch, etag) of (Some a, Some b) \<Rightarrow> strip_weak a = strip_weak b | _ \<Rightarrow> False)"

definition decodeNotModified ::
    "url_parser \<Rightarrow> response \<Rightarrow> string \<Rightarrow> decode_signal \<Rightarrow> requirements
     \<Rightarrow> json read_result outcome \<times> bool" where
  "decodeNotModified P response validatorName sig rq =
     owned response
       (obind (settled (requireEmptyResponseBody (ds_body sig) (validatorName @ ''.304'') response)) (\<lambda>_.
        obind (Some (readResponseMetadata P response validatorName rq)) (\<lambda>metadata.
        obind (Some (require (matchingTag (rq_ifNoneMatch rq) (rm_etag metadata))
          (ProtocolValidationError (validatorName @ ''.304.etag'')))) (\<lambda>_.
        obind (Some (throwIfAborted (ds_end sig))) (\<lambda>_.
          Some (Inr (NotModified metadata)))))))"

definition modified :: "json write_result \<Rightarrow> json read_result" where
  "modified w = Modified (wr_value w) (wr_metadata w)"

definition decodeReadResponse ::
    "url_parser \<Rightarrow> validator \<Rightarrow> response \<Rightarrow> validator \<Rightarrow> string \<Rightarrow> decode_signal \<Rightarrow> requirements
     \<Rightarrow> json read_result outcome \<times> bool" where
  "decodeReadResponse P validateProblem response validator validatorName sig rq =
     (let metadataRequirements = rq\<lparr>rq_requireEntityTag := True\<rparr>
      in if r_status response = 304
         then decodeNotModified P response validatorName sig metadataRequirements
         else if r_status response = 200
         then (let (out, cancels) = decodeJsonSuccess P response validator validatorName sig metadataRequirements
               in (map_option (map_sum id modified) out, cancels))
         else decodeProtocolProblemResponse validateProblem response sig)"

definition decodeWriteResponse ::
    "url_parser \<Rightarrow> validator \<Rightarrow> response \<Rightarrow> validator \<Rightarrow> string \<Rightarrow> nat \<Rightarrow> requirements \<Rightarrow> decode_signal
     \<Rightarrow> json write_result outcome \<times> bool" where
  "decodeWriteResponse P validateProblem response validator validatorName successStatus rq sig =
     (if r_status response = successStatus
      then decodeJsonSuccess P response validator validatorName sig rq
      else decodeProtocolProblemResponse validateProblem response sig)"

section \<open>What is accepted\<close>

lemma throwIfAborted_Inr: "throwIfAborted s = Inr u \<longleftrightarrow> s = Live"
  by (auto simp: throwIfAborted_def is_aborted_def)

lemma require_Inr [simp]: "require ok e = Inr u \<longleftrightarrow> ok"
  by (simp add: require_def)

lemma optional_Inr:
  "optional f x = Inr y \<longleftrightarrow> (case x of None \<Rightarrow> y = None | Some v \<Rightarrow> \<exists>w. f v = Inr w \<and> y = Some w)"
  by (auto simp: optional_def rbind_Inr_iff split: option.splits)

lemma asEntityTag_Inr:
  "asEntityTag v = Inr w \<longleftrightarrow> w = v \<and> entityTagPattern v \<and> \<not> containsControlCharacters v"
  by (auto simp: asEntityTag_def)

lemma asSafeRequestId_Inr:
  "asSafeRequestId v = Inr w \<longleftrightarrow> w = v \<and> 0 < length v \<and> length v \<le> 256 \<and> \<not> containsControlCharacters v"
  by (auto simp: asSafeRequestId_def maximumSafeRequestIdLength_def)

text \<open>A Location the decoder lets through.\<close>

definition safe_location :: "jsstr \<Rightarrow> bool" where
  "safe_location l \<longleftrightarrow>
     starts_with l [uSLASH] \<and> \<not> starts_with l [uSLASH, uSLASH] \<and> uQMARK \<notin> set l \<and> uHASH \<notin> set l
     \<and> \<not> containsControlCharacters l \<and> \<not> stray_percent l"

lemma asSafeLocation_Inr: "asSafeLocation P v = Inr w \<Longrightarrow> w = v \<and> safe_location v"
  by (auto simp: asSafeLocation_def safe_location_def split: if_splits option.splits)

text \<open>Metadata the decoder lets through, against its requirements.\<close>

definition metadata_ok :: "requirements \<Rightarrow> response \<Rightarrow> response_metadata \<Rightarrow> bool" where
  "metadata_ok rq response m \<longleftrightarrow>
     rm_status m = r_status response
     \<and> rm_etag m = r_header (js ''ETag'') response
     \<and> rm_requestId m = r_header (js ''X-Request-ID'') response
     \<and> rm_protocolVersion m = r_header (js ''Teslatlas-Protocol-Version'') response
     \<and> rm_location m = r_header (js ''Location'') response
     \<and> (\<forall>e. rm_etag m = Some e \<longrightarrow> entityTagPattern e \<and> \<not> containsControlCharacters e
          \<and> (rq_requireStrongEntityTag rq \<longrightarrow> strongEntityTagPattern e))
     \<and> (rq_requireEntityTag rq \<or> rq_requireStrongEntityTag rq \<longrightarrow> rm_etag m \<noteq> None)
     \<and> (\<forall>i. rm_requestId m = Some i \<longrightarrow> 0 < length i \<and> length i \<le> 256 \<and> \<not> containsControlCharacters i)
     \<and> (\<forall>vs. rq_acceptedProtocolVersions rq = Some vs \<longrightarrow> (\<exists>v \<in> set vs. rm_protocolVersion m = Some v))
     \<and> (\<forall>v. rm_protocolVersion m = Some v \<longrightarrow> protocolVersionPattern v)
     \<and> (\<forall>l. rm_location m = Some l \<longrightarrow> safe_location l)
     \<and> (rq_requireLocation rq \<longrightarrow> rm_location m \<noteq> None)"

lemma optional_same:
  assumes "optional f h = Inr x" and "\<And>v w. f v = Inr w \<Longrightarrow> w = v \<and> Q v"
  shows "x = h \<and> (\<forall>v. h = Some v \<longrightarrow> Q v)"
  using assms by (fastforce simp: optional_Inr split: option.splits)

lemma collectMetadata_ok:
  assumes "collectMetadata P response n rq = Inr m"
  shows "metadata_ok rq response m"
proof -
  let ?h = "\<lambda>name. r_header (js name) response"
  obtain etag requestId location where m:
    "optional asEntityTag (?h ''ETag'') = Inr etag" "optional asSafeRequestId (?h ''X-Request-ID'') = Inr requestId"
    "optional (asSafeLocation P) (?h ''Location'') = Inr location"
    "m = \<lparr>rm_status = r_status response, rm_etag = etag, rm_location = location, rm_requestId = requestId,
       rm_protocolVersion = ?h ''Teslatlas-Protocol-Version''\<rparr>"
    "\<not> (?h ''ETag'' = None \<and> (rq_requireEntityTag rq \<or> rq_requireStrongEntityTag rq))"
    "\<not> (?h ''Location'' = None \<and> rq_requireLocation rq)"
    "\<not> (rq_requireStrongEntityTag rq
       \<and> (case ?h ''ETag'' of None \<Rightarrow> False | Some v \<Rightarrow> \<not> isStrongEntityTag (StringArg v)))"
    "case ?h ''Teslatlas-Protocol-Version'' of None \<Rightarrow> True | Some v \<Rightarrow> protocolVersionPattern v"
    "case rq_acceptedProtocolVersions rq of None \<Rightarrow> True
     | Some vs \<Rightarrow> (case ?h ''Teslatlas-Protocol-Version'' of None \<Rightarrow> False | Some v \<Rightarrow> v \<in> set vs)"
    using assms unfolding collectMetadata_def Let_def rbind_Inr_iff require_Inr by (elim exE conjE) simp
  have e: "etag = ?h ''ETag'' \<and> (\<forall>v. ?h ''ETag'' = Some v \<longrightarrow> entityTagPattern v \<and> \<not> containsControlCharacters v)"
    using m(1) by (rule optional_same) (simp add: asEntityTag_Inr)
  have i: "requestId = ?h ''X-Request-ID'' \<and> (\<forall>v. ?h ''X-Request-ID'' = Some v \<longrightarrow>
      0 < length v \<and> length v \<le> 256 \<and> \<not> containsControlCharacters v)"
    using m(2) by (rule optional_same) (simp add: asSafeRequestId_Inr)
  have l: "location = ?h ''Location'' \<and> (\<forall>v. ?h ''Location'' = Some v \<longrightarrow> safe_location v)"
    using m(3) by (rule optional_same) (rule asSafeLocation_Inr)
  have s: "strongEntityTagPattern v" if "rq_requireStrongEntityTag rq" "?h ''ETag'' = Some v" for v
    using m(7) that by simp
  show ?thesis
    using e i l s m(5,6,8,9)
    by (cases "?h ''Teslatlas-Protocol-Version''"; cases "rq_acceptedProtocolVersions rq")
      (simp_all add: metadata_ok_def m(4), blast+)
qed

lemma readResponseMetadata_ok:
  "readResponseMetadata P response n rq = Inr m \<Longrightarrow> metadata_ok rq response m"
  by (auto simp: readResponseMetadata_def intro: collectMetadata_ok split: sum.splits)

text \<open>A body that was read as JSON.\<close>

definition json_body :: "response \<Rightarrow> json \<Rightarrow> bool" where
  "json_body response v \<longleftrightarrow>
     finite_numbers v \<and>
     ((r_body response = None \<and> json_parse [] = Some v)
      \<or> (\<exists>reads cs. r_body response = Some reads \<and> received reads cs
           \<and> length (concat cs) \<le> maximumJsonResponseBytes
           \<and> json_parse (platform_text (concat cs)) = Some v))"

lemma parseProtocolJson_Inr:
  "parseProtocolJson source n = Inr v \<Longrightarrow> json_parse source = Some (fst v) \<and> finite_numbers (fst v)"
  by (auto simp: parseProtocolJson_tree json_parse_def split: option.splits if_splits)

lemma settled_Some: "settled x = Some r \<longleftrightarrow> (\<exists>b. x = ReadSettled r b)"
  by (cases x) auto

lemma readBoundedJson_Inr:
  assumes "readBoundedJson sig n response = Some (Inr v)"
  shows "json_body response (fst v)"
proof -
  obtain t b where t: "readBoundedText sig n maximumJsonResponseBytes response = ReadSettled (Inr t) b"
    and v: "parseProtocolJson t n = Inr v"
  proof -
    obtain t b where t: "readBoundedText sig n maximumJsonResponseBytes response = ReadSettled (Inr t) b"
      and "(case parseProtocolJson t n of Inl _ \<Rightarrow> Some (Inl (ProtocolValidationError n))
         | Inr v \<Rightarrow> Some (Inr v)) = Some (Inr v)"
      using assms by (auto simp: readBoundedJson_def obind_Inr_iff settled_Some)
    then show thesis using that by (cases "parseProtocolJson t n") auto
  qed
  from parseProtocolJson_Inr [OF v] readBoundedText_Inr [OF t] show ?thesis
    by (auto simp: json_body_def)
qed

lemma readJson_Inr: "readJson sig n response = Some (Inr v) \<Longrightarrow> json_body response (fst v)"
  by (auto simp: readJson_def intro: readBoundedJson_Inr split: option.splits sum.splits)

lemma decodeJsonSuccess_Inr:
  assumes "decodeJsonSuccess P response validator n sig rq = (Some (Inr w), cancels)"
  shows "metadata_ok rq response (wr_metadata w) \<and> json_body response (wr_value w)
    \<and> (\<exists>m. validator (wr_value w, m)) \<and> \<not> cancels
    \<and> map_option media_type (r_header (js ''Content-Type'') response) = Some (js ''application/json'')"
proof -
  obtain m v where *: "requireMediaType response ''application/json'' n = Inr ()"
    "readResponseMetadata P response n rq = Inr m" "readJson sig n response = Some (Inr v)"
    "decodeProtocolValue v validator n = Inr (wr_value w)" "wr_metadata w = m"
    using arg_cong [OF assms, of fst] unfolding decodeJsonSuccess_def
    by (auto simp: obind_Inr_iff)
  moreover have "\<not> cancels"
    using arg_cong [OF assms, of snd] arg_cong [OF assms, of fst] unfolding decodeJsonSuccess_def
    by (simp add: owned_snd)
  ultimately show ?thesis
    using readResponseMetadata_ok readJson_Inr
    by (cases v) (auto simp: decodeProtocolValue_Inr requireMediaType_def split: if_splits)
qed

definition empty_body :: "response \<Rightarrow> bool" where
  "empty_body response \<longleftrightarrow> r_body response = None \<or>
     (\<exists>reads cs. r_body response = Some reads \<and> received reads cs \<and> list_all (\<lambda>c. c = []) cs)"

lemma decodeNotModified_Inr:
  assumes "fst (decodeNotModified P response n sig rq) = Some (Inr x)"
  shows "\<exists>m. x = NotModified m \<and> metadata_ok rq response m \<and> matchingTag (rq_ifNoneMatch rq) (rm_etag m)
    \<and> empty_body response"
proof -
  obtain b m where "requireEmptyResponseBody (ds_body sig) (n @ ''.304'') response = ReadSettled (Inr ()) b"
    "readResponseMetadata P response n rq = Inr m" "matchingTag (rq_ifNoneMatch rq) (rm_etag m)"
    "x = NotModified m"
    using assms by (auto simp: decodeNotModified_def obind_Inr_iff settled_Some)
  then show ?thesis using readResponseMetadata_ok requireEmptyResponseBody_Inr
    unfolding empty_body_def by blast
qed

lemma decodeProtocolProblem_error: "decodeProtocolProblem vp response sig \<noteq> Some (Inr x)"
  by (auto simp: decodeProtocolProblem_def decodeProblemJson_def obind_Inr_iff split: sum.splits option.splits if_splits)

section \<open>Errors of problems\<close>

lemma number_of_decimal:
  assumes "canonical_decimal s" and "dec_value s < 2 ^ 53"
  shows "number_of s = num_of_int (int (dec_value s))"
proof -
  have "s = int_string (int (dec_value s))"
    using dec_string_dec_value [OF assms(1)] by (simp add: int_string_def)
  moreover have "\<bar>int (dec_value s)\<bar> < 2 ^ 53" using assms(2) by simp
  ultimately show ?thesis using number_of_int by metis
qed

text \<open>The seconds of a Retry-After header are what its digits say, at most a day.\<close>

lemma readRetryAfterSeconds_Inr:
  assumes "readRetryAfterSeconds response retryable fallback = Inr x"
  shows "(\<not> retryable \<and> x = None) \<or> (retryable \<and> r_header (js ''Retry-After'') response = None \<and> x = fallback)
    \<or> (retryable \<and> (\<exists>h. r_header (js ''Retry-After'') response = Some h \<and> canonical_decimal h
        \<and> dec_value h \<le> 86400 \<and> x = Some (int (dec_value h))))"
proof (cases "retryable \<and> r_header (js ''Retry-After'') response \<noteq> None")
  case True
  obtain h where h: "r_header (js ''Retry-After'') response = Some h" using True by auto
  have c: "canonical_decimal h" using assms True h
    by (auto simp: readRetryAfterSeconds_def retryAfterPattern_def split: if_splits)
  obtain n where n: "num_integer (number_of h) = Some n" "n \<le> 86400" "x = Some n"
    using assms True h c
    by (cases "num_integer (number_of h)")
      (auto simp: readRetryAfterSeconds_def retryAfterPattern_def maximumRetryAfterSeconds_def
        split: if_splits)
  have "h = int_string (int (dec_value h))"
    using dec_string_dec_value [OF c] by (simp add: int_string_def)
  then have v: "lexeme_value h = Some (of_int (int (dec_value h)))"
    using lexeme_value_int by metis
  have "dec_value h < 2 ^ 53"
  proof (rule ccontr)
    assume "\<not> ?thesis"
    then have "(2 :: int) ^ 53 \<le> int (dec_value h)" by simp
    then have "(2 :: rat) ^ 53 \<le> of_int (int (dec_value h))"
      by (metis of_int_le_iff of_int_numeral of_int_power)
    moreover have "round64 (of_int (int (dec_value h))) = Fin (of_int n)"
      using n(1) v by (simp add: number_of_def num_integer_Some num_of_int_def)
    ultimately have "(2 :: rat) ^ 53 \<le> of_int n" by (rule round64_large)
    then have "(2 :: int) ^ 53 \<le> n" by (metis of_int_le_iff of_int_numeral of_int_power)
    with n(2) show False by simp
  qed
  then have "n = int (dec_value h)" using number_of_decimal [OF c] n(1) by simp
  with True h c n show ?thesis by auto
next
  case False
  with assms show ?thesis by (auto simp: readRetryAfterSeconds_def split: if_splits)
qed

section \<open>Properties\<close>

lemma decodeReadResponse_cases:
  "fst (decodeReadResponse P vp response validator n sig rq) =
     (if r_status response = 304 then fst (decodeNotModified P response n sig (rq\<lparr>rq_requireEntityTag := True\<rparr>))
      else if r_status response = 200
      then map_option (map_sum id modified)
             (fst (decodeJsonSuccess P response validator n sig (rq\<lparr>rq_requireEntityTag := True\<rparr>)))
      else decodeProtocolProblem vp response sig)"
  by (simp add: decodeReadResponse_def decodeProtocolProblemResponse_def case_prod_beta)

lemma requirements_tag:
  "rq_requireEntityTag (rq\<lparr>rq_requireEntityTag := b\<rparr>) = b"
  "rq_requireStrongEntityTag (rq\<lparr>rq_requireEntityTag := b\<rparr>) = rq_requireStrongEntityTag rq"
  "rq_requireLocation (rq\<lparr>rq_requireEntityTag := b\<rparr>) = rq_requireLocation rq"
  "rq_acceptedProtocolVersions (rq\<lparr>rq_requireEntityTag := b\<rparr>) = rq_acceptedProtocolVersions rq"
  "rq_ifNoneMatch (rq\<lparr>rq_requireEntityTag := b\<rparr>) = rq_ifNoneMatch rq"
  by simp_all

lemma metadata_ok_tag:
  "metadata_ok (rq\<lparr>rq_requireEntityTag := True\<rparr>) response m \<Longrightarrow> metadata_ok rq response m \<and> rm_etag m \<noteq> None"
  unfolding metadata_ok_def requirements_tag by blast

lemma decodeReadResponse_Inr:
  assumes "fst (decodeReadResponse P vp response validator n sig rq) = Some (Inr x)"
  shows "metadata_ok rq response (read_metadata x) \<and> rm_etag (read_metadata x) \<noteq> None \<and>
    (case x of
       NotModified m \<Rightarrow> r_status response = 304 \<and> matchingTag (rq_ifNoneMatch rq) (rm_etag m)
         \<and> empty_body response
     | Modified v m \<Rightarrow> r_status response = 200 \<and> json_body response v \<and> (\<exists>lexemes. validator (v, lexemes))
         \<and> map_option media_type (r_header (js ''Content-Type'') response) = Some (js ''application/json''))"
proof -
  consider (not_modified) "r_status response = 304"
      "fst (decodeNotModified P response n sig (rq\<lparr>rq_requireEntityTag := True\<rparr>)) = Some (Inr x)"
    | (ok) w where "r_status response = 200" "x = modified w"
      "fst (decodeJsonSuccess P response validator n sig (rq\<lparr>rq_requireEntityTag := True\<rparr>)) = Some (Inr w)"
    using assms decodeProtocolProblem_error [of vp response sig x]
    by (cases "fst (decodeJsonSuccess P response validator n sig (rq\<lparr>rq_requireEntityTag := True\<rparr>))";
        cases "the (fst (decodeJsonSuccess P response validator n sig (rq\<lparr>rq_requireEntityTag := True\<rparr>)))")
      (auto simp: decodeReadResponse_cases split: if_splits)
  then show ?thesis
  proof cases
    case not_modified
    from decodeNotModified_Inr [OF this(2)] this(1) show ?thesis by (auto dest: metadata_ok_tag)
  next
    case (ok w)
    then obtain c where
      "decodeJsonSuccess P response validator n sig (rq\<lparr>rq_requireEntityTag := True\<rparr>) = (Some (Inr w), c)"
      by (metis prod.collapse)
    from decodeJsonSuccess_Inr [OF this] ok(1,2) show ?thesis
      by (auto simp: modified_def dest: metadata_ok_tag)
  qed
qed

lemma strip_weak_eq:
  "strip_weak a = strip_weak b \<Longrightarrow> b = a \<or> b = js ''W/'' @ a \<or> a = js ''W/'' @ b"
proof -
  have part: "c = strip_weak c \<or> c = js ''W/'' @ strip_weak c" for c
  proof (cases "starts_with c (js ''W/'')")
    case True
    then have "take 2 c = js ''W/''" by (simp add: starts_with_def js_def numeral_2_eq_2)
    then have "c = js ''W/'' @ drop 2 c" using append_take_drop_id [of 2 c] by simp
    with True show ?thesis by (simp add: strip_weak_def)
  qed (simp add: strip_weak_def)
  assume "strip_weak a = strip_weak b"
  with part [of a] part [of b] show ?thesis by metis
qed

lemma matchingTag_weak:
  "matchingTag sent tag \<longleftrightarrow>
     (\<exists>a b. sent = Some a \<and> tag = Some b \<and> strip_weak a = strip_weak b)"
  by (simp add: matchingTag_def split: option.split)

text \<open>C18: A read result is never made up. \<^verbatim>\<open>decodeReadResponse\<close> answers "not modified" only
  to a 304 with an empty body whose entity tag is, up to weakness, the one that was sent, and
  "modified" only to a 200 whose JSON body the schema validator accepts; in both cases there is an entity
  tag and the metadata are those of the response and meet the requirements (accepted protocol
  versions, safe request identifier, safe location).\<close>
theorem decode_read_sound:
  assumes "fst (decodeReadResponse P vp response validator n sig rq) = Some (Inr x)"
  shows "metadata_ok rq response (read_metadata x) \<and> rm_etag (read_metadata x) \<noteq> None \<and>
    (case x of
       NotModified m \<Rightarrow> r_status response = 304 \<and> empty_body response
         \<and> (\<exists>sent tag. rq_ifNoneMatch rq = Some sent \<and> rm_etag m = Some tag
              \<and> (tag = sent \<or> tag = js ''W/'' @ sent \<or> sent = js ''W/'' @ tag))
     | Modified v m \<Rightarrow> r_status response = 200 \<and> json_body response v \<and> (\<exists>lexemes. validator (v, lexemes))
         \<and> map_option media_type (r_header (js ''Content-Type'') response) = Some (js ''application/json''))"
  using decodeReadResponse_Inr [OF assms]
  by (auto simp: matchingTag_weak dest: strip_weak_eq split: read_result.splits)

definition sample_requirements :: requirements where
  "sample_requirements = \<lparr>rq_requireEntityTag = False, rq_requireStrongEntityTag = False,
     rq_requireLocation = False, rq_acceptedProtocolVersions = None,
     rq_ifNoneMatch = Some (js ''W/'' @ [uQUOTE, 97, uQUOTE])\<rparr>"

definition not_modified_response :: response where
  "not_modified_response = \<lparr>r_status = 304, r_headers = [(js ''etag'', [uQUOTE, 97, uQUOTE])],
     r_body = Some [ReadChunk [], ReadDone], r_locked = False\<rparr>"

lemma sample_metadata:
  "readResponseMetadata P not_modified_response n (sample_requirements\<lparr>rq_requireEntityTag := True\<rparr>) =
    Inr \<lparr>rm_status = 304, rm_etag = Some [uQUOTE, 97, uQUOTE], rm_location = None,
      rm_requestId = None, rm_protocolVersion = None\<rparr>"
  by (simp add: readResponseMetadata_def collectMetadata_def not_modified_response_def
      sample_requirements_def r_header_def header_get_def require_def optional_def asEntityTag_def
      entityTagPattern_def js_eval js_lower_def lower_unit_def control_unit_def containsControlCharacters_units Let_def)

lemma sample_read:
  "fst (decodeReadResponse P vp not_modified_response validator n no_signal sample_requirements) =
   Some (Inr (NotModified \<lparr>rm_status = 304, rm_etag = Some [uQUOTE, 97, uQUOTE],
     rm_location = None, rm_requestId = None, rm_protocolVersion = None\<rparr>))"
proof -
  have "requireEmptyResponseBody live name not_modified_response = ReadSettled (Inr ()) True" for name
    by (simp add: requireEmptyResponseBody_def not_modified_response_def empty_loop.simps maximumEmptyChunks_def)
  moreover have "matchingTag (rq_ifNoneMatch sample_requirements) (Some [uQUOTE, 97, uQUOTE])"
    by (simp add: matchingTag_def sample_requirements_def strip_weak_def starts_with_def js_def)
  moreover have "r_status not_modified_response = 304" by (simp add: not_modified_response_def)
  ultimately show ?thesis
    by (simp add: decodeReadResponse_cases decodeNotModified_def sample_metadata no_signal_def require_def
      throwIfAborted_def is_aborted_def)
qed

theorem decode_read_sound_witness:
  "\<exists>sent. rq_ifNoneMatch sample_requirements = Some sent \<and> sent = js ''W/'' @ [uQUOTE, 97, uQUOTE]
     \<and> empty_body not_modified_response"
  using decode_read_sound [OF sample_read] by (simp add: sample_requirements_def)

end
