(* ===== verification/Versions.thy ===== *)
theory Versions
  imports Models "HOL-Library.Multiset"
begin

text \<open>
  Semantic versions and negotiation: \<^verbatim>\<open>core/version.ts\<close>,
  \<^verbatim>\<open>protocol/negotiation.ts\<close>, and the capability checks of
  \<^verbatim>\<open>core/capabilities.ts\<close> and \<^verbatim>\<open>protocol/capabilities.ts\<close>. Parsing is proved to be
  the inverse of printing on exactly the well-formed versions; negotiation is proved to pick the
  greatest eligible version and to fail exactly when there is none.
\<close>

section \<open>Parsing\<close>

record protocol_version =
  pv_major :: nat
  pv_minor :: nat
  pv_patch :: nat
  pv_prerelease :: "jsstr option"
  pv_build :: "jsstr option"

text \<open>\<^verbatim>\<open>(0|[1-9]\d*)\<close> at the front of a string: the numeral and the rest.\<close>

definition match_number :: "jsstr \<Rightarrow> (jsstr \<times> jsstr) option" where
  "match_number s =
     (case s of [] \<Rightarrow> None
      | c # t \<Rightarrow>
          if c = uZERO then Some ([c], t)
          else if is_digit c then Some (takeWhile is_digit s, dropWhile is_digit s)
          else None)"

definition match_unit :: "code_unit \<Rightarrow> jsstr \<Rightarrow> jsstr option" where
  "match_unit d s = (case s of [] \<Rightarrow> None | c # t \<Rightarrow> if c = d then Some t else None)"

text \<open>\<^verbatim>\<open>[0-9A-Za-z-]+(?:\.[0-9A-Za-z-]+)*\<close>: dot-separated non-empty identifiers.\<close>

definition ident_unit :: "code_unit \<Rightarrow> bool" where
  "ident_unit c \<longleftrightarrow> is_alnum c \<or> c = uMINUS"

definition identifiers :: "jsstr \<Rightarrow> bool" where
  "identifiers s \<longleftrightarrow> list_all (\<lambda>p. p \<noteq> [] \<and> list_all ident_unit p) (split_on uDOT s)"

definition ident_or_dot :: "code_unit \<Rightarrow> bool" where
  "ident_or_dot c \<longleftrightarrow> ident_unit c \<or> c = uDOT"

definition match_identifiers :: "jsstr \<Rightarrow> (jsstr \<times> jsstr) option" where
  "match_identifiers s =
     (let g = takeWhile ident_or_dot s
      in if identifiers g then Some (g, dropWhile ident_or_dot s) else None)"

text \<open>\<^verbatim>\<open>(?:-(...))?\<close> and \<^verbatim>\<open>(?:\+(...))?\<close>: an optional group after a mark.\<close>

definition match_optional :: "code_unit \<Rightarrow> jsstr \<Rightarrow> (jsstr option \<times> jsstr) option" where
  "match_optional mark s =
     (case match_unit mark s of
        None \<Rightarrow> Some (None, s)
      | Some t \<Rightarrow> map_option (\<lambda>(g, u). (Some g, u)) (match_identifiers t))"

text \<open>\<^verbatim>\<open>semanticVersionPattern.exec(value)\<close>: the five groups.\<close>

definition semver_exec ::
    "jsstr \<Rightarrow> (jsstr \<times> jsstr \<times> jsstr \<times> jsstr option \<times> jsstr option) option" where
  "semver_exec s =
     Option.bind (match_number s) (\<lambda>(g1, s1).
     Option.bind (match_unit uDOT s1) (\<lambda>s2.
     Option.bind (match_number s2) (\<lambda>(g2, s3).
     Option.bind (match_unit uDOT s3) (\<lambda>s4.
     Option.bind (match_number s4) (\<lambda>(g3, s5).
     Option.bind (match_optional uMINUS s5) (\<lambda>(g4, s6).
     Option.bind (match_optional uPLUS s6) (\<lambda>(g5, s7).
       if s7 = [] then Some (g1, g2, g3, g4, g5) else None)))))))"

text \<open>\<^verbatim>\<open>Number(value)\<close> of a numeral is exact up to the safe bound, and rounding above it
  never comes back below, so testing the exact value decides \<^verbatim>\<open>isSafeInteger\<close>.\<close>

definition parseSafeInteger :: "jsstr \<Rightarrow> nat option" where
  "parseSafeInteger value =
     (let parsed = dec_value value in if parsed \<le> max_safe_integer then Some parsed else None)"

fun hasInvalidNumericPrerelease :: "jsstr option \<Rightarrow> bool" where
  "hasInvalidNumericPrerelease None = False"
| "hasInvalidNumericPrerelease (Some value) =
     list_ex (\<lambda>identifier. identifier \<noteq> [] \<and> list_all is_digit identifier
                \<and> hd identifier = uZERO \<and> 2 \<le> length identifier)
       (split_on uDOT value)"

definition parseProtocolVersion :: "jsstr \<Rightarrow> protocol_version result" where
  "parseProtocolVersion value =
     (case semver_exec value of
        None \<Rightarrow> Inl InvalidProtocolVersionError
      | Some (g1, g2, g3, prerelease, build) \<Rightarrow>
          (case (parseSafeInteger g1, parseSafeInteger g2, parseSafeInteger g3) of
             (Some major, Some minor, Some patch) \<Rightarrow>
               if hasInvalidNumericPrerelease prerelease then Inl InvalidProtocolVersionError
               else Inr \<lparr>pv_major = major, pv_minor = minor, pv_patch = patch,
                         pv_prerelease = prerelease, pv_build = build\<rparr>
           | _ \<Rightarrow> Inl InvalidProtocolVersionError))"

section \<open>Compatibility windows\<close>

record compatibility_window =
  cw_major :: jsnum
  cw_minimumMinor :: jsnum
  cw_maximumMinor :: jsnum

datatype incompatibility = UnsupportedMajor | BelowMinimumMinor | AboveMaximumMinor

datatype compatibility = Compatible | Incompatible incompatibility

definition assertCompatibilityWindow :: "compatibility_window \<Rightarrow> unit result" where
  "assertCompatibilityWindow window =
     (if \<not> isNonNegativeSafeInteger (cw_major window)
         \<or> \<not> isNonNegativeSafeInteger (cw_minimumMinor window)
         \<or> \<not> isNonNegativeSafeInteger (cw_maximumMinor window)
         \<or> num_less (cw_maximumMinor window) (cw_minimumMinor window)
      then Inl InvalidCompatibilityWindowError else Inr ())"

definition checkProtocolVersion ::
    "protocol_version \<Rightarrow> compatibility_window \<Rightarrow> compatibility result" where
  "checkProtocolVersion version window =
     rbind (assertCompatibilityWindow window) (\<lambda>_. Inr
       (if num_of_int (int (pv_major version)) \<noteq> cw_major window
        then Incompatible UnsupportedMajor
        else if num_less (num_of_int (int (pv_minor version))) (cw_minimumMinor window)
        then Incompatible BelowMinimumMinor
        else if num_less (cw_maximumMinor window) (num_of_int (int (pv_minor version)))
        then Incompatible AboveMaximumMinor
        else Compatible))"

section \<open>Negotiation\<close>

text \<open>\<^verbatim>\<open>a || b || c\<close> on differences: the first that is not zero.\<close>

definition compareVersions :: "protocol_version \<Rightarrow> protocol_version \<Rightarrow> int" where
  "compareVersions l r =
     (if int (pv_major l) - int (pv_major r) \<noteq> 0 then int (pv_major l) - int (pv_major r)
      else if int (pv_minor l) - int (pv_minor r) \<noteq> 0 then int (pv_minor l) - int (pv_minor r)
      else int (pv_patch l) - int (pv_patch r))"

definition lockedProtocolVersions :: "supported_version list" where
  "lockedProtocolVersions = [V1_0_0, V1_1_0, V1_2_0]"

text \<open>The loop over \<^verbatim>\<open>lockedProtocolVersions.toReversed()\<close>.\<close>

fun select_version ::
    "jsstr list \<Rightarrow> protocol_version \<Rightarrow> protocol_version \<Rightarrow> supported_version list
      \<Rightarrow> supported_version result" where
  "select_version advertised requested minimumClient [] = Inl IncompatibleProtocolError"
| "select_version advertised requested minimumClient (version # rest) =
     rbind (parseProtocolVersion (version_string version)) (\<lambda>candidate.
       if version_string version \<in> set advertised
          \<and> compareVersions candidate requested \<le> 0
          \<and> 0 \<le> compareVersions candidate minimumClient
       then Inr version
       else select_version advertised requested minimumClient rest)"

definition negotiateProtocolVersion ::
    "hub_descriptor \<Rightarrow> jsstr \<Rightarrow> supported_version result" where
  "negotiateProtocolVersion descriptor requestedVersion =
     rbind (parseProtocolVersion requestedVersion) (\<lambda>requested.
     rbind (parseProtocolVersion (pi_current_version (d_protocol descriptor))) (\<lambda>current.
     rbind (parseProtocolVersion (pi_minimum_client_version (d_protocol descriptor))) (\<lambda>minimumClient.
     rbind (parseProtocolVersion (version_string (hd lockedProtocolVersions))) (\<lambda>locked.
       if pv_major requested \<noteq> pv_major locked
          \<or> pv_major current \<noteq> pv_major locked
          \<or> compareVersions requested minimumClient < 0
       then Inl IncompatibleProtocolError
       else select_version (pi_supported_versions (d_protocol descriptor)) requested minimumClient
              (rev lockedProtocolVersions)))))"

section \<open>Capabilities\<close>

text \<open>\<^verbatim>\<open>createCapabilitySet\<close>: a JavaScript set, in insertion order.\<close>

fun createCapabilitySet_from :: "jsstr list \<Rightarrow> jsstr list \<Rightarrow> jsstr list result" where
  "createCapabilitySet_from capabilities [] = Inr capabilities"
| "createCapabilitySet_from capabilities (value # rest) =
     rbind (asCapabilityId value) (\<lambda>c.
       createCapabilitySet_from (if c \<in> set capabilities then capabilities else capabilities @ [c]) rest)"

definition createCapabilitySet :: "jsstr list \<Rightarrow> jsstr list result" where
  "createCapabilitySet values = createCapabilitySet_from [] values"

text \<open>\<^verbatim>\<open>left < right\<close> on strings compares code units lexicographically.\<close>

fun string_less :: "jsstr \<Rightarrow> jsstr \<Rightarrow> bool" where
  "string_less [] [] = False"
| "string_less [] (_ # _) = True"
| "string_less (_ # _) [] = False"
| "string_less (c # s) (d # t) = (c < d \<or> (c = d \<and> string_less s t))"

definition compareOpaqueStrings :: "jsstr \<Rightarrow> jsstr \<Rightarrow> int" where
  "compareOpaqueStrings left right =
     (if string_less left right then -1 else if string_less right left then 1 else 0)"

text \<open>\<^verbatim>\<open>Array.prototype.sort\<close> with a comparator is stable; insertion from the right.\<close>

fun insert_by :: "('a \<Rightarrow> 'a \<Rightarrow> int) \<Rightarrow> 'a \<Rightarrow> 'a list \<Rightarrow> 'a list" where
  "insert_by cmp x [] = [x]"
| "insert_by cmp x (y # ys) = (if cmp x y \<le> 0 then x # y # ys else y # insert_by cmp x ys)"

fun sort_by :: "('a \<Rightarrow> 'a \<Rightarrow> int) \<Rightarrow> 'a list \<Rightarrow> 'a list" where
  "sort_by cmp [] = []"
| "sort_by cmp (x # xs) = insert_by cmp x (sort_by cmp xs)"

fun collect_missing :: "jsstr list \<Rightarrow> jsstr list \<Rightarrow> jsstr list \<Rightarrow> jsstr list result" where
  "collect_missing available missing [] = Inr missing"
| "collect_missing available missing (value # rest) =
     rbind (asCapabilityId value) (\<lambda>c.
       collect_missing available
         (if c \<in> set available \<or> c \<in> set missing then missing else missing @ [c]) rest)"

definition findMissingCapabilities :: "jsstr list \<Rightarrow> jsstr list \<Rightarrow> jsstr list result" where
  "findMissingCapabilities available required =
     rbind (collect_missing available [] required) (\<lambda>missing.
       Inr (sort_by compareOpaqueStrings missing))"

definition requireCapabilities :: "jsstr list \<Rightarrow> jsstr list \<Rightarrow> unit result" where
  "requireCapabilities available required =
     rbind (findMissingCapabilities available required) (\<lambda>missing.
       if 0 < length missing then Inl (MissingCapabilitiesError missing) else Inr ())"

definition requireCapability :: "hub_descriptor \<Rightarrow> jsstr \<Rightarrow> capability result" where
  "requireCapability descriptor cap =
     rbind (asCapabilityId cap) (\<lambda>capabilityId.
       case find (\<lambda>candidate. cap_id candidate = capabilityId) (d_capabilities descriptor) of
         None \<Rightarrow> Inl (MissingCapabilityError capabilityId)
       | Some found \<Rightarrow> Inr found)"

section \<open>Parsing is the inverse of printing\<close>

definition opt_suffix :: "code_unit \<Rightarrow> jsstr option \<Rightarrow> jsstr" where
  "opt_suffix mark g = (case g of None \<Rightarrow> [] | Some t \<Rightarrow> mark # t)"

definition semver_text :: "jsstr \<Rightarrow> jsstr \<Rightarrow> jsstr \<Rightarrow> jsstr option \<Rightarrow> jsstr option \<Rightarrow> jsstr" where
  "semver_text a b c pre bld =
     a @ uDOT # b @ uDOT # c @ opt_suffix uMINUS pre @ opt_suffix uPLUS bld"

text \<open>The text of a version.\<close>

definition format_version :: "protocol_version \<Rightarrow> jsstr" where
  "format_version v =
     semver_text (dec_string (pv_major v)) (dec_string (pv_minor v)) (dec_string (pv_patch v))
       (pv_prerelease v) (pv_build v)"

text \<open>The numeric identifiers of a prerelease are canonical decimals.\<close>

definition canonical_identifiers :: "jsstr \<Rightarrow> bool" where
  "canonical_identifiers t \<longleftrightarrow> (\<forall>i \<in> set (split_on uDOT t). list_all is_digit i \<longrightarrow> canonical_decimal i)"

definition wf_version :: "protocol_version \<Rightarrow> bool" where
  "wf_version v \<longleftrightarrow>
     pv_major v \<le> max_safe_integer \<and> pv_minor v \<le> max_safe_integer \<and>
     pv_patch v \<le> max_safe_integer \<and>
     pred_option identifiers (pv_prerelease v) \<and> pred_option identifiers (pv_build v) \<and>
     pred_option canonical_identifiers (pv_prerelease v)"

lemma canonical_identifier:
  "i \<noteq> [] \<Longrightarrow> list_all is_digit i \<Longrightarrow>
     canonical_decimal i \<longleftrightarrow> \<not> (hd i = uZERO \<and> 2 \<le> length i)"
  by (cases i rule: remdups_adj.cases) (auto simp: canonical_decimal_def)

lemma hasInvalid_iff:
  assumes "pred_option identifiers pre"
  shows "hasInvalidNumericPrerelease pre \<longleftrightarrow> \<not> pred_option canonical_identifiers pre"
proof (cases pre)
  case (Some t)
  with assms have "\<forall>i \<in> set (split_on uDOT t). i \<noteq> []" by (auto simp: identifiers_def list_all_iff)
  with Some show ?thesis by (auto simp: canonical_identifiers_def list_ex_iff canonical_identifier)
qed simp

lemma match_number_Some:
  assumes "match_number s = Some (g, t)"
  shows "s = g @ t \<and> canonical_decimal g"
proof (cases s)
  case (Cons c u)
  show ?thesis
  proof (cases "c = uZERO")
    case True
    with assms Cons show ?thesis
      by (auto simp: match_number_def canonical_decimal_def char_class_defs)
  next
    case False
    with assms Cons have "is_digit c" "g = takeWhile is_digit s" "t = dropWhile is_digit s"
      by (auto simp: match_number_def split: if_splits)
    with False Cons show ?thesis
      by (auto simp: canonical_decimal_def list_all_iff dest: set_takeWhileD)
  qed
qed (use assms in \<open>simp add: match_number_def\<close>)

lemma takeWhile_boundary:
  assumes "list_all P g" and "t = [] \<or> \<not> P (hd t)"
  shows "takeWhile P (g @ t) = g \<and> dropWhile P (g @ t) = t"
  using assms by (cases t) (auto simp: list_all_iff takeWhile_append2 dropWhile_append2)

lemma match_number_canonical:
  assumes "canonical_decimal g" and "t = [] \<or> \<not> is_digit (hd t)"
  shows "match_number (g @ t) = Some (g, t)"
proof (cases "g = [uZERO]")
  case True
  then show ?thesis by (simp add: match_number_def)
next
  case False
  with assms(1) obtain c g' where g: "g = c # g'" "c \<noteq> uZERO" "is_digit c" "list_all is_digit g"
    by (cases g) (auto simp: canonical_decimal_def)
  have "takeWhile is_digit (g @ t) = g \<and> dropWhile is_digit (g @ t) = t"
    using g(4) assms(2) by (rule takeWhile_boundary)
  with g show ?thesis by (simp add: match_number_def)
qed

lemma identifiers_units:
  assumes "identifiers g"
  shows "list_all ident_or_dot g \<and> g \<noteq> []"
proof
  have "set (join_with [d] ps) \<subseteq> insert d (\<Union> (set ` set ps))" for d :: code_unit and ps
    by (induction ps rule: induct_list012) auto
  from this [of uDOT "split_on uDOT g"] have "set g \<subseteq> insert uDOT (\<Union> (set ` set (split_on uDOT g)))"
    by simp
  with assms show "list_all ident_or_dot g"
    by (fastforce simp: identifiers_def ident_or_dot_def list_all_iff)
  show "g \<noteq> []" using assms by (auto simp: identifiers_def)
qed

lemma match_identifiers_Some:
  "match_identifiers s = Some (g, t) \<Longrightarrow> s = g @ t \<and> identifiers g"
  by (auto simp: match_identifiers_def Let_def split: if_splits)

lemma match_identifiers_exact:
  assumes "identifiers g" and "t = [] \<or> \<not> ident_or_dot (hd t)"
  shows "match_identifiers (g @ t) = Some (g, t)"
proof -
  have "list_all ident_or_dot g" using identifiers_units [OF assms(1)] by simp
  from takeWhile_boundary [OF this assms(2)] assms(1) show ?thesis
    by (simp add: match_identifiers_def)
qed

lemma match_unit_Some: "match_unit d s = Some t \<longleftrightarrow> s = d # t"
  by (auto simp: match_unit_def split: list.splits)

lemma match_optional_Some:
  "match_optional mark s = Some (g, t) \<Longrightarrow> s = opt_suffix mark g @ t \<and> pred_option identifiers g"
  by (auto simp: match_optional_def match_unit_Some opt_suffix_def
      dest: match_identifiers_Some split: option.splits)

lemma match_optional_exact:
  assumes "pred_option identifiers g" and "t = [] \<or> (\<not> ident_or_dot (hd t) \<and> hd t \<noteq> mark)"
  shows "match_optional mark (opt_suffix mark g @ t) = Some (g, t)"
proof (cases g)
  case None
  with assms(2) show ?thesis
    by (cases t) (auto simp: match_optional_def opt_suffix_def match_unit_def)
next
  case (Some u)
  with assms have "match_identifiers (u @ t) = Some (u, t)"
    by (intro match_identifiers_exact) auto
  with Some show ?thesis
    by (simp add: match_optional_def opt_suffix_def match_unit_def)
qed

lemma semver_exec_Some:
  "semver_exec s = Some (a, b, c, pre, bld) \<longleftrightarrow>
     s = semver_text a b c pre bld \<and> canonical_decimal a \<and> canonical_decimal b \<and>
     canonical_decimal c \<and> pred_option identifiers pre \<and> pred_option identifiers bld"
  (is "?l \<longleftrightarrow> ?r")
proof
  assume ?l
  then show ?r
    unfolding semver_exec_def semver_text_def
    by (auto simp: bind_eq_Some_conv match_unit_Some split: if_splits
        dest!: match_number_Some match_optional_Some)
next
  assume r: ?r
  let ?t5 = "opt_suffix uPLUS bld"
  let ?t4 = "opt_suffix uMINUS pre @ ?t5"
  have units: "\<not> is_digit uDOT" "\<not> is_digit uMINUS" "\<not> is_digit uPLUS"
    "\<not> ident_or_dot uPLUS"
    by (simp_all add: ident_or_dot_def ident_unit_def char_class_defs)
  have 1: "match_number (a @ uDOT # u) = Some (a, uDOT # u)" for u
    using r units by (intro match_number_canonical) auto
  have 2: "match_number (b @ uDOT # u) = Some (b, uDOT # u)" for u
    using r units by (intro match_number_canonical) auto
  have 3: "match_number (c @ ?t4) = Some (c, ?t4)"
    using r units by (intro match_number_canonical)
      (auto simp: opt_suffix_def split: option.splits)
  have 4: "match_optional uMINUS ?t4 = Some (pre, ?t5)"
    using r units by (intro match_optional_exact) (auto simp: opt_suffix_def split: option.splits)
  have 5: "match_optional uPLUS ?t5 = Some (bld, [])"
    using r match_optional_exact [of bld "[]" uPLUS] by simp
  show ?l
    using r 1 2 3 4 5 by (simp add: semver_exec_def semver_text_def match_unit_def)
qed

lemma parseSafeInteger_Some:
  assumes "canonical_decimal g"
  shows "parseSafeInteger g = Some n \<longleftrightarrow> g = dec_string n \<and> n \<le> max_safe_integer"
  using dec_string_dec_value [OF assms] by (auto simp: parseSafeInteger_def Let_def)

theorem parse_iff_format:
  "parseProtocolVersion s = Inr v \<longleftrightarrow> wf_version v \<and> s = format_version v"
proof
  assume l: "parseProtocolVersion s = Inr v"
  then obtain a b c pre bld where ex: "semver_exec s = Some (a, b, c, pre, bld)"
    by (auto simp: parseProtocolVersion_def split: option.splits)
  note can = ex [unfolded semver_exec_Some]
  with l ex show "wf_version v \<and> s = format_version v"
    by (auto simp: parseProtocolVersion_def wf_version_def format_version_def parseSafeInteger_Some
        hasInvalid_iff split: option.splits if_splits)
next
  assume r: "wf_version v \<and> s = format_version v"
  then have "semver_exec s = Some (dec_string (pv_major v), dec_string (pv_minor v),
      dec_string (pv_patch v), pv_prerelease v, pv_build v)"
    by (simp add: semver_exec_Some format_version_def wf_version_def canonical_dec_string)
  moreover have "parseSafeInteger (dec_string n) = Some n" if "n \<le> max_safe_integer" for n
    using that by (simp add: parseSafeInteger_def)
  ultimately show "parseProtocolVersion s = Inr v"
    using r by (simp add: parseProtocolVersion_def wf_version_def hasInvalid_iff)
qed

section \<open>The contract of a comparator\<close>

locale comparator =
  fixes cmp :: "'a \<Rightarrow> 'a \<Rightarrow> int"
  assumes cmp_refl: "cmp a a = 0"
    and cmp_flip: "cmp a b \<le> 0 \<longleftrightarrow> 0 \<le> cmp b a"
    and cmp_trans: "cmp a b \<le> 0 \<Longrightarrow> cmp b c \<le> 0 \<Longrightarrow> cmp a c \<le> 0"
begin

lemma cmp_total: "cmp a b \<le> 0 \<or> cmp b a \<le> 0"
  using cmp_flip [of a b] by linarith

lemma cmp_less_flip: "cmp a b < 0 \<longleftrightarrow> 0 < cmp b a"
  using cmp_flip [of b a] by linarith

lemma mset_insert_by: "mset (insert_by cmp x ys) = add_mset x (mset ys)"
  by (induction ys) auto

lemma mset_sort_by [simp]: "mset (sort_by cmp xs) = mset xs"
  by (induction xs) (auto simp: mset_insert_by)

lemma set_sort_by [simp]: "set (sort_by cmp xs) = set xs"
  by (metis mset_sort_by set_mset_mset)

lemma sorted_insert_by:
  "sorted_wrt (\<lambda>a b. cmp a b \<le> 0) ys \<Longrightarrow> sorted_wrt (\<lambda>a b. cmp a b \<le> 0) (insert_by cmp x ys)"
proof (induction ys)
  case (Cons y ys)
  have "set (insert_by cmp x ys) = insert x (set ys)"
    by (metis mset_insert_by set_mset_add_mset_insert set_mset_mset)
  with Cons cmp_total [of x y] show ?case
    by (auto intro: cmp_trans)
qed simp

lemma sorted_sort_by: "sorted_wrt (\<lambda>a b. cmp a b \<le> 0) (sort_by cmp xs)"
  by (induction xs) (auto intro: sorted_insert_by)

text \<open>The first match in a list in descending order is the greatest match.\<close>

lemma find_greatest:
  assumes "sorted_wrt (\<lambda>a b. cmp b a \<le> 0) xs" and "find P xs = Some v"
  shows "v \<in> set xs \<and> P v \<and> (\<forall>w \<in> set xs. P w \<longrightarrow> cmp w v \<le> 0)"
  using assms by (induction xs) (auto simp: cmp_refl split: if_splits)

end

lemma compareVersions_le:
  "compareVersions a b \<le> 0 \<longleftrightarrow>
     pv_major a < pv_major b \<or> (pv_major a = pv_major b \<and>
     (pv_minor a < pv_minor b \<or> (pv_minor a = pv_minor b \<and> pv_patch a \<le> pv_patch b)))"
  by (auto simp: compareVersions_def)

lemma compareVersions_ge:
  "0 \<le> compareVersions a b \<longleftrightarrow> compareVersions b a \<le> 0"
  by (auto simp: compareVersions_def)

interpretation version_comparator: comparator compareVersions
proof unfold_locales
  show "compareVersions a b \<le> 0 \<longleftrightarrow> 0 \<le> compareVersions b a" for a b
    by (simp add: compareVersions_ge)
  show "compareVersions a c \<le> 0" if "compareVersions a b \<le> 0" "compareVersions b c \<le> 0" for a b c
    using that by (auto simp: compareVersions_le)
qed (simp add: compareVersions_def)

lemma string_less_irrefl [simp]: "\<not> string_less s s"
  by (induction s) auto

lemma string_less_asym: "string_less s t \<Longrightarrow> \<not> string_less t s"
  by (induction s t rule: string_less.induct) auto

lemma string_less_total: "string_less s t \<or> s = t \<or> string_less t s"
  by (induction s t rule: string_less.induct) auto

lemma string_less_trans: "string_less s t \<Longrightarrow> string_less t u \<Longrightarrow> string_less s u"
proof (induction s t arbitrary: u rule: string_less.induct)
  case (2 d t)
  then show ?case by (cases u) auto
next
  case (4 c s d t)
  then show ?case by (cases u) auto
qed auto

lemma compareOpaqueStrings_le: "compareOpaqueStrings s t \<le> 0 \<longleftrightarrow> s = t \<or> string_less s t"
  using string_less_total [of s t] string_less_asym [of s t]
  by (auto simp: compareOpaqueStrings_def)

lemma compareOpaqueStrings_flip: "compareOpaqueStrings t s = - compareOpaqueStrings s t"
  using string_less_asym [of s t] by (auto simp: compareOpaqueStrings_def)

interpretation string_comparator: comparator compareOpaqueStrings
proof unfold_locales
  show "compareOpaqueStrings a b \<le> 0 \<longleftrightarrow> 0 \<le> compareOpaqueStrings b a" for a b
    using compareOpaqueStrings_flip [of a b] by simp
  show "compareOpaqueStrings a c \<le> 0"
    if "compareOpaqueStrings a b \<le> 0" "compareOpaqueStrings b c \<le> 0" for a b c
    using that string_less_trans by (auto simp: compareOpaqueStrings_le)
qed (simp add: compareOpaqueStrings_def)

section \<open>Negotiation picks the greatest eligible version\<close>

fun version_of :: "supported_version \<Rightarrow> protocol_version" where
  "version_of v = \<lparr>pv_major = 1, pv_minor = version_rank v, pv_patch = 0,
                   pv_prerelease = None, pv_build = None\<rparr>"

declare version_of.simps [simp del]

lemma parse_supported [simp]: "parseProtocolVersion (version_string v) = Inr (version_of v)"
proof -
  have "dec_string 0 = js ''0''" "dec_string 1 = js ''1''" "dec_string 2 = js ''2''"
    by (subst dec_string.simps, simp add: digit_unit_def js_def)+
  then have "version_string v = format_version (version_of v)"
    by (cases v)
      (simp_all add: version_of.simps format_version_def semver_text_def opt_suffix_def js_def)
  then show ?thesis
    by (cases v)
      (simp_all add: parse_iff_format wf_version_def version_of.simps max_safe_integer_def)
qed

lemma compare_version_of: "compareVersions (version_of v) (version_of w) \<le> 0 \<longleftrightarrow> v \<le> w"
  by (auto simp: compareVersions_le version_of.simps less_eq_supported_version_def)

definition eligible ::
    "jsstr list \<Rightarrow> protocol_version \<Rightarrow> protocol_version \<Rightarrow> supported_version \<Rightarrow> bool" where
  "eligible advertised requested minimumClient v \<longleftrightarrow>
     version_string v \<in> set advertised \<and>
     compareVersions (version_of v) requested \<le> 0 \<and>
     0 \<le> compareVersions (version_of v) minimumClient"

lemma select_version_find:
  "select_version advertised r m vs =
     (case find (eligible advertised r m) vs of
        None \<Rightarrow> Inl IncompatibleProtocolError | Some v \<Rightarrow> Inr v)"
  by (induction vs) (auto simp: eligible_def)

lemma locked_descending:
  "sorted_wrt (\<lambda>a b. compareVersions (version_of b) (version_of a) \<le> 0) (rev lockedProtocolVersions)"
  by (simp add: lockedProtocolVersions_def compare_version_of less_eq_supported_version_def)

lemma locked_all: "v \<in> set (rev lockedProtocolVersions)"
  by (cases v) (simp_all add: lockedProtocolVersions_def)

interpretation locked_comparator: comparator "\<lambda>v w. compareVersions (version_of v) (version_of w)"
  by unfold_locales
    (fact version_comparator.cmp_refl version_comparator.cmp_flip version_comparator.cmp_trans)+

lemma find_eligible:
  "find (eligible adv r m) (rev lockedProtocolVersions) = Some v \<longleftrightarrow>
     eligible adv r m v \<and> (\<forall>w. eligible adv r m w \<longrightarrow> w \<le> v)"
  (is "?f = Some v \<longleftrightarrow> ?g v")
proof -
  have sound: "?g u" if "?f = Some u" for u
    using locked_comparator.find_greatest [OF locked_descending that] locked_all
    by (auto simp: compare_version_of)
  have "?f = Some v" if "?g v"
  proof -
    have "?f \<noteq> None"
      using that locked_all [of v] by (auto simp: find_None_iff simp del: set_rev)
    then obtain u where "?f = Some u" by blast
    then show ?thesis using sound [of u] that by (metis order_antisym)
  qed
  with sound show ?thesis by blast
qed

declare version_string.simps [simp del]

text \<open>The parsed inputs of a negotiation that gets as far as the selection.\<close>

definition negotiable ::
    "hub_descriptor \<Rightarrow> jsstr \<Rightarrow> protocol_version \<Rightarrow> protocol_version \<Rightarrow> protocol_version \<Rightarrow> bool" where
  "negotiable d requestedVersion R C M \<longleftrightarrow>
     parseProtocolVersion requestedVersion = Inr R \<and>
     parseProtocolVersion (pi_current_version (d_protocol d)) = Inr C \<and>
     parseProtocolVersion (pi_minimum_client_version (d_protocol d)) = Inr M"

lemma locked_major: "pv_major (version_of v) = 1"
  by (simp add: version_of.simps)

lemma negotiate_unfold:
  assumes "negotiable d s R C M"
  shows "negotiateProtocolVersion d s =
    (if pv_major R = 1 \<and> pv_major C = 1 \<and> 0 \<le> compareVersions R M
     then case find (eligible (pi_supported_versions (d_protocol d)) R M) (rev lockedProtocolVersions) of
            None \<Rightarrow> Inl IncompatibleProtocolError | Some v \<Rightarrow> Inr v
     else Inl IncompatibleProtocolError)"
proof -
  have hd: "hd lockedProtocolVersions = V1_0_0" by (simp add: lockedProtocolVersions_def)
  from assms show ?thesis
    unfolding negotiable_def negotiateProtocolVersion_def hd
    by (simp add: select_version_find locked_major not_le)
qed

lemma negotiate_result:
  assumes "negotiable d s R C M"
  shows "negotiateProtocolVersion d s = Inr v \<longleftrightarrow>
     pv_major R = 1 \<and> pv_major C = 1 \<and> 0 \<le> compareVersions R M \<and>
     eligible (pi_supported_versions (d_protocol d)) R M v \<and>
     (\<forall>w. eligible (pi_supported_versions (d_protocol d)) R M w \<longrightarrow> w \<le> v)"
  unfolding negotiate_unfold [OF assms] find_eligible [symmetric]
  by (auto split: option.splits)

lemma negotiate_parses:
  "negotiateProtocolVersion d s = Inr v \<Longrightarrow> \<exists>R C M. negotiable d s R C M"
  by (auto simp: negotiateProtocolVersion_def negotiable_def rbind_Inr_iff)

lemma parse_error: "parseProtocolVersion s = Inl e \<Longrightarrow> e = InvalidProtocolVersionError"
  by (auto simp: parseProtocolVersion_def split: option.splits if_splits)

lemma negotiate_error:
  "negotiateProtocolVersion d s = Inl e \<Longrightarrow>
     e = InvalidProtocolVersionError \<or> e = IncompatibleProtocolError"
  by (auto simp: negotiateProtocolVersion_def rbind_Inl_iff select_version_find
      dest: parse_error split: if_splits option.splits)

section \<open>Capabilities\<close>

lemma collect_missing_Inr:
  assumes "collect_missing available missing required = Inr ms"
    and "distinct missing" and "set missing \<inter> set available = {}"
  shows "distinct ms \<and> set ms = set missing \<union> (set required - set available)"
  using assms
proof (induction available missing required rule: collect_missing.induct)
  case (2 available missing v rest)
  then obtain "asCapabilityId v = Inr v"
    by (auto simp: rbind_Inr_iff capability_id.check_Inr_iff)
  with 2 show ?case by (auto split: if_splits)
qed auto

lemma collect_missing_total:
  "(\<exists>ms. collect_missing available missing required = Inr ms) \<longleftrightarrow>
     (\<forall>r \<in> set required. asCapabilityId r = Inr r)"
proof (induction available missing required rule: collect_missing.induct)
  case (2 available missing v rest)
  show ?case
  proof (cases "asCapabilityId v = Inr v")
    case True
    with 2 show ?thesis by simp
  next
    case False
    then obtain e where "asCapabilityId v = Inl e"
      by (cases "asCapabilityId v") (auto simp: capability_id.check_Inr_iff)
    then show ?thesis by simp
  qed
qed simp

lemma findMissing_Inr:
  assumes "findMissingCapabilities available required = Inr ms"
  shows "distinct ms \<and> set ms = set required - set available \<and>
    sorted_wrt (\<lambda>a b. compareOpaqueStrings a b \<le> 0) ms"
proof -
  obtain m where m: "collect_missing available [] required = Inr m"
    and ms: "ms = sort_by compareOpaqueStrings m"
    using assms by (auto simp: findMissingCapabilities_def rbind_Inr_iff)
  from collect_missing_Inr [OF m] have "distinct m" "set m = set required - set available" by auto
  moreover have "distinct ms \<longleftrightarrow> distinct m"
    unfolding ms by (metis mset_eq_imp_distinct_iff string_comparator.mset_sort_by)
  ultimately show ?thesis
    unfolding ms using string_comparator.sorted_sort_by by simp
qed

lemma requireCapabilities_ok_iff:
  "requireCapabilities available required = Inr () \<longleftrightarrow>
     set required \<subseteq> set available \<and> (\<forall>r \<in> set required. asCapabilityId r = Inr r)"
proof (cases "findMissingCapabilities available required")
  case (Inl e)
  then have "\<not> (\<forall>r \<in> set required. asCapabilityId r = Inr r)"
    using collect_missing_total [of available "[]" required]
    by (auto simp: findMissingCapabilities_def)
  with Inl show ?thesis by (auto simp: requireCapabilities_def)
next
  case (Inr ms)
  then have "\<forall>r \<in> set required. asCapabilityId r = Inr r"
    using collect_missing_total [of available "[]" required]
    by (auto simp: findMissingCapabilities_def rbind_Inr_iff)
  moreover have "ms = [] \<longleftrightarrow> set required \<subseteq> set available"
    using findMissing_Inr [OF Inr] by (metis Diff_eq_empty_iff set_empty)
  ultimately show ?thesis using Inr by (auto simp: requireCapabilities_def)
qed

lemma collect_missing_error:
  "collect_missing available missing required = Inl e \<Longrightarrow> e = InvalidCapabilityError"
proof (induction required arbitrary: missing)
  case (Cons r rest)
  then show ?case
    by (cases "asCapabilityId r") (auto simp: capability_id.check_Inl_iff)
qed simp

lemma findMissing_error:
  "findMissingCapabilities available required = Inl e \<Longrightarrow> e = InvalidCapabilityError"
  by (auto simp: findMissingCapabilities_def rbind_Inl_iff dest: collect_missing_error)

lemma requireCapability_Inr:
  "requireCapability d c = Inr k \<Longrightarrow> k \<in> set (d_capabilities d) \<and> cap_id k = c"
  by (auto simp: requireCapability_def rbind_Inr_iff capability_id.check_Inr_iff find_Some_iff
      split: option.splits)

section \<open>Properties\<close>

text \<open>C3: \<^verbatim>\<open>parseProtocolVersion\<close> accepts exactly the texts that print a well-formed semantic
  version (canonical numbers up to the largest safe integer, prerelease and build identifiers of the
  grammar, no numeric prerelease identifier with a leading zero), and returns the version printed: parsing and printing
  are inverse to each other.\<close>

theorem version_roundtrip:
  "parseProtocolVersion s = Inr v \<longleftrightarrow> wf_version v \<and> s = format_version v"
  by (rule parse_iff_format)

text \<open>C4: \<^verbatim>\<open>negotiateProtocolVersion\<close> returns a version exactly when the three inputs parse,
  the requested and the current version have the SDK's major number, the requested version is not
  below the Hub's minimum, and then it is the greatest locked version that the Hub advertises, that does
  not exceed the requested version and is not below the minimum.\<close>

theorem negotiation_selects_greatest:
  "negotiateProtocolVersion d s = Inr v \<longleftrightarrow>
     (\<exists>R C M. negotiable d s R C M \<and> pv_major R = 1 \<and> pv_major C = 1 \<and> 0 \<le> compareVersions R M \<and>
        eligible (pi_supported_versions (d_protocol d)) R M v \<and>
        (\<forall>w. eligible (pi_supported_versions (d_protocol d)) R M w \<longrightarrow> w \<le> v))"
proof (cases "\<exists>R C M. negotiable d s R C M")
  case True
  then obtain R C M where n: "negotiable d s R C M" by blast
  then have "R' = R \<and> C' = C \<and> M' = M" if "negotiable d s R' C' M'" for R' C' M'
    using that by (simp add: negotiable_def)
  with n negotiate_result [OF n] show ?thesis by metis
next
  case False
  then show ?thesis using negotiate_parses [of d s v] by blast
qed

definition sample_hub :: hub_descriptor where
  "sample_hub = \<lparr>d_hub_id = js ''hub'',
     d_protocol = \<lparr>pi_current_version = js ''1.2.0'',
       pi_supported_versions = [js ''1.1.0'', js ''1.0.0''],
       pi_minimum_client_version = js ''1.0.0''\<rparr>,
     d_capabilities = [\<lparr>cap_id = js ''vehicles.read'', cap_commands = None\<rparr>],
     d_endpoints = \<lparr>ep_well_known = js ''/.well-known/teslatlas'', ep_api = js ''/api/v1'',
       ep_events = js ''/api/v1/events'', ep_openapi = js ''/openapi.json''\<rparr>,
     d_limits = \<lparr>lim_max_request_body_bytes = 65536, lim_max_page_size = 500,
       lim_max_history_range_days = 366, lim_max_dense_range_days = 31\<rparr>\<rparr>"

lemma sample_negotiable:
  "negotiable sample_hub (js ''1.2.0'') (version_of V1_2_0) (version_of V1_2_0) (version_of V1_0_0)"
  using parse_supported [of V1_2_0] parse_supported [of V1_0_0]
  by (simp add: negotiable_def sample_hub_def version_string.simps)

lemma sample_eligible:
  "eligible (pi_supported_versions (d_protocol sample_hub)) (version_of V1_2_0) (version_of V1_0_0) v
     \<longleftrightarrow> v = V1_0_0 \<or> v = V1_1_0"
  by (cases v) (simp_all add: eligible_def sample_hub_def compare_version_of less_eq_supported_version_def
      compareVersions_ge version_string.simps)

theorem negotiation_selects_greatest_witness:
  "negotiateProtocolVersion sample_hub (js ''1.2.0'') = Inr V1_1_0"
proof (subst negotiation_selects_greatest, intro exI conjI)
  show "negotiable sample_hub (js ''1.2.0'') (version_of V1_2_0) (version_of V1_2_0) (version_of V1_0_0)"
    by (rule sample_negotiable)
  show "0 \<le> compareVersions (version_of V1_2_0) (version_of V1_0_0)" by code_simp
qed (auto simp: sample_eligible locked_major less_eq_supported_version_def)

text \<open>\<^verbatim>\<open>requireCapabilities\<close> passes exactly when every required capability is a valid
  identifier and is available, and when it fails with the missing ones these are, once each and in order, the
  required capabilities that are not available.\<close>

theorem required_capabilities:
  "(requireCapabilities available required = Inr () \<longleftrightarrow>
      set required \<subseteq> set available \<and> (\<forall>r \<in> set required. asCapabilityId r = Inr r)) \<and>
   (requireCapabilities available required = Inl (MissingCapabilitiesError ms) \<longrightarrow>
      distinct ms \<and> set ms = set required - set available \<and>
      sorted_wrt (\<lambda>a b. compareOpaqueStrings a b \<le> 0) ms)"
proof (intro conjI impI requireCapabilities_ok_iff)
  assume "requireCapabilities available required = Inl (MissingCapabilitiesError ms)"
  then have "findMissingCapabilities available required = Inr ms"
    by (auto simp: requireCapabilities_def rbind_Inl_iff split: if_splits
        dest: findMissing_error)
  from findMissing_Inr [OF this]
  show "distinct ms" "set ms = set required - set available"
    "sorted_wrt (\<lambda>a b. compareOpaqueStrings a b \<le> 0) ms" by auto
qed

theorem required_capabilities_witness:
  "sorted_wrt (\<lambda>a b. compareOpaqueStrings a b \<le> 0) [[81], [82 :: code_unit]]"
proof -
  have "requireCapabilities [[83]] [[82], [83], [81], [82]] = Inl (MissingCapabilitiesError [[81], [82]])"
    by (simp add: requireCapabilities_def findMissingCapabilities_def asCapabilityId_def
        containsControlCharacters_units compareOpaqueStrings_def control_unit_def)
  with required_capabilities [of "[[83]]" "[[82], [83], [81], [82]]" "[[81], [82]]"]
  show ?thesis by blast
qed

text \<open>A negotiation that fails reports an unparsable version or an incompatible protocol, nothing else.\<close>

theorem negotiation_errors:
  "negotiateProtocolVersion d s = Inl e \<Longrightarrow> e = InvalidProtocolVersionError \<or> e = IncompatibleProtocolError"
  by (rule negotiate_error)

theorem negotiation_errors_witness:
  "InvalidProtocolVersionError = InvalidProtocolVersionError \<or>
   InvalidProtocolVersionError = IncompatibleProtocolError"
proof (rule negotiation_errors)
  show "negotiateProtocolVersion sample_hub [] = Inl InvalidProtocolVersionError"
    by (simp add: negotiateProtocolVersion_def parseProtocolVersion_def semver_exec_def match_number_def)
qed

end
