(* ===== verification/Replies.thy ===== *)
theory Replies
  imports ResponseDecoder Versions
begin

text \<open>
  Responses with a printed JSON body, and what the decoder reads of them: the concrete inputs the
  witnesses of the client evaluate on.
\<close>

definition ascii :: "jsstr \<Rightarrow> bool" where
  "ascii s \<longleftrightarrow> list_all (\<lambda>c. unat c < 128) s"

lemma code_points_ascii: "ascii s \<Longrightarrow> code_points s = map unat s"
  by (induction s rule: code_points.induct) (auto simp: ascii_def is_high_def in_range_def)

lemma well_formed_ascii: "ascii s \<Longrightarrow> well_formed s"
  by (auto simp: well_formed_def code_points_ascii ascii_def list_all_iff scalar_value_def surrogate_cp_def)

lemma platform_text_ascii: "ascii s \<Longrightarrow> platform_text (utf8_encode s) = s"
  using utf8_text_encode [OF well_formed_ascii]
  by (cases s) (auto simp: platform_text_def ascii_def starts_with_def Let_def)

lemma length_utf8_ascii: "ascii s \<Longrightarrow> length (utf8_encode s) = length s"
  unfolding utf8_encode_def code_points_ascii
  by (induction s) (auto simp: ascii_def utf8_cp_ascii)

definition json_reply :: "nat \<Rightarrow> headers \<Rightarrow> jtree \<Rightarrow> response" where
  "json_reply status hs t =
     \<lparr>r_status = status, r_headers = (js ''content-type'', js ''application/json'') # hs,
      r_body = Some (map ReadChunk [utf8_encode (print_tree t)] @ [ReadDone]), r_locked = False\<rparr>"

definition replies_ok :: "jtree \<Rightarrow> bool" where
  "replies_ok t \<longleftrightarrow> valid_tree t \<and> finite_numbers (json_of t) \<and> ascii (print_tree t)
     \<and> print_tree t \<noteq> [] \<and> length (print_tree t) \<le> 4096"

lemma parse_printed:
  "valid_tree t \<Longrightarrow> finite_numbers (json_of t) \<Longrightarrow>
     parseProtocolJson (print_tree t) n = Inr (json_of t, Some (json_of (mirror_tree t)))"
  by (simp add: parseProtocolJson_tree parse_print_tree)

lemma readBoundedJson_reply:
  assumes "replies_ok t"
  shows "readBoundedJson live n (json_reply status hs t) = Some (Inr (json_of t, Some (json_of (mirror_tree t))))"
proof -
  let ?b = "utf8_encode (print_tree t)"
  have b: "?b \<noteq> []" "length ?b \<le> maximumJsonResponseBytes" "platform_text ?b = print_tree t"
    using assms length_utf8_ascii [of "print_tree t"] platform_text_ascii
    by (auto simp: replies_ok_def maximumJsonResponseBytes_def)
  have "readBoundedText live n maximumJsonResponseBytes (json_reply status hs t) =
      ReadSettled (Inr (platform_text (concat [?b]))) True"
    by (subst readBoundedText_chunks [where cs = "[?b]"]) (use b in \<open>simp_all add: json_reply_def\<close>)
  with b(3) assms show ?thesis
    by (simp add: readBoundedJson_def parse_printed replies_ok_def)
qed

lemma requireMediaType_reply: "requireMediaType (json_reply status hs t) ''application/json'' n = Inr ()"
  by (simp add: requireMediaType_def json_reply_def r_header_def header_get_def media_type_def js_trim_def
      js_space_def js_eval js_lower_def lower_unit_def)

lemma readJson_reply:
  "replies_ok t \<Longrightarrow>
     readJson no_signal n (json_reply status hs t) = Some (Inr (json_of t, Some (json_of (mirror_tree t))))"
  by (simp add: readJson_def no_signal_def readBoundedJson_reply)

lemma r_header_reply:
  "js_lower name \<noteq> js ''content-type'' \<Longrightarrow> r_header name (json_reply status hs t) = header_get name hs"
  by (simp add: r_header_def json_reply_def header_get_def)

text \<open>The headers of a reply with an entity tag and a protocol version.\<close>

definition tagged :: "string \<Rightarrow> headers" where
  "tagged version = [(js ''etag'', [uQUOTE, 97, uQUOTE]), (js ''teslatlas-protocol-version'', js version)]"

lemma tagged_headers:
  "header_get (js ''ETag'') (tagged v) = Some [uQUOTE, 97, uQUOTE]"
  "header_get (js ''X-Request-ID'') (tagged v) = None"
  "header_get (js ''Location'') (tagged v) = None"
  "header_get (js ''Teslatlas-Protocol-Version'') (tagged v) = Some (js v)"
  by (simp_all add: tagged_def header_get_def js_eval js_lower_def lower_unit_def)

lemma js_lower_not_content:
  "js_lower (js ''ETag'') \<noteq> js ''content-type''" "js_lower (js ''X-Request-ID'') \<noteq> js ''content-type''"
  "js_lower (js ''Location'') \<noteq> js ''content-type''"
  "js_lower (js ''Teslatlas-Protocol-Version'') \<noteq> js ''content-type''"
  by (simp_all add: js_eval js_lower_def lower_unit_def)

lemma metadata_reply:
  assumes "rq_requireLocation rq = False" and "protocolVersionPattern (js v)"
    and "case rq_acceptedProtocolVersions rq of None \<Rightarrow> True | Some vs \<Rightarrow> js v \<in> set vs"
  shows "readResponseMetadata P (json_reply status (tagged v) t) n rq =
    Inr \<lparr>rm_status = status, rm_etag = Some [uQUOTE, 97, uQUOTE], rm_location = None, rm_requestId = None,
         rm_protocolVersion = Some (js v)\<rparr>"
proof -
  have tag: "asEntityTag [uQUOTE, 97, uQUOTE] = Inr [uQUOTE, 97, uQUOTE]"
    "isStrongEntityTag (StringArg [uQUOTE, 97, uQUOTE])"
    by (simp_all add: asEntityTag_def entityTagPattern_def containsControlCharacters_units control_unit_def)
  have status: "r_status (json_reply status (tagged v) t) = status" by (simp add: json_reply_def)
  show ?thesis
    unfolding readResponseMetadata_def collectMetadata_def Let_def
      r_header_reply [OF js_lower_not_content(1)] r_header_reply [OF js_lower_not_content(2)]
      r_header_reply [OF js_lower_not_content(3)] r_header_reply [OF js_lower_not_content(4)] tagged_headers status
    using assms tag
    by (cases "rq_acceptedProtocolVersions rq") (simp_all add: require_def optional_def del: isStrongEntityTag.simps)
qed

section \<open>Documents that print as they are\<close>

definition plain_string :: "jsstr \<Rightarrow> bool" where
  "plain_string s \<longleftrightarrow>
     list_all (\<lambda>c. 32 \<le> unat c \<and> unat c < 127 \<and> c \<noteq> uQUOTE \<and> c \<noteq> uBACKSLASH) s"

lemma plain_unit: "32 \<le> unat c \<Longrightarrow> unat c < 127 \<Longrightarrow> c \<noteq> uQUOTE \<Longrightarrow> c \<noteq> uBACKSLASH \<Longrightarrow> escape_unit c = [c]"
  by (auto simp: escape_unit_def is_high_def is_low_def in_range_def)

lemma json_quote_plain: "plain_string s \<Longrightarrow> json_quote s = uQUOTE # s @ [uQUOTE]"
proof -
  assume "plain_string s"
  then have "json_escape s = s"
    by (induction s rule: json_escape.induct)
      (auto simp: plain_string_def plain_unit is_high_def in_range_def)
  then show ?thesis by (simp add: json_quote_def)
qed

lemma ascii_simps [simp]:
  "ascii []" "ascii (c # s) = (unat c < 128 \<and> ascii s)" "ascii (s @ t) = (ascii s \<and> ascii t)"
  by (simp_all add: ascii_def)

lemma plain_ascii: "plain_string s \<Longrightarrow> ascii s"
  by (auto simp: plain_string_def ascii_def list_all_iff)

fun plain_tree :: "jtree \<Rightarrow> bool" where
  "plain_tree (StrT s) = plain_string s"
| "plain_tree (NumT l) = (l \<noteq> [] \<and> ascii l \<and> number_lexeme l = Some l \<and> num_is_finite (number_of l))"
| "plain_tree (ArrT ts) = list_all plain_tree ts"
| "plain_tree (ObjT ms) = list_all (\<lambda>(k, t). plain_string k \<and> plain_tree t) ms"
| "plain_tree _ = True"

fun text_bound :: "jtree \<Rightarrow> nat" where
  "text_bound (StrT s) = length s + 2"
| "text_bound (NumT l) = length l"
| "text_bound (ArrT ts) = 2 + sum_list (map (\<lambda>t. text_bound t + 1) ts)"
| "text_bound (ObjT ms) = 2 + sum_list (map (\<lambda>(k, t). length k + 4 + text_bound t) ms)"
| "text_bound _ = 5"

lemma ascii_commas: "ascii (commas uCOMMA xss) = list_all ascii xss"
  by (induction uCOMMA xss rule: commas.induct) auto

lemma length_commas: "length (commas d xss) \<le> sum_list (map (\<lambda>xs. length xs + 1) xss)"
  by (induction d xss rule: commas.induct) auto

lemma words_ascii: "ascii word_null" "ascii word_true" "ascii word_false"
  "length word_null \<le> 5" "length word_true \<le> 5" "length word_false \<le> 5"
  by (simp_all add: word_null_def word_true_def word_false_def)

lemma plain_tree_print: "plain_tree t \<Longrightarrow> ascii (print_tree t) \<and> length (print_tree t) \<le> text_bound t"
proof (induction t)
  case (ArrT ts)
  then have a: "list_all ascii (map print_tree ts)" by (auto simp: list_all_iff)
  have "sum_list (map (\<lambda>xs. length xs + 1) (map print_tree ts)) \<le> sum_list (map (\<lambda>t. text_bound t + 1) ts)"
    using ArrT unfolding map_map by (intro sum_list_mono) (auto simp: list_all_iff)
  with length_commas [of uCOMMA "map print_tree ts"] a show ?case by (simp add: ascii_commas)
next
  case (ObjT ms)
  let ?f = "\<lambda>(k, v). json_quote k @ uCOLON # print_tree v"
  have m: "ascii (print_tree v) \<and> length (print_tree v) \<le> text_bound v \<and> plain_string k"
    if "(k, v) \<in> set ms" for k v
    using ObjT that by (fastforce simp: list_all_iff)
  then have a: "list_all ascii (map ?f ms)" by (auto simp: list_all_iff json_quote_plain plain_ascii)
  have "sum_list (map (\<lambda>xs. length xs + 1) (map ?f ms)) \<le> sum_list (map (\<lambda>(k, t). length k + 4 + text_bound t) ms)"
    unfolding map_map by (intro sum_list_mono) (auto simp: json_quote_plain dest!: m)
  with length_commas [of uCOMMA "map ?f ms"] a show ?case by (simp add: ascii_commas)
qed (auto simp: words_ascii json_quote_plain plain_ascii)

lemma plain_valid: "plain_tree t \<Longrightarrow> valid_tree t"
  by (induction t) (auto simp: list_all_iff)

lemma plain_finite: "plain_tree t \<Longrightarrow> finite_numbers (json_of t)"
proof (induction t)
  case (ObjT ms)
  then have "finite_numbers v" if "(k, v) \<in> set (map (\<lambda>(k, v). (k, json_of v)) ms)" for k v
    using that by (fastforce simp: list_all_iff)
  with own_members_set [of "map (\<lambda>(k, v). (k, json_of v)) ms"] show ?case by (auto simp: list_all_iff)
qed (auto simp: list_all_iff)

lemma print_tree_not_Nil: "plain_tree t \<Longrightarrow> print_tree t = [] \<Longrightarrow> False"
  by (cases t) (auto simp: word_null_def word_true_def word_false_def json_quote_def split: if_splits)

lemma plain_replies: "plain_tree t \<Longrightarrow> text_bound t \<le> 4096 \<Longrightarrow> replies_ok t"
  using plain_tree_print [of t] plain_valid [of t] plain_finite [of t] print_tree_not_Nil [of t]
  by (auto simp: replies_ok_def)

lemma set_member_new: "k \<notin> fst ` set acc \<Longrightarrow> set_member k v acc = acc @ [(k, v)]"
  by (induction acc) auto

lemma fold_set_member:
  "distinct (map fst (acc @ ms)) \<Longrightarrow> foldl (\<lambda>acc (k, v). set_member k v acc) acc ms = acc @ ms"
proof (induction ms arbitrary: acc)
  case (Cons m ms)
  obtain k v where m: "m = (k, v)" by (cases m)
  with Cons.prems have "k \<notin> fst ` set acc" by auto
  with Cons.IH [of "acc @ [(k, v)]"] Cons.prems m show ?case by (simp add: set_member_new)
qed simp

lemma own_members_names:
  assumes "distinct (map fst ms)" and "list_all (\<lambda>(k, _). k \<noteq> [] \<and> \<not> is_digit (hd k)) ms"
  shows "own_members ms = ms"
proof -
  have "\<not> array_index k" if "(k, v) \<in> set ms" for k v
    using assms(2) that by (cases k) (auto simp: array_index_def canonical_decimal_def list_all_iff)
  then have "filter (\<lambda>(k, _). array_index k) ms = []" "filter (\<lambda>(k, _). \<not> array_index k) ms = ms"
    by (auto simp: filter_empty_conv filter_id_conv)
  with fold_set_member [of "[]" ms] assms(1) show ?thesis by (simp add: own_members_def Let_def)
qed

end
