(* ===== verification/Problems.thy ===== *)
theory Problems
  imports Replies
begin

text \<open>
  What a caller learns from a problem response (\<^verbatim>\<open>decodeProtocolProblemResponse\<close> of
  \<^verbatim>\<open>http/response-decoder.ts\<close>, modelled in \<open>ResponseDecoder\<close>): the only error with fields
  of the response is tied to the document that was read, and the hint how long to wait is bounded.
\<close>

section \<open>Errors of problems\<close>

text \<open>
  The fields of a problem error, each the checked member of the document \<open>w\<close> that was read. The
  seconds to wait are those of the Retry-After header, or of the document when there is none.
\<close>

definition problem_error_of :: "response \<Rightarrow> json \<Rightarrow> http_error_options \<Rightarrow> bool" where
  "problem_error_of response w p \<longleftrightarrow>
     pe_status p = r_status response
     \<and> member_of w (js ''status'') = Some (JNum (num_of_int (int (pe_status p))))
     \<and> member_of w (js ''code'') = Some (JStr (pe_code p)) \<and> pe_code p \<noteq> [] \<and> \<not> containsControlCharacters (pe_code p)
     \<and> (\<exists>i. pe_requestId p = Some i \<and> member_of w (js ''request_id'') = Some (JStr i)
          \<and> i \<noteq> [] \<and> length i \<le> 256 \<and> \<not> containsControlCharacters i)
     \<and> member_of w (js ''retryable'') = Some (JBool (he_retryable p))
     \<and> (if \<not> he_retryable p then he_retryAfterSeconds p = None
        else case r_header (js ''Retry-After'') response of
          Some h \<Rightarrow> canonical_decimal h \<and> dec_value h \<le> 86400 \<and> he_retryAfterSeconds p = Some (int (dec_value h))
        | None \<Rightarrow> member_of w (js ''retry_after_seconds'')
            = map_option (\<lambda>n. JNum (num_of_int n)) (he_retryAfterSeconds p))"

text \<open>What \<^verbatim>\<open>error.schema.json\<close> says of that member: an integer from 0 to 86400. The
  generated validator is a parameter, so this is its contract.\<close>

definition problem_schema :: "validator \<Rightarrow> bool" where
  "problem_schema vp \<longleftrightarrow>
     (\<forall>w lexemes x. vp (w, lexemes) \<longrightarrow> member_of w (js ''retry_after_seconds'') = Some (JNum x) \<longrightarrow>
        (\<exists>n. x = num_of_int n \<and> 0 \<le> n \<and> n \<le> 86400))"

lemma problem_fields_Some:
  assumes "problem_fields w = Some (code, requestId, retryable, fallback)"
  shows "member_of w (js ''code'') = Some (JStr code)" and "member_of w (js ''request_id'') = Some (JStr requestId)"
    and "member_of w (js ''retryable'') = Some (JBool retryable)"
    and "member_of w (js ''retry_after_seconds'') = map_option (\<lambda>n. JNum (num_of_int n)) fallback"
  using assms by (auto simp: problem_fields_def num_integer_Some split: option.splits json.splits)

lemma problemError_of:
  assumes "problem_fields w = Some fs"
    and "member_of w (js ''status'') = Some (JNum (num_of_int (int (r_status response))))"
  shows "is_protocol_validation (problemError response fs)
   \<or> (\<exists>p. problemError response fs = ProtocolHttpError p \<and> problem_error_of response w p)"
proof -
  obtain code requestId retryable fallback where f: "fs = (code, requestId, retryable, fallback)"
    by (cases fs)
  note m = problem_fields_Some [OF assms(1) [unfolded f]]
  show ?thesis
  proof (cases "readRetryAfterSeconds response retryable fallback")
    case (Inr x)
    from readRetryAfterSeconds_Inr [OF this] Inr m assms(2) show ?thesis
      by (auto simp: problemError_def f asProtocolErrorCode_def asSafeRequestId_def problem_error_of_def
          maximumSafeRequestIdLength_def is_protocol_validation_def rbind_def not_less)
  qed (simp add: problemError_def f is_protocol_validation_def)
qed

lemma problem_error_bounded:
  assumes "problem_error_of response w p" and "vp (w, lexemes)" and "problem_schema vp"
    and "he_retryAfterSeconds p = Some n"
  shows "0 \<le> n \<and> n \<le> 86400"
proof (cases "r_header (js ''Retry-After'') response")
  case None
  with assms(1,4) have "member_of w (js ''retry_after_seconds'') = Some (JNum (num_of_int n))"
    by (auto simp: problem_error_of_def split: if_splits)
  with assms(2,3) show ?thesis unfolding problem_schema_def by fastforce
next
  case (Some h)
  with assms(1,4) show ?thesis by (auto simp: problem_error_of_def split: if_splits)
qed

lemma readJson_Inl:
  assumes "readJson sig n response = Some (Inl e)" and "\<not> is_aborted (ds_catch sig)"
  shows "is_protocol_validation e"
  using assms by (auto simp: readJson_def is_protocol_validation_def split: option.splits sum.splits if_splits)

lemma decodeProblemJson_error:
  assumes "decodeProblemJson vp response v = Some (Inl e)"
  shows "is_protocol_validation e
    \<or> (vp v \<and> finite_numbers (fst v) \<and> (\<exists>p. e = ProtocolHttpError p \<and> problem_error_of response (fst v) p))
    \<or> e = type_error \<and> (\<exists>lexemes. vp (JNull, lexemes))"
proof (cases "decodeProtocolValue v vp ''validateProblem''")
  case (Inl e')
  then have "is_protocol_validation e'"
    by (auto simp: decodeProtocolValue_def assertFiniteNumbers_def is_protocol_validation_def
        split: if_splits option.splits)
  with assms Inl show ?thesis by (simp add: decodeProblemJson_def)
next
  case (Inr problem)
  then have v: "problem = fst v" "finite_numbers (fst v)" "vp v" by (simp_all add: decodeProtocolValue_Inr)
  show ?thesis
  proof (cases "problem = JNull")
    case True
    with assms Inr have "e = type_error" by (simp add: decodeProblemJson_def)
    moreover have "vp (JNull, snd v)" using v True by (cases v) simp
    ultimately show ?thesis by blast
  next
    case False
    with assms Inr have "is_protocol_validation e \<or> (\<exists>f. problem_fields problem = Some f \<and> e = problemError response f
        \<and> member_of problem (js ''status'') = Some (JNum (num_of_int (int (r_status response)))))"
      by (auto simp: decodeProblemJson_def is_protocol_validation_def split: if_splits option.splits)
    with problemError_of v show ?thesis by metis
  qed
qed

text \<open>C19: A problem response is reported safely. \<^verbatim>\<open>decodeProtocolProblemResponse\<close>
  never succeeds. Its error is a validation error, or a \<^verbatim>\<open>ProtocolHttpError\<close> whose fields are
  those of the document read from the body, which the schema accepted: the status of the response, a
  code and a request identifier that are non-empty and free of control characters, the identifier of
  at most 256 units, and seconds to wait only for a retryable problem. These are the decimal digits of
  the Retry-After header, at most a day, or without the header the integer of the document; with a
  validator that keeps to its schema they are never more than a day, nor negative. Only an abort
  while the body is read, or a schema that accepts \<^verbatim>\<open>null\<close>, gives another error.\<close>

theorem problem_reported_safely:
  assumes "fst (decodeProtocolProblemResponse vp response sig) = Some (r :: 'a result)"
  shows "\<exists>e. r = Inl e \<and>
    (is_protocol_validation e
     \<or> (\<exists>w lexemes p. readJson sig ''validateProblem'' response = Some (Inr (w, lexemes)) \<and> vp (w, lexemes)
          \<and> finite_numbers w \<and> e = ProtocolHttpError p \<and> problem_error_of response w p
          \<and> (problem_schema vp \<longrightarrow> (\<forall>n. he_retryAfterSeconds p = Some n \<longrightarrow> 0 \<le> n \<and> n \<le> 86400)))
     \<or> is_aborted (ds_catch sig)
     \<or> e = type_error \<and> (\<exists>lexemes. vp (JNull, lexemes)))"
proof (cases r)
  case (Inr x)
  with assms decodeProtocolProblem_error [of vp response sig x] show ?thesis
    by (simp add: decodeProtocolProblemResponse_def)
next
  case (Inl e)
  with assms have d: "(decodeProtocolProblem vp response sig :: 'a outcome) = Some (Inl e)"
    by (simp add: decodeProtocolProblemResponse_def)
  consider (media) "is_protocol_validation e"
    | (read) "readJson sig ''validateProblem'' response = Some (Inl e)"
    | (problem) w lexemes where "readJson sig ''validateProblem'' response = Some (Inr (w, lexemes))"
        "decodeProblemJson vp response (w, lexemes) = (Some (Inl e) :: 'a outcome)"
  proof (cases "requireMediaType response ''application/problem+json'' ''validateProblem''")
    case (Inl e')
    then have "is_protocol_validation e'"
      by (auto simp: requireMediaType_def is_protocol_validation_def split: if_splits)
    moreover have "e = e'" using d Inl by (simp add: decodeProtocolProblem_def)
    ultimately show thesis using media by simp
  next
    case (Inr u)
    with d have "obind (readJson sig ''validateProblem'' response) (decodeProblemJson vp response) = (Some (Inl e) :: 'a outcome)"
      by (simp add: decodeProtocolProblem_def)
    then show thesis unfolding obind_Inl_iff using read problem by (metis prod.collapse)
  qed
  then show ?thesis
  proof cases
    case read
    then have "is_protocol_validation e \<or> is_aborted (ds_catch sig)"
      using readJson_Inl [OF read] by (cases "is_aborted (ds_catch sig)") simp_all
    then show ?thesis unfolding Inl by (intro exI [of _ e]) blast
  next
    case (problem w lexemes)
    from decodeProblemJson_error [OF problem(2)]
    consider "is_protocol_validation e"
      | p where "vp (w, lexemes)" "finite_numbers w" "e = ProtocolHttpError p" "problem_error_of response w p"
      | "e = type_error \<and> (\<exists>lexemes. vp (JNull, lexemes))" by auto
    then show ?thesis
    proof cases
      case (2 p)
      then have "problem_schema vp \<longrightarrow> (\<forall>n. he_retryAfterSeconds p = Some n \<longrightarrow> 0 \<le> n \<and> n \<le> 86400)"
        using problem_error_bounded [of response w p vp lexemes] by blast
      with 2 problem(1) show ?thesis unfolding Inl by blast
    qed (unfold Inl, blast+)
  qed (auto simp: Inl)
qed

section \<open>A sample\<close>

definition sample_problem :: jtree where
  "sample_problem = ObjT [(js ''status'', NumT (js ''503'')), (js ''code'', StrT (js ''busy'')),
     (js ''request_id'', StrT (js ''r1'')), (js ''retryable'', BoolT True),
     (js ''retry_after_seconds'', NumT (js ''60''))]"

definition sample_problem_reply :: response where
  "sample_problem_reply =
     \<lparr>r_status = 503, r_headers = [(js ''content-type'', js ''application/problem+json'')],
      r_body = Some (map ReadChunk [utf8_encode (print_tree sample_problem)] @ [ReadDone]), r_locked = False\<rparr>"

definition sample_problem_validator :: validator where
  "sample_problem_validator = (\<lambda>(w, lexemes).
     case member_of w (js ''retry_after_seconds'') of
       Some (JNum x) \<Rightarrow> (case num_integer x of None \<Rightarrow> False | Some n \<Rightarrow> 0 \<le> n \<and> n \<le> 86400)
     | _ \<Rightarrow> True)"

lemma sample_problem_schema: "problem_schema sample_problem_validator"
  unfolding problem_schema_def
  by (auto simp: sample_problem_validator_def num_integer_Some split: option.splits)

lemma sample_problem_numbers:
  "number_of (js ''503'') = num_of_int 503" "number_lexeme (js ''503'') = Some (js ''503'')"
  "number_of (js ''60'') = num_of_int 60" "number_lexeme (js ''60'') = Some (js ''60'')"
proof -
  have "int_string 503 = js ''503''" "int_string 60 = js ''60''"
    by (simp_all add: int_string_def dec_string.simps digit_unit_def js_def)
  then show "number_of (js ''503'') = num_of_int 503" "number_lexeme (js ''503'') = Some (js ''503'')"
    "number_of (js ''60'') = num_of_int 60" "number_lexeme (js ''60'') = Some (js ''60'')"
    using number_of_int [of 503] number_of_int [of 60] number_lexeme_int [of 503] number_lexeme_int [of 60] by simp_all
qed

lemma sample_problem_value:
  "json_of sample_problem = JObj [(js ''status'', JNum (num_of_int 503)), (js ''code'', JStr (js ''busy'')),
     (js ''request_id'', JStr (js ''r1'')), (js ''retryable'', JBool True),
     (js ''retry_after_seconds'', JNum (num_of_int 60))]"
  by (simp add: sample_problem_def sample_problem_numbers)
    (rule own_members_names; simp add: js_def is_digit_def in_range_def)

lemma sample_problem_ok: "replies_ok sample_problem"
proof (rule plain_replies)
  show "plain_tree sample_problem"
    by (simp add: sample_problem_def sample_problem_numbers) (simp add: plain_string_def js_def num_of_int_def)
  show "text_bound sample_problem \<le> 4096" by (simp add: sample_problem_def js_def)
qed

lemma sample_problem_read:
  "readJson no_signal n sample_problem_reply
     = Some (Inr (json_of sample_problem, Some (json_of (mirror_tree sample_problem))))"
proof -
  have "readBoundedText live n m sample_problem_reply = readBoundedText live n m (json_reply 200 [] sample_problem)" for m
    by (simp add: readBoundedText_def sample_problem_reply_def json_reply_def)
  then show ?thesis
    using readJson_reply [OF sample_problem_ok, of n 200 "[]"]
    by (simp add: readJson_def readBoundedJson_def no_signal_def)
qed

lemma sample_problem_members:
  "member_of (json_of sample_problem) (js ''status'') = Some (JNum (num_of_int 503))"
  "member_of (json_of sample_problem) (js ''code'') = Some (JStr (js ''busy''))"
  "member_of (json_of sample_problem) (js ''request_id'') = Some (JStr (js ''r1''))"
  "member_of (json_of sample_problem) (js ''retryable'') = Some (JBool True)"
  "member_of (json_of sample_problem) (js ''retry_after_seconds'') = Some (JNum (num_of_int 60))"
  by (simp_all add: sample_problem_value)

lemma sample_problem_decoded:
  "fst (decodeProtocolProblemResponse sample_problem_validator sample_problem_reply no_signal) =
     Some (Inl (ProtocolHttpError \<lparr>pe_code = js ''busy'', pe_status = 503, pe_requestId = Some (js ''r1''),
       he_retryable = True, he_retryAfterSeconds = Some 60\<rparr>))"
proof -
  let ?r = sample_problem_reply and ?w = "json_of sample_problem"
  have media: "requireMediaType ?r ''application/problem+json'' ''validateProblem'' = Inr ()"
    by (simp add: requireMediaType_def sample_problem_reply_def r_header_def header_get_def media_type_def js_trim_def
        js_space_def js_eval js_lower_def lower_unit_def)
  have decoded: "decodeProtocolValue (?w, lexemes) sample_problem_validator ''validateProblem'' = Inr ?w" for lexemes
    using sample_problem_ok
    by (simp add: decodeProtocolValue_Inr replies_ok_def sample_problem_validator_def sample_problem_members num_of_int_def)
  have read: "problem_fields ?w = Some (js ''busy'', js ''r1'', True, Some 60)"
    by (simp add: problem_fields_def sample_problem_members num_of_int_def)
  have "r_header (js ''Retry-After'') ?r = None"
    by (simp add: sample_problem_reply_def r_header_def header_get_def js_eval js_lower_def lower_unit_def)
  moreover have "asProtocolErrorCode (js ''busy'') = Inr (js ''busy'')" "asSafeRequestId (js ''r1'') = Inr (js ''r1'')"
    by (simp_all add: asProtocolErrorCode_def asSafeRequestId_def maximumSafeRequestIdLength_def
        containsControlCharacters_units control_unit_def js_def)
  ultimately have "problemError ?r (js ''busy'', js ''r1'', True, Some 60) =
      ProtocolHttpError \<lparr>pe_code = js ''busy'', pe_status = 503, pe_requestId = Some (js ''r1''),
        he_retryable = True, he_retryAfterSeconds = Some 60\<rparr>"
    by (simp add: problemError_def readRetryAfterSeconds_def rbind_def) (simp add: sample_problem_reply_def)
  moreover have "r_status ?r = 503" "?w \<noteq> JNull"
    by (simp_all add: sample_problem_reply_def sample_problem_value)
  ultimately show ?thesis
    by (simp add: decodeProtocolProblemResponse_def decodeProtocolProblem_def media sample_problem_read
        decodeProblemJson_def decoded read sample_problem_members)
qed

theorem problem_reported_safely_witness:
  "\<exists>p. fst (decodeProtocolProblemResponse sample_problem_validator sample_problem_reply no_signal) =
       Some (Inl (ProtocolHttpError p) :: unit result)
     \<and> problem_error_of sample_problem_reply (json_of sample_problem) p \<and> he_retryAfterSeconds p = Some 60
     \<and> problem_schema sample_problem_validator"
proof -
  note d = sample_problem_decoded [where ?'a = unit]
  obtain w lexemes where "readJson no_signal ''validateProblem'' sample_problem_reply = Some (Inr (w, lexemes))"
    "problem_error_of sample_problem_reply w \<lparr>pe_code = js ''busy'', pe_status = 503, pe_requestId = Some (js ''r1''),
       he_retryable = True, he_retryAfterSeconds = Some 60\<rparr>"
    using problem_reported_safely [OF d]
    by (auto simp: is_protocol_validation_def no_signal_def is_aborted_def type_error_def)
  then have "problem_error_of sample_problem_reply (json_of sample_problem)
     \<lparr>pe_code = js ''busy'', pe_status = 503, pe_requestId = Some (js ''r1''),
       he_retryable = True, he_retryAfterSeconds = Some 60\<rparr>"
    by (simp add: sample_problem_read)
  with d sample_problem_schema show ?thesis by (intro exI conjI) (assumption | simp)+
qed

end
