(* ===== verification/Session.thy ===== *)
theory Session
  imports Replies
begin

text \<open>
  \<^verbatim>\<open>client/session.ts\<close>: discovery of a Hub and the session made from it. The discovery
  document is a JSON value the schema validator has accepted; \<open>descriptor_of\<close> reads the fields the
  client uses from it. What the schema promises and the code relies on, that these fields are there,
  shows as \<open>None\<close> when it fails, which is the \<^verbatim>\<open>TypeError\<close> of the access.
\<close>

section \<open>Reading a descriptor\<close>

definition str_at :: "json \<Rightarrow> string \<Rightarrow> jsstr option" where
  "str_at v key = Option.bind (member_of v (js key)) json_string"

fun json_bool :: "json \<Rightarrow> bool option" where
  "json_bool (JBool b) = Some b"
| "json_bool _ = None"

fun json_items :: "json \<Rightarrow> json list option" where
  "json_items (JArr vs) = Some vs"
| "json_items _ = None"

fun json_nat :: "json \<Rightarrow> nat option" where
  "json_nat (JNum x) =
     (case num_integer x of Some n \<Rightarrow> if 0 \<le> n then Some (nat n) else None | None \<Rightarrow> None)"
| "json_nat _ = None"

definition nat_at :: "json \<Rightarrow> string \<Rightarrow> nat option" where
  "nat_at v key = Option.bind (member_of v (js key)) json_nat"

definition items_at :: "json \<Rightarrow> string \<Rightarrow> json list option" where
  "items_at v key = Option.bind (member_of v (js key)) json_items"

definition command_class_of :: "jsstr \<Rightarrow> command_class option" where
  "command_class_of s =
     map_of [(js ''climate'', Climate), (js ''charging'', Charging), (js ''access'', Access),
             (js ''nuisance'', Nuisance), (js ''vehicle_state'', VehicleState)] s"

definition command_descriptor_of :: "json \<Rightarrow> command_descriptor option" where
  "command_descriptor_of v =
     Option.bind (str_at v ''name'') (\<lambda>name.
     Option.bind (Option.bind (str_at v ''command_class'') command_class_of) (\<lambda>cc.
     Option.bind (Option.bind (member_of v (js ''confirmation_required'')) json_bool) (\<lambda>confirm.
     Option.bind (member_of v (js ''parameters_schema'')) (\<lambda>ps.
     Option.bind (member_of v (js ''expected_state_schema'')) (\<lambda>es.
       Some \<lparr>cd_name = name, cd_command_class = cc, cd_confirmation_required = confirm,
             cd_parameters_schema = ps, cd_expected_state_schema = es\<rparr>)))))"

definition capability_of :: "json \<Rightarrow> capability option" where
  "capability_of v =
     Option.bind (str_at v ''id'') (\<lambda>i.
       case member_of v (js ''commands'') of
         None \<Rightarrow> Some \<lparr>cap_id = i, cap_commands = None\<rparr>
       | Some cs \<Rightarrow>
           Option.bind (json_items cs) (\<lambda>items.
             map_option (\<lambda>ds. \<lparr>cap_id = i, cap_commands = Some ds\<rparr>)
               (those (map command_descriptor_of items))))"

definition protocol_info_of :: "json \<Rightarrow> protocol_info option" where
  "protocol_info_of v =
     Option.bind (str_at v ''current_version'') (\<lambda>current.
     Option.bind (items_at v ''supported_versions'') (\<lambda>items.
     Option.bind (those (map json_string items)) (\<lambda>supported.
     Option.bind (str_at v ''minimum_client_version'') (\<lambda>minimum.
       Some \<lparr>pi_current_version = current, pi_supported_versions = supported,
             pi_minimum_client_version = minimum\<rparr>))))"

definition endpoints_of :: "json \<Rightarrow> endpoints option" where
  "endpoints_of v =
     Option.bind (str_at v ''well_known'') (\<lambda>well_known.
     Option.bind (str_at v ''api'') (\<lambda>api.
     Option.bind (str_at v ''events'') (\<lambda>events.
     Option.bind (str_at v ''openapi'') (\<lambda>openapi.
       Some \<lparr>ep_well_known = well_known, ep_api = api, ep_events = events, ep_openapi = openapi\<rparr>))))"

definition limits_of :: "json \<Rightarrow> limits option" where
  "limits_of v =
     Option.bind (nat_at v ''max_request_body_bytes'') (\<lambda>body.
     Option.bind (nat_at v ''max_page_size'') (\<lambda>page.
     Option.bind (nat_at v ''max_history_range_days'') (\<lambda>history.
     Option.bind (nat_at v ''max_dense_range_days'') (\<lambda>dense.
       Some \<lparr>lim_max_request_body_bytes = body, lim_max_page_size = page,
             lim_max_history_range_days = history, lim_max_dense_range_days = dense\<rparr>))))"

definition descriptor_of :: "json \<Rightarrow> hub_descriptor option" where
  "descriptor_of v =
     Option.bind (str_at v ''hub_id'') (\<lambda>hub.
     Option.bind (Option.bind (member_of v (js ''protocol'')) protocol_info_of) (\<lambda>protocol.
     Option.bind (items_at v ''capabilities'') (\<lambda>caps.
     Option.bind (those (map capability_of caps)) (\<lambda>capabilities.
     Option.bind (Option.bind (member_of v (js ''endpoints'')) endpoints_of) (\<lambda>eps.
     Option.bind (Option.bind (member_of v (js ''limits'')) limits_of) (\<lambda>lims.
       Some \<lparr>d_hub_id = hub, d_protocol = protocol, d_capabilities = capabilities,
             d_endpoints = eps, d_limits = lims\<rparr>))))))"

section \<open>Endpoints\<close>

text \<open>\<^verbatim>\<open>/^\d{1,3}$/u.test(octet) && Number(octet) <= 255\<close>.\<close>

definition octet :: "jsstr \<Rightarrow> bool" where
  "octet s \<longleftrightarrow> 1 \<le> length s \<and> length s \<le> 3 \<and> list_all is_digit s \<and> dec_value s \<le> 255"

definition isLoopbackHost :: "jsstr \<Rightarrow> bool" where
  "isLoopbackHost hostname \<longleftrightarrow>
     hostname = js ''localhost'' \<or> hostname = js ''[::1]'' \<or> hostname = js ''::1''
     \<or> (let octets = split_on uDOT hostname
         in length octets = 4 \<and> hd octets = js ''127'' \<and> list_all octet octets)"

definition isSecureEndpointUrl :: "url_parser \<Rightarrow> url_input \<Rightarrow> bool" where
  "isSecureEndpointUrl P v =
     (case P (input_href v) None of
        None \<Rightarrow> False
      | Some url \<Rightarrow>
          \<not> (0 < length (u_username url) \<or> 0 < length (u_password url))
          \<and> (u_protocol url = protocol_https
              \<or> (u_protocol url = protocol_http \<and> isLoopbackHost (u_hostname url))))"

definition validateEndpointUrls :: "url_parser \<Rightarrow> hub_descriptor \<Rightarrow> unit result" where
  "validateEndpointUrls P descriptor =
     require (list_all (\<lambda>v. isSecureEndpointUrl P (UrlString v)) (endpoint_values (d_endpoints descriptor)))
       (ProtocolValidationError ''Discovery.endpoints'')"

section \<open>Discovery\<close>

definition discoveryPath :: jsstr where
  "discoveryPath = js ''/.well-known/teslatlas-hub''"

definition currentProtocolVersion :: jsstr where
  "currentProtocolVersion = js ''1.2.0''"

definition requireDiscoveryEntityTag :: "response \<Rightarrow> unit result" where
  "requireDiscoveryEntityTag response =
     (case readEntityTag (r_headers response) of
        Inr (Some _) \<Rightarrow> Inr ()
      | _ \<Rightarrow> Inl (ProtocolValidationError ''Discovery.etag''))"

definition readDiscoveryBody :: "decode_signal \<Rightarrow> response \<Rightarrow> parsed outcome" where
  "readDiscoveryBody sig response =
     (case readBoundedJson (ds_body sig) ''validateDiscovery'' response of
        Some (Inl e) \<Rightarrow>
          Some (Inl (if is_aborted (ds_catch sig) then reason_or e (ds_catch sig)
                     else if is_protocol_validation e then e
                     else ProtocolValidationError ''validateDiscovery''))
      | out \<Rightarrow> out)"

definition decodeDiscovery :: "validator \<Rightarrow> response \<Rightarrow> decode_signal \<Rightarrow> json outcome \<times> bool" where
  "decodeDiscovery validateDiscovery response sig =
     owned response
       (obind (Some (require (r_status response = 200) (ProtocolValidationError ''Discovery.status''))) (\<lambda>_.
        obind (Some (requireMediaType response ''application/json'' ''validateDiscovery'')) (\<lambda>_.
        obind (Some (requireDiscoveryEntityTag response)) (\<lambda>_.
        obind (readDiscoveryBody sig response) (\<lambda>v.
          Some (decodeProtocolValue v validateDiscovery ''validateDiscovery''))))))"

section \<open>Sessions\<close>

record client_session =
  cs_descriptor :: hub_descriptor
  cs_protocolVersion :: supported_version
  cs_discoveryTransport :: transport
  cs_apiTransport :: transport
  cs_eventTransport :: transport

text \<open>\<^verbatim>\<open>CreateClientOptions\<close>, with the global Fetch beside the injected one, and the
  signal as the request and the decoder observe it.\<close>

record client_options =
  co_baseUrl :: url_input
  co_authorization :: "url \<Rightarrow> jsstr \<Rightarrow> authorization_call"
  co_fetch :: "(url \<Rightarrow> fetch_init \<Rightarrow> fetch_call) option"
  co_globalFetch :: "(url \<Rightarrow> fetch_init \<Rightarrow> fetch_call) option"
  co_requestedProtocolVersion :: "jsstr option"
  co_signal :: "signal_oracle option"
  co_decode :: decode_signal

definition discovery_init :: "client_options \<Rightarrow> request_init" where
  "discovery_init options =
     \<lparr>ri_method = None, ri_headers = [], ri_redirect = Some ''error'', ri_body = None,
      ri_ifNoneMatch = None, ri_signal = (co_signal options \<noteq> None), ri_onDispatch = False\<rparr>"

definition make_session ::
    "url_parser \<Rightarrow> client_options \<Rightarrow> transport \<Rightarrow> hub_descriptor \<Rightarrow> client_session result" where
  "make_session P options discoveryTransport descriptor =
     rbind (validateEndpointUrls P descriptor) (\<lambda>_.
     rbind (negotiateProtocolVersion descriptor
         (case co_requestedProtocolVersion options of None \<Rightarrow> currentProtocolVersion | Some v \<Rightarrow> v)) (\<lambda>version.
     rbind (createTransport P (UrlString (ep_api (d_endpoints descriptor))) (co_fetch options)
         (co_globalFetch options) (Some (co_authorization options))) (\<lambda>api.
     rbind (createTransport P (UrlString (ep_events (d_endpoints descriptor))) (co_fetch options)
         (co_globalFetch options) (Some (co_authorization options))) (\<lambda>events.
       Inr \<lparr>cs_descriptor = descriptor, cs_protocolVersion = version,
            cs_discoveryTransport = discoveryTransport, cs_apiTransport = api,
            cs_eventTransport = events\<rparr>))))"

text \<open>\<^verbatim>\<open>createClientSession\<close>: the outcome and the actions of the discovery
  request.\<close>

definition createClientSession ::
    "url_parser \<Rightarrow> validator \<Rightarrow> client_options \<Rightarrow> client_session outcome \<times> transport_action list" where
  "createClientSession P validateDiscovery options =
     (if \<not> isSecureEndpointUrl P (co_baseUrl options) then (Some (Inl InvalidBaseUrlError), [])
      else case createTransport P (co_baseUrl options) (co_fetch options) (co_globalFetch options) None of
        Inl e \<Rightarrow> (Some (Inl e), [])
      | Inr discoveryTransport \<Rightarrow>
          let (out, acts) = request P discoveryTransport
                \<lparr>c_signal = co_signal options, c_onDispatch = None\<rparr> discoveryPath (discovery_init options)
          in (obind out (\<lambda>response.
              obind (fst (decodeDiscovery validateDiscovery response (co_decode options))) (\<lambda>v.
                case descriptor_of v of
                  None \<Rightarrow> Some (Inl type_error)
                | Some descriptor \<Rightarrow> Some (make_session P options discoveryTransport descriptor))),
              acts))"

section \<open>Properties\<close>

lemma secure_endpoint_protocol:
  assumes "isSecureEndpointUrl P v"
  obtains url where "P (input_href v) None = Some url" "u_username url = []" "u_password url = []"
    "u_protocol url = protocol_https \<or> (u_protocol url = protocol_http \<and> isLoopbackHost (u_hostname url))"
  using assms by (auto simp: isSecureEndpointUrl_def split: option.splits)

lemma createTransport_Inr:
  "createTransport P v injected global auth = Inr t \<Longrightarrow>
     P (input_href v) None = Some (t_baseUrl t) \<and> t_authorization t = auth"
  by (auto simp: createTransport_def parseBaseUrl_def rbind_Inr_iff split: option.splits if_splits)

lemma createClientSession_Inr:
  assumes "createClientSession P vd options = (Some (Inr s), acts)"
  obtains dt response where "isSecureEndpointUrl P (co_baseUrl options)"
    "createTransport P (co_baseUrl options) (co_fetch options) (co_globalFetch options) None = Inr dt"
    "request P dt \<lparr>c_signal = co_signal options, c_onDispatch = None\<rparr> discoveryPath (discovery_init options)
       = (Some (Inr response), acts)"
    "make_session P options dt (cs_descriptor s) = Inr s"
proof -
  have secure: "isSecureEndpointUrl P (co_baseUrl options)"
    using assms by (auto simp: createClientSession_def split: if_splits)
  obtain dt where dt: "createTransport P (co_baseUrl options) (co_fetch options) (co_globalFetch options) None = Inr dt"
    using assms secure by (auto simp: createClientSession_def split: sum.splits)
  obtain out where out: "request P dt \<lparr>c_signal = co_signal options, c_onDispatch = None\<rparr> discoveryPath
      (discovery_init options) = (out, acts)"
    using assms secure dt by (auto simp: createClientSession_def Let_def split: prod.splits)
  with assms secure dt obtain response v where response: "out = Some (Inr response)"
    and v: "(case descriptor_of v of None \<Rightarrow> Some (Inl type_error)
      | Some d \<Rightarrow> Some (make_session P options dt d)) = Some (Inr s)"
    by (auto simp: createClientSession_def obind_Inr_iff)
  then obtain d where d: "make_session P options dt d = Inr s" by (auto split: option.splits)
  moreover have "cs_descriptor s = d" using d by (auto simp: make_session_def rbind_Inr_iff)
  ultimately show thesis using that secure dt out response by blast
qed

lemma make_session_Inr:
  assumes "make_session P options dt d = Inr s"
  shows "cs_descriptor s = d \<and> cs_discoveryTransport s = dt
    \<and> list_all (\<lambda>v. isSecureEndpointUrl P (UrlString v)) (endpoint_values (d_endpoints d))
    \<and> negotiateProtocolVersion d
        (case co_requestedProtocolVersion options of None \<Rightarrow> currentProtocolVersion | Some v \<Rightarrow> v)
        = Inr (cs_protocolVersion s)
    \<and> P (ep_api (d_endpoints d)) None = Some (t_baseUrl (cs_apiTransport s))
    \<and> P (ep_events (d_endpoints d)) None = Some (t_baseUrl (cs_eventTransport s))
    \<and> t_authorization (cs_apiTransport s) = Some (co_authorization options)
    \<and> t_authorization (cs_eventTransport s) = Some (co_authorization options)"
  using assms
  by (auto simp: make_session_def rbind_Inr_iff validateEndpointUrls_def input_href_def
      dest!: createTransport_Inr)

text \<open>A base URL credentials may be sent to.\<close>

definition secure_base :: "url \<Rightarrow> bool" where
  "secure_base url \<longleftrightarrow> u_username url = [] \<and> u_password url = []
     \<and> (u_protocol url = protocol_https \<or> (u_protocol url = protocol_http \<and> isLoopbackHost (u_hostname url)))"

lemma secure_base_of: "isSecureEndpointUrl P v \<Longrightarrow> P (input_href v) None = Some url \<Longrightarrow> secure_base url"
  by (auto simp: isSecureEndpointUrl_def secure_base_def)

lemma make_session_secure:
  assumes "make_session P options dt d = Inr s"
  shows "secure_base (t_baseUrl (cs_apiTransport s)) \<and> secure_base (t_baseUrl (cs_eventTransport s))"
proof -
  note s = make_session_Inr [OF assms]
  then have "isSecureEndpointUrl P (UrlString (ep_api (d_endpoints d)))"
    "isSecureEndpointUrl P (UrlString (ep_events (d_endpoints d)))"
    by (simp_all add: endpoint_values_def)
  with s show ?thesis by (auto simp: input_href_def intro: secure_base_of)
qed

text \<open>Discovery asks for no credentials.\<close>

lemma discovery_actions:
  assumes "request P dt caller path init = (out, acts)" and "t_authorization dt = None"
  shows "Authorize u m \<notin> set acts"
  using assms(1)
proof (cases rule: request_cases)
  case (attempt url hs verb out')
  from attempt(4) assms(2) show ?thesis
    by (cases rule: attempt_cases) (auto simp: asked_def dispatched_def)
qed simp

text \<open>C26: Credentials only ever go to secure endpoints. When \<^verbatim>\<open>createClientSession\<close>
  succeeds, the base URL it was given and every endpoint of the Hub's descriptor are https, or http on a
  loopback host, without embedded credentials; the two transports that hold the caller's authorization
  provider are based on the endpoints of that descriptor; discovery itself asked for no credentials; and the
  version is the one negotiation selects.\<close>
theorem session_is_secure:
  assumes "createClientSession P vd options = (Some (Inr s), acts)"
  shows "secure_base (t_baseUrl (cs_discoveryTransport s))
    \<and> secure_base (t_baseUrl (cs_apiTransport s)) \<and> secure_base (t_baseUrl (cs_eventTransport s))
    \<and> P (ep_api (d_endpoints (cs_descriptor s))) None = Some (t_baseUrl (cs_apiTransport s))
    \<and> P (ep_events (d_endpoints (cs_descriptor s))) None = Some (t_baseUrl (cs_eventTransport s))
    \<and> list_all (\<lambda>v. isSecureEndpointUrl P (UrlString v)) (endpoint_values (d_endpoints (cs_descriptor s)))
    \<and> t_authorization (cs_discoveryTransport s) = None
    \<and> (\<forall>url verb. Authorize url verb \<notin> set acts)
    \<and> negotiateProtocolVersion (cs_descriptor s)
        (case co_requestedProtocolVersion options of None \<Rightarrow> currentProtocolVersion | Some v \<Rightarrow> v)
        = Inr (cs_protocolVersion s)"
proof -
  obtain dt response where c: "isSecureEndpointUrl P (co_baseUrl options)"
    "createTransport P (co_baseUrl options) (co_fetch options) (co_globalFetch options) None = Inr dt"
    "request P dt \<lparr>c_signal = co_signal options, c_onDispatch = None\<rparr> discoveryPath (discovery_init options)
       = (Some (Inr response), acts)"
    "make_session P options dt (cs_descriptor s) = Inr s"
    using assms by (rule createClientSession_Inr)
  note t = createTransport_Inr [OF c(2)]
  have "secure_base (t_baseUrl dt)" using secure_base_of [OF c(1)] t by simp
  with make_session_Inr [OF c(4)] make_session_secure [OF c(4)] discovery_actions [OF c(3)] t
  show ?thesis by simp
qed

text \<open>A Hub to discover.\<close>

definition sample_document :: jtree where
  "sample_document = ObjT
     [(js ''hub_id'', StrT (js ''h'')),
      (js ''protocol'', ObjT
         [(js ''current_version'', StrT (js ''1.2.0'')),
          (js ''supported_versions'', ArrT [StrT (js ''1.1.0''), StrT (js ''1.0.0'')]),
          (js ''minimum_client_version'', StrT (js ''1.0.0''))]),
      (js ''capabilities'', ArrT []),
      (js ''endpoints'', ObjT
         [(js ''well_known'', StrT (js ''u'')), (js ''api'', StrT (js ''u'')),
          (js ''events'', StrT (js ''u'')), (js ''openapi'', StrT (js ''u''))]),
      (js ''limits'', ObjT
         [(js ''max_request_body_bytes'', NumT (js ''9'')), (js ''max_page_size'', NumT (js ''9'')),
          (js ''max_history_range_days'', NumT (js ''9'')), (js ''max_dense_range_days'', NumT (js ''9''))])]"

definition sample_options :: "(url \<Rightarrow> fetch_init \<Rightarrow> fetch_call) \<Rightarrow> client_options" where
  "sample_options answer =
     \<lparr>co_baseUrl = UrlString (js ''u''), co_authorization = (\<lambda>_ _. AuthPending), co_fetch = Some answer,
      co_globalFetch = None, co_requestedProtocolVersion = None, co_signal = None, co_decode = no_signal\<rparr>"

lemma number_of_9: "number_of (js ''9'') = num_of_int 9" "number_lexeme (js ''9'') = Some (js ''9'')"
  using number_of_int [of 9] number_lexeme_int [of 9]
  by (simp_all add: int_string_def dec_string.simps digit_unit_def js_def)

lemma sample_document_reply: "replies_ok sample_document"
proof (rule plain_replies)
  have "num_is_finite (number_of (js ''9''))" by (simp add: number_of_9 num_of_int_def)
  then show "plain_tree sample_document"
    using number_of_9 by (simp add: sample_document_def) (simp add: plain_string_def js_def)
  show "text_bound sample_document \<le> 4096"
    by (simp add: sample_document_def js_def)
qed

definition sample_descriptor :: hub_descriptor where
  "sample_descriptor = \<lparr>d_hub_id = js ''h'',
     d_protocol = \<lparr>pi_current_version = js ''1.2.0'', pi_supported_versions = [js ''1.1.0'', js ''1.0.0''],
       pi_minimum_client_version = js ''1.0.0''\<rparr>,
     d_capabilities = [], d_endpoints = \<lparr>ep_well_known = js ''u'', ep_api = js ''u'', ep_events = js ''u'',
       ep_openapi = js ''u''\<rparr>,
     d_limits = \<lparr>lim_max_request_body_bytes = 9, lim_max_page_size = 9, lim_max_history_range_days = 9,
       lim_max_dense_range_days = 9\<rparr>\<rparr>"

lemma sample_document_descriptor: "descriptor_of (json_of sample_document) = Some sample_descriptor"
proof -
  have names: "own_members ms = ms"
    if "distinct (map fst ms)" "list_all (\<lambda>(k, _). k \<noteq> [] \<and> \<not> is_digit (hd k)) ms" for ms :: "(jsstr \<times> json) list"
    using that by (rule own_members_names)
  have hd: "hd (js (c # cs)) = of_char c" for c cs by (simp add: js_def)
  show ?thesis
    by (simp add: sample_document_def number_of_9 names hd is_digit_def in_range_def)
      (simp add: descriptor_of_def str_at_def items_at_def nat_at_def protocol_info_of_def endpoints_of_def
        limits_of_def sample_descriptor_def)
qed

lemma sample_descriptor_version: "negotiateProtocolVersion sample_descriptor currentProtocolVersion = Inr V1_1_0"
proof -
  have n: "negotiable sample_descriptor currentProtocolVersion (version_of V1_2_0) (version_of V1_2_0) (version_of V1_0_0)"
    using parse_supported [of V1_2_0] parse_supported [of V1_0_0]
    by (simp add: negotiable_def sample_descriptor_def currentProtocolVersion_def version_string.simps)
  have e: "eligible (pi_supported_versions (d_protocol sample_descriptor)) (version_of V1_2_0) (version_of V1_0_0) v
      \<longleftrightarrow> v = V1_0_0 \<or> v = V1_1_0" for v
    by (cases v) (simp_all add: eligible_def sample_descriptor_def compare_version_of less_eq_supported_version_def
        compareVersions_ge version_string.simps)
  have "0 \<le> compareVersions (version_of V1_2_0) (version_of V1_0_0)"
    by (simp add: compareVersions_ge compare_version_of less_eq_supported_version_def)
  then show ?thesis
    unfolding negotiate_result [OF n] e by (auto simp: locked_major less_eq_supported_version_def)
qed


definition sample_answer :: "url \<Rightarrow> fetch_init \<Rightarrow> fetch_call" where
  "sample_answer u fi = FetchResponds (json_reply 200 (tagged ''1.1.0'') sample_document)"

lemma sample_discovery:
  "\<exists>s acts. createClientSession sample_parser (\<lambda>_. True) (sample_options sample_answer) = (Some (Inr s), acts)
     \<and> cs_descriptor s = sample_descriptor"
proof -
  let ?dt = "\<lparr>t_baseUrl = sample_url [uSLASH], t_authorization = None, t_fetch = sample_answer\<rparr>"
  let ?r = "json_reply 200 (tagged ''1.1.0'') sample_document"
  have secure: "isSecureEndpointUrl sample_parser v" for v
    by (simp add: isSecureEndpointUrl_def sample_parser_def sample_url_def)
  have transport: "createTransport sample_parser v (Some sample_answer) None auth =
      Inr \<lparr>t_baseUrl = sample_url [uSLASH], t_authorization = auth, t_fetch = sample_answer\<rparr>" for v auth
    by (simp add: createTransport_def parseBaseUrl_def resolveFetch_def sample_parser_def sample_url_def)
  have path: "starts_with discoveryPath [uSLASH]" "\<not> starts_with discoveryPath [uSLASH, uSLASH]"
    "\<not> containsControlCharacters discoveryPath"
    by (simp_all add: discoveryPath_def starts_with_def js_def containsControlCharacters_units control_unit_def)
  then have "resolveRequestUrl sample_parser (sample_url [uSLASH]) discoveryPath = Inr (sample_url discoveryPath)"
    by (simp add: resolveRequestUrl_def sample_parser_def sample_url_def)
  then obtain acts where acts: "request sample_parser ?dt \<lparr>c_signal = None, c_onDispatch = None\<rparr> discoveryPath
      (discovery_init (sample_options sample_answer)) = (Some (Inr ?r), acts)"
    by (simp add: request_def attemptRequest_def discovery_init_def sample_options_def header_has_def
        callAuthorization_def waitForAuthorization_def authorizationHeader_def sample_answer_def Let_def)
  have "readEntityTag (r_headers ?r) = Inr (Some [uQUOTE, 97, uQUOTE])"
    using tagged_headers(1) js_lower_not_content(1)
    by (simp add: readEntityTag_def json_reply_def header_get_def asEntityTag_def entityTagPattern_def
        containsControlCharacters_units control_unit_def)
  moreover have "r_status ?r = 200" by (simp add: json_reply_def)
  moreover have "finite_numbers (json_of sample_document)"
    using sample_document_reply by (simp add: replies_ok_def)
  ultimately have decode: "fst (decodeDiscovery (\<lambda>_. True) ?r no_signal) = Some (Inr (json_of sample_document))"
    using readBoundedJson_reply [OF sample_document_reply]
    by (simp add: decodeDiscovery_def require_def requireMediaType_reply requireDiscoveryEntityTag_def
        readDiscoveryBody_def no_signal_def decodeProtocolValue_Inr)
  have "\<exists>s. make_session sample_parser (sample_options sample_answer) ?dt sample_descriptor = Inr s"
    using secure transport sample_descriptor_version
    by (simp add: make_session_def validateEndpointUrls_def require_def sample_options_def list_all_iff)
  then obtain s where s: "make_session sample_parser (sample_options sample_answer) ?dt sample_descriptor = Inr s" by blast
  have "createClientSession sample_parser (\<lambda>_. True) (sample_options sample_answer) = (Some (Inr s), acts)"
    using secure transport acts decode s
    by (simp add: createClientSession_def sample_options_def sample_document_descriptor)
  with make_session_Inr [OF s] show ?thesis by blast
qed

theorem session_is_secure_witness:
  "\<exists>s acts. createClientSession sample_parser (\<lambda>_. True) (sample_options sample_answer) = (Some (Inr s), acts)
     \<and> cs_descriptor s = sample_descriptor \<and> secure_base (t_baseUrl (cs_apiTransport s))"
proof -
  obtain s acts where s: "createClientSession sample_parser (\<lambda>_. True) (sample_options sample_answer) = (Some (Inr s), acts)"
    "cs_descriptor s = sample_descriptor"
    using sample_discovery by blast
  have "secure_base (t_baseUrl (cs_apiTransport s))" using session_is_secure [OF s(1)] by blast
  with s show ?thesis by blast
qed

end
