(* ===== verification/AdvertisedCommand.thy ===== *)
theory AdvertisedCommand
  imports Session
begin

text \<open>
  \<^verbatim>\<open>commands/advertised-command.ts\<close>: a command is checked against the descriptor the
  Hub advertises for it. The schema compiler (Ajv) is a parameter: it fails, or gives a validator, which
  may itself throw. The cache of compiled schemas is a state, keyed by the identity of the schema and
  guarded by its text; the last section shows that it is transparent.
\<close>

section \<open>Schemas\<close>

type_synonym schema_validator = "json \<Rightarrow> bool option"
type_synonym schema_compiler = "json \<Rightarrow> schema_validator option"

definition asSynchronousSchema :: "json \<Rightarrow> json option" where
  "asSynchronousSchema v =
     (case v of
        JBool b \<Rightarrow> Some v
      | JObj ms \<Rightarrow> if member_of v (js ''$async'') = Some (JBool True) then None else Some v
      | _ \<Rightarrow> None)"

text \<open>What a schema value says of a value, with no cache.\<close>

definition schema_accepts :: "schema_compiler \<Rightarrow> json \<Rightarrow> json \<Rightarrow> bool" where
  "schema_accepts compile schema v =
     (case asSynchronousSchema schema of
        None \<Rightarrow> False
      | Some synchronousSchema \<Rightarrow>
          (case compile synchronousSchema of None \<Rightarrow> False | Some validate \<Rightarrow> validate v = Some True))"

section \<open>The cache\<close>

record cached_schema =
  ca_body :: jsstr
  ca_validate :: schema_validator

text \<open>\<^verbatim>\<open>booleanValidators\<close> and \<^verbatim>\<open>schemaValidators\<close>.\<close>

record schema_cache =
  sc_booleans :: "bool \<Rightarrow> cached_schema option"
  sc_objects :: "nat \<Rightarrow> cached_schema option"

definition empty_cache :: schema_cache where
  "empty_cache = \<lparr>sc_booleans = (\<lambda>_. None), sc_objects = (\<lambda>_. None)\<rparr>"

definition cache_lookup :: "schema_cache \<Rightarrow> jsval \<Rightarrow> cached_schema option" where
  "cache_lookup cache schema =
     (case schema of VBool b \<Rightarrow> sc_booleans cache b | VObj r \<Rightarrow> sc_objects cache r | _ \<Rightarrow> None)"

definition cache_store :: "schema_cache \<Rightarrow> jsval \<Rightarrow> cached_schema \<Rightarrow> schema_cache" where
  "cache_store cache schema entry =
     (case schema of
        VBool b \<Rightarrow> cache\<lparr>sc_booleans := (sc_booleans cache)(b \<mapsto> entry)\<rparr>
      | VObj r \<Rightarrow> cache\<lparr>sc_objects := (sc_objects cache)(r \<mapsto> entry)\<rparr>
      | _ \<Rightarrow> cache)"

definition matchesJsonSchema ::
    "(jsnum \<Rightarrow> jsstr) \<Rightarrow> heap \<Rightarrow> schema_compiler \<Rightarrow> schema_cache \<Rightarrow> jsval \<Rightarrow> json
     \<Rightarrow> bool \<times> schema_cache" where
  "matchesJsonSchema nm h compile cache schema v =
     (case snapshotJsonRequest nm h schema None of
        Inl _ \<Rightarrow> (False, cache)
      | Inr s \<Rightarrow>
          (case asSynchronousSchema (sn_value s) of
             None \<Rightarrow> (False, cache)
           | Some synchronousSchema \<Rightarrow>
               let compiled =
                 (case compile synchronousSchema of
                    None \<Rightarrow> (False, cache)
                  | Some validate \<Rightarrow>
                      (validate v = Some True,
                       cache_store cache schema \<lparr>ca_body = sn_body s, ca_validate = validate\<rparr>))
               in case cache_lookup cache schema of
                    None \<Rightarrow> compiled
                  | Some cached \<Rightarrow>
                      if ca_body cached = sn_body s then (ca_validate cached v = Some True, cache)
                      else compiled))"

section \<open>Commands\<close>

definition command_request_of :: "json \<Rightarrow> command_request option" where
  "command_request_of v =
     Option.bind (str_at v ''vehicle_id'') (\<lambda>vehicle.
     Option.bind (str_at v ''command'') (\<lambda>command.
     Option.bind (Option.bind (str_at v ''command_class'') command_class_of) (\<lambda>cc.
     Option.bind (member_of v (js ''parameters'')) (\<lambda>parameters.
     Option.bind (member_of v (js ''expected_state'')) (\<lambda>expected.
     Option.bind (str_at v ''expires_at'') (\<lambda>expires.
       Some \<lparr>cr_vehicle_id = vehicle, cr_command = command, cr_command_class = cc,
             cr_parameters = parameters, cr_expected_state = expected, cr_expires_at = expires,
             cr_confirmation = member_of v (js ''confirmation'')\<rparr>))))))"

definition command_descriptor_error :: exn where
  "command_descriptor_error = ProtocolValidationError ''command.descriptor''"

text \<open>\<^verbatim>\<open>validateAdvertisedCommand\<close>, for the parsed descriptor of a session, whose
  schemas are JSON values.\<close>

definition validateAdvertisedCommand ::
    "schema_compiler \<Rightarrow> hub_descriptor \<Rightarrow> command_request \<Rightarrow> unit result" where
  "validateAdvertisedCommand compile descriptor command =
     rbind (requireCapability descriptor (js ''commands.async'')) (\<lambda>cap.
       case Option.bind (cap_commands cap) (find (\<lambda>d. cd_name d = cr_command command)) of
         None \<Rightarrow> Inl command_descriptor_error
       | Some d \<Rightarrow>
           rbind (require (\<not> (cd_command_class d \<noteq> cr_command_class command
               \<or> (cd_confirmation_required d \<and> cr_confirmation command = None))) command_descriptor_error) (\<lambda>_.
             require (\<not> (\<not> schema_accepts compile (cd_parameters_schema d) (cr_parameters command)
               \<or> \<not> schema_accepts compile (cd_expected_state_schema d) (cr_expected_state command)))
               command_descriptor_error))"

section \<open>The cache is transparent\<close>

text \<open>Every entry is the compilation of the value its text denotes.\<close>

definition cache_ok :: "schema_compiler \<Rightarrow> schema_cache \<Rightarrow> bool" where
  "cache_ok compile cache \<longleftrightarrow>
     (\<forall>schema entry. cache_lookup cache schema = Some entry \<longrightarrow>
        (\<exists>v synchronousSchema. json_parse (ca_body entry) = Some v
           \<and> asSynchronousSchema v = Some synchronousSchema
           \<and> compile synchronousSchema = Some (ca_validate entry)))"

lemma cache_ok_empty: "cache_ok compile empty_cache"
  by (auto simp: cache_ok_def cache_lookup_def empty_cache_def split: jsval.splits)

lemma cache_lookup_store:
  "cache_lookup (cache_store cache s entry) t = Some e \<Longrightarrow>
     e = entry \<or> cache_lookup cache t = Some e"
  by (auto simp: cache_lookup_def cache_store_def split: jsval.splits if_splits)

lemma cache_ok_store:
  assumes "cache_ok compile cache" and "json_parse (ca_body entry) = Some v"
    and "asSynchronousSchema v = Some s" and "compile s = Some (ca_validate entry)"
  shows "cache_ok compile (cache_store cache schema entry)"
  using assms unfolding cache_ok_def by (metis cache_lookup_store)

text \<open>The uncached reading of a schema object.\<close>

definition uncached_match ::
    "(jsnum \<Rightarrow> jsstr) \<Rightarrow> heap \<Rightarrow> schema_compiler \<Rightarrow> jsval \<Rightarrow> json \<Rightarrow> bool" where
  "uncached_match nm h compile schema v =
     (case snapshotJsonRequest nm h schema None of
        Inl _ \<Rightarrow> False | Inr s \<Rightarrow> schema_accepts compile (sn_value s) v)"

lemma snapshot_lossless_parse:
  assumes "heap_ok h" and "numbers_ok ok h" and "val_ok ok v" and "numeral_law nm ok"
    and "snapshotJsonRequest nm h v m = Inr s"
  shows "json_parse (sn_body s) = Some (sn_value s)"
proof -
  have "good_copy ok nm h v s" using assms copy_good by (auto simp: snapshotJsonRequest_Inr)
  with assms(4) show ?thesis by (auto simp: good_copy_def json_parse_print)
qed

text \<open>C27: The schema cache is transparent. Whatever commands were checked before, in whatever heap
  (the caller may have mutated the schema objects since), \<^verbatim>\<open>matchesJsonSchema\<close> answers
  exactly what compiling the schema afresh would answer, and it keeps the cache correct.\<close>
theorem schema_cache_transparent:
  assumes "heap_ok h" and "numbers_ok ok h" and "val_ok ok schema" and "numeral_law nm ok"
    and "cache_ok compile cache"
  shows "fst (matchesJsonSchema nm h compile cache schema v) = uncached_match nm h compile schema v
    \<and> cache_ok compile (snd (matchesJsonSchema nm h compile cache schema v))"
proof (cases "snapshotJsonRequest nm h schema None")
  case (Inl e)
  with assms(5) show ?thesis by (simp add: matchesJsonSchema_def uncached_match_def)
next
  case (Inr s)
  have parse: "json_parse (sn_body s) = Some (sn_value s)"
    using snapshot_lossless_parse [OF assms(1-4) Inr] .
  show ?thesis
  proof (cases "asSynchronousSchema (sn_value s)")
    case None
    with Inr assms(5) show ?thesis
      by (simp add: matchesJsonSchema_def uncached_match_def schema_accepts_def)
  next
    case (Some t)
    show ?thesis
    proof (cases "\<exists>cached. cache_lookup cache schema = Some cached \<and> ca_body cached = sn_body s")
      case True
      then obtain cached where c: "cache_lookup cache schema = Some cached" "ca_body cached = sn_body s"
        by blast
      then have "compile t = Some (ca_validate cached)"
        using assms(5) parse Some unfolding cache_ok_def by fastforce
      with c Inr Some assms(5) show ?thesis
        by (simp add: matchesJsonSchema_def uncached_match_def schema_accepts_def)
    next
      case False
      have keep: "cache_ok compile (cache_store cache schema \<lparr>ca_body = sn_body s, ca_validate = f\<rparr>)"
        if "compile t = Some f" for f
        using cache_ok_store [OF assms(5), of "\<lparr>ca_body = sn_body s, ca_validate = f\<rparr>"] parse Some that
        by simp
      from False Inr Some assms(5) keep show ?thesis
        by (cases "cache_lookup cache schema"; cases "compile t")
          (simp_all add: matchesJsonSchema_def uncached_match_def schema_accepts_def)
    qed
  qed
qed

theorem schema_cache_transparent_witness:
  "fst (matchesJsonSchema safe_numeral [] (\<lambda>_. Some (\<lambda>v. Some (v = JNull))) empty_cache (VBool True) JNull)
     = uncached_match safe_numeral [] (\<lambda>_. Some (\<lambda>v. Some (v = JNull))) (VBool True) JNull"
  using schema_cache_transparent [OF _ _ _ safe_numeral_law cache_ok_empty, of "[]" "VBool True"
      "\<lambda>_. Some (\<lambda>v. Some (v = JNull))" JNull]
  by (simp add: heap_ok_def numbers_ok_def)

end
