(* ===== verification/Client.thy ===== *)
theory Client
  imports AdvertisedCommand
begin

text \<open>
  \<^verbatim>\<open>client/client.ts\<close>: the operations of \<^verbatim>\<open>TeslatlasClient\<close>. Each operation is the
  function of the same name, with its guards in the order the code evaluates them; it yields its
  outcome (\<open>None\<close>: it never settles) and the actions of its request. What the class gets from
  outside is the record \<open>client_env\<close>: the session, the URL parser, \<^verbatim>\<open>String\<close> of a number, the
  generated schema validators by name, the schema compiler, and the heap the caller's bodies live in.
\<close>

section \<open>The environment of a call\<close>

record client_env =
  ce_session :: client_session
  ce_parser :: url_parser
  ce_number :: "jsnum \<Rightarrow> jsstr"
  ce_validators :: "string \<Rightarrow> validator"
  ce_compile :: schema_compiler
  ce_heap :: heap

text \<open>The caller's signal as one operation observes it: at its first check, in the transport, in the
  decoder, and at its last check.\<close>

record call_signal =
  sg_start :: signal_state
  sg_request :: "signal_oracle option"
  sg_decode :: decode_signal
  sg_end :: signal_state

definition quiet :: call_signal where
  "quiet = \<lparr>sg_start = Live, sg_request = None, sg_decode = no_signal, sg_end = Live\<rparr>"

text \<open>\<^verbatim>\<open>throwIfAlreadyAborted\<close> throws the reason as it is, even a null one.\<close>

definition null_thrown :: exn where
  "null_thrown = ForeignError 2"

definition throwIfAlreadyAborted :: "signal_state \<Rightarrow> unit result" where
  "throwIfAlreadyAborted s =
     (case s of Live \<Rightarrow> Inr () | Aborted (Some reason) \<Rightarrow> Inl reason | Aborted None \<Rightarrow> Inl null_thrown)"

lemma throwIfAlreadyAborted_Inr [simp]: "throwIfAlreadyAborted s = Inr u \<longleftrightarrow> s = Live"
  by (auto simp: throwIfAlreadyAborted_def split: signal_state.splits option.splits)

type_synonym 'a call = "'a outcome \<times> transport_action list"

definition failed :: "exn \<Rightarrow> 'a call" where
  "failed e = (Some (Inl e), [])"

text \<open>The guards before a request: when one throws, nothing has been done.\<close>

definition guard :: "'a result \<Rightarrow> ('a \<Rightarrow> 'b call) \<Rightarrow> 'b call" where
  "guard r k = (case r of Inl e \<Rightarrow> failed e | Inr x \<Rightarrow> k x)"

lemma guard_simps [simp]: "guard (Inl e) k = failed e" "guard (Inr x) k = k x"
  by (simp_all add: guard_def)

section \<open>Dates\<close>

text \<open>\<^verbatim>\<open>/^\d{4}-\d{2}-\d{2}T\d{2}:\d{2}:\d{2}\.\d{3}Z$/u\<close> with the numbers it
  matches.\<close>

definition timestamp_shape :: "jsstr \<Rightarrow> bool" where
  "timestamp_shape s \<longleftrightarrow>
     length s = 24
     \<and> list_all (\<lambda>i. is_digit (s ! i)) [0,1,2,3,5,6,8,9,11,12,14,15,17,18,20,21,22]
     \<and> s ! 4 = uMINUS \<and> s ! 7 = uMINUS \<and> s ! 10 = 84 \<and> s ! 13 = uCOLON \<and> s ! 16 = uCOLON
     \<and> s ! 19 = uDOT \<and> s ! 23 = 90"

definition digits_at :: "jsstr \<Rightarrow> nat \<Rightarrow> nat \<Rightarrow> nat" where
  "digits_at s i n = dec_value (take n (drop i s))"

definition leap_year :: "nat \<Rightarrow> bool" where
  "leap_year y \<longleftrightarrow> (y mod 4 = 0 \<and> y mod 100 \<noteq> 0) \<or> y mod 400 = 0"

definition month_days :: "nat \<Rightarrow> nat list" where
  "month_days y = [31, if leap_year y then 29 else 28, 31, 30, 31, 30, 31, 31, 30, 31, 30, 31]"

text \<open>Days from the year 0 to a date of the proleptic Gregorian calendar.\<close>

definition year_days :: "nat \<Rightarrow> nat" where
  "year_days y = 365 * y + (y + 3) div 4 - (y + 99) div 100 + (y + 399) div 400"

definition date_days :: "nat \<Rightarrow> nat \<Rightarrow> nat \<Rightarrow> nat" where
  "date_days y m d = year_days y + sum_list (take (m - 1) (month_days y)) + (d - 1)"

definition valid_date :: "nat \<Rightarrow> nat \<Rightarrow> nat \<Rightarrow> bool" where
  "valid_date y m d \<longleftrightarrow> 1 \<le> m \<and> m \<le> 12 \<and> 1 \<le> d \<and> d \<le> month_days y ! (m - 1)"

definition valid_clock :: "nat \<Rightarrow> nat \<Rightarrow> nat \<Rightarrow> bool" where
  "valid_clock h m s \<longleftrightarrow> h \<le> 23 \<and> m \<le> 59 \<and> s \<le> 59"

text \<open>\<^verbatim>\<open>Date.parse\<close> of a text of this shape that \<^verbatim>\<open>toISOString\<close> prints
  again: the milliseconds from the year 0 (a fixed distance from the epoch), \<open>None\<close> for a date or a
  time of day that does not exist.\<close>

definition date_parse :: "jsstr \<Rightarrow> nat option" where
  "date_parse t =
     (let y = digits_at t 0 4; mo = digits_at t 5 2; d = digits_at t 8 2;
          h = digits_at t 11 2; mi = digits_at t 14 2; s = digits_at t 17 2; ms = digits_at t 20 3
      in if timestamp_shape t \<and> valid_date y mo d \<and> valid_clock h mi s
         then Some ((((date_days y mo d * 24 + h) * 60 + mi) * 60 + s) * 1000 + ms) else None)"

section \<open>Options\<close>

definition maximumIfNoneMatchLength :: nat where
  "maximumIfNoneMatchLength = 512"

definition normalizeEntityTag :: "js_arg option \<Rightarrow> jsstr option result" where
  "normalizeEntityTag v =
     (case v of
        None \<Rightarrow> Inr None
      | Some OtherArg \<Rightarrow> Inl InvalidReadOptionsError
      | Some (StringArg s) \<Rightarrow>
          if maximumIfNoneMatchLength < length s then Inl InvalidReadOptionsError
          else (case asEntityTag s of Inl _ \<Rightarrow> Inl InvalidReadOptionsError | Inr t \<Rightarrow> Inr (Some t)))"

definition normalizeCursor :: "js_arg option \<Rightarrow> jsstr option result" where
  "normalizeCursor v =
     (case v of
        None \<Rightarrow> Inr None
      | Some OtherArg \<Rightarrow> Inl InvalidReadOptionsError
      | Some (StringArg s) \<Rightarrow>
          (case asOpaqueCursor s of Inl _ \<Rightarrow> Inl InvalidReadOptionsError | Inr t \<Rightarrow> Inr (Some t)))"

definition normalizeLimit :: "jsnum option \<Rightarrow> nat \<Rightarrow> jsnum option result" where
  "normalizeLimit v maximum =
     (case v of
        None \<Rightarrow> Inr None
      | Some x \<Rightarrow>
          if \<not> num_is_finite x \<or> num_integer x = None \<or> num_less x (num_of_int 1)
             \<or> num_less (num_of_int (int maximum)) x
          then Inl InvalidReadOptionsError else Inr (Some x))"

definition normalizeTimestamp :: "js_arg option \<Rightarrow> jsstr option result" where
  "normalizeTimestamp v =
     (case v of
        None \<Rightarrow> Inr None
      | Some OtherArg \<Rightarrow> Inl InvalidReadOptionsError
      | Some (StringArg s) \<Rightarrow>
          if date_parse s = None then Inl InvalidReadOptionsError else Inr (Some s))"

fun validateId :: "js_arg \<Rightarrow> jsstr result" where
  "validateId (StringArg s) =
     (if length s < 3 \<or> 128 < length s \<or> containsControlCharacters s
      then Inl InvalidReadOptionsError else Inr s)"
| "validateId OtherArg = Inl InvalidReadOptionsError"

record page_options =
  po_ifNoneMatch :: "js_arg option"
  po_cursor :: "js_arg option"
  po_limit :: "jsnum option"

record history_options = page_options +
  ho_from :: "js_arg option"
  ho_to :: "js_arg option"

record page_query =
  pq_ifNoneMatch :: "jsstr option"
  pq_cursor :: "jsstr option"
  pq_limit :: "jsnum option"

record history_query = page_query +
  hq_from :: "jsstr option"
  hq_to :: "jsstr option"

datatype range_limit = History | Dense

definition session_limits :: "client_env \<Rightarrow> limits" where
  "session_limits env = d_limits (cs_descriptor (ce_session env))"

definition normalizePageOptions :: "client_env \<Rightarrow> 'a page_options_scheme \<Rightarrow> page_query result" where
  "normalizePageOptions env options =
     rbind (normalizeEntityTag (po_ifNoneMatch options)) (\<lambda>ifNoneMatch.
     rbind (normalizeCursor (po_cursor options)) (\<lambda>cursor.
     rbind (normalizeLimit (po_limit options) (lim_max_page_size (session_limits env))) (\<lambda>limit.
       Inr \<lparr>pq_ifNoneMatch = ifNoneMatch, pq_cursor = cursor, pq_limit = limit\<rparr>)))"

text \<open>\<^verbatim>\<open>options.kind\<close> is a string or refused.\<close>

definition normalizeMetadataPageOptions ::
    "client_env \<Rightarrow> page_options \<Rightarrow> js_arg option \<Rightarrow> (page_query \<times> jsstr option) result" where
  "normalizeMetadataPageOptions env options kind =
     rbind (normalizePageOptions env options) (\<lambda>page.
       case kind of
         None \<Rightarrow> Inr (page, None)
       | Some OtherArg \<Rightarrow> Inl InvalidReadOptionsError
       | Some (StringArg k) \<Rightarrow> Inr (page, Some k))"

definition maximumDays :: "client_env \<Rightarrow> range_limit \<Rightarrow> nat" where
  "maximumDays env r =
     (case r of Dense \<Rightarrow> lim_max_dense_range_days (session_limits env)
      | History \<Rightarrow> lim_max_history_range_days (session_limits env))"

definition range_ok :: "client_env \<Rightarrow> range_limit \<Rightarrow> jsstr option \<Rightarrow> jsstr option \<Rightarrow> bool" where
  "range_ok env r from to =
     (case (Option.bind from date_parse, Option.bind to date_parse) of
        (Some f, Some t) \<Rightarrow> \<not> (t \<le> f \<or> maximumDays env r * 86400000 < t - f)
      | _ \<Rightarrow> True)"

definition normalizeHistoryOptions ::
    "client_env \<Rightarrow> history_options \<Rightarrow> range_limit \<Rightarrow> history_query result" where
  "normalizeHistoryOptions env options r =
     rbind (normalizePageOptions env options) (\<lambda>page.
     rbind (normalizeTimestamp (ho_from options)) (\<lambda>from.
     rbind (normalizeTimestamp (ho_to options)) (\<lambda>to.
     rbind (require (range_ok env r from to) InvalidReadOptionsError) (\<lambda>_.
       Inr \<lparr>pq_ifNoneMatch = pq_ifNoneMatch page, pq_cursor = pq_cursor page, pq_limit = pq_limit page,
            hq_from = from, hq_to = to\<rparr>))))"

text \<open>Query values: a member that is \<^verbatim>\<open>undefined\<close> is no member.\<close>

definition query_entry :: "string \<Rightarrow> ('a \<Rightarrow> query_value) \<Rightarrow> 'a option \<Rightarrow> query_values" where
  "query_entry name f v = (case v of None \<Rightarrow> [] | Some x \<Rightarrow> [(js name, f x)])"

definition pageQuery :: "'a page_query_scheme \<Rightarrow> query_values" where
  "pageQuery options =
     query_entry ''cursor'' QString (pq_cursor options) @ query_entry ''limit'' QNumber (pq_limit options)"

definition historyQuery :: "history_query \<Rightarrow> query_values" where
  "historyQuery options =
     pageQuery options @ query_entry ''from'' QString (hq_from options)
     @ query_entry ''to'' QString (hq_to options)"

section \<open>Identity checks\<close>

text \<open>\<^verbatim>\<open>entity[key]\<close>; reading a member of null throws.\<close>

definition read_member :: "json \<Rightarrow> jsstr \<Rightarrow> json option result" where
  "read_member entity key = (if entity = JNull then Inl type_error else Inr (member_of entity key))"

definition requireIdentity :: "json \<Rightarrow> string \<Rightarrow> json option \<Rightarrow> string \<Rightarrow> unit result" where
  "requireIdentity entity key expected validatorName =
     rbind (read_member entity (js key)) (\<lambda>found.
       require (found = expected) (ProtocolValidationError (validatorName @ ''.'' @ key)))"

definition requireLocationIdentity ::
    "jsstr option \<Rightarrow> string \<Rightarrow> json option \<Rightarrow> string \<Rightarrow> unit result" where
  "requireLocationIdentity location prefix i validatorName =
     (case i of
        Some (JStr s) \<Rightarrow>
          rbind (encodeURIComponent s) (\<lambda>e.
            require (location = Some (js prefix @ e)) (ProtocolValidationError (validatorName @ ''.location'')))
      | _ \<Rightarrow> Inl (ProtocolValidationError (validatorName @ ''.location'')))"

text \<open>\<^verbatim>\<open>entity.items\<close> as an array; the page schemas make it one.\<close>

definition read_items :: "json \<Rightarrow> json list result" where
  "read_items entity =
     rbind (read_member entity (js ''items'')) (\<lambda>v.
       case v of Some (JArr items) \<Rightarrow> Inr items | _ \<Rightarrow> Inl type_error)"

fun check_all :: "('a \<Rightarrow> unit result) \<Rightarrow> 'a list \<Rightarrow> unit result" where
  "check_all f [] = Inr ()"
| "check_all f (x # xs) = rbind (f x) (\<lambda>_. check_all f xs)"

fun singletonKey :: "read_operation \<Rightarrow> string option" where
  "singletonKey GetVehicleCurrentState = Some ''vehicle_id''"
| "singletonKey GetDrive = Some ''drive_id''"
| "singletonKey GetCharge = Some ''charge_id''"
| "singletonKey GetMetadata = Some ''metadata_id''"
| "singletonKey GetCommand = Some ''command_id''"
| "singletonKey _ = None"

fun ownerKey :: "read_operation \<Rightarrow> string option" where
  "ownerKey ListVehicleDrives = Some ''vehicle_id''"
| "ownerKey ListDrivePositions = Some ''drive_id''"
| "ownerKey ListVehicleCharges = Some ''vehicle_id''"
| "ownerKey ListChargeSamples = Some ''charge_id''"
| "ownerKey ListVehicleStates = Some ''vehicle_id''"
| "ownerKey ListVehicleUpdates = Some ''vehicle_id''"
| "ownerKey ListVehicleMetadata = Some ''vehicle_id''"
| "ownerKey _ = None"

text \<open>A query value is compared with \<^verbatim>\<open>===\<close>; a list is never identical.\<close>

fun query_json :: "query_value \<Rightarrow> json option" where
  "query_json (QString s) = Some (JStr s)"
| "query_json (QNumber x) = Some (JNum x)"
| "query_json (QList _) = None"

definition owner_expected :: "path_values \<Rightarrow> query_values \<Rightarrow> string \<Rightarrow> json option" where
  "owner_expected pathValues query key =
     (case map_of pathValues (js key) of
        Some v \<Rightarrow> Some (JStr v)
      | None \<Rightarrow> Option.bind (map_of query (js key)) query_json)"

definition validateReadIdentity ::
    "read_operation \<Rightarrow> json \<Rightarrow> path_values \<Rightarrow> query_values \<Rightarrow> string \<Rightarrow> unit result" where
  "validateReadIdentity operation v pathValues query validatorName =
     (case singletonKey operation of
        Some key \<Rightarrow>
          requireIdentity v key (map_option JStr (map_of pathValues (js key))) validatorName
      | None \<Rightarrow>
          rbind (case ownerKey operation of
                   None \<Rightarrow> Inr ()
                 | Some key \<Rightarrow>
                     (case owner_expected pathValues query key of
                        None \<Rightarrow> Inr ()
                      | expected \<Rightarrow>
                          rbind (read_items v) (check_all (\<lambda>item.
                            requireIdentity item key expected (validatorName @ ''.items''))))) (\<lambda>_.
            if operation = ListDataQuality \<and> map_of query (js ''vehicle_id'') \<noteq> None then
              rbind (read_items v) (check_all (\<lambda>item.
                rbind (read_member item (js ''subject_type'')) (\<lambda>subject.
                  if subject = Some (JStr (js ''vehicle'')) then
                    requireIdentity item ''subject_id''
                      (Option.bind (map_of query (js ''vehicle_id'')) query_json) (validatorName @ ''.items'')
                  else Inr ())))
            else Inr ()))"

section \<open>Reads and writes\<close>

definition acceptedResponseVersions :: "client_session \<Rightarrow> supported_version list" where
  "acceptedResponseVersions session =
     filter (\<lambda>version. \<not> version_rank (cs_protocolVersion session) < version_rank version
         \<and> negotiateProtocolVersion (cs_descriptor session) (version_string version) = Inr version)
       [V1_0_0, V1_1_0, V1_2_0]"

definition caller_of :: "call_signal \<Rightarrow> request_caller" where
  "caller_of sig = \<lparr>c_signal = sg_request sig, c_onDispatch = None\<rparr>"

definition read_requirements ::
    "client_session \<Rightarrow> read_descriptor \<Rightarrow> bool \<Rightarrow> jsstr option \<Rightarrow> requirements" where
  "read_requirements session descriptor strong ifNoneMatch =
     \<lparr>rq_requireEntityTag = False, rq_requireStrongEntityTag = strong, rq_requireLocation = False,
      rq_acceptedProtocolVersions =
        (if rd_versioned descriptor
         then Some (map version_string (acceptedResponseVersions session)) else None),
      rq_ifNoneMatch = ifNoneMatch\<rparr>"

text \<open>The validator of a name; \<^verbatim>\<open>validateMetadataEntity\<close> is the only one that is not
  generated.\<close>

definition validator_named :: "client_env \<Rightarrow> string \<Rightarrow> validator" where
  "validator_named env name =
     (if name = ''validateMetadataEntity''
      then (\<lambda>v. ce_validators env ''validateMetadataRecord'' v \<or> ce_validators env ''validateMetadataTombstone'' v)
      else ce_validators env name)"

text \<open>What \<^verbatim>\<open>#read\<close> does with the response.\<close>

definition finish_read ::
    "client_env \<Rightarrow> read_operation \<Rightarrow> string \<Rightarrow> path_values \<Rightarrow> query_values \<Rightarrow> requirements \<Rightarrow> call_signal
     \<Rightarrow> response \<Rightarrow> json read_result outcome" where
  "finish_read env operation validatorName pathValues query rq sig response =
     obind (fst (decodeReadResponse (ce_parser env) (ce_validators env ''validateProblem'') response
       (validator_named env validatorName) validatorName (sg_decode sig) rq)) (\<lambda>result.
     obind (Some (case result of
         Modified v _ \<Rightarrow> validateReadIdentity operation v pathValues query validatorName
       | NotModified _ \<Rightarrow> Inr ())) (\<lambda>_.
     obind (Some (throwIfAlreadyAborted (sg_end sig))) (\<lambda>_.
       Some (Inr result))))"

definition read_call ::
    "client_env \<Rightarrow> call_signal \<Rightarrow> read_operation \<Rightarrow> string \<Rightarrow> path_values \<Rightarrow> query_values
     \<Rightarrow> jsstr option \<Rightarrow> bool \<Rightarrow> json read_result call" where
  "read_call env sig operation validatorName pathValues query ifNoneMatch strong =
     (let session = ce_session env; descriptor = readOperationDescriptors operation;
          rq = read_requirements session descriptor strong ifNoneMatch
      in guard (buildReadRequest (ce_number env) descriptor pathValues query (cs_protocolVersion session)
             ifNoneMatch (sg_request sig \<noteq> None)) (\<lambda>req.
           let transport = (if operation = DiscoverHub then cs_discoveryTransport session
                            else cs_apiTransport session);
               (out, acts) = request (ce_parser env) transport (caller_of sig) (br_path req) (br_init req)
           in (obind out (finish_read env operation validatorName pathValues query rq sig), acts)))"

definition write_requirements ::
    "client_session \<Rightarrow> bool \<Rightarrow> bool \<Rightarrow> bool \<Rightarrow> requirements" where
  "write_requirements session etag strong location =
     \<lparr>rq_requireEntityTag = etag, rq_requireStrongEntityTag = strong, rq_requireLocation = location,
      rq_acceptedProtocolVersions = Some (map version_string (acceptedResponseVersions session)),
      rq_ifNoneMatch = None\<rparr>"

definition write_identity ::
    "write_operation \<Rightarrow> path_values \<Rightarrow> string \<Rightarrow> json write_result \<Rightarrow> unit result" where
  "write_identity operation pathValues validatorName result =
     (let entity = wr_value result
      in if operation = CreateMetadata then
           rbind (requireIdentity entity ''vehicle_id''
               (map_option JStr (map_of pathValues (js ''vehicle_id''))) validatorName) (\<lambda>_.
             requireLocationIdentity (rm_location (wr_metadata result)) ''/v1/metadata/''
               (member_of entity (js ''metadata_id'')) validatorName)
         else requireIdentity entity ''metadata_id''
               (map_option JStr (map_of pathValues (js ''metadata_id''))) validatorName)"

definition finish_write ::
    "client_env \<Rightarrow> write_operation \<Rightarrow> string \<Rightarrow> path_values \<Rightarrow> nat \<Rightarrow> requirements \<Rightarrow> call_signal
     \<Rightarrow> response \<Rightarrow> json write_result outcome" where
  "finish_write env operation validatorName pathValues successStatus rq sig response =
     obind (fst (decodeWriteResponse (ce_parser env) (ce_validators env ''validateProblem'') response
       (ce_validators env validatorName) validatorName successStatus rq (sg_decode sig))) (\<lambda>result.
     obind (Some (write_identity operation pathValues validatorName result)) (\<lambda>_.
     obind (Some (throwIfAlreadyAborted (sg_end sig))) (\<lambda>_.
       Some (Inr result))))"

definition write_call ::
    "client_env \<Rightarrow> call_signal \<Rightarrow> write_operation \<Rightarrow> string \<Rightarrow> path_values \<Rightarrow> write_options
     \<Rightarrow> nat \<Rightarrow> requirements \<Rightarrow> json write_result call" where
  "write_call env sig operation validatorName pathValues options successStatus rq =
     guard (buildWriteRequest (ce_number env) (ce_heap env) (writeOperationDescriptors operation) pathValues
         (cs_protocolVersion (ce_session env)) options) (\<lambda>req.
       let (out, acts) = request (ce_parser env) (cs_apiTransport (ce_session env)) (caller_of sig)
             (br_path req) (br_init req)
       in (obind out (finish_write env operation validatorName pathValues successStatus rq sig), acts))"

definition command_identity ::
    "json \<Rightarrow> json write_result \<Rightarrow> string \<Rightarrow> unit result" where
  "command_identity body result validatorName =
     (let entity = wr_value result
      in rbind (check_all (\<lambda>key. requireIdentity entity key (member_of body (js key)) validatorName)
             [''vehicle_id'', ''command'', ''command_class'']) (\<lambda>_.
           requireLocationIdentity (rm_location (wr_metadata result)) ''/v1/commands/''
             (member_of entity (js ''command_id'')) validatorName))"

text \<open>The second \<^verbatim>\<open>catch\<close> of \<^verbatim>\<open>#writeCommand\<close>.\<close>

definition uncertain :: "exn \<Rightarrow> exn" where
  "uncertain e = (case e of ProtocolHttpError _ \<Rightarrow> e | _ \<Rightarrow> CommandUncertainError)"

definition finish_command ::
    "client_env \<Rightarrow> string \<Rightarrow> nat \<Rightarrow> requirements \<Rightarrow> call_signal \<Rightarrow> json \<Rightarrow> response
     \<Rightarrow> json write_result outcome" where
  "finish_command env validatorName successStatus rq sig body response =
     map_option (map_sum uncertain id)
       (obind (fst (decodeWriteResponse (ce_parser env) (ce_validators env ''validateProblem'') response
          (ce_validators env validatorName) validatorName successStatus rq (sg_decode sig))) (\<lambda>result.
        obind (Some (command_identity body result validatorName)) (\<lambda>_.
        obind (Some (throwIfAlreadyAborted (sg_end sig))) (\<lambda>_.
          Some (Inr result)))))"

text \<open>The first \<^verbatim>\<open>catch\<close> sees whether the dispatch callback has run.\<close>

definition command_call ::
    "client_env \<Rightarrow> call_signal \<Rightarrow> string \<Rightarrow> write_options \<Rightarrow> nat \<Rightarrow> requirements
     \<Rightarrow> json \<Rightarrow> json write_result call" where
  "command_call env sig validatorName options successStatus rq body =
     guard (buildWriteRequest (ce_number env) (ce_heap env) (writeOperationDescriptors CreateCommand) []
         (cs_protocolVersion (ce_session env)) (options\<lparr>wo_onDispatch := True\<rparr>)) (\<lambda>req.
       let (out, acts) = request (ce_parser env) (cs_apiTransport (ce_session env)) (caller_of sig)
             (br_path req) (br_init req)
       in (case out of
             None \<Rightarrow> None
           | Some (Inl e) \<Rightarrow> Some (Inl (if Dispatch \<in> set acts then CommandUncertainError else e))
           | Some (Inr response) \<Rightarrow>
               finish_command env validatorName successStatus rq sig body response, acts))"

end
