(* ===== verification/ClientOperations.thy ===== *)
theory ClientOperations
  imports Client
begin

text \<open>
  The public operations of \<^verbatim>\<open>TeslatlasClient\<close> (\<^verbatim>\<open>client/client.ts\<close>) over the
  calls of \<open>Client\<close>, and what holds of all of them.
\<close>

section \<open>Reads\<close>

definition capable :: "client_env \<Rightarrow> string \<Rightarrow> capability result" where
  "capable env name = requireCapability (cs_descriptor (ce_session env)) (js name)"

definition discoverHub :: "client_env \<Rightarrow> call_signal \<Rightarrow> js_arg option \<Rightarrow> json read_result call" where
  "discoverHub env sig ifNoneMatch =
     guard (normalizeEntityTag ifNoneMatch) (\<lambda>etag.
       read_call env sig DiscoverHub ''validateDiscovery'' [] [] etag False)"

definition listVehicles :: "client_env \<Rightarrow> call_signal \<Rightarrow> page_options \<Rightarrow> json read_result call" where
  "listVehicles env sig options =
     guard (capable env ''query.vehicles'') (\<lambda>_.
     guard (normalizePageOptions env options) (\<lambda>page.
       read_call env sig ListVehicles ''validateVehiclePage'' [] (pageQuery page) (pq_ifNoneMatch page) False))"

definition getVehicleCurrentState ::
    "client_env \<Rightarrow> call_signal \<Rightarrow> js_arg \<Rightarrow> js_arg option \<Rightarrow> json read_result call" where
  "getVehicleCurrentState env sig vehicleId ifNoneMatch =
     guard (capable env ''query.vehicles'') (\<lambda>_.
     guard (validateId vehicleId) (\<lambda>i.
     guard (normalizeEntityTag ifNoneMatch) (\<lambda>etag.
       read_call env sig GetVehicleCurrentState ''validateCurrentState'' [(js ''vehicle_id'', i)] [] etag False)))"

definition history_read ::
    "client_env \<Rightarrow> call_signal \<Rightarrow> read_operation \<Rightarrow> string \<Rightarrow> path_values \<Rightarrow> history_options \<Rightarrow> range_limit
     \<Rightarrow> json read_result call" where
  "history_read env sig operation validatorName pathValues options r =
     guard (capable env ''query.history'') (\<lambda>_.
     guard (normalizeHistoryOptions env options r) (\<lambda>q.
       read_call env sig operation validatorName pathValues (historyQuery q) (pq_ifNoneMatch q) False))"

definition listVehicleDrives ::
    "client_env \<Rightarrow> call_signal \<Rightarrow> js_arg \<Rightarrow> history_options \<Rightarrow> json read_result call" where
  "listVehicleDrives env sig vehicleId options =
     guard (validateId vehicleId) (\<lambda>i.
       history_read env sig ListVehicleDrives ''validateDrivePage'' [(js ''vehicle_id'', i)] options History)"

definition getDrive :: "client_env \<Rightarrow> call_signal \<Rightarrow> js_arg \<Rightarrow> js_arg option \<Rightarrow> json read_result call" where
  "getDrive env sig driveId ifNoneMatch =
     guard (capable env ''query.history'') (\<lambda>_.
     guard (validateId driveId) (\<lambda>i.
     guard (normalizeEntityTag ifNoneMatch) (\<lambda>etag.
       read_call env sig GetDrive ''validateDrive'' [(js ''drive_id'', i)] [] etag False)))"

definition listDrivePositions ::
    "client_env \<Rightarrow> call_signal \<Rightarrow> js_arg \<Rightarrow> history_options \<Rightarrow> json read_result call" where
  "listDrivePositions env sig driveId options =
     guard (validateId driveId) (\<lambda>i.
       history_read env sig ListDrivePositions ''validatePositionPage'' [(js ''drive_id'', i)] options Dense)"

definition listVehicleCharges ::
    "client_env \<Rightarrow> call_signal \<Rightarrow> js_arg \<Rightarrow> history_options \<Rightarrow> json read_result call" where
  "listVehicleCharges env sig vehicleId options =
     guard (validateId vehicleId) (\<lambda>i.
       history_read env sig ListVehicleCharges ''validateChargePage'' [(js ''vehicle_id'', i)] options History)"

definition getCharge :: "client_env \<Rightarrow> call_signal \<Rightarrow> js_arg \<Rightarrow> js_arg option \<Rightarrow> json read_result call" where
  "getCharge env sig chargeId ifNoneMatch =
     guard (capable env ''query.history'') (\<lambda>_.
     guard (validateId chargeId) (\<lambda>i.
     guard (normalizeEntityTag ifNoneMatch) (\<lambda>etag.
       read_call env sig GetCharge ''validateCharge'' [(js ''charge_id'', i)] [] etag False)))"

definition listChargeSamples ::
    "client_env \<Rightarrow> call_signal \<Rightarrow> js_arg \<Rightarrow> history_options \<Rightarrow> json read_result call" where
  "listChargeSamples env sig chargeId options =
     guard (validateId chargeId) (\<lambda>i.
       history_read env sig ListChargeSamples ''validateChargeSamplePage'' [(js ''charge_id'', i)] options Dense)"

definition listVehicleStates ::
    "client_env \<Rightarrow> call_signal \<Rightarrow> js_arg \<Rightarrow> history_options \<Rightarrow> json read_result call" where
  "listVehicleStates env sig vehicleId options =
     guard (validateId vehicleId) (\<lambda>i.
       history_read env sig ListVehicleStates ''validateStatePage'' [(js ''vehicle_id'', i)] options History)"

definition listVehicleUpdates ::
    "client_env \<Rightarrow> call_signal \<Rightarrow> js_arg \<Rightarrow> history_options \<Rightarrow> json read_result call" where
  "listVehicleUpdates env sig vehicleId options =
     guard (validateId vehicleId) (\<lambda>i.
       history_read env sig ListVehicleUpdates ''validateUpdatePage'' [(js ''vehicle_id'', i)] options History)"

definition listDataQuality ::
    "client_env \<Rightarrow> call_signal \<Rightarrow> history_options \<Rightarrow> js_arg option \<Rightarrow> json read_result call" where
  "listDataQuality env sig options vehicleId =
     guard (capable env ''data-quality'') (\<lambda>_.
     guard (normalizeHistoryOptions env options History) (\<lambda>q.
     guard (optional validateId vehicleId) (\<lambda>i.
       read_call env sig ListDataQuality ''validateDataQualityPage'' []
         (historyQuery q @ query_entry ''vehicle_id'' QString i) (pq_ifNoneMatch q) False)))"

definition listVehicleMetadata ::
    "client_env \<Rightarrow> call_signal \<Rightarrow> js_arg \<Rightarrow> page_options \<Rightarrow> js_arg option \<Rightarrow> json read_result call" where
  "listVehicleMetadata env sig vehicleId options kind =
     guard (capable env ''metadata.mutable'') (\<lambda>_.
     guard (normalizeMetadataPageOptions env options kind) (\<lambda>(page, k).
     guard (validateId vehicleId) (\<lambda>i.
       read_call env sig ListVehicleMetadata ''validateMetadataPage'' [(js ''vehicle_id'', i)]
         (pageQuery page @ query_entry ''kind'' QString k) (pq_ifNoneMatch page) False)))"

definition getMetadata :: "client_env \<Rightarrow> call_signal \<Rightarrow> js_arg \<Rightarrow> js_arg option \<Rightarrow> json read_result call" where
  "getMetadata env sig metadataId ifNoneMatch =
     guard (capable env ''metadata.mutable'') (\<lambda>_.
     guard (validateId metadataId) (\<lambda>i.
     guard (normalizeEntityTag ifNoneMatch) (\<lambda>etag.
       read_call env sig GetMetadata ''validateMetadataEntity'' [(js ''metadata_id'', i)] [] etag True)))"

definition getCommand :: "client_env \<Rightarrow> call_signal \<Rightarrow> js_arg \<Rightarrow> js_arg option \<Rightarrow> json read_result call" where
  "getCommand env sig commandId ifNoneMatch =
     guard (capable env ''commands.async'') (\<lambda>_.
     guard (validateId commandId) (\<lambda>i.
     guard (normalizeEntityTag ifNoneMatch) (\<lambda>etag.
       read_call env sig GetCommand ''validateCommandJob'' [(js ''command_id'', i)] [] etag False)))"

section \<open>Writes\<close>

definition body_limit :: "client_env \<Rightarrow> nat option" where
  "body_limit env = Some (lim_max_request_body_bytes (session_limits env))"

definition no_write_options :: "call_signal \<Rightarrow> write_options" where
  "no_write_options sig =
     \<lparr>wo_body = None, wo_ifMatch = None, wo_idempotencyKey = None, wo_signal = (sg_request sig \<noteq> None),
      wo_onDispatch = False\<rparr>"

text \<open>\<^verbatim>\<open>decodeProtocolValue\<close> of a snapshot: a copied value has no numerals of its
  own.\<close>

definition checked_snapshot ::
    "client_env \<Rightarrow> json_snapshot \<Rightarrow> string \<Rightarrow> json result" where
  "checked_snapshot env s validatorName =
     decodeProtocolValue (sn_value s, None) (ce_validators env validatorName) validatorName"

text \<open>\<^verbatim>\<open>normalizeRequestOptions\<close>: whether the options are an object.\<close>

definition normalizeRequestOptions :: "bool \<Rightarrow> unit result" where
  "normalizeRequestOptions isObject = require isObject InvalidReadOptionsError"

definition createMetadata ::
    "client_env \<Rightarrow> call_signal \<Rightarrow> js_arg \<Rightarrow> jsval \<Rightarrow> bool \<Rightarrow> json write_result call" where
  "createMetadata env sig vehicleId body isObject =
     guard (capable env ''metadata.mutable'') (\<lambda>_.
     guard (normalizeRequestOptions isObject) (\<lambda>_.
     guard (throwIfAlreadyAborted (sg_start sig)) (\<lambda>_.
     guard (validateId vehicleId) (\<lambda>i.
     guard (snapshotJsonRequest (ce_number env) (ce_heap env) body (body_limit env)) (\<lambda>s.
     guard (checked_snapshot env s ''validateMetadataCreate'') (\<lambda>v.
     guard (rbind (read_member v (js ''vehicle_id'')) (\<lambda>found.
         require (found = Some (JStr i)) (ProtocolValidationError ''validateMetadataCreate.vehicle_id''))) (\<lambda>_.
       write_call env sig CreateMetadata ''validateMetadataRecord'' [(js ''vehicle_id'', i)]
         ((no_write_options sig)\<lparr>wo_body := Some (BodySnapshot s)\<rparr>) 201
         (write_requirements (ce_session env) False True True))))))))"

definition replaceMetadata ::
    "client_env \<Rightarrow> call_signal \<Rightarrow> js_arg \<Rightarrow> jsval \<Rightarrow> js_arg \<Rightarrow> json write_result call" where
  "replaceMetadata env sig metadataId body ifMatch =
     guard (capable env ''metadata.mutable'') (\<lambda>_.
     guard (asStrongEntityTag ifMatch) (\<lambda>tag.
     guard (throwIfAlreadyAborted (sg_start sig)) (\<lambda>_.
     guard (snapshotJsonRequest (ce_number env) (ce_heap env) body (body_limit env)) (\<lambda>s.
     guard (checked_snapshot env s ''validateMetadataReplace'') (\<lambda>_.
     guard (validateId metadataId) (\<lambda>i.
       write_call env sig ReplaceMetadata ''validateMetadataRecord'' [(js ''metadata_id'', i)]
         ((no_write_options sig)\<lparr>wo_body := Some (BodySnapshot s), wo_ifMatch := Some tag\<rparr>) 200
         (write_requirements (ce_session env) False True False)))))))"

definition deleteMetadata ::
    "client_env \<Rightarrow> call_signal \<Rightarrow> js_arg \<Rightarrow> js_arg \<Rightarrow> json write_result call" where
  "deleteMetadata env sig metadataId ifMatch =
     guard (capable env ''metadata.mutable'') (\<lambda>_.
     guard (asStrongEntityTag ifMatch) (\<lambda>tag.
     guard (throwIfAlreadyAborted (sg_start sig)) (\<lambda>_.
     guard (validateId metadataId) (\<lambda>i.
       write_call env sig DeleteMetadata ''validateMetadataTombstone'' [(js ''metadata_id'', i)]
         ((no_write_options sig)\<lparr>wo_ifMatch := Some tag\<rparr>) 200
         (write_requirements (ce_session env) False True False)))))"

definition snapshotCommandRequest :: "client_env \<Rightarrow> jsval \<Rightarrow> json_snapshot result" where
  "snapshotCommandRequest env body =
     (case snapshotJsonRequest (ce_number env) (ce_heap env) body (body_limit env) of
        Inl e \<Rightarrow> Inl (if e = InvalidRequestBodyError
                      then ProtocolValidationError ''validateCommandRequest'' else e)
      | Inr s \<Rightarrow> Inr s)"

definition createCommand ::
    "client_env \<Rightarrow> call_signal \<Rightarrow> jsval \<Rightarrow> js_arg \<Rightarrow> json write_result call" where
  "createCommand env sig body idempotencyKey =
     guard (capable env ''commands.async'') (\<lambda>_.
     guard (asIdempotencyKey idempotencyKey) (\<lambda>key.
     guard (throwIfAlreadyAborted (sg_start sig)) (\<lambda>_.
     guard (snapshotCommandRequest env body) (\<lambda>s.
     guard (checked_snapshot env s ''validateCommandRequest'') (\<lambda>v.
     guard (case command_request_of v of None \<Rightarrow> Inl type_error | Some command \<Rightarrow>
         validateAdvertisedCommand (ce_compile env) (cs_descriptor (ce_session env)) command) (\<lambda>_.
       command_call env sig ''validateCommandJob''
         ((no_write_options sig)\<lparr>wo_body := Some (BodySnapshot s), wo_idempotencyKey := Some key\<rparr>) 202
         (write_requirements (ce_session env) True False True) v))))))"

section \<open>All operations\<close>

datatype client_call =
    DiscoverHubCall "js_arg option"
  | ListVehiclesCall page_options
  | GetVehicleCurrentStateCall js_arg "js_arg option"
  | ListVehicleDrivesCall js_arg history_options
  | GetDriveCall js_arg "js_arg option"
  | ListDrivePositionsCall js_arg history_options
  | ListVehicleChargesCall js_arg history_options
  | GetChargeCall js_arg "js_arg option"
  | ListChargeSamplesCall js_arg history_options
  | ListVehicleStatesCall js_arg history_options
  | ListVehicleUpdatesCall js_arg history_options
  | ListDataQualityCall history_options "js_arg option"
  | ListVehicleMetadataCall js_arg page_options "js_arg option"
  | GetMetadataCall js_arg "js_arg option"
  | GetCommandCall js_arg "js_arg option"

fun perform_read :: "client_env \<Rightarrow> call_signal \<Rightarrow> client_call \<Rightarrow> json read_result call" where
  "perform_read env sig (DiscoverHubCall e) = discoverHub env sig e"
| "perform_read env sig (ListVehiclesCall ops) = listVehicles env sig ops"
| "perform_read env sig (GetVehicleCurrentStateCall i e) = getVehicleCurrentState env sig i e"
| "perform_read env sig (ListVehicleDrivesCall i ops) = listVehicleDrives env sig i ops"
| "perform_read env sig (GetDriveCall i e) = getDrive env sig i e"
| "perform_read env sig (ListDrivePositionsCall i ops) = listDrivePositions env sig i ops"
| "perform_read env sig (ListVehicleChargesCall i ops) = listVehicleCharges env sig i ops"
| "perform_read env sig (GetChargeCall i e) = getCharge env sig i e"
| "perform_read env sig (ListChargeSamplesCall i ops) = listChargeSamples env sig i ops"
| "perform_read env sig (ListVehicleStatesCall i ops) = listVehicleStates env sig i ops"
| "perform_read env sig (ListVehicleUpdatesCall i ops) = listVehicleUpdates env sig i ops"
| "perform_read env sig (ListDataQualityCall ops v) = listDataQuality env sig ops v"
| "perform_read env sig (ListVehicleMetadataCall i ops k) = listVehicleMetadata env sig i ops k"
| "perform_read env sig (GetMetadataCall i e) = getMetadata env sig i e"
| "perform_read env sig (GetCommandCall i e) = getCommand env sig i e"

section \<open>What a read asks for\<close>

text \<open>Every read is the guards of its operation followed by one call: its plan.\<close>

record read_plan =
  rp_operation :: read_operation
  rp_validator :: string
  rp_path :: path_values
  rp_query :: query_values
  rp_etag :: "jsstr option"
  rp_strong :: bool

definition plan_call :: "client_env \<Rightarrow> call_signal \<Rightarrow> read_plan \<Rightarrow> json read_result call" where
  "plan_call env sig p =
     read_call env sig (rp_operation p) (rp_validator p) (rp_path p) (rp_query p) (rp_etag p) (rp_strong p)"

fun operation_of :: "client_call \<Rightarrow> read_operation" where
  "operation_of (DiscoverHubCall _) = DiscoverHub"
| "operation_of (ListVehiclesCall _) = ListVehicles"
| "operation_of (GetVehicleCurrentStateCall _ _) = GetVehicleCurrentState"
| "operation_of (ListVehicleDrivesCall _ _) = ListVehicleDrives"
| "operation_of (GetDriveCall _ _) = GetDrive"
| "operation_of (ListDrivePositionsCall _ _) = ListDrivePositions"
| "operation_of (ListVehicleChargesCall _ _) = ListVehicleCharges"
| "operation_of (GetChargeCall _ _) = GetCharge"
| "operation_of (ListChargeSamplesCall _ _) = ListChargeSamples"
| "operation_of (ListVehicleStatesCall _ _) = ListVehicleStates"
| "operation_of (ListVehicleUpdatesCall _ _) = ListVehicleUpdates"
| "operation_of (ListDataQualityCall _ _) = ListDataQuality"
| "operation_of (ListVehicleMetadataCall _ _ _) = ListVehicleMetadata"
| "operation_of (GetMetadataCall _ _) = GetMetadata"
| "operation_of (GetCommandCall _ _) = GetCommand"

text \<open>The identifier a caller names, if the operation takes one.\<close>

fun call_id :: "client_call \<Rightarrow> js_arg option" where
  "call_id (GetVehicleCurrentStateCall i _) = Some i"
| "call_id (ListVehicleDrivesCall i _) = Some i"
| "call_id (GetDriveCall i _) = Some i"
| "call_id (ListDrivePositionsCall i _) = Some i"
| "call_id (ListVehicleChargesCall i _) = Some i"
| "call_id (GetChargeCall i _) = Some i"
| "call_id (ListChargeSamplesCall i _) = Some i"
| "call_id (ListVehicleStatesCall i _) = Some i"
| "call_id (ListVehicleUpdatesCall i _) = Some i"
| "call_id (ListVehicleMetadataCall i _ _) = Some i"
| "call_id (GetMetadataCall i _) = Some i"
| "call_id (GetCommandCall i _) = Some i"
| "call_id _ = None"

fun needed_capability :: "read_operation \<Rightarrow> string option" where
  "needed_capability DiscoverHub = None"
| "needed_capability ListVehicles = Some ''query.vehicles''"
| "needed_capability GetVehicleCurrentState = Some ''query.vehicles''"
| "needed_capability ListDataQuality = Some ''data-quality''"
| "needed_capability ListVehicleMetadata = Some ''metadata.mutable''"
| "needed_capability GetMetadata = Some ''metadata.mutable''"
| "needed_capability GetCommand = Some ''commands.async''"
| "needed_capability _ = Some ''query.history''"

text \<open>The schema the answer of an operation is checked against.\<close>

fun schema_of :: "read_operation \<Rightarrow> string" where
  "schema_of DiscoverHub = ''validateDiscovery''"
| "schema_of ListVehicles = ''validateVehiclePage''"
| "schema_of GetVehicleCurrentState = ''validateCurrentState''"
| "schema_of ListVehicleDrives = ''validateDrivePage''"
| "schema_of GetDrive = ''validateDrive''"
| "schema_of ListDrivePositions = ''validatePositionPage''"
| "schema_of ListVehicleCharges = ''validateChargePage''"
| "schema_of GetCharge = ''validateCharge''"
| "schema_of ListChargeSamples = ''validateChargeSamplePage''"
| "schema_of ListVehicleStates = ''validateStatePage''"
| "schema_of ListVehicleUpdates = ''validateUpdatePage''"
| "schema_of ListDataQuality = ''validateDataQualityPage''"
| "schema_of ListVehicleMetadata = ''validateMetadataPage''"
| "schema_of GetMetadata = ''validateMetadataEntity''"
| "schema_of GetCommand = ''validateCommandJob''"

definition advertised :: "client_env \<Rightarrow> string \<Rightarrow> bool" where
  "advertised env name \<longleftrightarrow>
     (\<exists>cap \<in> set (d_capabilities (cs_descriptor (ce_session env))). cap_id cap = js name)"

lemma capable_Inr: "capable env name = Inr c \<Longrightarrow> advertised env name"
  by (auto simp: capable_def advertised_def dest!: requireCapability_Inr)

lemma validateId_Inr:
  "validateId v = Inr s \<longleftrightarrow> v = StringArg s \<and> 3 \<le> length s \<and> length s \<le> 128 \<and> \<not> containsControlCharacters s"
  by (cases v) auto

text \<open>The query of a page: a limit in range, and no reversed or overlong range of times.\<close>

definition page_query_ok :: "client_env \<Rightarrow> query_values \<Rightarrow> bool" where
  "page_query_ok env q \<longleftrightarrow>
     (\<forall>v. map_of q (js ''limit'') = Some v \<longrightarrow>
        (\<exists>n. v = QNumber (num_of_int n) \<and> 1 \<le> n \<and> n \<le> int (lim_max_page_size (session_limits env))))"

definition range_query_ok :: "client_env \<Rightarrow> range_limit \<Rightarrow> query_values \<Rightarrow> bool" where
  "range_query_ok env r q \<longleftrightarrow>
     (\<forall>v. map_of q (js ''from'') = Some v \<longrightarrow> (\<exists>s. v = QString s \<and> date_parse s \<noteq> None))
     \<and> (\<forall>v. map_of q (js ''to'') = Some v \<longrightarrow> (\<exists>s. v = QString s \<and> date_parse s \<noteq> None))
     \<and> (\<forall>a b f t. map_of q (js ''from'') = Some (QString a) \<and> map_of q (js ''to'') = Some (QString b)
          \<and> date_parse a = Some f \<and> date_parse b = Some t \<longrightarrow> f < t \<and> t - f \<le> maximumDays env r * 86400000)"

fun range_of :: "read_operation \<Rightarrow> range_limit option" where
  "range_of ListVehicleDrives = Some History"
| "range_of ListDrivePositions = Some Dense"
| "range_of ListVehicleCharges = Some History"
| "range_of ListChargeSamples = Some Dense"
| "range_of ListVehicleStates = Some History"
| "range_of ListVehicleUpdates = Some History"
| "range_of ListDataQuality = Some History"
| "range_of _ = None"

lemma limit_in_range:
  "normalizeLimit v maximum = Inr (Some x) \<Longrightarrow> \<exists>n. x = num_of_int n \<and> 1 \<le> n \<and> n \<le> int maximum"
proof -
  assume *: "normalizeLimit v maximum = Inr (Some x)"
  then have "num_integer x \<noteq> None" by (auto simp: normalizeLimit_def split: option.splits if_splits)
  then obtain n where "x = num_of_int n" by (auto simp: num_integer_Some)
  with * show ?thesis
    by (auto simp: normalizeLimit_def num_of_int_def split: option.splits if_splits)
qed

lemma normalizePageOptions_Inr:
  assumes "normalizePageOptions env options = Inr page"
  shows "\<forall>x. pq_limit page = Some x \<longrightarrow>
    (\<exists>n. x = num_of_int n \<and> 1 \<le> n \<and> n \<le> int (lim_max_page_size (session_limits env)))"
  using assms by (auto simp: normalizePageOptions_def rbind_Inr_iff dest: limit_in_range)

lemma normalizeTimestamp_Inr:
  "normalizeTimestamp v = Inr (Some s) \<Longrightarrow> date_parse s \<noteq> None"
  by (auto simp: normalizeTimestamp_def split: option.splits js_arg.splits if_splits)

lemma normalizeHistoryOptions_Inr:
  assumes "normalizeHistoryOptions env options r = Inr q"
  shows "(\<forall>x. pq_limit q = Some x \<longrightarrow>
      (\<exists>n. x = num_of_int n \<and> 1 \<le> n \<and> n \<le> int (lim_max_page_size (session_limits env))))
    \<and> (\<forall>s. hq_from q = Some s \<longrightarrow> date_parse s \<noteq> None) \<and> (\<forall>s. hq_to q = Some s \<longrightarrow> date_parse s \<noteq> None)
    \<and> range_ok env r (hq_from q) (hq_to q)"
  using assms
  by (auto simp: normalizeHistoryOptions_def rbind_Inr_iff dest: normalizePageOptions_Inr normalizeTimestamp_Inr)

lemma map_of_query_entry:
  "map_of (query_entry name f v) k = (if k = js name then map_option f v else None)"
  by (auto simp: query_entry_def split: option.splits)

lemmas query_lookup = pageQuery_def historyQuery_def map_add_def map_of_query_entry

lemma pageQuery_ok:
  "normalizePageOptions env options = Inr page \<Longrightarrow> page_query_ok env (pageQuery page)"
  by (auto simp: page_query_ok_def query_lookup dest: normalizePageOptions_Inr split: option.splits)

lemma historyQuery_limit:
  "normalizeHistoryOptions env options r = Inr q \<Longrightarrow> page_query_ok env (historyQuery q)"
  by (auto simp: page_query_ok_def query_lookup dest: normalizeHistoryOptions_Inr split: option.splits)

lemma historyQuery_range:
  "normalizeHistoryOptions env options r = Inr q \<Longrightarrow> range_query_ok env r (historyQuery q)"
  by (auto simp: range_query_ok_def range_ok_def query_lookup dest!: normalizeHistoryOptions_Inr
      split: option.splits)

lemma page_query_ok_append:
  "name \<noteq> ''limit'' \<Longrightarrow> page_query_ok env (q @ query_entry name f v) = page_query_ok env q"
  by (auto simp: page_query_ok_def query_lookup split: option.splits)

lemma range_query_ok_append:
  "name \<noteq> ''from'' \<Longrightarrow> name \<noteq> ''to'' \<Longrightarrow>
     range_query_ok env r (q @ query_entry name f v) = range_query_ok env r q"
  by (auto simp: range_query_ok_def query_lookup split: option.splits)

definition plan_ok :: "client_env \<Rightarrow> client_call \<Rightarrow> read_plan \<Rightarrow> bool" where
  "plan_ok env c p \<longleftrightarrow>
     rp_operation p = operation_of c \<and> rp_validator p = schema_of (operation_of c)
     \<and> (\<forall>name. needed_capability (operation_of c) = Some name \<longrightarrow> advertised env name)
     \<and> (case call_id c of
          None \<Rightarrow> rp_path p = []
        | Some a \<Rightarrow> \<exists>key i. a = StringArg i \<and> 3 \<le> length i \<and> length i \<le> 128
            \<and> \<not> containsControlCharacters i \<and> rp_path p = [(js key, i)]
            \<and> (singletonKey (operation_of c) = Some key \<or> ownerKey (operation_of c) = Some key))
     \<and> page_query_ok env (rp_query p)
     \<and> (\<forall>r. range_of (operation_of c) = Some r \<longrightarrow> range_query_ok env r (rp_query p))"

definition planned :: "client_env \<Rightarrow> call_signal \<Rightarrow> client_call \<Rightarrow> json read_result call \<Rightarrow> bool" where
  "planned env sig c x \<longleftrightarrow> (\<exists>e. x = failed e) \<or> (\<exists>p. x = plan_call env sig p \<and> plan_ok env c p)"

lemma planned_guard: "(\<And>y. r = Inr y \<Longrightarrow> planned env sig c (k y)) \<Longrightarrow> planned env sig c (guard r k)"
  by (cases r) (auto simp: planned_def)

lemma planned_call:
  assumes "plan_ok env c \<lparr>rp_operation = operation, rp_validator = name, rp_path = vs, rp_query = q,
    rp_etag = etag, rp_strong = strong\<rparr>"
  shows "planned env sig c (read_call env sig operation name vs q etag strong)"
  using assms by (auto simp: planned_def plan_call_def intro!: exI)

lemma page_query_ok_Nil [simp]: "page_query_ok env []"
  by (simp add: page_query_ok_def)

lemmas operation_defs = discoverHub_def listVehicles_def getVehicleCurrentState_def listVehicleDrives_def
  getDrive_def listDrivePositions_def listVehicleCharges_def getCharge_def listChargeSamples_def
  listVehicleStates_def listVehicleUpdates_def listDataQuality_def listVehicleMetadata_def
  getMetadata_def getCommand_def history_read_def

lemmas plan_facts = validateId_Inr pageQuery_ok historyQuery_limit historyQuery_range page_query_ok_append
  range_query_ok_append

lemma metadata_page_Inr:
  "normalizeMetadataPageOptions env options kind = Inr (page, k) \<Longrightarrow> normalizePageOptions env options = Inr page"
  by (cases kind; cases "the kind") (auto simp: normalizeMetadataPageOptions_def rbind_Inr_iff)

lemma perform_read_planned: "planned env sig c (perform_read env sig c)"
proof (cases c)
  case (ListVehicleMetadataCall i options kind)
  then show ?thesis
    by (auto simp: operation_defs plan_ok_def plan_facts split: prod.splits
        intro!: planned_guard planned_call dest!: capable_Inr metadata_page_Inr)
qed (simp_all add: operation_defs, auto simp: plan_ok_def plan_facts intro!: planned_guard planned_call
    dest!: capable_Inr)

section \<open>Whose data a read returns\<close>

lemma check_all_Inr: "check_all f xs = Inr u \<longleftrightarrow> (\<forall>x \<in> set xs. f x = Inr ())"
  by (induction xs) (auto simp: rbind_Inr_iff)

lemma requireIdentity_Inr: "requireIdentity entity key expected n = Inr u \<Longrightarrow> member_of entity (js key) = expected"
  by (auto simp: requireIdentity_def read_member_def rbind_Inr_iff split: if_splits)

lemma read_items_Inr: "read_items v = Inr items \<Longrightarrow> member_of v (js ''items'') = Some (JArr items)"
  by (auto simp: read_items_def read_member_def rbind_Inr_iff split: if_splits option.splits json.splits)

text \<open>The items of a page, all with the same owner.\<close>

definition items_owned :: "json \<Rightarrow> string \<Rightarrow> json \<Rightarrow> bool" where
  "items_owned v key owner \<longleftrightarrow>
     (\<exists>items. member_of v (js ''items'') = Some (JArr items)
        \<and> (\<forall>item \<in> set items. member_of item (js key) = Some owner))"

lemma validateReadIdentity_single:
  "validateReadIdentity operation v vs q n = Inr u \<Longrightarrow> singletonKey operation = Some key \<Longrightarrow>
     map_of vs (js key) = Some i \<Longrightarrow> member_of v (js key) = Some (JStr i)"
  by (auto simp: validateReadIdentity_def dest: requireIdentity_Inr)

lemma singleton_no_owner: "ownerKey operation = Some key \<Longrightarrow> singletonKey operation = None"
  by (cases operation) auto

lemma validateReadIdentity_owner:
  assumes "validateReadIdentity operation v vs q n = Inr u" and "ownerKey operation = Some key"
    and "map_of vs (js key) = Some i"
  shows "items_owned v key (JStr i)"
proof -
  obtain items where "read_items v = Inr items"
    "\<forall>item \<in> set items. requireIdentity item key (Some (JStr i)) (n @ ''.items'') = Inr ()"
    using assms singleton_no_owner [OF assms(2)]
    by (auto simp: validateReadIdentity_def rbind_Inr_iff owner_expected_def check_all_Inr)
  then show ?thesis
    unfolding items_owned_def by (auto dest!: read_items_Inr dest: requireIdentity_Inr)
qed

lemma read_call_Inr:
  assumes "read_call env sig operation n vs q etag strong = (Some (Inr x), acts)"
  obtains response where
    "finish_read env operation n vs q (read_requirements (ce_session env) (readOperationDescriptors operation)
       strong etag) sig response = Some (Inr x)"
  using assms by (auto simp: read_call_def failed_def guard_def Let_def obind_Inr_iff
      split: sum.splits prod.splits)

lemma finish_read_Inr:
  assumes "finish_read env operation n vs q rq sig response = Some (Inr x)"
  shows "fst (decodeReadResponse (ce_parser env) (ce_validators env ''validateProblem'') response
       (validator_named env n) n (sg_decode sig) rq) = Some (Inr x)
    \<and> (\<forall>v m. x = Modified v m \<longrightarrow> validateReadIdentity operation v vs q n = Inr ())"
  using assms by (auto simp: finish_read_def obind_Inr_iff)

lemma accepted_version:
  "w \<in> set (acceptedResponseVersions session) \<Longrightarrow>
     w \<le> cs_protocolVersion session \<and> negotiateProtocolVersion (cs_descriptor session) (version_string w) = Inr w"
  unfolding acceptedResponseVersions_def set_filter mem_Collect_eq less_eq_supported_version_def
  by simp

lemma versioned_reads: "operation \<noteq> DiscoverHub \<Longrightarrow> rd_versioned (readOperationDescriptors operation)"
  by (cases operation) (simp_all add: read_desc_def)

definition version_accepted :: "client_session \<Rightarrow> jsstr option \<Rightarrow> bool" where
  "version_accepted session v \<longleftrightarrow>
     (\<exists>w. v = Some (version_string w) \<and> w \<le> cs_protocolVersion session
        \<and> negotiateProtocolVersion (cs_descriptor session) (version_string w) = Inr w)"

lemma metadata_version:
  assumes "metadata_ok rq response m"
    and "rq_acceptedProtocolVersions rq = Some (map version_string (acceptedResponseVersions session))"
  shows "version_accepted session (rm_protocolVersion m)"
proof -
  obtain v where "v \<in> set (map version_string (acceptedResponseVersions session))" "rm_protocolVersion m = Some v"
    using assms unfolding metadata_ok_def by blast
  then show ?thesis using accepted_version by (auto simp: version_accepted_def)
qed

text \<open>C28: A read never returns somebody else's data. When a read operation of the client succeeds with a
  value, the entity it returns is the one whose identifier the caller named, every item of a page belongs to
  the vehicle, drive or charge that was asked for, the value is the JSON body of a 200 response and passed
  the schema validator of the operation, with its numerals, and the protocol version of the response is one the negotiated session accepts.\<close>
theorem read_identity:
  assumes "perform_read env sig c = (Some (Inr (Modified v m)), acts)"
  shows "(\<forall>key i. singletonKey (operation_of c) = Some key \<and> call_id c = Some (StringArg i) \<longrightarrow>
       member_of v (js key) = Some (JStr i))
    \<and> (\<forall>key i. ownerKey (operation_of c) = Some key \<and> call_id c = Some (StringArg i) \<longrightarrow>
       items_owned v key (JStr i))
    \<and> (\<exists>lexemes. validator_named env (schema_of (operation_of c)) (v, lexemes))
    \<and> (\<exists>response. r_status response = 200 \<and> json_body response v)
    \<and> rm_status m = 200
    \<and> (operation_of c \<noteq> DiscoverHub \<longrightarrow> version_accepted (ce_session env) (rm_protocolVersion m))"
proof -
  obtain p where p: "plan_call env sig p = (Some (Inr (Modified v m)), acts)" "plan_ok env c p"
    using perform_read_planned [of env sig c] assms by (auto simp: planned_def failed_def)
  let ?rq = "read_requirements (ce_session env) (readOperationDescriptors (rp_operation p)) (rp_strong p) (rp_etag p)"
  obtain response where f: "finish_read env (rp_operation p) (rp_validator p) (rp_path p) (rp_query p) ?rq sig response
      = Some (Inr (Modified v m))"
    using p(1) unfolding plan_call_def by (rule read_call_Inr)
  note d = finish_read_Inr [OF f]
  have i: "validateReadIdentity (operation_of c) v (rp_path p) (rp_query p) (rp_validator p) = Inr ()"
    using d p(2) by (simp add: plan_ok_def)
  have m: "metadata_ok ?rq response m \<and> r_status response = 200"
    and valid: "json_body response v" "\<exists>lexemes. validator_named env (schema_of (operation_of c)) (v, lexemes)"
    using decodeReadResponse_Inr [OF conjunct1 [OF d]] p(2) by (simp_all add: plan_ok_def)
  have path: "map_of (rp_path p) (js key) = Some i"
    if "call_id c = Some (StringArg i)" "singletonKey (operation_of c) = Some key \<or> ownerKey (operation_of c) = Some key"
    for key i
    using p(2) that singleton_no_owner [of "operation_of c"] by (auto simp: plan_ok_def)
  have "version_accepted (ce_session env) (rm_protocolVersion m)" if "operation_of c \<noteq> DiscoverHub"
    using m metadata_version [of ?rq response m] versioned_reads [OF that] p(2)
    by (simp add: read_requirements_def plan_ok_def)
  moreover have "rm_status m = 200" using m by (simp add: metadata_ok_def)
  ultimately show ?thesis
    using path validateReadIdentity_single [OF i] validateReadIdentity_owner [OF i] valid m by blast
qed

text \<open>C29: No read without its guards. Whatever the caller passes, a read operation either fails before
  anything is sent, or it is one call whose operation is advertised by the Hub, whose identifier has 3 to
  128 characters and no control characters (so it can be no "." or ".." segment), whose limit is an integer
  between 1 and the Hub's maximum, and whose time range is not empty and no longer than the Hub allows.\<close>
theorem reads_are_guarded:
  "(\<exists>e. perform_read env sig c = failed e)
   \<or> (\<exists>p. perform_read env sig c = plan_call env sig p \<and> plan_ok env c p)"
  using perform_read_planned by (simp add: planned_def)

section \<open>Commands\<close>

lemma command_request_trace:
  assumes "request P t caller path init = (out, acts)" and "ri_onDispatch init" and "c_onDispatch caller = None"
  shows "(\<exists>url fi. Fetch url fi \<in> set acts) \<longleftrightarrow> Dispatch \<in> set acts"
    and "\<exists>r. out = Some (Inr r) \<Longrightarrow> Dispatch \<in> set acts"
    and "length (filter (\<lambda>a. \<exists>url fi. a = Fetch url fi) acts) \<le> 1"
proof -
  have "((\<exists>url fi. Fetch url fi \<in> set acts) \<longleftrightarrow> Dispatch \<in> set acts)
    \<and> ((\<exists>r. out = Some (Inr r)) \<longrightarrow> Dispatch \<in> set acts)
    \<and> length (filter (\<lambda>a. \<exists>url fi. a = Fetch url fi) acts) \<le> 1"
    using assms(1)
  proof (cases rule: request_cases)
    case (attempt url hs verb out')
    from attempt(4) assms(2,3) attempt(5) show ?thesis
      by (cases rule: attempt_cases) (auto simp: asked_def dispatched_def callback_error_def split: if_splits)
  qed auto
  then show "(\<exists>url fi. Fetch url fi \<in> set acts) \<longleftrightarrow> Dispatch \<in> set acts"
    "\<exists>r. out = Some (Inr r) \<Longrightarrow> Dispatch \<in> set acts"
    "length (filter (\<lambda>a. \<exists>url fi. a = Fetch url fi) acts) \<le> 1" by blast+
qed

text \<open>The job a command is answered with: the vehicle, the name and the class of the command, at its own
  location.\<close>

definition job_of_command :: "json \<Rightarrow> json write_result \<Rightarrow> bool" where
  "job_of_command body r \<longleftrightarrow>
     (\<forall>key \<in> {''vehicle_id'', ''command'', ''command_class''}.
        member_of (wr_value r) (js key) = member_of body (js key))
     \<and> (\<exists>i e. member_of (wr_value r) (js ''command_id'') = Some (JStr i)
          \<and> encodeURIComponent i = Inr e \<and> rm_location (wr_metadata r) = Some (js ''/v1/commands/'' @ e))"

lemma requireLocationIdentity_Inr:
  assumes "requireLocationIdentity location prefix i n = Inr u"
  obtains s e where "i = Some (JStr s)" "encodeURIComponent s = Inr e" "location = Some (js prefix @ e)"
  using assms by (auto simp: requireLocationIdentity_def rbind_Inr_iff split: option.splits json.splits)

lemma command_identity_Inr:
  assumes "command_identity body r n = Inr u"
  shows "job_of_command body r"
proof -
  have "check_all (\<lambda>key. requireIdentity (wr_value r) key (member_of body (js key)) n)
      [''vehicle_id'', ''command'', ''command_class''] = Inr ()"
    and l: "requireLocationIdentity (rm_location (wr_metadata r)) ''/v1/commands/''
      (member_of (wr_value r) (js ''command_id'')) n = Inr u"
    using assms by (auto simp: command_identity_def rbind_Inr_iff Let_def)
  then have "\<forall>key \<in> {''vehicle_id'', ''command'', ''command_class''}.
      member_of (wr_value r) (js key) = member_of body (js key)"
    unfolding check_all_Inr using requireIdentity_Inr by (metis list.set(2) list.set(1))
  with l show ?thesis unfolding job_of_command_def
    by (elim requireLocationIdentity_Inr) (intro conjI exI, assumption+)
qed

lemma map_outcome:
  "map_option (map_sum f id) x = Some (Inr r) \<longleftrightarrow> x = Some (Inr r)"
  "map_option (map_sum f id) x = Some (Inl e) \<longleftrightarrow> (\<exists>e'. x = Some (Inl e') \<and> e = f e')"
  by (cases x; cases "the x"; auto)+

lemma finish_command_result:
  "finish_command env n status rq sig body response = Some (Inr r) \<Longrightarrow> job_of_command body r"
  "finish_command env n status rq sig body response = Some (Inl e) \<Longrightarrow>
     e = CommandUncertainError \<or> (\<exists>p. e = ProtocolHttpError p)"
proof -
  assume "finish_command env n status rq sig body response = Some (Inr r)"
  then have "command_identity body r n = Inr ()"
    unfolding finish_command_def map_outcome obind_Inr_iff by auto
  then show "job_of_command body r" by (rule command_identity_Inr)
next
  assume "finish_command env n status rq sig body response = Some (Inl e)"
  then obtain e' where "e = uncertain e'"
    unfolding finish_command_def map_outcome by auto
  then show "e = CommandUncertainError \<or> (\<exists>p. e = ProtocolHttpError p)"
    by (cases e') (auto simp: uncertain_def)
qed

text \<open>What the caller may conclude from the end of a command.\<close>

definition command_outcome_ok :: "json write_result call \<Rightarrow> json \<Rightarrow> bool" where
  "command_outcome_ok c body \<longleftrightarrow>
     (let (out, acts) = c
      in length (filter (\<lambda>a. \<exists>url fi. a = Fetch url fi) acts) \<le> 1
         \<and> (case out of
              None \<Rightarrow> True
            | Some (Inr r) \<Rightarrow> Dispatch \<in> set acts \<and> job_of_command body r
            | Some (Inl e) \<Rightarrow>
                if \<exists>url fi. Fetch url fi \<in> set acts
                then e = CommandUncertainError \<or> (\<exists>p. e = ProtocolHttpError p)
                else Dispatch \<notin> set acts))"

lemma command_call_ok: "command_outcome_ok (command_call env sig n options status rq body) body"
proof -
  let ?o = "options\<lparr>wo_onDispatch := True\<rparr>"
  show ?thesis
  proof (cases "buildWriteRequest (ce_number env) (ce_heap env) (writeOperationDescriptors CreateCommand) []
      (cs_protocolVersion (ce_session env)) ?o")
    case (Inl e)
    then show ?thesis by (simp add: command_call_def failed_def command_outcome_ok_def)
  next
    case (Inr req)
    obtain out acts where r: "request (ce_parser env) (cs_apiTransport (ce_session env)) (caller_of sig)
        (br_path req) (br_init req) = (out, acts)" by force
    have d: "ri_onDispatch (br_init req)"
      using Inr by (elim buildWriteRequest_parts) simp
    note t = command_request_trace [OF r d]
    have "c_onDispatch (caller_of sig) = None" by (simp add: caller_of_def)
    note t = t [OF this]
    show ?thesis
    proof (cases out)
      case None
      with r Inr t(3) show ?thesis by (simp add: command_call_def command_outcome_ok_def)
    next
      case (Some res)
      show ?thesis
      proof (cases res)
        case (Inl e)
        with r \<open>buildWriteRequest _ _ _ _ _ _ = _\<close> Some t(1,3) show ?thesis
          by (simp add: command_call_def command_outcome_ok_def)
      next
        case (Inr response)
        with t Some have "Dispatch \<in> set acts" "\<exists>url fi. Fetch url fi \<in> set acts" by blast+
        with r \<open>buildWriteRequest _ _ _ _ _ _ = _\<close> Some Inr t(3) show ?thesis
          by (cases "finish_command env n status rq sig body response"; cases "the (finish_command env n status rq sig body response)")
            (auto simp: command_call_def command_outcome_ok_def dest: finish_command_result)
      qed
    qed
  qed
qed

text \<open>The value a command's body stands for.\<close>

definition command_body :: "client_env \<Rightarrow> jsval \<Rightarrow> json" where
  "command_body env body =
     (case snapshotCommandRequest env body of Inr s \<Rightarrow> sn_value s | Inl _ \<Rightarrow> JNull)"

text \<open>C30: A command that may have reached the Hub is never reported as failed for certain.
  \<^verbatim>\<open>createCommand\<close> fetches at most once, and when it ends: after a fetch it either succeeds,
  with a job for the very vehicle, command and class that was asked for, at its own location, or it rejects
  with the Hub's own problem or with \<^verbatim>\<open>CommandUncertainError\<close>, whatever the transport, the
  decoder, the identity checks or the abort signal did; any other error means that nothing was sent.\<close>
theorem command_uncertainty:
  "command_outcome_ok (createCommand env sig body idempotencyKey) (command_body env body)"
proof -
  have failed: "command_outcome_ok (failed e) b" for e b
    by (simp add: failed_def command_outcome_ok_def)
  have g: "command_outcome_ok (guard r k) b" if "\<And>x. r = Inr x \<Longrightarrow> command_outcome_ok (k x) b" for r :: "'x result" and k b
    using that by (cases r) (simp_all add: failed)
  have v: "v = command_body env body"
    if "snapshotCommandRequest env body = Inr s" "checked_snapshot env s name = Inr v" for s v name
    using that by (auto simp: command_body_def checked_snapshot_def decodeProtocolValue_Inr)
  show ?thesis
    unfolding createCommand_def
    by (intro g) (use v command_call_ok in blast)
qed

section \<open>Writes carry their preconditions\<close>

lemma header_other:
  assumes "header_set b v hs = Inr hs'" and "js_lower a \<noteq> js_lower b"
  shows "header_get a hs' = header_get a hs"
  using header_get_set [OF assms(1), of a] assms(2) by simp

lemma set_optional_get:
  assumes "set_optional name v hs = Inr hs'"
  shows "header_get a hs' =
    (if js_lower a = js_lower (js name) \<and> v \<noteq> None then map_option normalize_value v else header_get a hs)"
  using assms header_get_set [of "js name" "the v" hs hs' a]
  by (auto simp: set_optional_def split: option.splits)

lemma write_body_headers:
  assumes "write_body nm h d b hs = Inr (body, hs')" and "js_lower a \<noteq> js_lower (js ''Content-Type'')"
  shows "header_get a hs' = header_get a hs"
  using assms header_other [of "js ''Content-Type''" _ hs _ a]
  by (cases "the b") (auto simp: write_body_def rbind_Inr_iff split: if_splits option.splits)

text \<open>The headers a write is fetched with are those of its request, but for the credentials.\<close>

lemma request_fetch_headers:
  assumes "request P t caller path init = (out, acts)" and "Fetch url fi \<in> set acts"
    and "ri_ifNoneMatch init = None" and "js_lower name \<noteq> js_lower (js ''Authorization'')"
  shows "header_get name (fi_headers fi) = header_get name (ri_headers init)
    \<and> fi_redirect fi = ri_redirect init \<and> fi_body fi = ri_body init"
  using assms(1)
proof (cases rule: request_cases)
  case (attempt url' hs verb out')
  have hs: "hs = ri_headers init" using attempt(3) assms(3) by simp
  obtain a hs' where "authorizationHeader a hs = Inr hs'" "fi = fetch_init_of verb hs' init"
    using attempt(4) assms(2) by (cases rule: attempt_cases) (auto simp: asked_def dispatched_def split: if_splits)
  moreover from this(1) have "header_get name hs' = header_get name hs"
    using header_other [of "js ''Authorization''" _ hs hs' name] assms(4)
    by (auto simp: authorizationHeader_def split: option.splits if_splits)
  ultimately show ?thesis using hs by (simp add: fetch_init_of_def)
qed (use assms(2) in simp)

text \<open>What a fetch of a call must carry.\<close>

definition sends :: "string \<Rightarrow> (jsstr \<Rightarrow> bool) \<Rightarrow> transport_action \<Rightarrow> bool" where
  "sends name p a =
     (case a of
        Fetch url fi \<Rightarrow> (\<exists>v. header_get (js name) (fi_headers fi) = Some v \<and> p v) \<and> fi_redirect fi = Some ''error''
      | _ \<Rightarrow> True)"

lemma header_names:
  "js_lower (js ''If-Match'') \<noteq> js_lower (js ''Content-Type'')" "js_lower (js ''If-Match'') \<noteq> js_lower (js ''Authorization'')"
  "js_lower (js ''If-Match'') \<noteq> js_lower (js ''Idempotency-Key'')"
  "js_lower (js ''Idempotency-Key'') \<noteq> js_lower (js ''Content-Type'')"
  "js_lower (js ''Idempotency-Key'') \<noteq> js_lower (js ''Authorization'')"
  by (simp_all add: js_eval js_lower_def lower_unit_def)

lemma write_request_headers:
  assumes "buildWriteRequest nm h (writeOperationDescriptors op) vs version options = Inr req"
  shows "wo_ifMatch options = Some tag \<Longrightarrow>
      header_get (js ''If-Match'') (ri_headers (br_init req)) = Some (normalize_value tag)"
    and "wo_idempotencyKey options = Some key \<Longrightarrow>
      header_get (js ''Idempotency-Key'') (ri_headers (br_init req)) = Some (normalize_value key)"
    and "ri_ifNoneMatch (br_init req) = None \<and> ri_redirect (br_init req) = Some ''error''
      \<and> ri_body (br_init req) = (case wo_body options of Some (BodySnapshot s) \<Rightarrow> Some (sn_body s) | _ \<Rightarrow> ri_body (br_init req))"
proof -
  obtain hs0 hs1 hs2 body hs3 where b: "set_optional ''If-Match'' (wo_ifMatch options) hs0 = Inr hs1"
    "set_optional ''Idempotency-Key'' (wo_idempotencyKey options) hs1 = Inr hs2"
    "write_body nm h (writeOperationDescriptors op) (wo_body options) hs2 = Inr (body, hs3)"
    "ri_headers (br_init req) = hs3" "ri_ifNoneMatch (br_init req) = None"
    "ri_redirect (br_init req) = Some ''error''" "ri_body (br_init req) = body"
    using assms by (auto simp: buildWriteRequest_def rbind_Inr_iff)
  show "header_get (js ''If-Match'') (ri_headers (br_init req)) = Some (normalize_value tag)"
    if "wo_ifMatch options = Some tag"
    using write_body_headers [OF b(3) header_names(1)] set_optional_get [OF b(2), of "js ''If-Match''"]
      set_optional_get [OF b(1), of "js ''If-Match''"] header_names(3) b(4) that by simp
  show "header_get (js ''Idempotency-Key'') (ri_headers (br_init req)) = Some (normalize_value key)"
    if "wo_idempotencyKey options = Some key"
    using write_body_headers [OF b(3) header_names(4)] set_optional_get [OF b(2), of "js ''Idempotency-Key''"]
      b(4) that by simp
  have "body = Some (sn_body s)" if "wo_body options = Some (BodySnapshot s)" for s
    using b(3) that by (auto simp: write_body_def rbind_Inr_iff split: if_splits)
  with b show "ri_ifNoneMatch (br_init req) = None \<and> ri_redirect (br_init req) = Some ''error''
      \<and> ri_body (br_init req) = (case wo_body options of Some (BodySnapshot s) \<Rightarrow> Some (sn_body s) | _ \<Rightarrow> ri_body (br_init req))"
    by (auto split: option.splits request_body.splits)
qed

lemma strong_tag_normal: "strongEntityTagPattern s \<Longrightarrow> normalize_value s = s"
  by (cases s) (auto simp: http_space_def intro!: normalize_value_id)

lemma hex_not_space: "is_hex c \<Longrightarrow> \<not> http_space c"
  by (auto simp: http_space_def char_class_defs)

lemma uuid_normal: "uuidPattern s \<Longrightarrow> normalize_value s = s"
proof -
  assume s: "uuidPattern s"
  then have "\<not> http_space c" if "c \<in> set s" for c
    using uuid_shape_units [of is_hex s c] that hex_not_space by (auto simp: uuidPattern_def http_space_def)
  then show ?thesis by (intro normalize_value_id) (cases "s = []"; simp)
qed

lemma call_fetches:
  assumes "buildWriteRequest nm h (writeOperationDescriptors op) vs version options = Inr req"
    and "request P t caller (br_path req) (br_init req) = (out, acts)"
  shows "wo_ifMatch options = Some tag \<Longrightarrow> strongEntityTagPattern tag \<Longrightarrow> p tag \<Longrightarrow> list_all (sends ''If-Match'' p) acts"
    and "wo_idempotencyKey options = Some key \<Longrightarrow> uuidPattern key \<Longrightarrow> p key \<Longrightarrow> list_all (sends ''Idempotency-Key'' p) acts"
proof -
  note w = write_request_headers [OF assms(1)]
  note f = request_fetch_headers [OF assms(2)]
  show "list_all (sends ''If-Match'' p) acts" if "wo_ifMatch options = Some tag" "strongEntityTagPattern tag" "p tag"
    using f [OF _ _ header_names(2)] w(1) [OF that(1)] w(3) that(2,3)
    by (auto simp: list_all_iff sends_def strong_tag_normal split: transport_action.splits)
  show "list_all (sends ''Idempotency-Key'' p) acts" if "wo_idempotencyKey options = Some key" "uuidPattern key" "p key"
    using f [OF _ _ header_names(5)] w(2) [OF that(1)] w(3) that(2,3)
    by (auto simp: list_all_iff sends_def uuid_normal split: transport_action.splits)
qed

lemma write_call_fetches:
  assumes "wo_ifMatch options = Some tag" and "strongEntityTagPattern tag" and "p tag"
  shows "list_all (sends ''If-Match'' p) (snd (write_call env sig op n vs options status rq))"
proof (cases "buildWriteRequest (ce_number env) (ce_heap env) (writeOperationDescriptors op) vs
    (cs_protocolVersion (ce_session env)) options")
  case (Inr req)
  show ?thesis
    using call_fetches(1) [OF Inr, where p = p and tag = tag] assms
    by (auto simp: write_call_def Inr Let_def split: prod.splits)
qed (simp add: write_call_def failed_def)

lemma command_call_fetches:
  assumes "wo_idempotencyKey options = Some key" and "uuidPattern key" and "p key"
  shows "list_all (sends ''Idempotency-Key'' p) (snd (command_call env sig n options status rq body))"
proof (cases "buildWriteRequest (ce_number env) (ce_heap env) (writeOperationDescriptors CreateCommand) []
    (cs_protocolVersion (ce_session env)) (options\<lparr>wo_onDispatch := True\<rparr>)")
  case (Inr req)
  show ?thesis
    using call_fetches(2) [OF Inr, where p = p and key = key] assms
    by (auto simp: command_call_def Inr Let_def simp del: writeOperationDescriptors.simps split: prod.splits)
qed (simp add: command_call_def failed_def)

lemma guard_fetches:
  "(\<And>x. r = Inr x \<Longrightarrow> list_all q (snd (k x))) \<Longrightarrow> list_all q (snd (guard r k))"
  by (cases r) (auto simp: failed_def)

lemma asStrongEntityTag_Inr:
  "asStrongEntityTag a = Inr t \<Longrightarrow> a = StringArg t \<and> strongEntityTagPattern t"
  by (cases a) (auto split: if_splits)

lemma asIdempotencyKey_Inr: "asIdempotencyKey a = Inr k \<Longrightarrow> a = StringArg k \<and> uuidPattern k"
  by (cases a) (auto split: if_splits)

text \<open>C31: Writes are conditional. Whatever \<^verbatim>\<open>replaceMetadata\<close> and
  \<^verbatim>\<open>deleteMetadata\<close> fetch carries an If-Match header that is the strong entity tag the caller
  gave, and whatever \<^verbatim>\<open>createCommand\<close> fetches carries the UUID the caller gave as its
  Idempotency-Key; none of them follows a redirect.\<close>
theorem writes_carry_preconditions:
  "list_all (sends ''If-Match'' (\<lambda>v. ifMatch = StringArg v \<and> strongEntityTagPattern v))
     (snd (replaceMetadata env sig metadataId body ifMatch))
   \<and> list_all (sends ''If-Match'' (\<lambda>v. ifMatch = StringArg v \<and> strongEntityTagPattern v))
     (snd (deleteMetadata env sig metadataId ifMatch))
   \<and> list_all (sends ''Idempotency-Key'' (\<lambda>v. idempotencyKey = StringArg v \<and> uuidPattern v))
     (snd (createCommand env sig command idempotencyKey))"
proof (intro conjI)
  show "list_all (sends ''If-Match'' (\<lambda>v. ifMatch = StringArg v \<and> strongEntityTagPattern v))
     (snd (replaceMetadata env sig metadataId body ifMatch))"
    unfolding replaceMetadata_def
    by (intro guard_fetches write_call_fetches) (auto dest: asStrongEntityTag_Inr)
  show "list_all (sends ''If-Match'' (\<lambda>v. ifMatch = StringArg v \<and> strongEntityTagPattern v))
     (snd (deleteMetadata env sig metadataId ifMatch))"
    unfolding deleteMetadata_def
    by (intro guard_fetches write_call_fetches) (auto dest: asStrongEntityTag_Inr)
  show "list_all (sends ''Idempotency-Key'' (\<lambda>v. idempotencyKey = StringArg v \<and> uuidPattern v))
     (snd (createCommand env sig command idempotencyKey))"
    unfolding createCommand_def
    by (intro guard_fetches command_call_fetches) (auto dest: asIdempotencyKey_Inr)
qed

section \<open>A read to evaluate\<close>

definition sample_state :: jtree where
  "sample_state = ObjT [(js ''vehicle_id'', StrT (js ''abc''))]"

definition sample_env :: client_env where
  "sample_env = \<lparr>ce_session =
       \<lparr>cs_descriptor = sample_descriptor\<lparr>d_capabilities := [\<lparr>cap_id = js ''query.vehicles'', cap_commands = None\<rparr>]\<rparr>,
        cs_protocolVersion = V1_1_0, cs_discoveryTransport = sample_transport FetchPending,
        cs_apiTransport = sample_transport (FetchResponds (json_reply 200 (tagged ''1.1.0'') sample_state)),
        cs_eventTransport = sample_transport FetchPending\<rparr>,
     ce_parser = sample_parser, ce_number = (\<lambda>_. []), ce_validators = (\<lambda>_ _. True),
     ce_compile = (\<lambda>_. None), ce_heap = []\<rparr>"

lemma sample_state_reply: "replies_ok sample_state"
proof (rule plain_replies)
  show "plain_tree sample_state" "text_bound sample_state \<le> 4096"
    by (simp_all add: sample_state_def plain_string_def js_def)
qed

lemma sample_state_value: "json_of sample_state = JObj [(js ''vehicle_id'', JStr (js ''abc''))]"
  by (simp add: sample_state_def) (rule own_members_names; simp add: js_def is_digit_def in_range_def)

lemma sample_accepts: "V1_1_0 \<in> set (acceptedResponseVersions (ce_session sample_env))"
proof -
  let ?d = "cs_descriptor (ce_session sample_env)"
  have n: "negotiable ?d (js ''1.1.0'') (version_of V1_1_0) (version_of V1_2_0) (version_of V1_0_0)"
    using parse_supported [of V1_2_0] parse_supported [of V1_1_0] parse_supported [of V1_0_0]
    by (simp add: negotiable_def sample_env_def sample_descriptor_def version_string.simps)
  have e: "eligible (pi_supported_versions (d_protocol ?d)) (version_of V1_1_0) (version_of V1_0_0) v
      \<longleftrightarrow> v = V1_0_0 \<or> v = V1_1_0" for v
    by (cases v) (simp_all add: eligible_def sample_env_def sample_descriptor_def compare_version_of
        less_eq_supported_version_def compareVersions_ge version_string.simps)
  have "0 \<le> compareVersions (version_of V1_1_0) (version_of V1_0_0)"
    by (simp add: compareVersions_ge compare_version_of less_eq_supported_version_def)
  then have "negotiateProtocolVersion ?d (js ''1.1.0'') = Inr V1_1_0"
    unfolding negotiate_result [OF n] e by (auto simp: locked_major less_eq_supported_version_def)
  then show ?thesis
    unfolding acceptedResponseVersions_def set_filter by (simp add: sample_env_def)
qed

lemma sample_read_request:
  "\<exists>req. buildReadRequest (\<lambda>_. []) (readOperationDescriptors GetVehicleCurrentState) [(js ''vehicle_id'', js ''abc'')] []
       V1_1_0 None False = Inr req \<and> br_path req = js ''/v1/vehicles/abc/current''
     \<and> ri_headers (br_init req) = [(js ''teslatlas-protocol-version'', js ''1.1.0'')]
     \<and> ri_ifNoneMatch (br_init req) = None \<and> ri_method (br_init req) = None \<and> \<not> ri_onDispatch (br_init req)"
proof -
  let ?d = "readOperationDescriptors GetVehicleCurrentState" and ?vs = "[(js ''vehicle_id'', js ''abc'')]"
  have t: "rd_pathTemplate ?d = js ''/v1/vehicles/'' @ uLBRACE # js ''vehicle_id'' @ uRBRACE # js ''/current''"
    by (simp add: read_desc_def js_append [symmetric] uLBRACE_def uRBRACE_def js_eval)
  have e: "encodeURIComponent (js ''abc'') = Inr (js ''abc'')"
    by (rule encode_unreserved) (simp add: uri_unreserved_def js_eval)
  have tail: "replace_names vs (js ''/current'') = Inr (js ''/current'', [])" for vs
    using replace_names_lit [of "js ''/current''" vs "[]"] by (simp add: js_eval uLBRACE_def)
  have "replace_names ?vs (rd_pathTemplate ?d) = Inr (js ''/v1/vehicles/abc/current'', [js ''vehicle_id''])"
    unfolding t
    by (subst replace_names_lit, simp add: js_eval uLBRACE_def)
      (subst replace_names_param, simp, simp add: js_eval uRBRACE_def, simp add: e tail js_append [symmetric])
  then have "interpolatePath (rd_pathTemplate ?d) ?vs = Inr (js ''/v1/vehicles/abc/current'')"
    by (simp add: interpolatePath_def starts_with_def) (simp add: js_eval)
  then show ?thesis
    by (auto simp: buildReadRequest_def Let_def header_set_def header_put_def normalize_value_def valid_value_def
        http_space_def read_desc_def query_pairs_def version_header_def js_eval js_lower_def lower_unit_def)
qed

lemma sample_current_state:
  "\<exists>m acts. perform_read sample_env quiet (GetVehicleCurrentStateCall (StringArg (js ''abc'')) None)
     = (Some (Inr (Modified (json_of sample_state) m)), acts)"
proof -
  let ?vs = "[(js ''vehicle_id'', js ''abc'')]" and ?r = "json_reply 200 (tagged ''1.1.0'') sample_state"
  let ?rq = "read_requirements (ce_session sample_env) (readOperationDescriptors GetVehicleCurrentState) False None"
  obtain req where req: "buildReadRequest (\<lambda>_. []) (readOperationDescriptors GetVehicleCurrentState) ?vs [] V1_1_0 None False = Inr req"
    "br_path req = js ''/v1/vehicles/abc/current''"
    "ri_headers (br_init req) = [(js ''teslatlas-protocol-version'', js ''1.1.0'')]"
    "ri_ifNoneMatch (br_init req) = None" "ri_method (br_init req) = None" "\<not> ri_onDispatch (br_init req)"
    using sample_read_request by (elim exE conjE)
  have "resolveRequestUrl sample_parser (sample_url [uSLASH]) (br_path req) = Inr (sample_url (br_path req))"
    by (simp add: req(2) resolveRequestUrl_def sample_parser_def sample_url_def starts_with_def)
      (simp add: js_eval containsControlCharacters_units control_unit_def)
  moreover have "\<not> header_has (js ''Authorization'') (ri_headers (br_init req))"
    by (simp add: req(3) header_has_def header_get_def js_eval js_lower_def lower_unit_def)
  moreover have "\<exists>hs. authorizationHeader (Some [66, 120]) (ri_headers (br_init req)) = Inr hs"
    by (simp add: authorizationHeader_def header_set_def normalize_value_def http_space_def valid_value_def
        containsControlCharacters_units control_unit_def)
  ultimately obtain acts where acts: "request sample_parser (sample_transport (FetchResponds ?r)) (caller_of quiet)
      (br_path req) (br_init req) = (Some (Inr ?r), acts)"
    using req(4,5,6) by (auto simp: request_def attemptRequest_def caller_of_def quiet_def sample_transport_def
        callAuthorization_def waitForAuthorization_def Let_def)
  have pattern: "protocolVersionPattern (js ''1.1.0'')"
    by (simp add: protocolVersionPattern_def canonical_decimal_def js_eval)
  have accepted: "case rq_acceptedProtocolVersions (?rq\<lparr>rq_requireEntityTag := True\<rparr>) of None \<Rightarrow> True
      | Some vs \<Rightarrow> js ''1.1.0'' \<in> set vs"
    using imageI [OF sample_accepts, of version_string]
    by (simp add: read_requirements_def read_desc_def)
  have "rq_requireLocation (?rq\<lparr>rq_requireEntityTag := True\<rparr>) = False" by (simp add: read_requirements_def)
  note metadata = metadata_reply [OF this pattern accepted, of sample_parser 200 sample_state "''validateCurrentState''"]
  have "r_status ?r = 200" by (simp add: json_reply_def)
  moreover have "decodeProtocolValue (json_of sample_state, Some (json_of (mirror_tree sample_state))) (\<lambda>_. True) n
      = Inr (json_of sample_state)" for n
    using sample_state_reply by (simp add: decodeProtocolValue_Inr replies_ok_def)
  ultimately obtain m where decode: "fst (decodeReadResponse sample_parser (\<lambda>_. True) ?r (\<lambda>_. True)
      ''validateCurrentState'' no_signal ?rq) = Some (Inr (Modified (json_of sample_state) m))"
    using metadata readJson_reply [OF sample_state_reply]
    by (simp add: decodeReadResponse_cases decodeJsonSuccess_def no_signal_def throwIfAborted_def is_aborted_def
        requireMediaType_reply modified_def)
  have identity: "validateReadIdentity GetVehicleCurrentState (json_of sample_state) ?vs [] ''validateCurrentState'' = Inr ()"
    by (simp add: validateReadIdentity_def requireIdentity_def read_member_def sample_state_value)
  have "capable sample_env ''query.vehicles'' = Inr \<lparr>cap_id = js ''query.vehicles'', cap_commands = None\<rparr>"
    by (simp add: capable_def requireCapability_def sample_env_def asCapabilityId_def js_def
        containsControlCharacters_units control_unit_def)
  moreover have "validateId (StringArg (js ''abc'')) = Inr (js ''abc'')"
    by (simp add: js_def containsControlCharacters_units control_unit_def)
  moreover have "finish_read sample_env GetVehicleCurrentState ''validateCurrentState'' ?vs [] ?rq quiet ?r
      = Some (Inr (Modified (json_of sample_state) m))"
    using decode identity
    by (simp add: finish_read_def validator_named_def sample_env_def quiet_def throwIfAlreadyAborted_def
        del: readOperationDescriptors.simps)
  ultimately show ?thesis
    using req(1) acts
    by (auto simp: getVehicleCurrentState_def normalizeEntityTag_def read_call_def quiet_def sample_env_def
        simp del: readOperationDescriptors.simps)
qed

theorem read_identity_witness:
  "\<exists>m acts. perform_read sample_env quiet (GetVehicleCurrentStateCall (StringArg (js ''abc'')) None)
       = (Some (Inr (Modified (json_of sample_state) m)), acts)
     \<and> member_of (json_of sample_state) (js ''vehicle_id'') = Some (JStr (js ''abc''))
     \<and> (\<exists>lexemes. ce_validators sample_env ''validateCurrentState'' (json_of sample_state, lexemes))
     \<and> rm_status m = 200 \<and> version_accepted (ce_session sample_env) (rm_protocolVersion m)"
proof -
  obtain m acts where r: "perform_read sample_env quiet (GetVehicleCurrentStateCall (StringArg (js ''abc'')) None)
     = (Some (Inr (Modified (json_of sample_state) m)), acts)"
    using sample_current_state by blast
  have "validator_named sample_env ''validateCurrentState'' = ce_validators sample_env ''validateCurrentState''"
    by (simp add: validator_named_def)
  with read_identity [OF r] r show ?thesis by auto
qed

end
