(* ===== verification/Pagination.thy ===== *)
theory Pagination
  imports ResponseDecoder Models
begin

text \<open>
  \<^verbatim>\<open>iteratePages\<close> of \<^verbatim>\<open>client/operations.ts\<close>. The asynchronous generator is a
  state (\<open>pager\<close>) and what one call of its \<^verbatim>\<open>next\<close> does to it; \<open>pages\<close> calls it
  \<open>n\<close> times. The load the caller passes is a parameter, with the number of loads before it as an
  argument, since a server need not answer the same request twice in the same way.
\<close>

section \<open>The generator\<close>

record 'p cursor_page =
  next_cursor :: "jsstr option"
  page_value :: 'p

record 'o page_request =
  pq_rest :: 'o
  pq_cursor :: "jsstr option"

type_synonym ('o, 'p) page_loader = "nat \<Rightarrow> 'o page_request \<Rightarrow> 'p cursor_page read_result outcome"

text \<open>Where the body of the generator stands: before its first load, suspended at the
  \<^verbatim>\<open>yield\<close> of a page with that next cursor, returned (or thrown), or awaiting a load that does
  not settle.\<close>

datatype generator_point = AtLoad | AtYield "jsstr option" | Returned | Awaiting

record 'o pager =
  pg_options :: "'o page_request"
  pg_seen :: "jsstr list"
  pg_point :: generator_point
  pg_asked :: "'o page_request list"

datatype 'p iteration = PageYielded "'p cursor_page" | PagesDone | PagesThrew exn | PagesPending

definition iteratePages :: "'o page_request \<Rightarrow> 'o pager" where
  "iteratePages firstOptions =
     \<lparr>pg_options = firstOptions,
      pg_seen = (case pq_cursor firstOptions of None \<Rightarrow> [] | Some c \<Rightarrow> [c]),
      pg_point = AtLoad, pg_asked = []\<rparr>"

text \<open>\<^verbatim>\<open>await load(options)\<close>, and what follows up to the \<^verbatim>\<open>yield\<close> or a
  \<^verbatim>\<open>return\<close>.\<close>

definition load_page :: "('o, 'p) page_loader \<Rightarrow> 'o pager \<Rightarrow> 'p iteration \<times> 'o pager" where
  "load_page load g =
     (let g1 = g\<lparr>pg_asked := pg_asked g @ [pg_options g]\<rparr>
      in case load (length (pg_asked g)) (pg_options g) of
           None \<Rightarrow> (PagesPending, g1\<lparr>pg_point := Awaiting\<rparr>)
         | Some (Inl e) \<Rightarrow> (PagesThrew e, g1\<lparr>pg_point := Returned\<rparr>)
         | Some (Inr (NotModified _)) \<Rightarrow> (PagesDone, g1\<lparr>pg_point := Returned\<rparr>)
         | Some (Inr (Modified page _)) \<Rightarrow> (PageYielded page, g1\<lparr>pg_point := AtYield (next_cursor page)\<rparr>))"

text \<open>A call of \<^verbatim>\<open>next\<close>. After a \<^verbatim>\<open>yield\<close> the cursor of the page decides: none
  ends the iteration, one seen before is an error, a new one is the next load's.\<close>

definition next_page :: "('o, 'p) page_loader \<Rightarrow> 'o pager \<Rightarrow> 'p iteration \<times> 'o pager" where
  "next_page load g =
     (case pg_point g of
        AtLoad \<Rightarrow> load_page load g
      | AtYield None \<Rightarrow> (PagesDone, g\<lparr>pg_point := Returned\<rparr>)
      | AtYield (Some c) \<Rightarrow>
          if c \<in> set (pg_seen g)
          then (PagesThrew (ProtocolValidationError ''pagination.next_cursor''), g\<lparr>pg_point := Returned\<rparr>)
          else load_page load (g\<lparr>pg_seen := c # pg_seen g, pg_options := pg_options g\<lparr>pq_cursor := Some c\<rparr>\<rparr>)
      | Returned \<Rightarrow> (PagesDone, g)
      | Awaiting \<Rightarrow> (PagesPending, g))"

fun pages :: "('o, 'p) page_loader \<Rightarrow> nat \<Rightarrow> 'o pager \<Rightarrow> 'p iteration list \<times> 'o pager" where
  "pages load 0 g = ([], g)"
| "pages load (Suc n) g =
     (let (i, g1) = next_page load g; (is, g2) = pages load n g1 in (i # is, g2))"

section \<open>What it asks for\<close>

text \<open>The loads are answered by the pages yielded, in order; the last may have had another end.\<close>

definition asked_cursors :: "'o pager \<Rightarrow> jsstr option list" where
  "asked_cursors g = map pq_cursor (pg_asked g)"

fun yielded :: "'p iteration list \<Rightarrow> 'p cursor_page list" where
  "yielded [] = []"
| "yielded (PageYielded p # is) = p # yielded is"
| "yielded (_ # is) = yielded is"

text \<open>The invariant of a run that began with \<open>first\<close> and has yielded \<open>ps\<close>: which
  cursors have been asked for, by where the generator stands.\<close>

definition chained :: "'o page_request \<Rightarrow> 'p cursor_page list \<Rightarrow> 'o pager \<Rightarrow> bool" where
  "chained first ps g \<longleftrightarrow>
     (case pg_point g of
        AtLoad \<Rightarrow> g = iteratePages first \<and> ps = []
      | AtYield c \<Rightarrow> ps \<noteq> [] \<and> next_cursor (last ps) = c
          \<and> asked_cursors g = pq_cursor first # map next_cursor (butlast ps)
      | _ \<Rightarrow> asked_cursors g = pq_cursor first # map next_cursor ps
          \<or> (ps \<noteq> [] \<and> asked_cursors g = pq_cursor first # map next_cursor (butlast ps)))"

definition pager_inv :: "'o page_request \<Rightarrow> 'p cursor_page list \<Rightarrow> 'o pager \<Rightarrow> bool" where
  "pager_inv first ps g \<longleftrightarrow>
     chained first ps g
     \<and> distinct (asked_cursors g)
     \<and> (\<forall>c. Some c \<in> set (pq_cursor (pg_options g) # asked_cursors g) \<longrightarrow> c \<in> set (pg_seen g))
     \<and> None \<notin> set (tl (asked_cursors g))
     \<and> list_all (\<lambda>q. pq_rest q = pq_rest first) (pg_options g # pg_asked g)"

lemma load_page_cases:
  assumes "load_page load g = (i, g')"
  shows "\<exists>pt. g' = g\<lparr>pg_asked := pg_asked g @ [pg_options g], pg_point := pt\<rparr>
    \<and> ((\<exists>p. i = PageYielded p \<and> pt = AtYield (next_cursor p)) \<or> (yielded [i] = [] \<and> pt \<in> {Returned, Awaiting}))"
  using assms by (auto simp: load_page_def Let_def split: option.splits sum.splits read_result.splits)

lemma asked_cursors_snoc [simp]:
  "asked_cursors (g\<lparr>pg_asked := pg_asked g @ [q], pg_point := pt\<rparr>) = asked_cursors g @ [pq_cursor q]"
  by (simp add: asked_cursors_def)

lemma load_page_inv:
  assumes "load_page load g = (i, g')" and "pq_cursor (pg_options g) \<notin> set (asked_cursors g)"
    and "asked_cursors g @ [pq_cursor (pg_options g)] = pq_cursor first # map next_cursor ps"
    and "distinct (asked_cursors g)"
    and "\<forall>c. Some c \<in> set (pq_cursor (pg_options g) # asked_cursors g) \<longrightarrow> c \<in> set (pg_seen g)"
    and "None \<notin> set (tl (asked_cursors g @ [pq_cursor (pg_options g)]))"
    and "list_all (\<lambda>q. pq_rest q = pq_rest first) (pg_options g # pg_asked g)"
  shows "pager_inv first (ps @ yielded [i]) g'"
proof -
  obtain pt where g': "g' = g\<lparr>pg_asked := pg_asked g @ [pg_options g], pg_point := pt\<rparr>"
    and pt: "(\<exists>p. i = PageYielded p \<and> pt = AtYield (next_cursor p)) \<or> (yielded [i] = [] \<and> pt \<in> {Returned, Awaiting})"
    using load_page_cases [OF assms(1)] by blast
  have asked: "asked_cursors g' = asked_cursors g @ [pq_cursor (pg_options g)]" by (simp add: g')
  have "chained first (ps @ yielded [i]) g'"
    using pt asked assms(3) by (elim disjE exE conjE) (auto simp: chained_def g' simp del: list.map)
  moreover have "distinct (asked_cursors g')" using assms(2,4) by (simp add: asked)
  moreover have "\<forall>c. Some c \<in> set (pq_cursor (pg_options g') # asked_cursors g') \<longrightarrow> c \<in> set (pg_seen g')"
    unfolding asked using assms(5) by (simp add: g')
  moreover have "None \<notin> set (tl (asked_cursors g'))" unfolding asked by (rule assms(6))
  moreover have "list_all (\<lambda>q. pq_rest q = pq_rest first) (pg_options g' # pg_asked g')"
    using assms(7) by (simp add: g')
  ultimately show ?thesis by (simp add: pager_inv_def)
qed

lemma next_page_inv:
  assumes "pager_inv first ps g" and "next_page load g = (i, g')"
  shows "pager_inv first (ps @ yielded [i]) g'"
proof (cases "pg_point g")
  case AtLoad
  then have g: "g = iteratePages first" "ps = []"
    using assms(1) by (simp_all add: pager_inv_def chained_def)
  have "load_page load g = (i, g')" using AtLoad assms(2) by (simp add: next_page_def)
  then show ?thesis
    by (rule load_page_inv) (auto simp: g iteratePages_def asked_cursors_def split: option.splits)
next
  case (AtYield c)
  show ?thesis
  proof (cases "\<exists>d. c = Some d \<and> d \<notin> set (pg_seen g)")
    case False
    then have "g' = g\<lparr>pg_point := Returned\<rparr> \<and> yielded [i] = []"
      using assms(2) AtYield by (cases c) (auto simp: next_page_def)
    moreover have "asked_cursors (g\<lparr>pg_point := Returned\<rparr>) = asked_cursors g"
      by (simp add: asked_cursors_def)
    ultimately show ?thesis using assms(1) AtYield
      by (auto simp: pager_inv_def chained_def)
  next
    case True
    then obtain d where d: "c = Some d" "d \<notin> set (pg_seen g)" by blast
    let ?g = "g\<lparr>pg_seen := d # pg_seen g, pg_options := pg_options g\<lparr>pq_cursor := Some d\<rparr>\<rparr>"
    have inv: "ps \<noteq> []" "next_cursor (last ps) = Some d"
        "asked_cursors g = pq_cursor first # map next_cursor (butlast ps)"
      using assms(1) AtYield d by (auto simp: pager_inv_def chained_def)
    have load: "load_page load ?g = (i, g')" using assms(2) AtYield d by (simp add: next_page_def)
    have chain: "asked_cursors ?g @ [pq_cursor (pg_options ?g)] = pq_cursor first # map next_cursor ps"
      using inv(2,3) append_butlast_last_id [OF inv(1), THEN arg_cong, of "map next_cursor"]
      by (simp add: asked_cursors_def)
    have same: "asked_cursors ?g = asked_cursors g" by (simp add: asked_cursors_def)
    show ?thesis
      using load _ chain
    proof (rule load_page_inv)
      show "pq_cursor (pg_options ?g) \<notin> set (asked_cursors ?g)"
        using assms(1) d(2) unfolding same by (auto simp: pager_inv_def)
      show "distinct (asked_cursors ?g)" using assms(1) unfolding same by (simp add: pager_inv_def)
      show "\<forall>e. Some e \<in> set (pq_cursor (pg_options ?g) # asked_cursors ?g) \<longrightarrow> e \<in> set (pg_seen ?g)"
        using assms(1) unfolding same by (auto simp: pager_inv_def)
      show "None \<notin> set (tl (asked_cursors ?g @ [pq_cursor (pg_options ?g)]))"
        using assms(1) inv(3) unfolding same by (simp add: pager_inv_def)
      show "list_all (\<lambda>q. pq_rest q = pq_rest first) (pg_options ?g # pg_asked ?g)"
        using assms(1) by (simp add: pager_inv_def)
    qed
  qed
qed (use assms in \<open>auto simp: next_page_def\<close>)

lemma pages_inv:
  "pager_inv first ps g \<Longrightarrow> pages load n g = (is, g') \<Longrightarrow> pager_inv first (ps @ yielded is) g'"
proof (induction n arbitrary: ps g "is")
  case (Suc n)
  obtain i g1 where i: "next_page load g = (i, g1)" by fastforce
  obtain rest where rest: "pages load n g1 = (rest, g')" "is = i # rest"
    using Suc(3) i by (auto split: prod.splits)
  have "yielded is = yielded [i] @ yielded rest" using rest(2) by (cases i) auto
  then show ?case using Suc(1) [OF next_page_inv [OF Suc(2) i] rest(1)] by simp
qed simp

lemma start_inv: "pager_inv first [] (iteratePages first)"
  by (auto simp: pager_inv_def chained_def iteratePages_def asked_cursors_def)

lemma chained_asked:
  assumes "chained first ps g"
  shows "asked_cursors g = take (length (pg_asked g)) (pq_cursor first # map next_cursor ps)
    \<and> length ps \<le> length (pg_asked g) \<and> length (pg_asked g) \<le> Suc (length ps)"
proof -
  have l: "length (asked_cursors g) = length (pg_asked g)" by (simp add: asked_cursors_def)
  have ps: "map next_cursor ps = map next_cursor (butlast ps) @ [next_cursor (last ps)]" if "ps \<noteq> []"
    using append_butlast_last_id [OF that] by (metis map_append list.simps(8,9))
  consider "asked_cursors g = [] \<and> ps = []" | "asked_cursors g = pq_cursor first # map next_cursor ps"
    | "ps \<noteq> []" "asked_cursors g = pq_cursor first # map next_cursor (butlast ps)"
    using assms by (cases "pg_point g") (auto simp: chained_def iteratePages_def asked_cursors_def)
  then show ?thesis
  proof cases
    case 3
    then have "length (pg_asked g) = length ps" using l by (simp add: Suc_leI [of 0])
    moreover have "take (length ps) (pq_cursor first # map next_cursor (butlast ps) @ [x])
        = pq_cursor first # map next_cursor (butlast ps)" for x
      using 3(1) by (cases ps) (simp_all add: length_butlast)
    ultimately show ?thesis using 3 ps by simp
  qed (use l in auto)
qed

text \<open>C32: whatever the load answers, an iteration asks for the first options and then, page after
  page, for the next cursor of the page it has just yielded: it never asks for the same cursor twice,
  changes nothing else of the options, and yields every page it is given.\<close>

theorem pagination_follows_cursors:
  "let (is, g) = pages load n (iteratePages first); ps = yielded is
   in distinct (asked_cursors g)
      \<and> asked_cursors g = take (length (pg_asked g)) (pq_cursor first # map next_cursor ps)
      \<and> length ps \<le> length (pg_asked g) \<and> length (pg_asked g) \<le> Suc (length ps)
      \<and> list_all (\<lambda>q. pq_rest q = pq_rest first) (pg_asked g)"
proof -
  obtain "is" g where r: "pages load n (iteratePages first) = (is, g)" by fastforce
  have "pager_inv first (yielded is) g" using pages_inv [OF start_inv r] by simp
  with chained_asked [of first "yielded is" g] show ?thesis by (simp add: r pager_inv_def Let_def)
qed

section \<open>That it ends\<close>

definition finished :: "'o pager \<Rightarrow> bool" where
  "finished g \<longleftrightarrow> pg_point g \<in> {Returned, Awaiting}"

lemma next_page_asks:
  assumes "next_page load g = (i, g')"
  shows "finished g' \<or> (length (pg_asked g') = Suc (length (pg_asked g)) \<and> \<not> finished g)"
  using assms
  by (auto simp: next_page_def finished_def split: generator_point.splits option.splits if_splits
      dest!: load_page_cases)

lemma next_page_finished: "finished g \<Longrightarrow> next_page load g = (i, g') \<Longrightarrow> g' = g"
  by (auto simp: next_page_def finished_def)

lemma pages_finished: "finished g \<Longrightarrow> pages load n g = (is, g') \<Longrightarrow> g' = g"
proof (induction n arbitrary: "is")
  case (Suc n)
  obtain i g1 where i: "next_page load g = (i, g1)" by fastforce
  with Suc next_page_finished [OF Suc(2) i] show ?case by (auto split: prod.splits)
qed simp

lemma pages_ask:
  "pages load n g = (is, g') \<Longrightarrow> finished g' \<or> length (pg_asked g') = n + length (pg_asked g)"
proof (induction n arbitrary: g "is")
  case (Suc n)
  obtain i g1 where i: "next_page load g = (i, g1)" by fastforce
  then obtain rest where rest: "pages load n g1 = (rest, g')" using Suc(2) by (auto split: prod.splits)
  with Suc(1) [OF rest] next_page_asks [OF i] pages_finished [of g1 load n] show ?case by auto
qed simp

lemma yielded_served:
  assumes "\<And>k q p m. load k q = Some (Inr (Modified p m)) \<Longrightarrow> P p"
  shows "pages load n g = (is, g') \<Longrightarrow> list_all P (yielded is)"
proof (induction n arbitrary: g "is")
  case (Suc n)
  obtain i g1 where i: "next_page load g = (i, g1)" by fastforce
  then obtain rest where rest: "pages load n g1 = (rest, g')" "is = i # rest"
    using Suc(2) by (auto split: prod.splits)
  have "P p" if "i = PageYielded p" for p
    using i that assms
    by (auto simp: next_page_def load_page_def Let_def
        split: generator_point.splits option.splits if_splits sum.splits read_result.splits)
  then show ?case using Suc(1) [OF rest(1)] rest(2) by (cases i) auto
qed simp

lemma never_awaits:
  assumes "pages load n g = (is, g')" and settles: "\<And>k q. load k q \<noteq> None" and "pg_point g \<noteq> Awaiting"
  shows "pg_point g' \<noteq> Awaiting"
  using assms(1,3)
proof (induction n arbitrary: g "is")
  case (Suc n)
  obtain i g1 where i: "next_page load g = (i, g1)" by fastforce
  then have "pg_point g1 \<noteq> Awaiting"
    using Suc(3) settles [THEN notE]
    by (auto simp: next_page_def load_page_def Let_def
        split: generator_point.splits option.splits if_splits sum.splits read_result.splits)
  with Suc i show ?case by (auto split: prod.splits)
qed simp

text \<open>C33: when the next cursors a server hands out come from a finite set, the iteration is over,
  returned or thrown, after at most two calls more than that set has members, provided every load
  settles.\<close>

theorem pagination_ends:
  assumes "finite C" and "\<And>k q p m c. load k q = Some (Inr (Modified p m)) \<Longrightarrow> next_cursor p = Some c \<Longrightarrow> c \<in> C"
    and "\<And>k q. load k q \<noteq> None" and "card C + 2 \<le> n"
  shows "pg_point (snd (pages load n (iteratePages first))) = Returned"
proof -
  obtain "is" g where r: "pages load n (iteratePages first) = (is, g)" by fastforce
  let ?as = "asked_cursors g"
  have inv: "pager_inv first (yielded is) g" using pages_inv [OF start_inv r] by simp
  have "list_all (\<lambda>p. \<forall>c. next_cursor p = Some c \<longrightarrow> c \<in> C) (yielded is)"
    using r by (rule yielded_served [rotated]) (use assms(2) in blast)
  then have "set (map next_cursor (yielded is)) \<subseteq> {None} \<union> Some ` C"
    by (auto simp: list_all_iff) (metis not_Some_eq image_eqI)
  moreover have "?as = take (length (pg_asked g)) (pq_cursor first # map next_cursor (yielded is))"
    using inv chained_asked [of first "yielded is" g] by (simp add: pager_inv_def)
  then have "set (tl ?as) \<subseteq> set (map next_cursor (yielded is))"
    by (metis list.sel(3) set_take_subset tl_take)
  ultimately have "set (tl ?as) \<subseteq> insert None (Some ` C)" by auto
  moreover have "None \<notin> set (tl ?as)" using inv by (simp add: pager_inv_def)
  ultimately have "set (tl ?as) \<subseteq> Some ` C" by blast
  then have "card (set (tl ?as)) \<le> card C"
    using assms(1) by (meson card_image_le card_mono finite_imageI le_trans)
  moreover have "card (set (tl ?as)) = length ?as - 1"
    using inv by (simp add: pager_inv_def distinct_card distinct_tl)
  ultimately have "length (pg_asked g) < n" using assms(4) by (simp add: asked_cursors_def)
  then have "finished g" using pages_ask [OF r] by (auto simp: iteratePages_def)
  moreover have "pg_point g \<noteq> Awaiting"
    using r assms(3) by (rule never_awaits) (simp add: iteratePages_def)
  ultimately show ?thesis by (simp add: finished_def r)
qed

text \<open>A server of two pages: \<open>a\<close> leads to \<open>b\<close>, which is the last.\<close>

definition page_metadata :: response_metadata where
  "page_metadata = \<lparr>rm_status = 200, rm_etag = None, rm_location = None, rm_requestId = None,
     rm_protocolVersion = None\<rparr>"

definition two_pages :: "(unit, nat) page_loader" where
  "two_pages k q = Some (Inr (Modified
     (if pq_cursor q = None then \<lparr>next_cursor = Some [98], page_value = 1\<rparr>
      else \<lparr>next_cursor = None, page_value = 2\<rparr>) page_metadata))"

theorem pagination_ends_witness:
  "pg_point (snd (pages two_pages 3 (iteratePages \<lparr>pq_rest = (), pq_cursor = None\<rparr>))) = Returned"
  by (rule pagination_ends [where C = "{[98]}"]) (auto simp: two_pages_def split: if_splits)

end
