(* ===== verification/SseStream.thy ===== *)
theory SseStream
  imports SseReference Utf8 Http
begin

text \<open>
  \<^verbatim>\<open>parseSseStream\<close> of \<^verbatim>\<open>events/sse-parser.ts\<close>: the asynchronous generator that
  reads a byte stream, decodes it in windows of 4096 bytes, feeds the parser and yields its items. The
  environment is explicit: what each \<^verbatim>\<open>reader.read()\<close> resolves to is a script, and the state
  of the abort signal at the \<open>n\<close>-th check is an oracle. \<open>pull\<close> is one
  \<^verbatim>\<open>next()\<close> of the generator, \<open>drain\<close> a consumer that takes everything. The lemmas
  show that the yielded items are those of the reference reading of the decoded bytes, whatever the
  chunks of the transport.
\<close>

section \<open>The generator\<close>

record sse_stream =
  st_locked :: bool
  st_started :: bool
  st_parser :: sse_parser
  st_decoder :: utf8_state
  st_queue :: "sse_item list"
  st_windows :: "byte list list"
  st_reads :: "read_outcome list"
  st_completed :: bool
  st_checks :: nat

text \<open>The stream may be locked already, in which case \<^verbatim>\<open>getReader\<close> throws.\<close>

definition parseSseStream :: "bool \<Rightarrow> read_outcome list \<Rightarrow> jsstr option \<Rightarrow> sse_stream" where
  "parseSseStream locked reads initialLastEventId =
     \<lparr>st_locked = locked, st_started = False,
      st_parser = new_parser (case initialLastEventId of None \<Rightarrow> [] | Some i \<Rightarrow> i),
      st_decoder = utf8_init, st_queue = [], st_windows = [], st_reads = reads,
      st_completed = False, st_checks = 0\<rparr>"

definition windowSize :: nat where
  "windowSize = 4096"

fun windows_of :: "nat \<Rightarrow> byte list \<Rightarrow> byte list list" where
  "windows_of n bs = (if bs = [] \<or> n = 0 then [] else take n bs # windows_of n (drop n bs))"

declare windows_of.simps [simp del]

text \<open>\<^verbatim>\<open>throwIfAborted\<close> at the current check: what it throws, if it throws.\<close>

definition check_signal :: "signal_oracle \<Rightarrow> sse_stream \<Rightarrow> exn option \<times> sse_stream" where
  "check_signal sig st =
     (let s = sig (st_checks st)
      in (if is_aborted s then Some (abort_reason s) else None, st\<lparr>st_checks := Suc (st_checks st)\<rparr>))"

text \<open>Feed a decoded text and queue the items it completes.\<close>

definition feed_text :: "jsstr \<Rightarrow> sse_stream \<Rightarrow> sse_stream result" where
  "feed_text text st =
     rbind (feed (st_parser st) text) (\<lambda>p.
       let (items, p') = takeItems p in Inr (st\<lparr>st_parser := p', st_queue := items\<rparr>))"

definition feed_window :: "byte list \<Rightarrow> sse_stream \<Rightarrow> sse_stream result" where
  "feed_window w st =
     (let (d, text) = decode_bytes (st_decoder st) w in feed_text text (st\<lparr>st_decoder := d\<rparr>))"

text \<open>
  The body of \<^verbatim>\<open>try { result = await reader.read(); throwIfAborted(); } catch\<close>: a rejected
  read, or an abort seen after it, ends in the handler, which checks the signal once more.
\<close>

definition read_handler :: "signal_oracle \<Rightarrow> sse_stream \<Rightarrow> exn \<times> sse_stream" where
  "read_handler sig st =
     (case check_signal sig st of
        (Some e, st') \<Rightarrow> (e, st')
      | (None, st') \<Rightarrow> (SseStreamReadError, st'))"

definition take_read :: "signal_oracle \<Rightarrow> read_outcome \<Rightarrow> sse_stream \<Rightarrow> sse_stream result \<times> sse_stream" where
  "take_read sig outcome st =
     (case outcome of
        ReadRejected \<Rightarrow> (let (e, st') = read_handler sig st in (Inl e, st'))
      | _ \<Rightarrow>
          (case check_signal sig st of
             (Some _, st') \<Rightarrow> (let (e, st'') = read_handler sig st' in (Inl e, st''))
           | (None, st') \<Rightarrow>
               (case outcome of
                  ReadChunk bs \<Rightarrow> (Inr (st'\<lparr>st_windows := windows_of windowSize bs\<rparr>), st')
                | _ \<Rightarrow> (feed_text (decode_flush (st_decoder st')) (st'\<lparr>st_completed := True\<rparr>),
                        st'\<lparr>st_completed := True\<rparr>))))"

text \<open>What one \<^verbatim>\<open>next()\<close> ends in; \<open>Pending\<close> is a read that does not settle.\<close>

datatype pull_result = Yield sse_item | Finished | Threw exn | Pending

lemma check_signal_cases:
  obtains (live) "check_signal sig st = (None, st\<lparr>st_checks := Suc (st_checks st)\<rparr>)"
  | (aborted) e where "check_signal sig st = (Some e, st\<lparr>st_checks := Suc (st_checks st)\<rparr>)"
  by (cases "sig (st_checks st)") (auto simp: check_signal_def Let_def)

lemma feed_text_frame:
  assumes "feed_text text st = Inr st'"
  shows "st_reads st' = st_reads st \<and> st_windows st' = st_windows st \<and> st_checks st' = st_checks st \<and>
    st_completed st' = st_completed st \<and> st_decoder st' = st_decoder st"
  using assms by (auto simp: feed_text_def takeItems_def rbind_Inr_iff)

lemma feed_window_frame:
  assumes "feed_window w st = Inr st'"
  shows "st_reads st' = st_reads st \<and> st_windows st' = st_windows st \<and> st_checks st' = st_checks st \<and>
    st_completed st' = st_completed st"
  using assms feed_text_frame by (force simp: feed_window_def split: prod.splits)

lemma take_read_frame:
  assumes "take_read sig r st = (Inr st', st'')"
  shows "st_reads st' = st_reads st"
proof (cases rule: check_signal_cases [of sig st])
  case live
  with assms show ?thesis
  proof (cases r)
    case ReadDone
    with live assms have "feed_text (decode_flush (st_decoder st))
        (st\<lparr>st_checks := Suc (st_checks st), st_completed := True\<rparr>) = Inr st'"
      by (auto simp: take_read_def)
    from feed_text_frame [OF this] show ?thesis by simp
  qed (auto simp: take_read_def split: prod.splits)
next
  case (aborted e)
  with assms show ?thesis by (cases r) (auto simp: take_read_def split: prod.splits)
qed

function pull_loop :: "signal_oracle \<Rightarrow> sse_stream \<Rightarrow> pull_result \<times> sse_stream" where
  "pull_loop sig st =
     (case st_queue st of
        item # rest \<Rightarrow>
          (case check_signal sig st of
             (Some e, st') \<Rightarrow> (Threw e, st')
           | (None, st') \<Rightarrow> (Yield item, st'\<lparr>st_queue := rest\<rparr>))
      | [] \<Rightarrow>
          (case st_windows st of
             w # ws \<Rightarrow>
               (case feed_window w (st\<lparr>st_windows := ws\<rparr>) of
                  Inl e \<Rightarrow> (Threw e, st)
                | Inr st' \<Rightarrow> pull_loop sig st')
           | [] \<Rightarrow>
               (if st_completed st then (Finished, st)
                else (case st_reads st of
                        [] \<Rightarrow> (Pending, st)
                      | r # rs \<Rightarrow>
                          (case take_read sig r (st\<lparr>st_reads := rs\<rparr>) of
                             (Inl e, st') \<Rightarrow> (Threw e, st')
                           | (Inr st', _) \<Rightarrow> pull_loop sig st')))))"
  by pat_completeness auto
termination
  by (relation "measures [\<lambda>(sig, st). length (st_reads st), \<lambda>(sig, st). length (st_windows st)]")
    (auto dest: feed_window_frame take_read_frame [OF sym])

declare pull_loop.simps [simp del]

definition pull :: "signal_oracle \<Rightarrow> sse_stream \<Rightarrow> pull_result \<times> sse_stream" where
  "pull sig st =
     (if st_started st then pull_loop sig st
      else if st_locked st then (Threw SseStreamReadError, st)
      else (case check_signal sig (st\<lparr>st_started := True\<rparr>) of
              (Some e, st') \<Rightarrow> (Threw e, st')
            | (None, st') \<Rightarrow> pull_loop sig st'))"

text \<open>
  The \<^verbatim>\<open>finally\<close> of the generator, run when it ends for whatever reason (a return of the
  consumer included): the reader it holds is released, after being cancelled unless the body ended.
\<close>

definition cancels_reader :: "sse_stream \<Rightarrow> bool" where
  "cancels_reader st \<longleftrightarrow> st_started st \<and> \<not> st_completed st"

section \<open>A consumer that takes everything\<close>

lemma pull_queue:
  "st_queue st = item # rest \<Longrightarrow> pull_loop sig st =
     (case check_signal sig st of
        (Some e, st') \<Rightarrow> (Threw e, st')
      | (None, st') \<Rightarrow> (Yield item, st'\<lparr>st_queue := rest\<rparr>))"
  by (subst pull_loop.simps) simp

lemma pull_window:
  "st_queue st = [] \<Longrightarrow> st_windows st = w # ws \<Longrightarrow> pull_loop sig st =
     (case feed_window w (st\<lparr>st_windows := ws\<rparr>) of Inl e \<Rightarrow> (Threw e, st) | Inr st' \<Rightarrow> pull_loop sig st')"
  by (subst pull_loop.simps) simp

lemma pull_end:
  "st_queue st = [] \<Longrightarrow> st_windows st = [] \<Longrightarrow> st_completed st \<Longrightarrow> pull_loop sig st = (Finished, st)"
  "st_queue st = [] \<Longrightarrow> st_windows st = [] \<Longrightarrow> \<not> st_completed st \<Longrightarrow> st_reads st = [] \<Longrightarrow>
     pull_loop sig st = (Pending, st)"
  by (subst pull_loop.simps, simp)+

lemma pull_read:
  "st_queue st = [] \<Longrightarrow> st_windows st = [] \<Longrightarrow> \<not> st_completed st \<Longrightarrow> st_reads st = r # rs \<Longrightarrow>
     pull_loop sig st =
     (case take_read sig r (st\<lparr>st_reads := rs\<rparr>) of
        (Inl e, st') \<Rightarrow> (Threw e, st')
      | (Inr st', _) \<Rightarrow> pull_loop sig st')"
  by (subst pull_loop.simps) simp

lemma pull_loop_yields:
  "pull_loop sig st = (Yield item, st') \<Longrightarrow>
     length (st_reads st') < length (st_reads st) \<or>
     (st_reads st' = st_reads st \<and>
       (length (st_windows st') < length (st_windows st) \<or>
        (st_windows st' = st_windows st \<and> length (st_queue st') < length (st_queue st))))"
proof (induction sig st rule: pull_loop.induct)
  case (1 sig st)
  consider (q) i rest where "st_queue st = i # rest"
    | (w) w ws where "st_queue st = []" "st_windows st = w # ws"
    | (e) "st_queue st = []" "st_windows st = []" "st_completed st"
    | (p) "st_queue st = []" "st_windows st = []" "\<not> st_completed st" "st_reads st = []"
    | (r) r rs where "st_queue st = []" "st_windows st = []" "\<not> st_completed st" "st_reads st = r # rs"
    by (meson neq_Nil_conv)
  then show ?case
  proof cases
    case q
    with 1(3) show ?thesis
      by (cases rule: check_signal_cases [of sig st]) (auto simp: pull_queue)
  next
    case w
    with 1(3) obtain st1 where st1: "feed_window w (st\<lparr>st_windows := ws\<rparr>) = Inr st1"
      "pull_loop sig st1 = (Yield item, st')" by (auto simp: pull_window split: sum.splits)
    from 1(2) [OF w st1] feed_window_frame [OF st1(1)] w show ?thesis by auto
  next
    case r
    with 1(3) obtain st1 st2 where st1: "take_read sig r (st\<lparr>st_reads := rs\<rparr>) = (Inr st1, st2)"
      "pull_loop sig st1 = (Yield item, st')"
      by (auto simp: pull_read split: sum.splits prod.splits)
    have "length (st_reads st') \<le> length (st_reads st1)"
      using 1(1) [OF r st1(1) [symmetric] refl st1(2)] by auto
    with take_read_frame [OF st1(1)] r show ?thesis by simp
  qed (use 1(3) in \<open>simp_all add: pull_end\<close>)
qed

text \<open>The items yielded to a consumer that takes all, and how the generator ended.\<close>

function drain :: "signal_oracle \<Rightarrow> sse_stream \<Rightarrow> sse_item list \<times> pull_result \<times> sse_stream" where
  "drain sig st =
     (case pull_loop sig st of
        (Yield item, st') \<Rightarrow> (let (items, end, final) = drain sig st' in (item # items, end, final))
      | (end, st') \<Rightarrow> ([], end, st'))"
  by pat_completeness auto
termination
  by (relation "measures [\<lambda>(sig, st). length (st_reads st), \<lambda>(sig, st). length (st_windows st),
        \<lambda>(sig, st). length (st_queue st)]")
    (auto dest!: pull_loop_yields [OF sym])

declare drain.simps [simp del]

section \<open>Items already queued do not matter to the parser\<close>

definition prepend :: "sse_item list \<Rightarrow> sse_parser \<Rightarrow> sse_parser" where
  "prepend xs p = p\<lparr>p_items := xs @ p_items p\<rparr>"

lemma prepend_frame [simp]:
  "p_items (prepend xs p) = xs @ p_items p"
  "p_dataFragments (prepend xs p) = p_dataFragments p"
  "p_lineFragments (prepend xs p) = p_lineFragments p"
  "p_pendingData (prepend xs p) = p_pendingData p"
  "p_pendingLine (prepend xs p) = p_pendingLine p"
  "p_emptyDataLines (prepend xs p) = p_emptyDataLines p"
  "p_lineBytes (prepend xs p) = p_lineBytes p"
  "p_eventDataBytes (prepend xs p) = p_eventDataBytes p"
  "p_skipLineFeed (prepend xs p) = p_skipLineFeed p"
  "p_atStart (prepend xs p) = p_atStart p"
  "p_eventType (prepend xs p) = p_eventType p"
  "p_lastEventId (prepend xs p) = p_lastEventId p"
  "p_blockIdChanged (prepend xs p) = p_blockIdChanged p"
  "prepend xs p\<lparr>p_dataFragments := z0\<rparr> = prepend xs (p\<lparr>p_dataFragments := z0\<rparr>)"
  "prepend xs p\<lparr>p_lineFragments := z1\<rparr> = prepend xs (p\<lparr>p_lineFragments := z1\<rparr>)"
  "prepend xs p\<lparr>p_pendingData := z2\<rparr> = prepend xs (p\<lparr>p_pendingData := z2\<rparr>)"
  "prepend xs p\<lparr>p_pendingLine := z3\<rparr> = prepend xs (p\<lparr>p_pendingLine := z3\<rparr>)"
  "prepend xs p\<lparr>p_emptyDataLines := z4\<rparr> = prepend xs (p\<lparr>p_emptyDataLines := z4\<rparr>)"
  "prepend xs p\<lparr>p_lineBytes := z5\<rparr> = prepend xs (p\<lparr>p_lineBytes := z5\<rparr>)"
  "prepend xs p\<lparr>p_eventDataBytes := z6\<rparr> = prepend xs (p\<lparr>p_eventDataBytes := z6\<rparr>)"
  "prepend xs p\<lparr>p_skipLineFeed := z7\<rparr> = prepend xs (p\<lparr>p_skipLineFeed := z7\<rparr>)"
  "prepend xs p\<lparr>p_atStart := z8\<rparr> = prepend xs (p\<lparr>p_atStart := z8\<rparr>)"
  "prepend xs p\<lparr>p_eventType := z9\<rparr> = prepend xs (p\<lparr>p_eventType := z9\<rparr>)"
  "prepend xs p\<lparr>p_lastEventId := z10\<rparr> = prepend xs (p\<lparr>p_lastEventId := z10\<rparr>)"
  "prepend xs p\<lparr>p_blockIdChanged := z11\<rparr> = prepend xs (p\<lparr>p_blockIdChanged := z11\<rparr>)"
  "prepend xs p\<lparr>p_items := ys\<rparr> = p\<lparr>p_items := ys\<rparr>"
  by (simp_all add: prepend_def)

lemma prepend_push: "p\<lparr>p_items := xs @ ys\<rparr> = prepend xs (p\<lparr>p_items := ys\<rparr>)"
  by (simp add: prepend_def)

definition with_items :: "sse_item list \<Rightarrow> sse_parser result \<Rightarrow> sse_parser result" where
  "with_items xs r = rbind r (\<lambda>p. Inr (prepend xs p))"

lemma with_items_simps [simp]:
  "with_items xs (Inl e) = Inl e"
  "with_items xs (Inr p) = Inr (prepend xs p)"
  "with_items xs (if b then r else r') = (if b then with_items xs r else with_items xs r')"
  by (simp_all add: with_items_def)

lemma prepend_appendLine: "appendLine u (prepend xs p) = prepend xs (appendLine u p)"
  by (simp add: appendLine_def split: prod.splits)

lemma prepend_appendData: "appendData u (prepend xs p) = prepend xs (appendData u p)"
  by (simp add: appendData_def split: prod.splits)

lemma prepend_flush: "flushEmptyData (prepend xs p) = prepend xs (flushEmptyData p)"
  by (simp add: flushEmptyData_def prepend_appendData)

lemmas prepend_buffers = prepend_appendLine prepend_appendData prepend_flush

lemma prepend_add_fragment: "add_fragment u (prepend xs p) = with_items xs (add_fragment u p)"
  by (simp add: add_fragment_def Let_def prepend_buffers)

lemma prepend_data_field: "data_field v (prepend xs p) = with_items xs (data_field v p)"
  by (simp add: data_field_def Let_def prepend_buffers)

lemma prepend_dispatch: "dispatchBlock (prepend xs p) = prepend xs (dispatchBlock p)"
  by (simp add: dispatchBlock_def Let_def prepend_buffers prepend_push)

lemma prepend_handleLine: "handleLine l (prepend xs p) = with_items xs (handleLine l p)"
  by (simp add: handleLine_def Let_def prepend_data_field prepend_dispatch id_field_def retry_field_def
      prepend_push split: option.splits)

lemma prepend_end_line: "end_line d (prepend xs p) = with_items xs (end_line d p)"
  by (cases "handleLine (concat (p_lineFragments p) @ p_pendingLine p) p")
    (simp_all add: end_line_def prepend_handleLine)

lemma prepend_feed_loop: "feed_loop (prepend xs p) s = with_items xs (feed_loop p s)"
proof (induction p s rule: feed_loop_induct)
  case (Skip p s)
  then show ?case by (simp add: feed_loop_skip)
next
  case (Last p c s)
  then show ?case
    by (simp add: feed_loop_line feed_line_Nil prepend_add_fragment)
next
  case (Line p c s d rest)
  let ?a = "add_fragment (next_fragment (c # s)) (p\<lparr>p_skipLineFeed := False\<rparr>)"
  have l: "feed_loop p' (c # s) = rbind (rbind (add_fragment (next_fragment (c # s)) (p'\<lparr>p_skipLineFeed := False\<rparr>))
      (end_line d)) (\<lambda>p2. feed_loop p2 rest)" if "p_skipLineFeed p' = p_skipLineFeed p" for p'
    using Line(1,2) that by (simp add: feed_loop_line feed_line_Cons rbind_assoc)
  show ?case
    unfolding l [of "prepend xs p", simplified] l [OF refl]
    using Line.IH by (cases ?a; cases "rbind ?a (end_line d)")
      (auto simp: prepend_add_fragment prepend_end_line)
qed simp

lemma prepend_feed: "feed (prepend xs p) s = with_items xs (feed p s)"
  by (simp add: feed_def prepend_feed_loop)

lemma feed_taken:
  "feed p s = with_items (p_items p) (feed (snd (takeItems p)) s)"
proof -
  have "p = prepend (p_items p) (snd (takeItems p))" by (simp add: prepend_def takeItems_def)
  then show ?thesis by (metis prepend_feed)
qed

section \<open>What a consumer gets\<close>

text \<open>Windows are the bytes cut in pieces.\<close>

lemma concat_windows: "0 < n \<Longrightarrow> concat (windows_of n bs) = bs"
proof (induction n bs rule: windows_of.induct)
  case (1 n bs)
  then show ?case by (subst windows_of.simps) auto
qed

lemma windows_bounded: "w \<in> set (windows_of n bs) \<Longrightarrow> length w \<le> n"
proof (induction n bs rule: windows_of.induct)
  case (1 n bs)
  then show ?case by (subst (asm) (2) windows_of.simps) (auto split: if_splits)
qed

text \<open>The decoded text of what is left, with or without the end of the stream.\<close>

definition text_from :: "bool \<Rightarrow> utf8_state \<Rightarrow> byte list \<Rightarrow> jsstr" where
  "text_from ended d bs =
     (let (d', text) = decode_bytes d bs in text @ (if ended then decode_flush d' else []))"

lemma text_from_append:
  "decode_bytes d a = (d', t) \<Longrightarrow> text_from ended d (a @ b) = t @ text_from ended d' b"
  by (simp add: text_from_def decode_bytes_append split: prod.splits)

lemma check_live [simp]: "check_signal live st = (None, st\<lparr>st_checks := Suc (st_checks st)\<rparr>)"
  by (simp add: check_signal_def)

definition stream_at ::
    "bool \<Rightarrow> sse_parser \<Rightarrow> utf8_state \<Rightarrow> sse_item list \<Rightarrow> byte list list \<Rightarrow> read_outcome list \<Rightarrow> nat \<Rightarrow> sse_stream" where
  "stream_at c p d q ws rs n =
     \<lparr>st_locked = False, st_started = True, st_parser = p, st_decoder = d, st_queue = q,
      st_windows = ws, st_reads = rs, st_completed = c, st_checks = n\<rparr>"

definition ends_with :: "sse_stream \<Rightarrow> sse_item list \<Rightarrow> pull_result \<Rightarrow> bool" where
  "ends_with st items e \<longleftrightarrow> (\<exists>final. drain live st = (items, e, final))"

lemma drain_same: "pull_loop sig st = pull_loop sig st' \<Longrightarrow> drain sig st = drain sig st'"
  by (simp add: drain.simps [of sig st] drain.simps [of sig st'])

lemma ends_with_queue:
  "(\<And>n. ends_with (stream_at c p d [] ws rs n) items e) \<Longrightarrow>
     ends_with (stream_at c p d q ws rs n) (q @ items) e"
proof (induction q arbitrary: n)
  case (Cons i q)
  have "pull_loop live (stream_at c p d (i # q) ws rs n) = (Yield i, stream_at c p d q ws rs (Suc n))"
    by (subst pull_queue) (simp_all add: stream_at_def)
  moreover obtain final where "drain live (stream_at c p d q ws rs (Suc n)) = (q @ items, e, final)"
    using Cons.IH [OF Cons.prems, of "Suc n"] by (auto simp: ends_with_def)
  ultimately show ?case
    by (simp add: ends_with_def drain.simps [of live "stream_at c p d (i # q) ws rs n"])
qed simp

lemma feed_text_stream:
  "feed p t = Inr r \<Longrightarrow> feed_text t (stream_at c p d q ws rs n) =
     Inr (stream_at c (r\<lparr>p_items := []\<rparr>) d (p_items r) ws rs n)"
  by (simp add: feed_text_def stream_at_def takeItems_def)

lemma window_step:
  assumes "decode_bytes d w = (d', t)"
  shows "pull_loop live (stream_at c p d [] (w # ws) rs n) =
    (case feed p t of
       Inl e \<Rightarrow> (Threw e, stream_at c p d [] (w # ws) rs n)
     | Inr r \<Rightarrow> pull_loop live (stream_at c (r\<lparr>p_items := []\<rparr>) d' (p_items r) ws rs n))"
proof -
  have "feed_window w (stream_at c p d [] (w # ws) rs n\<lparr>st_windows := ws\<rparr>) =
      (case feed p t of Inl e \<Rightarrow> Inl e
       | Inr r \<Rightarrow> Inr (stream_at c (r\<lparr>p_items := []\<rparr>) d' (p_items r) ws rs n))"
    by (simp add: feed_window_def stream_at_def assms feed_text_def takeItems_def rbind_def split: sum.splits)
  then show ?thesis
    by (subst pull_window [where w = w and ws = ws], simp_all only:)
      (cases "feed p t"; simp add: stream_at_def)+
qed

lemma stream_at_read: "stream_at False p d [] [] (r # rs) n\<lparr>st_reads := rs\<rparr> = stream_at False p d [] [] rs n"
  by (simp add: stream_at_def)

lemma pull_read_at:
  "pull_loop sig (stream_at False p d [] [] (r # rs) n) =
     (case take_read sig r (stream_at False p d [] [] rs n) of
        (Inl e, st') \<Rightarrow> (Threw e, st')
      | (Inr st', _) \<Rightarrow> pull_loop sig st')"
  by (subst pull_read [of _ r rs]) (simp_all add: stream_at_read, simp_all add: stream_at_def)

lemma read_live:
  "take_read live (ReadChunk bs) (stream_at False p d [] [] rs n) =
     (Inr (stream_at False p d [] (windows_of windowSize bs) rs (Suc n)), stream_at False p d [] [] rs (Suc n))"
  "take_read live ReadDone (stream_at False p d [] [] rs n) =
     (feed_text (decode_flush d) (stream_at True p d [] [] rs (Suc n)), stream_at True p d [] [] rs (Suc n))"
  "take_read live ReadRejected (stream_at False p d [] [] rs n) =
     (Inl SseStreamReadError, stream_at False p d [] [] rs (Suc n))"
  by (simp_all add: take_read_def read_handler_def stream_at_def)

lemma chunk_step:
  "pull_loop live (stream_at False p d [] [] (ReadChunk bs # rs) n) =
     pull_loop live (stream_at False p d [] (windows_of windowSize bs) rs (Suc n))"
  by (simp add: pull_read_at read_live)

lemma done_step:
  "pull_loop live (stream_at False p d [] [] (ReadDone # rs) n) =
    (case feed p (decode_flush d) of
       Inl e \<Rightarrow> (Threw e, stream_at True p d [] [] rs (Suc n))
     | Inr r \<Rightarrow> pull_loop live (stream_at True (r\<lparr>p_items := []\<rparr>) d (p_items r) [] rs (Suc n)))"
proof -
  have "feed_text (decode_flush d) (stream_at True p d [] [] rs (Suc n)) =
      (case feed p (decode_flush d) of Inl e \<Rightarrow> Inl e
       | Inr r \<Rightarrow> Inr (stream_at True (r\<lparr>p_items := []\<rparr>) d (p_items r) [] rs (Suc n)))"
    by (simp add: stream_at_def feed_text_def takeItems_def rbind_def split: sum.splits)
  then show ?thesis
    by (cases "feed p (decode_flush d)") (simp_all add: pull_read_at read_live)
qed

lemma rejected_step:
  "pull_loop live (stream_at False p d [] [] (ReadRejected # rs) n) =
    (Threw SseStreamReadError, stream_at False p d [] [] rs (Suc n))"
  by (simp add: pull_read_at read_live)

text \<open>
  The rest of a stream, from a state with nothing queued: the items are those the parser queues when
  fed the whole remaining text at once, and an error of the parser ends the generator.
\<close>

definition rest_correct ::
    "bool \<Rightarrow> byte list list \<Rightarrow> sse_parser \<Rightarrow> utf8_state \<Rightarrow> sse_item list \<Rightarrow> byte list list \<Rightarrow> bool" where
  "rest_correct ended cs p d q ws \<longleftrightarrow>
     (let st = (\<lambda>n. stream_at False p d q ws
                 (map ReadChunk cs @ [if ended then ReadDone else ReadRejected]) n)
      in case feed p (text_from ended d (concat ws @ concat cs)) of
           Inl e \<Rightarrow> \<exists>items. \<forall>n. ends_with (st n) items (Threw e)
         | Inr r \<Rightarrow> \<forall>n. ends_with (st n) (q @ p_items r)
                      (if ended then Finished else Threw SseStreamReadError))"

definition ready :: "sse_parser \<Rightarrow> utf8_state \<Rightarrow> bool" where
  "ready p d \<longleftrightarrow> parser_inv p \<and> p_items p = [] \<and> utf8_inv d"

lemma rest_queue:
  assumes "rest_correct ended cs p d [] ws"
  shows "rest_correct ended cs p d q ws"
proof (cases "feed p (text_from ended d (concat ws @ concat cs))")
  case (Inl e)
  then obtain items where "ends_with (stream_at False p d [] ws
      (map ReadChunk cs @ [if ended then ReadDone else ReadRejected]) n) items (Threw e)" for n
    using assms by (auto simp: rest_correct_def Let_def)
  from ends_with_queue [OF this, of q] have "\<exists>items. \<forall>n. ends_with (stream_at False p d q ws
      (map ReadChunk cs @ [if ended then ReadDone else ReadRejected]) n) items (Threw e)" by blast
  with Inl show ?thesis unfolding rest_correct_def Let_def by simp
next
  case (Inr r)
  with assms have "ends_with (stream_at False p d [] ws
      (map ReadChunk cs @ [if ended then ReadDone else ReadRejected]) n) (p_items r)
      (if ended then Finished else Threw SseStreamReadError)" for n
    by (auto simp: rest_correct_def Let_def)
  from ends_with_queue [OF this, of q] Inr show ?thesis
    unfolding rest_correct_def Let_def by auto
qed

lemma ends_with_same:
  "pull_loop live st = pull_loop live st' \<Longrightarrow> ends_with st items e = ends_with st' items e"
  unfolding ends_with_def by (subst drain_same) simp_all

lemma ends_with_threw: "pull_loop live st = (Threw e, st') \<Longrightarrow> ends_with st [] (Threw e)"
  by (simp add: ends_with_def drain.simps [of live st])

abbreviation body_script :: "bool \<Rightarrow> byte list list \<Rightarrow> read_outcome list" where
  "body_script ended cs \<equiv> map ReadChunk cs @ [if ended then ReadDone else ReadRejected]"

lemma rest_correct_error:
  assumes "feed p (text_from ended d (concat ws @ concat cs)) = Inl e"
    and "\<And>n. ends_with (stream_at False p d q ws (body_script ended cs) n) items (Threw e)"
  shows "rest_correct ended cs p d q ws"
proof -
  have "\<exists>items. \<forall>n. ends_with (stream_at False p d q ws (body_script ended cs) n) items (Threw e)"
    using assms(2) by blast
  with assms(1) show ?thesis unfolding rest_correct_def Let_def by simp
qed

lemma rest_correct_items:
  assumes "feed p (text_from ended d (concat ws @ concat cs)) = Inr r"
    and "\<And>n. ends_with (stream_at False p d q ws (body_script ended cs) n) (q @ p_items r)
      (if ended then Finished else Threw SseStreamReadError)"
  shows "rest_correct ended cs p d q ws"
  using assms unfolding rest_correct_def Let_def by simp

lemma rest_correct_errorD:
  assumes "rest_correct ended cs p d q ws" and "feed p (text_from ended d (concat ws @ concat cs)) = Inl e"
  obtains items where "\<And>n. ends_with (stream_at False p d q ws (body_script ended cs) n) items (Threw e)"
  using assms unfolding rest_correct_def Let_def by auto

lemma rest_correct_itemsD:
  assumes "rest_correct ended cs p d q ws" and "feed p (text_from ended d (concat ws @ concat cs)) = Inr r"
  shows "ends_with (stream_at False p d q ws (body_script ended cs) n) (q @ p_items r)
    (if ended then Finished else Threw SseStreamReadError)"
  using assms unfolding rest_correct_def Let_def by simp

lemma rest_window:
  assumes rd: "ready p d" and tail: "\<And>p d. ready p d \<Longrightarrow> rest_correct ended cs p d [] ws"
  shows "rest_correct ended cs p d [] (w # ws)"
proof -
  obtain d' t where dec: "decode_bytes d w = (d', t)" by fastforce
  from rd decode_bytes_clean [OF _ dec] have clean: "utf8_inv d'" "ends_clean t"
    by (simp_all add: ready_def)
  let ?T = "text_from ended d' (concat ws @ concat cs)"
  have "text_from ended d (concat (w # ws) @ concat cs) = t @ ?T"
    using text_from_append [OF dec] by simp
  moreover have "line_segmented p" using rd by (simp add: ready_def parser_inv_def)
  ultimately have T: "feed p (text_from ended d (concat (w # ws) @ concat cs)) = rbind (feed p t) (\<lambda>r. feed r ?T)"
    using feed_append ends_clean_cut [OF clean(2)] by simp
  show ?thesis
  proof (cases "feed p t")
    case (Inl e)
    have "ends_with (stream_at False p d [] (w # ws) rs n) [] (Threw e)" for rs n
      by (rule ends_with_threw) (simp add: window_step [OF dec] Inl)
    moreover have "feed p (text_from ended d (concat (w # ws) @ concat cs)) = Inl e"
      unfolding T Inl by simp
    ultimately show ?thesis by (rule rest_correct_error [rotated])
  next
    case (Inr r)
    let ?r = "r\<lparr>p_items := []\<rparr>"
    have "parser_inv r" by (rule feed_inv [OF _ Inr]) (use rd in \<open>simp add: ready_def\<close>)
    then have "ready ?r d'" using clean(1) by (simp add: ready_def)
    from rest_queue [OF tail [OF this]]
    have rest: "rest_correct ended cs ?r d' (p_items r) ws" .
    have step: "ends_with (stream_at False p d [] (w # ws) rs n) =
        ends_with (stream_at False ?r d' (p_items r) ws rs n)" for rs n
      by (rule ext, rule ext, rule ends_with_same) (simp only: window_step [OF dec] Inr sum.case)
    have f: "feed p (text_from ended d (concat (w # ws) @ concat cs)) = with_items (p_items r) (feed ?r ?T)"
      using feed_taken [of r ?T] T Inr by (simp add: takeItems_def)
    show ?thesis
    proof (cases "feed ?r ?T")
      case (Inl e)
      obtain items where "ends_with (stream_at False p d [] (w # ws) (body_script ended cs) n) items (Threw e)" for n
        using rest_correct_errorD [OF rest Inl] unfolding step by blast
      moreover have "feed p (text_from ended d (concat (w # ws) @ concat cs)) = Inl e"
        unfolding f Inl by simp
      ultimately show ?thesis by (rule rest_correct_error [rotated])
    next
      case (Inr q)
      have "ends_with (stream_at False p d [] (w # ws) (body_script ended cs) n) ([] @ p_items (prepend (p_items r) q))
        (if ended then Finished else Threw SseStreamReadError)" for n
        using rest_correct_itemsD [OF rest Inr] unfolding step by simp
      moreover have "feed p (text_from ended d (concat (w # ws) @ concat cs)) = Inr (prepend (p_items r) q)"
        unfolding f Inr by simp
      ultimately show ?thesis by (rule rest_correct_items [rotated])
    qed
  qed
qed

lemma rest_windows:
  "ready p d \<Longrightarrow> (\<And>p d. ready p d \<Longrightarrow> rest_correct ended cs p d [] []) \<Longrightarrow>
     rest_correct ended cs p d [] ws"
  by (induction ws arbitrary: p d) (simp_all add: rest_window)

lemma rest_done:
  assumes "ready p d"
  shows "rest_correct True [] p d [] []"
proof (cases "feed p (decode_flush d)")
  case (Inl e)
  then have "ends_with (stream_at False p d [] [] [ReadDone] n) [] (Threw e)" for n
    by (intro ends_with_threw) (simp add: done_step)
  with Inl show ?thesis by (auto simp: rest_correct_def text_from_def)
next
  case (Inr r)
  have fin: "pull_loop live (stream_at True p d [] [] [] n) = (Finished, stream_at True p d [] [] [] n)" for p n
    by (rule pull_end) (simp_all add: stream_at_def)
  then have "ends_with (stream_at True p d [] [] [] n) [] Finished" for p n
    by (simp add: ends_with_def drain.simps [of live "stream_at True p d [] [] [] n"])
  from ends_with_queue [OF this] have
    "ends_with (stream_at True (r\<lparr>p_items := []\<rparr>) d (p_items r) [] [] n) (p_items r) Finished" for n
    by fastforce
  then have "ends_with (stream_at False p d [] [] [ReadDone] n) (p_items r) Finished" for n
    using ends_with_same [of "stream_at False p d [] [] [ReadDone] n"] Inr by (simp add: done_step)
  with Inr show ?thesis by (simp add: rest_correct_def text_from_def)
qed

lemma rest_rejected:
  assumes "ready p d"
  shows "rest_correct False [] p d [] []"
proof -
  have "ends_with (stream_at False p d [] [] [ReadRejected] n) [] (Threw SseStreamReadError)" for n
    by (rule ends_with_threw) (rule rejected_step)
  with assms show ?thesis by (simp add: rest_correct_def text_from_def feed_Nil ready_def)
qed

lemma rest_all:
  "ready p d \<Longrightarrow> rest_correct ended cs p d [] []"
proof (induction cs arbitrary: p d)
  case Nil
  then show ?case by (cases ended) (simp_all add: rest_done rest_rejected)
next
  case (Cons bs cs)
  have ws: "rest_correct ended cs p d [] (windows_of windowSize bs)"
    by (rule rest_windows) (use Cons in auto)
  have step: "ends_with (stream_at False p d [] [] (body_script ended (bs # cs)) n) =
      ends_with (stream_at False p d [] (windows_of windowSize bs) (body_script ended cs) (Suc n))" for n
    unfolding list.map append_Cons by (rule ext, rule ext, rule ends_with_same, rule chunk_step)
  have T: "text_from ended d (concat [] @ concat (bs # cs)) =
      text_from ended d (concat (windows_of windowSize bs) @ concat cs)"
    by (simp add: concat_windows windowSize_def)
  show ?case
  proof (cases "feed p (text_from ended d (concat (windows_of windowSize bs) @ concat cs))")
    case (Inl e)
    obtain items where "ends_with (stream_at False p d [] [] (body_script ended (bs # cs)) n) items (Threw e)" for n
      using rest_correct_errorD [OF ws Inl] step by metis
    moreover have "feed p (text_from ended d (concat [] @ concat (bs # cs))) = Inl e"
      unfolding T by (rule Inl)
    ultimately show ?thesis by (rule rest_correct_error [rotated])
  next
    case (Inr r)
    have "ends_with (stream_at False p d [] [] (body_script ended (bs # cs)) n) ([] @ p_items r)
      (if ended then Finished else Threw SseStreamReadError)" for n
      using rest_correct_itemsD [OF ws Inr] unfolding step by simp
    moreover have "feed p (text_from ended d (concat [] @ concat (bs # cs))) = Inr r"
      unfolding T by (rule Inr)
    ultimately show ?thesis by (rule rest_correct_items [rotated])
  qed
qed

section \<open>Properties\<close>

text \<open>The items a consumer that takes everything gets, and the end of the generator.\<close>

definition consumed :: "signal_oracle \<Rightarrow> bool \<Rightarrow> read_outcome list \<Rightarrow> jsstr option \<Rightarrow> sse_item list \<times> pull_result" where
  "consumed sig locked reads i =
     (case pull sig (parseSseStream locked reads i) of
        (Yield item, st) \<Rightarrow> (let (items, e, _) = drain sig st in (item # items, e))
      | (e, _) \<Rightarrow> ([], e))"

lemma consumed_drain:
  assumes "ends_with (stream_at False (new_parser (case i of None \<Rightarrow> [] | Some i \<Rightarrow> i)) utf8_init [] [] reads 1) items e"
  shows "consumed live False reads i = (items, e)"
proof -
  let ?st = "stream_at False (new_parser (case i of None \<Rightarrow> [] | Some i \<Rightarrow> i)) utf8_init [] [] reads 1"
  obtain final where d: "drain live ?st = (items, e, final)" using assms by (auto simp: ends_with_def)
  have p: "pull live (parseSseStream False reads i) = pull_loop live ?st"
    by (simp add: pull_def parseSseStream_def stream_at_def)
  obtain r st' where r: "pull_loop live ?st = (r, st')" by fastforce
  show ?thesis
  proof (cases r)
    case (Yield item)
    obtain xs e' f where "drain live st' = (xs, e', f)" by (metis prod.exhaust)
    moreover have "drain live ?st = (item # xs, e', f)"
      using calculation Yield r by (subst drain.simps) simp
    ultimately show ?thesis using Yield d r p by (simp add: consumed_def)
  qed (use d [unfolded drain.simps [of live ?st]] r p in \<open>auto simp: consumed_def\<close>)
qed

definition initial_id :: "jsstr option \<Rightarrow> jsstr" where
  "initial_id i = (case i of None \<Rightarrow> [] | Some i \<Rightarrow> i)"

lemma consumed_rest:
  assumes "feed (new_parser (initial_id i)) (text_from ended utf8_init (concat cs)) = Inr r"
  shows "consumed live False (body_script ended cs) i =
    (p_items r, if ended then Finished else Threw SseStreamReadError)"
proof -
  have "ready (new_parser (initial_id i)) utf8_init"
    by (simp add: ready_def) (simp add: new_parser_def)
  from rest_correct_itemsD [OF rest_all [OF this], of ended cs r 1]
  show ?thesis using assms by (intro consumed_drain) (simp add: initial_id_def)
qed

lemma text_from_utf8: "text_from True utf8_init bs = utf8_text bs"
  by (simp add: text_from_def utf8_text_def)

text \<open>C1: a consumer that takes everything from a body that ends normally, with no abort, gets exactly
  the items of the reference reading of the decoded bytes, in order, and then the end of the iteration,
  for every way the transport cuts the bytes into chunks, as long as the decoded text is within the event limit.\<close>

theorem stream_yields_reference:
  assumes "utf8_length (utf8_text (concat cs)) \<le> maximumEventDataBytes"
  shows "consumed live False (map ReadChunk cs @ [ReadDone]) i =
    (sse_reference (initial_id i) (utf8_text (concat cs)), Finished)"
proof -
  obtain r where r: "feed (new_parser (initial_id i)) (utf8_text (concat cs)) = Inr r"
    using feed_total [OF assms] by (metis sum.exhaust)
  with consumed_rest [of i True cs r] feed_refines [OF r] show ?thesis
    by (simp add: text_from_utf8)
qed

theorem stream_yields_reference_witness:
  "consumed live False (map ReadChunk [[13], [10]] @ [ReadDone]) None = ([], Finished)"
proof -
  have t: "utf8_text (concat [[13], [10]]) = [13, 10]"
    by (simp add: utf8_text_def decode_bytes_def decode_byte_def lead_byte_def utf8_init_def
        units_of_cp_def decode_flush_def)
  have "utf8_length [13, 10] \<le> maximumEventDataBytes"
    by (simp add: utf8_length_def utf8_encode_def is_high_def in_range_def maximumEventDataBytes_def utf8_cp_def)
  then show ?thesis
    using stream_yields_reference [of "[[13], [10]]" None] unfolding t
    by (simp add: sse_reference_def sse_lines_def strip_bom_def starts_with_def
        process_line_def block_items_def new_block_def js_eval)
qed

text \<open>C7: when a read fails in the middle of the body, with no abort, the consumer has got the items of
  the blocks completed by the bytes before the failure, and then the read error; nothing of an open block is yielded.\<close>

theorem failed_read_yields_complete_blocks:
  assumes "utf8_length (text_from False utf8_init (concat cs)) \<le> maximumEventDataBytes"
  shows "consumed live False (map ReadChunk cs @ [ReadRejected]) i =
    (sse_reference (initial_id i) (text_from False utf8_init (concat cs)), Threw SseStreamReadError)"
proof -
  obtain r where r: "feed (new_parser (initial_id i)) (text_from False utf8_init (concat cs)) = Inr r"
    using feed_total [OF assms] by (metis sum.exhaust)
  with consumed_rest [of i False cs r] feed_refines [OF r] show ?thesis by simp
qed

theorem failed_read_yields_complete_blocks_witness:
  "consumed live False (map ReadChunk [] @ [ReadRejected]) None = ([], Threw SseStreamReadError)"
proof -
  have "utf8_length (text_from False utf8_init (concat [])) \<le> maximumEventDataBytes"
    by (simp add: text_from_def utf8_length_def utf8_encode_def)
  from failed_read_yields_complete_blocks [OF this, of None] show ?thesis
    by (simp add: text_from_def sse_reference_def sse_lines_def strip_bom_def starts_with_def)
qed

end
