(* ===== verification/SseSubscription.thy ===== *)
theory SseSubscription
  imports SseStream JsonValue
begin

text \<open>
  \<^verbatim>\<open>subscribeToSse\<close> of \<^verbatim>\<open>events/sse-subscription.ts\<close>: the reconnecting
  subscription with its checkpoint store. What the caller supplies (the transport, the store, the
  classifier, the mapper, the policy, the sleep, the abort signal and the consumer's decision to go on)
  is the record \<open>sse_env\<close>; what the subscription does to the outside is a trace of actions. A
  connection is one element of a script of request outcomes, so the loop is structural recursion on it;
  a script that runs out is a request that does not settle.
\<close>

section \<open>Checks\<close>

text \<open>A checkpoint is \<^verbatim>\<open>unknown\<close> until validated; \<open>None\<close> is \<^verbatim>\<open>undefined\<close>.\<close>

fun validateCheckpoint :: "js_arg option \<Rightarrow> unit result" where
  "validateCheckpoint None = Inr ()"
| "validateCheckpoint (Some OtherArg) = Inl InvalidSseCheckpointError"
| "validateCheckpoint (Some (StringArg value)) =
     (if 2048 < length value \<or> containsControlCharacters value \<or> \<not> isByteString value
      then Inl InvalidSseCheckpointError else Inr ())"

fun validateProtocolVersion :: "js_arg option \<Rightarrow> unit result" where
  "validateProtocolVersion None = Inr ()"
| "validateProtocolVersion (Some OtherArg) = Inl InvalidSseProtocolVersionError"
| "validateProtocolVersion (Some (StringArg value)) =
     (if length value = 0 \<or> containsControlCharacters value \<or> \<not> isByteString value
      then Inl InvalidSseProtocolVersionError else Inr ())"

definition normalizeCheckpoint :: "jsstr \<Rightarrow> jsstr option result" where
  "normalizeCheckpoint value =
     rbind (validateCheckpoint (Some (StringArg value))) (\<lambda>_.
       Inr (if length value = 0 then None else Some value))"

definition isEventStreamContentType :: "jsstr option \<Rightarrow> bool" where
  "isEventStreamContentType value =
     (case value of None \<Rightarrow> False | Some v \<Rightarrow> media_type v = js ''text/event-stream'')"

definition assertRetryBounds :: "jsnum \<Rightarrow> jsnum \<Rightarrow> unit result" where
  "assertRetryBounds minimum maximum =
     (if \<not> isNonNegativeSafeInteger minimum \<or> \<not> isNonNegativeSafeInteger maximum
         \<or> num_less maximum minimum
      then Inl InvalidSseRetryConfigurationError else Inr ())"

definition clamp :: "nat \<Rightarrow> nat \<Rightarrow> nat \<Rightarrow> nat" where
  "clamp v minimum maximum = min maximum (max v minimum)"

text \<open>A checked delay as a number of milliseconds.\<close>

definition milliseconds :: "jsnum \<Rightarrow> nat" where
  "milliseconds x = (case num_integer x of None \<Rightarrow> 0 | Some n \<Rightarrow> nat n)"

section \<open>The environment and what is done to it\<close>

datatype reconnect_reason = Eof | ErrorReason exn

record reconnect_context =
  rc_attempt :: nat
  rc_reason :: reconnect_reason
  rc_serverRetry :: "nat option"

datatype response_action = ContinueAction | TerminalAction | ErrorAction exn

text \<open>
  The options and the surroundings of a subscription. \<open>e_resumes n\<close>: the consumer asks for
  another element after the \<open>n\<close>-th one (it may also return the generator there);
  \<open>e_save n\<close>: the \<open>n\<close>-th save succeeds; \<open>e_sleep n d\<close>: what the sleep before
  attempt \<open>n + 1\<close> ends in. A classifier may read the body of the response it is given, so it may not settle
  (\<open>None\<close>).
\<close>

record 'e sse_env =
  e_signal :: signal_oracle
  e_hasStore :: bool
  e_load :: "js_arg option result"
  e_save :: "nat \<Rightarrow> bool"
  e_protocolVersion :: "js_arg option"
  e_minimum :: "jsnum option"
  e_maximum :: "jsnum option"
  e_classifier :: "(response \<Rightarrow> response_action result option \<times> response) option"
  e_mapper :: "sse_event \<Rightarrow> 'e option result"
  e_policy :: "(reconnect_context \<Rightarrow> jsnum option result) option"
  e_sleep :: "nat \<Rightarrow> nat \<Rightarrow> unit result"
  e_resumes :: "nat \<Rightarrow> bool"

text \<open>
  What a subscription does, in the order it does it. \<open>Received\<close>: the loop over a body takes up an
  item. \<open>SaveCalled\<close> is the call of the store and \<open>Saved\<close> its success, so a save that
  fails is a call alone.
\<close>

datatype 'e sse_action =
    Requested headers
  | Received sse_item
  | Yielded 'e
  | SaveCalled "jsstr option"
  | Saved "jsstr option"
  | CancelledReader
  | CancelledBody
  | PolicyAsked reconnect_context
  | Slept nat

record 'e sub_state =
  s_committed :: "jsstr option"
  s_serverRetry :: "nat option"
  s_checks :: nat
  s_saves :: nat
  s_yields :: nat
  s_trace :: "'e sse_action list"

definition emit :: "'e sse_action \<Rightarrow> 'e sub_state \<Rightarrow> 'e sub_state" where
  "emit a s = s\<lparr>s_trace := s_trace s @ [a]\<rparr>"

text \<open>\<^verbatim>\<open>throwIfAborted(options.signal)\<close>.\<close>

definition sub_check :: "'e sse_env \<Rightarrow> 'e sub_state \<Rightarrow> exn option \<times> 'e sub_state" where
  "sub_check env s =
     (let sg = e_signal env (s_checks s)
      in (if is_aborted sg then Some (abort_reason sg) else None, s\<lparr>s_checks := Suc (s_checks s)\<rparr>))"

section \<open>Checkpoints\<close>

definition loadCheckpoint :: "'e sse_env \<Rightarrow> js_arg option result" where
  "loadCheckpoint env =
     (if \<not> e_hasStore env then Inr None
      else case e_load env of Inl _ \<Rightarrow> Inl InvalidSseCheckpointError | Inr v \<Rightarrow> Inr v)"

definition saveCheckpoint :: "'e sse_env \<Rightarrow> jsstr option \<Rightarrow> 'e sub_state \<Rightarrow> exn option \<times> 'e sub_state" where
  "saveCheckpoint env v s =
     (case validateCheckpoint (map_option StringArg v) of
        Inl e \<Rightarrow> (Some e, s)
      | Inr _ \<Rightarrow>
          if \<not> e_hasStore env then (None, s)
          else (let s1 = emit (SaveCalled v) (s\<lparr>s_saves := Suc (s_saves s)\<rparr>)
                in if e_save env (s_saves s) then (None, emit (Saved v) s1)
                   else (Some InvalidSseCheckpointError, s1)))"

text \<open>\<^verbatim>\<open>committedLastEventId = normalizeCheckpoint(id); await saveCheckpoint(...)\<close>.\<close>

definition commit :: "'e sse_env \<Rightarrow> jsstr \<Rightarrow> 'e sub_state \<Rightarrow> exn option \<times> 'e sub_state" where
  "commit env i s =
     (case normalizeCheckpoint i of
        Inl e \<Rightarrow> (Some e, s)
      | Inr v \<Rightarrow> saveCheckpoint env v (s\<lparr>s_committed := v\<rparr>))"

section \<open>One item\<close>

datatype item_end = ItemNext | ItemThrew exn | ItemStopped

definition item_result :: "exn option \<times> 'e sub_state \<Rightarrow> item_end \<times> 'e sub_state" where
  "item_result r = (case r of (None, s) \<Rightarrow> (ItemNext, s) | (Some e, s) \<Rightarrow> (ItemThrew e, s))"

definition deliver :: "'e sse_env \<Rightarrow> 'e \<Rightarrow> jsstr \<Rightarrow> 'e sub_state \<Rightarrow> item_end \<times> 'e sub_state" where
  "deliver env v i s =
     (let s1 = emit (Yielded v) (s\<lparr>s_yields := Suc (s_yields s)\<rparr>)
      in if \<not> e_resumes env (s_yields s) then (ItemStopped, s1)
         else case sub_check env s1 of
                (Some e, s2) \<Rightarrow> (ItemThrew e, s2)
              | (None, s2) \<Rightarrow> item_result (commit env i s2))"

definition handle_event :: "'e sse_env \<Rightarrow> sse_event \<Rightarrow> 'e sub_state \<Rightarrow> item_end \<times> 'e sub_state" where
  "handle_event env ev s =
     (case e_mapper env ev of
        Inl e \<Rightarrow> (ItemThrew e, s)
      | Inr mapped \<Rightarrow>
          (case sub_check env s of
             (Some e, s1) \<Rightarrow> (ItemThrew e, s1)
           | (None, s1) \<Rightarrow>
               (case mapped of
                  None \<Rightarrow> item_result (commit env (se_lastEventId ev) s1)
                | Some v \<Rightarrow> deliver env v (se_lastEventId ev) s1)))"

definition handle_item :: "'e sse_env \<Rightarrow> sse_item \<Rightarrow> 'e sub_state \<Rightarrow> item_end \<times> 'e sub_state" where
  "handle_item env item s =
     (case sub_check env s of
        (Some e, s1) \<Rightarrow> (ItemThrew e, s1)
      | (None, s1) \<Rightarrow>
          (let s2 = emit (Received item) s1
           in case item of
                ItemRetry n \<Rightarrow> (ItemNext, s2\<lparr>s_serverRetry := Some n\<rparr>)
              | ItemCheckpoint i \<Rightarrow> item_result (commit env i s2)
              | ItemEvent ev \<Rightarrow> handle_event env ev s2))"

section \<open>One body\<close>

datatype body_end = BodyFinished | BodyThrew exn | BodyStopped | BodyPending

text \<open>Leaving the \<^verbatim>\<open>for await\<close> loop runs the \<^verbatim>\<open>finally\<close> of the parser.\<close>

definition release :: "sse_stream \<Rightarrow> 'e sub_state \<Rightarrow> 'e sub_state" where
  "release st s = (if cancels_reader st then emit CancelledReader s else s)"

definition pull_at :: "'e sse_env \<Rightarrow> sse_stream \<Rightarrow> 'e sub_state \<Rightarrow> pull_result \<times> sse_stream \<times> 'e sub_state" where
  "pull_at env st s =
     (let (r, st1) = pull (e_signal env) (st\<lparr>st_checks := s_checks s\<rparr>)
      in (r, st1, s\<lparr>s_checks := st_checks st1\<rparr>))"

lemma pull_yields:
  assumes "pull sig st = (Yield item, st')"
  shows "length (st_reads st') < length (st_reads st) \<or>
     (st_reads st' = st_reads st \<and>
       (length (st_windows st') < length (st_windows st) \<or>
        (st_windows st' = st_windows st \<and> length (st_queue st') < length (st_queue st))))"
proof (cases "st_started st")
  case True
  with assms show ?thesis by (simp add: pull_def pull_loop_yields)
next
  case False
  have "check_signal sig (st\<lparr>st_started := True\<rparr>) =
    (fst (check_signal sig (st\<lparr>st_started := True\<rparr>)), st\<lparr>st_started := True, st_checks := Suc (st_checks st)\<rparr>)"
    by (simp add: check_signal_def Let_def)
  with False assms have "pull_loop sig (st\<lparr>st_started := True, st_checks := Suc (st_checks st)\<rparr>) = (Yield item, st')"
    by (cases "fst (check_signal sig (st\<lparr>st_started := True\<rparr>))")
      (auto simp: pull_def split: if_splits prod.splits)
  from pull_loop_yields [OF this] show ?thesis by simp
qed

lemma pull_at_yields:
  assumes "pull_at env st s = (Yield item, st', s')"
  shows "length (st_reads st') < length (st_reads st) \<or>
     (st_reads st' = st_reads st \<and>
       (length (st_windows st') < length (st_windows st) \<or>
        (st_windows st' = st_windows st \<and> length (st_queue st') < length (st_queue st))))"
proof -
  have "pull (e_signal env) (st\<lparr>st_checks := s_checks s\<rparr>) = (Yield item, st')"
    using assms by (auto simp: pull_at_def Let_def split: prod.splits)
  from pull_yields [OF this] show ?thesis by simp
qed

function consume :: "'e sse_env \<Rightarrow> sse_stream \<Rightarrow> 'e sub_state \<Rightarrow> body_end \<times> 'e sub_state" where
  "consume env st s =
     (case pull_at env st s of
        (Finished, st1, s1) \<Rightarrow> (BodyFinished, release st1 s1)
      | (Threw e, st1, s1) \<Rightarrow> (BodyThrew e, release st1 s1)
      | (Pending, st1, s1) \<Rightarrow> (BodyPending, s1)
      | (Yield item, st1, s1) \<Rightarrow>
          (case handle_item env item s1 of
             (ItemNext, s2) \<Rightarrow> consume env st1 s2
           | (ItemThrew e, s2) \<Rightarrow> (BodyThrew e, release st1 s2)
           | (ItemStopped, s2) \<Rightarrow> (BodyStopped, release st1 s2)))"
  by pat_completeness auto
termination
  by (relation "measures [\<lambda>(env, st, s). length (st_reads st), \<lambda>(env, st, s). length (st_windows st),
        \<lambda>(env, st, s). length (st_queue st)]")
    (auto dest!: pull_at_yields [OF sym])

declare consume.simps [simp del]

section \<open>One attempt\<close>

datatype attempt_end = AttemptReturned | AttemptStopped | AttemptPending | AttemptThrew exn | AttemptEof

definition body_attempt :: "body_end \<Rightarrow> attempt_end" where
  "body_attempt b = (case b of BodyFinished \<Rightarrow> AttemptEof | BodyThrew e \<Rightarrow> AttemptThrew e
     | BodyStopped \<Rightarrow> AttemptStopped | BodyPending \<Rightarrow> AttemptPending)"

text \<open>The \<^verbatim>\<open>finally\<close> of the response, while the parser does not own its body.\<close>

definition drop_body :: "response \<Rightarrow> 'e sub_state \<Rightarrow> 'e sub_state" where
  "drop_body r s = (if cancelResponseBody r then emit CancelledBody s else s)"

definition classify :: "'e sse_env \<Rightarrow> response \<Rightarrow> response_action result option \<times> response" where
  "classify env r =
     (case e_classifier env of
        None \<Rightarrow> (Some (Inr (if r_ok r then ContinueAction else ErrorAction (SseHttpError (r_status r)))), r)
      | Some c \<Rightarrow> c r)"

definition accept_response :: "'e sse_env \<Rightarrow> response \<Rightarrow> 'e sub_state \<Rightarrow> attempt_end \<times> 'e sub_state" where
  "accept_response env r s =
     (if \<not> r_ok r then (AttemptThrew (SseHttpError (r_status r)), drop_body r s)
      else if \<not> isEventStreamContentType (r_header (js ''content-type'') r)
      then (AttemptThrew SseContentTypeError, drop_body r s)
      else case r_body r of
             None \<Rightarrow> (AttemptThrew SseBodyError, drop_body r s)
           | Some reads \<Rightarrow>
               (let (b, s1) = consume env (parseSseStream (r_locked r) reads (s_committed s)) s
                in (body_attempt b, s1)))"

definition handle_response :: "'e sse_env \<Rightarrow> response \<Rightarrow> 'e sub_state \<Rightarrow> attempt_end \<times> 'e sub_state" where
  "handle_response env r s =
     (case sub_check env s of
        (Some e, s1) \<Rightarrow> (AttemptThrew e, drop_body r s1)
      | (None, s1) \<Rightarrow>
          (case classify env r of
             (None, r1) \<Rightarrow> (AttemptPending, s1)
           | (Some (Inl e), r1) \<Rightarrow> (AttemptThrew e, drop_body r1 s1)
           | (Some (Inr action), r1) \<Rightarrow>
               (case sub_check env s1 of
                  (Some e, s2) \<Rightarrow> (AttemptThrew e, drop_body r1 s2)
                | (None, s2) \<Rightarrow>
                    (case action of
                       TerminalAction \<Rightarrow> (AttemptReturned, drop_body r1 s2)
                     | ErrorAction e \<Rightarrow> (AttemptThrew e, drop_body r1 s2)
                     | ContinueAction \<Rightarrow> accept_response env r1 s2))))"

definition request_headers :: "'e sse_env \<Rightarrow> jsstr option \<Rightarrow> headers result" where
  "request_headers env committed =
     rbind (header_set (js ''Accept'') (js ''text/event-stream'') []) (\<lambda>h0.
     rbind (case e_protocolVersion env of
              Some (StringArg v) \<Rightarrow> header_set (js ''Teslatlas-Protocol-Version'') v h0
            | _ \<Rightarrow> Inr h0) (\<lambda>h1.
     case committed of
       None \<Rightarrow> Inr h1
     | Some i \<Rightarrow> if 0 < length i then header_set (js ''Last-Event-ID'') i h1 else Inr h1))"

text \<open>\<open>None\<close> is a request that does not settle.\<close>

definition run_attempt :: "'e sse_env \<Rightarrow> response result option \<Rightarrow> 'e sub_state \<Rightarrow> attempt_end \<times> 'e sub_state" where
  "run_attempt env outcome s =
     (case request_headers env (s_committed s) of
        Inl e \<Rightarrow> (AttemptThrew e, s)
      | Inr hs \<Rightarrow>
          (let s1 = emit (Requested hs) s
           in case outcome of
                None \<Rightarrow> (AttemptPending, s1)
              | Some (Inl e) \<Rightarrow> (AttemptThrew e, s1)
              | Some (Inr r) \<Rightarrow> handle_response env r s1))"

section \<open>Reconnecting\<close>

datatype subscription_end = SubReturned | SubThrew exn | SubStopped | SubPending

definition decideReconnectDelay ::
    "'e sse_env \<Rightarrow> reconnect_context \<Rightarrow> 'e sub_state \<Rightarrow> nat option result \<times> 'e sub_state" where
  "decideReconnectDelay env ctx s =
     (case e_policy env of
        None \<Rightarrow> (Inr None, s)
      | Some policy \<Rightarrow>
          (case policy ctx of
             Inl e \<Rightarrow> Inl e
           | Inr None \<Rightarrow> Inr None
           | Inr (Some d) \<Rightarrow>
               if \<not> isNonNegativeSafeInteger d then Inl InvalidSseRetryConfigurationError
               else Inr (Some (milliseconds d)),
           emit (PolicyAsked ctx) s))"

definition minimum_retry :: "'e sse_env \<Rightarrow> jsnum" where
  "minimum_retry env = (case e_minimum env of None \<Rightarrow> num_of_int 0 | Some x \<Rightarrow> x)"

definition maximum_retry :: "'e sse_env \<Rightarrow> jsnum" where
  "maximum_retry env = (case e_maximum env of None \<Rightarrow> num_of_int 30000 | Some x \<Rightarrow> x)"

definition reconnect_delay :: "'e sse_env \<Rightarrow> nat option \<Rightarrow> nat \<Rightarrow> nat" where
  "reconnect_delay env serverRetry policyDelay =
     (case serverRetry of
        None \<Rightarrow> policyDelay
      | Some n \<Rightarrow> clamp n (milliseconds (minimum_retry env)) (milliseconds (maximum_retry env)))"

text \<open>Errors that end the subscription whatever the policy says.\<close>

definition terminal_error :: "exn \<Rightarrow> bool" where
  "terminal_error e \<longleftrightarrow> e = InvalidSseCheckpointError \<or> (\<exists>v. e = SseLimitError v)"

lemma terminal_error_code [code]:
  "terminal_error e = (case e of InvalidSseCheckpointError \<Rightarrow> True | SseLimitError _ \<Rightarrow> True | _ \<Rightarrow> False)"
  by (cases e) (simp_all add: terminal_error_def)

text \<open>After an attempt: ask the policy, wait. \<open>Inr\<close> is the state to go on from.\<close>

definition wait_to_reconnect ::
    "'e sse_env \<Rightarrow> nat \<Rightarrow> reconnect_reason \<Rightarrow> 'e sub_state
      \<Rightarrow> subscription_end \<times> 'e sub_state + 'e sub_state" where
  "wait_to_reconnect env n reason s =
     (case decideReconnectDelay env
             \<lparr>rc_attempt = n, rc_reason = reason, rc_serverRetry = s_serverRetry s\<rparr> s of
        (Inl e, s1) \<Rightarrow> Inl (SubThrew e, s1)
      | (Inr policyDelay, s1) \<Rightarrow>
          (case sub_check env s1 of
             (Some e, s2) \<Rightarrow> Inl (SubThrew e, s2)
           | (None, s2) \<Rightarrow>
               (case policyDelay of
                  None \<Rightarrow> Inl (case reason of ErrorReason e \<Rightarrow> SubThrew e | Eof \<Rightarrow> SubReturned, s2)
                | Some d \<Rightarrow>
                    (let delay = reconnect_delay env (s_serverRetry s2) d; s3 = emit (Slept delay) s2
                     in case e_sleep env n delay of
                          Inl e \<Rightarrow> Inl (SubThrew e, s3)
                        | Inr _ \<Rightarrow>
                            (case sub_check env s3 of
                               (Some e, s4) \<Rightarrow> Inl (SubThrew e, s4)
                             | (None, s4) \<Rightarrow> Inr s4)))))"

definition after_attempt ::
    "'e sse_env \<Rightarrow> nat \<Rightarrow> attempt_end \<times> 'e sub_state
      \<Rightarrow> subscription_end \<times> 'e sub_state + 'e sub_state" where
  "after_attempt env n r =
     (case r of
        (AttemptReturned, s) \<Rightarrow> Inl (SubReturned, s)
      | (AttemptStopped, s) \<Rightarrow> Inl (SubStopped, s)
      | (AttemptPending, s) \<Rightarrow> Inl (SubPending, s)
      | (AttemptEof, s) \<Rightarrow> wait_to_reconnect env n Eof s
      | (AttemptThrew e, s) \<Rightarrow>
          (case sub_check env s of
             (Some a, s1) \<Rightarrow> Inl (SubThrew a, s1)
           | (None, s1) \<Rightarrow>
               if terminal_error e then Inl (SubThrew e, s1)
               else wait_to_reconnect env n
                      (ErrorReason (if e = SseStreamReadError then TransportError else e)) s1))"

fun attempts ::
    "'e sse_env \<Rightarrow> nat \<Rightarrow> response result list \<Rightarrow> 'e sub_state \<Rightarrow> subscription_end \<times> 'e sub_state" where
  "attempts env n [] s =
     (case sub_check env s of
        (Some e, s1) \<Rightarrow> (SubThrew e, s1)
      | (None, s1) \<Rightarrow>
          (case after_attempt env n (run_attempt env None (s1\<lparr>s_serverRetry := None\<rparr>)) of
             Inl r \<Rightarrow> r
           | Inr s2 \<Rightarrow> (SubPending, s2)))"
| "attempts env n (outcome # rest) s =
     (case sub_check env s of
        (Some e, s1) \<Rightarrow> (SubThrew e, s1)
      | (None, s1) \<Rightarrow>
          (case after_attempt env n (run_attempt env (Some outcome) (s1\<lparr>s_serverRetry := None\<rparr>)) of
             Inl r \<Rightarrow> r
           | Inr s2 \<Rightarrow> attempts env (Suc n) rest s2))"

definition initial_state :: "jsstr option \<Rightarrow> nat \<Rightarrow> 'e sub_state" where
  "initial_state committed checks =
     \<lparr>s_committed = committed, s_serverRetry = None, s_checks = checks, s_saves = 0, s_yields = 0,
      s_trace = []\<rparr>"

definition subscribeToSse :: "'e sse_env \<Rightarrow> response result list \<Rightarrow> subscription_end \<times> 'e sub_state" where
  "subscribeToSse env outcomes =
     (case rbind (assertRetryBounds (minimum_retry env) (maximum_retry env)) (\<lambda>_.
           validateProtocolVersion (e_protocolVersion env)) of
        Inl e \<Rightarrow> (SubThrew e, initial_state None 0)
      | Inr _ \<Rightarrow>
          (case sub_check env (initial_state None 0) of
             (Some e, s1) \<Rightarrow> (SubThrew e, s1)
           | (None, s1) \<Rightarrow>
               (case loadCheckpoint env of
                  Inl e \<Rightarrow> (SubThrew e, s1)
                | Inr loaded \<Rightarrow>
                    (case sub_check env s1 of
                       (Some e, s2) \<Rightarrow> (SubThrew e, s2)
                     | (None, s2) \<Rightarrow>
                         (case validateCheckpoint loaded of
                            Inl e \<Rightarrow> (SubThrew e, s2)
                          | Inr _ \<Rightarrow>
                              attempts env 1 outcomes
                                (s2\<lparr>s_committed := (case loaded of Some (StringArg i) \<Rightarrow> Some i | _ \<Rightarrow> None)\<rparr>))))))"

section \<open>The default sleep\<close>

definition maximumTimerDelay :: nat where
  "maximumTimerDelay = 2147483647"

text \<open>The timers \<^verbatim>\<open>defaultSleep\<close> sets one after another; \<open>fires n\<close>: the \<open>n\<close>-th one
  fires rather than being interrupted by an abort.\<close>

function sleep_loop :: "(nat \<Rightarrow> signal_state) \<Rightarrow> (nat \<Rightarrow> exn option) \<Rightarrow> nat \<Rightarrow> nat \<Rightarrow> nat list \<times> unit result" where
  "sleep_loop sig interrupted n remaining =
     (if remaining = 0 then ([], Inr ())
      else if is_aborted (sig n) then ([], Inl (abort_reason (sig n)))
      else let delay = min remaining maximumTimerDelay
           in case interrupted n of
                Some e \<Rightarrow> ([delay], Inl e)
              | None \<Rightarrow>
                  (let (delays, r) = sleep_loop sig interrupted (Suc n) (remaining - delay)
                   in (delay # delays, r)))"
  by pat_completeness auto
termination
  by (relation "measure (\<lambda>(sig, interrupted, n, remaining). remaining)")
    (auto simp: maximumTimerDelay_def)

declare sleep_loop.simps [simp del]

definition defaultSleep :: "(nat \<Rightarrow> signal_state) \<Rightarrow> (nat \<Rightarrow> exn option) \<Rightarrow> nat \<Rightarrow> nat list \<times> unit result" where
  "defaultSleep sig interrupted ms =
     (if is_aborted (sig 0) then ([], Inl (abort_reason (sig 0))) else sleep_loop sig interrupted 1 ms)"

section \<open>Invariants of a subscription\<close>

lemma consume_induct:
  assumes "\<And>st s. (\<And>item st1 s1 s2. pull_at env st s = (Yield item, st1, s1) \<Longrightarrow>
      handle_item env item s1 = (ItemNext, s2) \<Longrightarrow> P st1 s2) \<Longrightarrow> P st s"
  shows "P st s"
proof -
  have "env' = env \<longrightarrow> P st s" for env'
  proof (induction env' st s rule: consume.induct)
    case (1 env' st s)
    show ?case
    proof (rule impI, rule assms)
      fix item st1 s1 s2
      assume e: "env' = env" and p: "pull_at env st s = (Yield item, st1, s1)"
        and h: "handle_item env item s1 = (ItemNext, s2)"
      show "P st1 s2"
        using 1 [OF p [folded e, symmetric] refl refl h [folded e, symmetric] refl] e by blast
    qed
  qed
  then show ?thesis by blast
qed

text \<open>What one round of the loop over a body does.\<close>

lemma consume_cases:
  assumes "consume env st s = (b, s')"
  obtains (finished) st1 s1 where "pull_at env st s = (Finished, st1, s1)" "b = BodyFinished" "s' = release st1 s1"
  | (threw) e st1 s1 where "pull_at env st s = (Threw e, st1, s1)" "b = BodyThrew e" "s' = release st1 s1"
  | (pending) st1 where "pull_at env st s = (Pending, st1, s')" "b = BodyPending"
  | (item_threw) item e st1 s1 s2 where "pull_at env st s = (Yield item, st1, s1)"
      "handle_item env item s1 = (ItemThrew e, s2)" "b = BodyThrew e" "s' = release st1 s2"
  | (item_stopped) item st1 s1 s2 where "pull_at env st s = (Yield item, st1, s1)"
      "handle_item env item s1 = (ItemStopped, s2)" "b = BodyStopped" "s' = release st1 s2"
  | (item_next) item st1 s1 s2 where "pull_at env st s = (Yield item, st1, s1)"
      "handle_item env item s1 = (ItemNext, s2)" "consume env st1 s2 = (b, s')"
proof -
  obtain r st1 s1 where p: "pull_at env st s = (r, st1, s1)" by (metis prod.exhaust)
  show thesis
  proof (cases r)
    case (Yield item)
    obtain h s2 where h: "handle_item env item s1 = (h, s2)" by fastforce
    show thesis
      using assms p Yield h that(4-6) by (cases h) (auto simp: consume.simps [of env st s])
  qed (use assms p that(1-3) in \<open>auto simp: consume.simps [of env st s]\<close>)
qed

lemma pull_at_state:
  "pull_at env st s = (r, st1, s1) \<Longrightarrow> \<exists>n. s1 = s\<lparr>s_checks := n\<rparr>"
  by (auto simp: pull_at_def Let_def split: prod.splits)

text \<open>What the policy decides, and the state it leaves.\<close>

lemma decide_cases:
  assumes "decideReconnectDelay env ctx s = (r, s')"
  shows "(s' = s \<or> s' = emit (PolicyAsked ctx) s) \<and>
    (\<forall>k. r = Inr (Some k) \<longrightarrow> s' = emit (PolicyAsked ctx) s \<and> (\<exists>policy d. e_policy env = Some policy \<and> policy ctx = Inr (Some d) \<and>
      isNonNegativeSafeInteger d \<and> k = milliseconds d))"
  using assms by (auto simp: decideReconnectDelay_def split: option.splits sum.splits if_splits)

lemma wait_cases:
  assumes "wait_to_reconnect env n reason s = R"
  obtains d s1 e s2 where
    "decideReconnectDelay env \<lparr>rc_attempt = n, rc_reason = reason, rc_serverRetry = s_serverRetry s\<rparr> s = (d, s1)"
    "sub_check env s1 = (e, s2)" "(\<exists>r. R = Inl (r, s1)) \<or> (\<exists>r. R = Inl (r, s2)) \<or>
      (\<exists>k. d = Inr (Some k) \<and>
        (let s3 = emit (Slept (reconnect_delay env (s_serverRetry s2) k)) s2
         in (\<exists>r. R = Inl (r, s3)) \<or> (\<exists>r. R = Inl (r, snd (sub_check env s3))) \<or> R = Inr (snd (sub_check env s3))))"
proof -
  obtain d s1 where d: "decideReconnectDelay env \<lparr>rc_attempt = n, rc_reason = reason,
      rc_serverRetry = s_serverRetry s\<rparr> s = (d, s1)" by fastforce
  obtain e s2 where e: "sub_check env s1 = (e, s2)" by fastforce
  show thesis
  proof (rule that [OF d e])
    consider (x) a where "d = Inl a" | (y) "d = Inr None" | (z) k where "d = Inr (Some k)"
      by (metis sum.exhaust option.exhaust)
    then show "(\<exists>r. R = Inl (r, s1)) \<or> (\<exists>r. R = Inl (r, s2)) \<or> (\<exists>k. d = Inr (Some k) \<and>
        (let s3 = emit (Slept (reconnect_delay env (s_serverRetry s2) k)) s2
         in (\<exists>r. R = Inl (r, s3)) \<or> (\<exists>r. R = Inl (r, snd (sub_check env s3))) \<or> R = Inr (snd (sub_check env s3))))"
    proof cases
      case z
      let ?s3 = "emit (Slept (reconnect_delay env (s_serverRetry s2) k)) s2"
      obtain f s4 where "sub_check env ?s3 = (f, s4)" by fastforce
      with z d e assms show ?thesis
        by (cases e; cases "e_sleep env n (reconnect_delay env (s_serverRetry s2) k)"; cases f)
          (auto simp: wait_to_reconnect_def Let_def)
    qed (use d e assms in \<open>auto simp: wait_to_reconnect_def split: option.splits\<close>)
  qed
qed

definition loaded_checkpoint :: "'e sse_env \<Rightarrow> jsstr option" where
  "loaded_checkpoint env = (case loadCheckpoint env of Inr (Some (StringArg i)) \<Rightarrow> Some i | _ \<Rightarrow> None)"

text \<open>A subscription either ends before its first attempt, with nothing done, or is its attempts.\<close>

lemma subscribe_cases:
  assumes "subscribeToSse env os = (r, s)"
  obtains (early) "\<exists>e. r = SubThrew e" "s_trace s = []"
  | (attempts) n where "attempts env 1 os (initial_state (loaded_checkpoint env) n) = (r, s)"
      "assertRetryBounds (minimum_retry env) (maximum_retry env) = Inr ()"
proof -
  have c: "sub_check env (initial_state None k) = (fst (sub_check env (initial_state None k)), initial_state None (Suc k))" for k
    by (simp add: sub_check_def Let_def initial_state_def)
  let ?c0 = "fst (sub_check env (initial_state None 0))"
  let ?c1 = "fst (sub_check env (initial_state None 1))"
  have i: "initial_state None n\<lparr>s_committed := c\<rparr> = initial_state c n" for n c
    by (simp add: initial_state_def)
  show thesis
  proof (cases "rbind (assertRetryBounds (minimum_retry env) (maximum_retry env)) (\<lambda>_.
           validateProtocolVersion (e_protocolVersion env))")
    case (Inl e)
    with assms show thesis by (intro early) (auto simp: subscribeToSse_def initial_state_def)
  next
    case (Inr u)
    then have b: "assertRetryBounds (minimum_retry env) (maximum_retry env) = Inr ()"
      by (auto simp: rbind_Inr_iff)
    show thesis
    proof (cases "?c0 = None \<and> (\<exists>v. loadCheckpoint env = Inr v \<and> ?c1 = None \<and> validateCheckpoint v = Inr ())")
      case True
      then obtain v where v: "?c0 = None" "loadCheckpoint env = Inr v" "?c1 = None" "validateCheckpoint v = Inr ()"
        by blast
      then have "loaded_checkpoint env = (case v of Some (StringArg i) \<Rightarrow> Some i | _ \<Rightarrow> None)"
        by (simp add: loaded_checkpoint_def split: option.splits js_arg.splits)
      with assms Inr v c [of 0] c [of 1] have "attempts env 1 os (initial_state (loaded_checkpoint env) 2) = (r, s)"
        by (simp add: subscribeToSse_def i numeral_2_eq_2)
      then show thesis using b by (rule attempts)
    next
      case False
      then show thesis
        using assms Inr c [of 0] c [of 1]
        by (intro early) (auto simp: subscribeToSse_def initial_state_def
            split: sum.splits option.splits prod.splits)
    qed
  qed
qed

text \<open>
  The contract between the subscription and an invariant of its state: the invariant survives what the
  subscription does to the state, one action at a time. The hint of the server is kept until the next
  attempt begins, so a wait counts together with its reset: the conclusion is that the invariant
  holds of the state at the end, as it is or with the hint reset.
\<close>

locale subscription_invariant =
  fixes env :: "'e sse_env" and I :: "'e sub_state \<Rightarrow> bool"
  assumes I_checks: "I s \<Longrightarrow> I (s\<lparr>s_checks := n\<rparr>)"
    and I_retry: "I s \<Longrightarrow> I ((emit (Received (ItemRetry n)) s)\<lparr>s_serverRetry := Some n\<rparr>)"
    and I_receive: "I s \<Longrightarrow> (\<And>n. item \<noteq> ItemRetry n) \<Longrightarrow> I (emit (Received item) s)"
    and I_yield: "I s \<Longrightarrow> e_mapper env ev = Inr (Some v) \<Longrightarrow> I (emit (Yielded v) (s\<lparr>s_yields := k\<rparr>))"
    and I_commit: "I s \<Longrightarrow> I (snd (commit env i s))"
    and I_cancel: "I s \<Longrightarrow> I (emit CancelledReader s)" "I s \<Longrightarrow> I (emit CancelledBody s)"
    and I_request: "I s \<Longrightarrow> request_headers env (s_committed s) = Inr hs \<Longrightarrow> I (emit (Requested hs) s)"
    and I_policy: "I s \<Longrightarrow> I (emit (PolicyAsked ctx) s)"
    and I_sleep: "I s \<Longrightarrow> rc_serverRetry ctx = s_serverRetry s \<Longrightarrow> e_policy env = Some policy \<Longrightarrow>
      policy ctx = Inr (Some d) \<Longrightarrow> isNonNegativeSafeInteger d \<Longrightarrow>
      I ((emit (Slept (reconnect_delay env (s_serverRetry s) (milliseconds d)))
            (emit (PolicyAsked ctx) s))\<lparr>s_serverRetry := None\<rparr>)"
begin

lemma check_I: "I s \<Longrightarrow> sub_check env s = (e, s') \<Longrightarrow> I s'"
  by (auto simp: sub_check_def Let_def I_checks)

lemma release_I: "I s \<Longrightarrow> I (release st s)"
  by (simp add: release_def I_cancel)

lemma drop_body_I: "I s \<Longrightarrow> I (drop_body r s)"
  by (simp add: drop_body_def I_cancel)

lemma item_result_I: "I s \<Longrightarrow> item_result (commit env i s) = (r, s') \<Longrightarrow> I s'"
  using I_commit [of s i] by (auto simp: item_result_def split: prod.splits option.splits)

lemma deliver_I:
  assumes "I s" and "e_mapper env ev = Inr (Some v)" and "deliver env v i s = (r, s')"
  shows "I s'"
proof -
  let ?s1 = "emit (Yielded v) (s\<lparr>s_yields := Suc (s_yields s)\<rparr>)"
  have s1: "I ?s1" using assms(1,2) by (rule I_yield)
  obtain e s2 where c: "sub_check env ?s1 = (e, s2)" by fastforce
  have "I s2" using s1 c by (rule check_I)
  then show ?thesis
    using assms(3) s1 c by (cases e) (auto simp: deliver_def Let_def split: if_splits dest: item_result_I)
qed

lemma handle_event_I:
  assumes "I s" and "handle_event env ev s = (r, s')"
  shows "I s'"
proof -
  obtain e s1 where c: "sub_check env s = (e, s1)" by fastforce
  have "I s1" using assms(1) c by (rule check_I)
  then show ?thesis
    using assms c by (cases e; cases "e_mapper env ev"; cases "projr (e_mapper env ev)")
      (auto simp: handle_event_def dest: item_result_I deliver_I)
qed

lemma handle_item_I:
  assumes "I s" and "handle_item env item s = (r, s')"
  shows "I s'"
proof -
  obtain e s1 where c: "sub_check env s = (e, s1)" by fastforce
  have "I s1" using assms(1) c by (rule check_I)
  then have "I ((emit (Received (ItemRetry n)) s1)\<lparr>s_serverRetry := Some n\<rparr>)"
    "(\<And>n. item \<noteq> ItemRetry n) \<Longrightarrow> I (emit (Received item) s1)" for n
    by (blast intro: I_retry I_receive)+
  with \<open>I s1\<close> show ?thesis
    using assms(2) c by (cases e; cases item)
      (auto simp: handle_item_def Let_def dest: item_result_I handle_event_I)
qed

lemma consume_I: "I s \<Longrightarrow> consume env st s = (b, s') \<Longrightarrow> I s'"
proof (induction st s rule: consume_induct [of env])
  case (1 st s)
  have pulled: "I s1" if "pull_at env st s = (r, st1, s1)" for r st1 s1
    using pull_at_state [OF that] 1(2) I_checks by auto
  from 1(3) show ?case
  proof (cases rule: consume_cases)
    case finished
    then show ?thesis using pulled release_I by blast
  next
    case threw
    then show ?thesis using pulled release_I by blast
  next
    case pending
    then show ?thesis using pulled by blast
  next
    case item_threw
    then show ?thesis using pulled handle_item_I release_I by blast
  next
    case item_stopped
    then show ?thesis using pulled handle_item_I release_I by blast
  next
    case item_next
    then show ?thesis using 1(1) pulled handle_item_I by blast
  qed
qed

lemma accept_response_I:
  assumes "I s" and "accept_response env r s = (a, s')"
  shows "I s'"
proof (cases "r_ok r \<and> isEventStreamContentType (r_header (js ''content-type'') r) \<and> r_body r \<noteq> None")
  case True
  then obtain reads b where "consume env (parseSseStream (r_locked r) reads (s_committed s)) s = (b, s')"
    using assms(2) by (auto simp: accept_response_def split: prod.splits)
  with assms(1) show ?thesis by (rule consume_I)
next
  case False
  with assms drop_body_I [of s r] show ?thesis
    by (auto simp: accept_response_def split: if_splits)
qed

lemma handle_response_I:
  assumes "I s" and "handle_response env r s = (a, s')"
  shows "I s'"
proof -
  obtain e1 s1 where c1: "sub_check env s = (e1, s1)" by fastforce
  obtain e2 s2 where c2: "sub_check env s1 = (e2, s2)" by fastforce
  obtain res r1 where cl: "classify env r = (res, r1)" by fastforce
  have I: "I s1" "I s2" using check_I assms(1) c1 c2 by blast+
  have "s' \<in> {s1, drop_body r s1, drop_body r1 s1, drop_body r1 s2} \<or> accept_response env r1 s2 = (a, s')"
    using assms(2) c1 c2 cl
    by (cases e1; cases res; cases "the res"; cases e2; cases "projr (the res)") (simp_all add: handle_response_def)
  then show ?thesis using I drop_body_I accept_response_I by auto
qed

lemma run_attempt_I:
  assumes "I s" and "run_attempt env outcome s = (a, s')"
  shows "I s'"
proof (cases "request_headers env (s_committed s)")
  case (Inr hs)
  then have "I (emit (Requested hs) s)" using assms(1) by (intro I_request)
  with Inr assms(2) show ?thesis
    by (auto simp: run_attempt_def Let_def split: option.splits sum.splits dest: handle_response_I)
qed (use assms in \<open>simp add: run_attempt_def\<close>)

lemma wait_I:
  assumes "I s" and "wait_to_reconnect env n reason s = R"
  shows "case R of Inl (_, s') \<Rightarrow> I s' \<or> I (s'\<lparr>s_serverRetry := None\<rparr>) | Inr s' \<Rightarrow> I (s'\<lparr>s_serverRetry := None\<rparr>)"
  using assms(2)
proof (cases rule: wait_cases)
  case (1 d s1 e s2)
  let ?ctx = "\<lparr>rc_attempt = n, rc_reason = reason, rc_serverRetry = s_serverRetry s\<rparr>"
  have s1: "I s1" using decide_cases [OF 1(1)] assms(1) I_policy by blast
  then have s2: "I s2" using 1(2) by (rule check_I)
  obtain m where m: "s2 = s1\<lparr>s_checks := m\<rparr>" using 1(2) by (auto simp: sub_check_def Let_def)
  have slept: "I ((emit (Slept (reconnect_delay env (s_serverRetry s2) k)) s2)\<lparr>s_serverRetry := None\<rparr>)"
    if "d = Inr (Some k)" for k
  proof -
    from that decide_cases [OF 1(1)] obtain policy x where x: "s1 = emit (PolicyAsked ?ctx) s"
      "e_policy env = Some policy" "policy ?ctx = Inr (Some x)" "isNonNegativeSafeInteger x" "k = milliseconds x"
      by blast
    have "I ((emit (Slept (reconnect_delay env (s_serverRetry s) k)) s1)\<lparr>s_serverRetry := None\<rparr>)"
      unfolding x(1,5) by (rule I_sleep [OF assms(1) _ x(2-4)]) simp
    moreover have "(emit (Slept (reconnect_delay env (s_serverRetry s2) k)) s2)\<lparr>s_serverRetry := None\<rparr>
      = (emit (Slept (reconnect_delay env (s_serverRetry s) k)) s1)\<lparr>s_serverRetry := None, s_checks := m\<rparr>"
      by (cases s) (simp add: m x(1) emit_def)
    ultimately show ?thesis using I_checks by simp
  qed
  moreover have "I ((snd (sub_check env t))\<lparr>s_serverRetry := None\<rparr>)" if "I (t\<lparr>s_serverRetry := None\<rparr>)" for t
    using I_checks [OF that, of "Suc (s_checks t)"] by (cases t) (simp add: sub_check_def Let_def)
  ultimately show ?thesis using 1(3) s1 s2 by (auto simp: Let_def)
qed

lemma after_attempt_I:
  assumes "I s" and "after_attempt env n (a, s) = R"
  shows "case R of Inl (_, s') \<Rightarrow> I s' \<or> I (s'\<lparr>s_serverRetry := None\<rparr>) | Inr s' \<Rightarrow> I (s'\<lparr>s_serverRetry := None\<rparr>)"
proof (cases a)
  case (AttemptThrew e)
  obtain x s1 where c: "sub_check env s = (x, s1)" by fastforce
  have "I s1" using assms(1) c by (rule check_I)
  with AttemptThrew c assms(2) wait_I show ?thesis
    by (cases x) (auto simp: after_attempt_def split: if_splits)
qed (use assms wait_I in \<open>auto simp: after_attempt_def\<close>)

lemma attempt_I:
  assumes "I (s\<lparr>s_serverRetry := None\<rparr>)" and "sub_check env s = (e, s1)"
    and "run_attempt env outcome (s1\<lparr>s_serverRetry := None\<rparr>) = (a, s2)"
  shows "I (s1\<lparr>s_serverRetry := None\<rparr>)" and "I s2"
proof -
  from I_checks [OF assms(1), of "s_checks s1"] assms(2) show s1: "I (s1\<lparr>s_serverRetry := None\<rparr>)"
    by (cases s) (auto simp: sub_check_def Let_def)
  from s1 assms(3) show "I s2" by (rule run_attempt_I)
qed

lemma attempts_I:
  "I (s\<lparr>s_serverRetry := None\<rparr>) \<Longrightarrow> attempts env n rs s = (r, s') \<Longrightarrow> I s' \<or> I (s'\<lparr>s_serverRetry := None\<rparr>)"
proof (induction rs arbitrary: n s)
  case Nil
  obtain e s1 where c: "sub_check env s = (e, s1)" by fastforce
  obtain a s2 where a: "run_attempt env None (s1\<lparr>s_serverRetry := None\<rparr>) = (a, s2)" by fastforce
  note attempt_I [OF Nil(1) c a]
  then show ?case
    using Nil(2) c a after_attempt_I [OF _ refl, of s2 n a]
    by (cases e) (auto split: sum.splits)
next
  case (Cons o' rs)
  obtain e s1 where c: "sub_check env s = (e, s1)" by fastforce
  obtain a s2 where a: "run_attempt env (Some o') (s1\<lparr>s_serverRetry := None\<rparr>) = (a, s2)" by fastforce
  note attempt_I [OF Cons(2) c a]
  then show ?case
    using Cons(1,3) c a after_attempt_I [OF _ refl, of s2 n a]
    by (cases e) (auto split: sum.splits)
qed

lemma subscription_I:
  assumes "I (initial_state (loaded_checkpoint env) n)"
    and "attempts env 1 rs (initial_state (loaded_checkpoint env) n) = (r, s)"
  shows "I s \<or> I (s\<lparr>s_serverRetry := None\<rparr>)"
proof (rule attempts_I [OF _ assms(2)])
  show "I ((initial_state (loaded_checkpoint env) n)\<lparr>s_serverRetry := None\<rparr>)"
    using assms(1) by (simp add: initial_state_def)
qed

end

section \<open>Reading a trace\<close>

text \<open>
  What a trace says at its end: the event the loop took up last, the checkpoint the store holds (only a
  save that succeeded counts), and the hint the server gave since the last wait.
\<close>

definition last_event :: "'e sse_action list \<Rightarrow> sse_event option" where
  "last_event tr = fold (\<lambda>a e. case a of Received (ItemEvent ev) \<Rightarrow> Some ev | _ \<Rightarrow> e) tr None"

definition saved_after :: "jsstr option \<Rightarrow> 'e sse_action list \<Rightarrow> jsstr option" where
  "saved_after c tr = fold (\<lambda>a c. case a of Saved v \<Rightarrow> v | _ \<Rightarrow> c) tr c"

definition hint_after :: "'e sse_action list \<Rightarrow> nat option" where
  "hint_after tr =
     fold (\<lambda>a h. case a of Slept _ \<Rightarrow> None | Received (ItemRetry n) \<Rightarrow> Some n | _ \<Rightarrow> h) tr None"

lemma read_Nil [simp]: "last_event [] = None" "saved_after c [] = c" "hint_after [] = None"
  by (simp_all add: last_event_def saved_after_def hint_after_def)

lemma read_snoc [simp]:
  "last_event (tr @ [a]) = (case a of Received (ItemEvent ev) \<Rightarrow> Some ev | _ \<Rightarrow> last_event tr)"
  "saved_after c (tr @ [a]) = (case a of Saved v \<Rightarrow> v | _ \<Rightarrow> saved_after c tr)"
  "hint_after (tr @ [a]) =
     (case a of Slept _ \<Rightarrow> None | Received (ItemRetry n) \<Rightarrow> Some n | _ \<Rightarrow> hint_after tr)"
  by (simp_all add: last_event_def saved_after_def hint_after_def split: sse_action.splits sse_item.splits)

lemma read_two [simp]:
  "last_event (tr @ [x, y]) = (case y of Received (ItemEvent ev) \<Rightarrow> Some ev | _ \<Rightarrow> last_event (tr @ [x]))"
  "saved_after c (tr @ [x, y]) = (case y of Saved v \<Rightarrow> v | _ \<Rightarrow> saved_after c (tr @ [x]))"
  "hint_after (tr @ [x, y]) =
     (case y of Slept _ \<Rightarrow> None | Received (ItemRetry n) \<Rightarrow> Some n | _ \<Rightarrow> hint_after (tr @ [x]))"
  using read_snoc(1) [of "tr @ [x]" y] read_snoc(2) [of c "tr @ [x]" y] read_snoc(3) [of "tr @ [x]" y] by simp_all

text \<open>The identifier an event is committed with; the empty one stands for no checkpoint.\<close>

definition checkpoint_of :: "jsstr \<Rightarrow> jsstr option" where
  "checkpoint_of i = (if i = [] then None else Some i)"

definition resume_header :: "jsstr option \<Rightarrow> jsstr option" where
  "resume_header c = (case c of None \<Rightarrow> None | Some i \<Rightarrow> if i = [] then None else Some (normalize_value i))"

text \<open>
  A handed over value is what the mapper makes of the event taken up last, and a later one is handed
  over only after the checkpoint of that event has been saved.
\<close>

definition one_in_flight :: "'e sse_env \<Rightarrow> 'e sse_action list \<Rightarrow> bool" where
  "one_in_flight env tr \<longleftrightarrow>
     (\<forall>a v b. tr = a @ Yielded v # b \<longrightarrow>
        (\<exists>ev. last_event a = Some ev \<and> e_mapper env ev = Inr (Some v) \<and>
          (\<forall>b1 w b2. b = b1 @ Yielded w # b2 \<longrightarrow> Saved (checkpoint_of (se_lastEventId ev)) \<in> set b1)))"

text \<open>Every event handed over has been saved since.\<close>

definition all_saved :: "'e sse_action list \<Rightarrow> bool" where
  "all_saved tr \<longleftrightarrow>
     (\<forall>a v b. tr = a @ Yielded v # b \<longrightarrow>
        (\<exists>ev. last_event a = Some ev \<and> Saved (checkpoint_of (se_lastEventId ev)) \<in> set b))"

text \<open>Every request carries the checkpoint that was saved last before it.\<close>

definition requests_resume :: "jsstr option \<Rightarrow> 'e sse_action list \<Rightarrow> bool" where
  "requests_resume c tr \<longleftrightarrow>
     (\<forall>a hs b. tr = a @ Requested hs # b \<longrightarrow>
        header_get (js ''Last-Event-ID'') hs = resume_header (saved_after c a))"

lemma snoc_split: "tr @ [x] = a @ y # b \<longleftrightarrow> (b = [] \<and> tr = a \<and> x = y) \<or> (\<exists>b'. b = b' @ [x] \<and> tr = a @ y # b')"
  by (cases b rule: rev_exhaust) auto

lemma snoc2_split: "(tr @ [x]) @ [y] = a @ z # b \<longleftrightarrow>
    (b = [] \<and> tr @ [x] = a \<and> y = z) \<or> (b = [y] \<and> tr = a \<and> x = z) \<or> (\<exists>b'. b = b' @ [x] @ [y] \<and> tr = a @ z # b')"
  unfolding snoc_split [of "tr @ [x]"] snoc_split [of tr] by auto

lemma one_in_flight_snoc:
  "one_in_flight env tr \<Longrightarrow> (\<And>v. x \<noteq> Yielded v) \<Longrightarrow> one_in_flight env (tr @ [x])"
  unfolding one_in_flight_def by (auto simp: snoc_split)

lemma one_in_flight_yield:
  assumes "one_in_flight env tr" and "all_saved tr" and "last_event tr = Some ev" and "e_mapper env ev = Inr (Some v)"
  shows "one_in_flight env (tr @ [Yielded v])"
  unfolding one_in_flight_def
proof (intro allI impI)
  fix a w b assume s: "tr @ [Yielded v] = a @ Yielded w # b"
  show "\<exists>ev. last_event a = Some ev \<and> e_mapper env ev = Inr (Some w) \<and>
      (\<forall>b1 w b2. b = b1 @ Yielded w # b2 \<longrightarrow> Saved (checkpoint_of (se_lastEventId ev)) \<in> set b1)"
  proof (cases "b = []")
    case True
    with s assms(3,4) show ?thesis by auto
  next
    case False
    with s obtain b' where b: "b = b' @ [Yielded v]" "tr = a @ Yielded w # b'" by (auto simp: snoc_split)
    then obtain ev where ev: "last_event a = Some ev" "e_mapper env ev = Inr (Some w)"
      "\<forall>b1 w b2. b' = b1 @ Yielded w # b2 \<longrightarrow> Saved (checkpoint_of (se_lastEventId ev)) \<in> set b1"
      using assms(1) unfolding one_in_flight_def by blast
    with assms(2) b(2) have "Saved (checkpoint_of (se_lastEventId ev)) \<in> set b'"
      unfolding all_saved_def by force
    with ev b(1) show ?thesis by (auto simp: snoc_split)
  qed
qed

lemma all_savedE:
  assumes "all_saved tr" and "tr = a @ Yielded v # b"
  obtains ev where "last_event a = Some ev" and "Saved (checkpoint_of (se_lastEventId ev)) \<in> set b"
  using assms unfolding all_saved_def by blast

lemma all_saved_snoc:
  assumes "all_saved tr" and "\<And>v. x \<noteq> Yielded v"
  shows "all_saved (tr @ [x])"
  unfolding all_saved_def
proof (intro allI impI)
  fix a v b assume "tr @ [x] = a @ Yielded v # b"
  then obtain b' where b: "b = b' @ [x]" "tr = a @ Yielded v # b'" using assms(2) by (auto simp: snoc_split)
  from assms(1) b(2) show "\<exists>ev. last_event a = Some ev \<and> Saved (checkpoint_of (se_lastEventId ev)) \<in> set b"
    by (rule all_savedE) (auto simp: b(1))
qed

lemma all_saved_insert:
  assumes "all_saved (tr @ [y])" and "\<And>v. x \<noteq> Yielded v" and "\<And>v. y \<noteq> Yielded v"
  shows "all_saved ((tr @ [x]) @ [y])"
  unfolding all_saved_def
proof (intro allI impI)
  fix a v b assume "(tr @ [x]) @ [y] = a @ Yielded v # b"
  then obtain b' where b: "b = b' @ [x] @ [y]" "tr = a @ Yielded v # b'"
    using assms(2,3) unfolding snoc2_split by auto
  from b(2) have "tr @ [y] = a @ Yielded v # (b' @ [y])" by simp
  with assms(1) show "\<exists>ev. last_event a = Some ev \<and> Saved (checkpoint_of (se_lastEventId ev)) \<in> set b"
    by (rule all_savedE) (auto simp: b(1))
qed

lemma all_saved_yield:
  assumes "all_saved tr" and "last_event tr = Some ev"
  shows "all_saved ((tr @ [Yielded v]) @ [Saved (checkpoint_of (se_lastEventId ev))])"
  unfolding all_saved_def
proof (intro allI impI)
  let ?y = "Saved (checkpoint_of (se_lastEventId ev))"
  fix a w b assume "(tr @ [Yielded v]) @ [?y] = a @ Yielded w # b"
  then consider "b = [?y]" "a = tr" | b' where "b = b' @ [Yielded v] @ [?y]" "tr = a @ Yielded w # b'"
    unfolding snoc2_split by auto
  then show "\<exists>ev. last_event a = Some ev \<and> Saved (checkpoint_of (se_lastEventId ev)) \<in> set b"
  proof cases
    case 2
    from assms(1) 2(2) show ?thesis by (rule all_savedE) (auto simp: 2(1))
  qed (use assms(2) in auto)
qed

lemma requests_resume_snoc:
  "requests_resume c tr \<Longrightarrow> (\<And>hs. x = Requested hs \<Longrightarrow>
     header_get (js ''Last-Event-ID'') hs = resume_header (saved_after c tr)) \<Longrightarrow> requests_resume c (tr @ [x])"
  unfolding requests_resume_def by (auto simp: snoc_split)

lemma request_resumes:
  assumes "request_headers env c = Inr hs"
  shows "header_get (js ''Last-Event-ID'') hs = resume_header c"
proof -
  have ne: "js_lower (js ''Last-Event-ID'') \<noteq> js_lower (js ''Accept'')"
    "js_lower (js ''Last-Event-ID'') \<noteq> js_lower (js ''Teslatlas-Protocol-Version'')"
    by (simp_all add: js_eval js_lower_def lower_unit_def in_range_def)
  from assms obtain h0 h1 where h0: "header_set (js ''Accept'') (js ''text/event-stream'') [] = Inr h0"
    and h1: "(case e_protocolVersion env of
              Some (StringArg v) \<Rightarrow> header_set (js ''Teslatlas-Protocol-Version'') v h0
            | _ \<Rightarrow> Inr h0) = Inr h1"
    and h2: "(case c of None \<Rightarrow> Inr h1
       | Some i \<Rightarrow> if 0 < length i then header_set (js ''Last-Event-ID'') i h1 else Inr h1) = Inr hs"
    unfolding request_headers_def rbind_Inr_iff by blast
  have "header_get (js ''Last-Event-ID'') h0 = None"
    using header_get_set [OF h0, of "js ''Last-Event-ID''"] ne by simp
  moreover have "header_get (js ''Last-Event-ID'') h1 = header_get (js ''Last-Event-ID'') h0"
    using h1 header_get_set [of "js ''Teslatlas-Protocol-Version''" _ h0 h1 "js ''Last-Event-ID''"] ne
    by (auto split: option.splits js_arg.splits)
  ultimately show ?thesis
    using h2 header_get_set [of "js ''Last-Event-ID''" _ h1 hs "js ''Last-Event-ID''"]
    by (auto simp: resume_header_def split: option.splits if_splits)
qed

lemma commit_cases:
  obtains (rejected) "commit env i s = (Some InvalidSseCheckpointError, s)"
  | (nostore) "\<not> e_hasStore env" "commit env i s = (None, s\<lparr>s_committed := checkpoint_of i\<rparr>)"
  | (failed) "e_hasStore env"
      "commit env i s = (Some InvalidSseCheckpointError,
         emit (SaveCalled (checkpoint_of i)) (s\<lparr>s_committed := checkpoint_of i, s_saves := Suc (s_saves s)\<rparr>))"
  | (saved) "e_hasStore env"
      "commit env i s = (None, emit (Saved (checkpoint_of i)) (emit (SaveCalled (checkpoint_of i))
         (s\<lparr>s_committed := checkpoint_of i, s_saves := Suc (s_saves s)\<rparr>)))"
  by (cases "2048 < length i \<or> containsControlCharacters i \<or> \<not> isByteString i"; cases "e_hasStore env";
      cases "e_save env (s_saves s)"; cases i)
    (auto simp: commit_def normalizeCheckpoint_def saveCheckpoint_def checkpoint_of_def Let_def)

section \<open>How long it waits\<close>

text \<open>
  The wait that a policy's answer \<open>x\<close> and the server's hint allow: without a hint it is the
  answer, with one it is the hint brought into the configured bounds.
\<close>

definition wait_of :: "'e sse_env \<Rightarrow> nat option \<Rightarrow> jsnum \<Rightarrow> nat \<Rightarrow> bool" where
  "wait_of env hint x d \<longleftrightarrow>
     (case hint of
        None \<Rightarrow> x = num_of_int (int d)
      | Some n \<Rightarrow> \<exists>m M. (case e_minimum env of None \<Rightarrow> num_of_int 0 | Some y \<Rightarrow> y) = num_of_int (int m) \<and>
          (case e_maximum env of None \<Rightarrow> num_of_int 30000 | Some y \<Rightarrow> y) = num_of_int (int M) \<and> m \<le> M \<and>
          d = (if n < m then m else if M < n then M else n))"

text \<open>Before every wait the policy was asked, with the hint received since the wait before, and chose
  to go on.\<close>

definition paced :: "'e sse_env \<Rightarrow> 'e sse_action list \<Rightarrow> bool" where
  "paced env tr \<longleftrightarrow>
     (\<forall>a d b. tr = a @ Slept d # b \<longrightarrow>
        (\<exists>a' ctx policy x. a = a' @ [PolicyAsked ctx] \<and> rc_serverRetry ctx = hint_after a' \<and>
           e_policy env = Some policy \<and> policy ctx = Inr (Some x) \<and> isNonNegativeSafeInteger x \<and>
           wait_of env (hint_after a') x d))"

lemma safe_milliseconds:
  assumes "isNonNegativeSafeInteger x"
  shows "x = num_of_int (int (milliseconds x))"
  using assms by (auto simp: isNonNegativeSafeInteger_def num_integer_Some milliseconds_def
      num_of_int_def split: option.splits if_splits)

lemma reconnect_delay_wait:
  assumes "assertRetryBounds (minimum_retry env) (maximum_retry env) = Inr ()" and "isNonNegativeSafeInteger x"
  shows "wait_of env hint x (reconnect_delay env hint (milliseconds x))"
proof -
  have b: "isNonNegativeSafeInteger (minimum_retry env)" "isNonNegativeSafeInteger (maximum_retry env)"
    "\<not> num_less (maximum_retry env) (minimum_retry env)"
    using assms(1) by (auto simp: assertRetryBounds_def split: if_splits)
  obtain m M where m: "minimum_retry env = num_of_int (int m)" "maximum_retry env = num_of_int (int M)"
    using safe_milliseconds [OF b(1)] safe_milliseconds [OF b(2)] by blast
  have "m \<le> M" using b(3) unfolding m by (simp add: num_of_int_def)
  moreover have "milliseconds (minimum_retry env) = m" "milliseconds (maximum_retry env) = M"
    unfolding m by (simp_all add: milliseconds_def num_of_int_def)
  ultimately show ?thesis
    using m safe_milliseconds [OF assms(2)]
    unfolding wait_of_def reconnect_delay_def clamp_def minimum_retry_def maximum_retry_def
    by (cases hint) auto
qed

definition paced_inv :: "'e sse_env \<Rightarrow> 'e sub_state \<Rightarrow> bool" where
  "paced_inv env s \<longleftrightarrow> hint_after (s_trace s) = s_serverRetry s \<and>
     (assertRetryBounds (minimum_retry env) (maximum_retry env) = Inr () \<longrightarrow> paced env (s_trace s))"

lemma paced_snoc: "paced env tr \<Longrightarrow> (\<And>d. x \<noteq> Slept d) \<Longrightarrow> paced env (tr @ [x])"
  unfolding paced_def by (auto simp: snoc_split)

lemma paced_slept:
  assumes "paced env tr" and "rc_serverRetry ctx = hint_after tr" and "e_policy env = Some policy"
    and "policy ctx = Inr (Some x)" and "isNonNegativeSafeInteger x" and "wait_of env (hint_after tr) x d"
  shows "paced env ((tr @ [PolicyAsked ctx]) @ [Slept d])"
  unfolding paced_def snoc2_split using assms by (auto simp: paced_def)

interpretation paced: subscription_invariant env "paced_inv env" for env
proof unfold_locales
  show "paced_inv env (snd (commit env i s))" if "paced_inv env s" for s i
    using that paced_snoc [OF paced_snoc, of env "s_trace s" "SaveCalled (checkpoint_of i)" "Saved (checkpoint_of i)"]
    by (cases rule: commit_cases [of env i s]) (auto simp: paced_inv_def emit_def paced_snoc)
  show "paced_inv env ((emit (Slept (reconnect_delay env (s_serverRetry s) (milliseconds d)))
      (emit (PolicyAsked ctx) s))\<lparr>s_serverRetry := None\<rparr>)"
    if "paced_inv env s" "rc_serverRetry ctx = s_serverRetry s" "e_policy env = Some policy"
      "policy ctx = Inr (Some d)" "isNonNegativeSafeInteger d" for s ctx policy d
    using that reconnect_delay_wait [of env d "s_serverRetry s"] paced_slept [of env "s_trace s" ctx policy d]
    by (auto simp: paced_inv_def emit_def)
qed (auto simp: paced_inv_def emit_def paced_snoc split: sse_item.splits)

section \<open>Deliveries, saves and requests\<close>

text \<open>The signal was seen aborted at an earlier check; once aborted, a signal stays aborted.\<close>

definition abort_seen :: "'e sse_env \<Rightarrow> 'e sub_state \<Rightarrow> bool" where
  "abort_seen env s \<longleftrightarrow> (\<exists>m < s_checks s. is_aborted (e_signal env m))"

definition lasting :: "signal_oracle \<Rightarrow> bool" where
  "lasting sig \<longleftrightarrow> (\<forall>m n. m \<le> n \<longrightarrow> is_aborted (sig m) \<longrightarrow> is_aborted (sig n))"

lemma sub_check_cases:
  obtains (clear) "sub_check env s = (None, s\<lparr>s_checks := Suc (s_checks s)\<rparr>)" "\<not> is_aborted (e_signal env (s_checks s))"
  | (aborted) e where "sub_check env s = (Some e, s\<lparr>s_checks := Suc (s_checks s)\<rparr>)"
      "is_aborted (e_signal env (s_checks s))"
  by (cases "is_aborted (e_signal env (s_checks s))") (auto simp: sub_check_def Let_def)

text \<open>
  Three stages. \<open>over\<close>: what was done so far is in order, but the subscription may not go on;
  \<open>holding i\<close>: it is in order once the checkpoint \<open>i\<close> is saved; \<open>steady\<close>: nothing
  is left to save. Going on needs the committed checkpoint to be the saved one.
\<close>

definition over :: "'e sse_env \<Rightarrow> jsstr option \<Rightarrow> 'e sub_state \<Rightarrow> bool" where
  "over env c s \<longleftrightarrow> requests_resume c (s_trace s) \<and> (lasting (e_signal env) \<longrightarrow> one_in_flight env (s_trace s))"

definition holding :: "'e sse_env \<Rightarrow> jsstr option \<Rightarrow> jsstr \<Rightarrow> 'e sub_state \<Rightarrow> bool" where
  "holding env c i s \<longleftrightarrow> over env c s \<and> saved_after c (s_trace s) = s_committed s \<and>
     (lasting (e_signal env) \<longrightarrow> all_saved (s_trace s @ [Saved (checkpoint_of i)]))"

definition steady :: "'e sse_env \<Rightarrow> jsstr option \<Rightarrow> 'e sub_state \<Rightarrow> bool" where
  "steady env c s \<longleftrightarrow> over env c s \<and> saved_after c (s_trace s) = s_committed s \<and>
     (lasting (e_signal env) \<longrightarrow> all_saved (s_trace s))"

lemmas stages = over_def holding_def steady_def

lemma stage_frame [simp]:
  "over env c (s\<lparr>s_checks := n\<rparr>) = over env c s" "holding env c i (s\<lparr>s_checks := n\<rparr>) = holding env c i s"
  "steady env c (s\<lparr>s_checks := n\<rparr>) = steady env c s"
  "steady env c (s\<lparr>s_serverRetry := r\<rparr>) = steady env c s"
  "steady env c (s\<lparr>s_yields := n\<rparr>) = steady env c s"
  by (simp_all add: stages)

text \<open>Actions that are neither a delivery nor a request nor a save.\<close>

definition neutral :: "'e sse_action \<Rightarrow> bool" where
  "neutral a \<longleftrightarrow> (case a of Requested _ \<Rightarrow> False | Yielded _ \<Rightarrow> False | Saved _ \<Rightarrow> False | _ \<Rightarrow> True)"

lemma neutral_simps [simp]:
  "neutral (Received item)" "neutral (SaveCalled v)" "neutral CancelledReader" "neutral CancelledBody"
  "neutral (PolicyAsked ctx)" "neutral (Slept d)"
  by (simp_all add: neutral_def)

lemma stage_emit:
  assumes "neutral a"
  shows "over env c s \<Longrightarrow> over env c (emit a s)" and "holding env c i s \<Longrightarrow> holding env c i (emit a s)"
    and "steady env c s \<Longrightarrow> steady env c (emit a s)"
proof -
  have a: "\<And>v. a \<noteq> Yielded v" "\<And>hs. a \<noteq> Requested hs" "\<And>v. a \<noteq> Saved v"
    using assms by (auto simp: neutral_def)
  have s: "saved_after c (tr @ [a]) = saved_after c tr" for tr using a(3) by (cases a) auto
  show o: "over env c (emit a s)" if "over env c s" for s
    using that a by (auto simp: over_def emit_def intro!: one_in_flight_snoc requests_resume_snoc)
  show "holding env c i (emit a s)" if "holding env c i s"
    using that o [of s] s a(1) all_saved_insert [of "s_trace s" "Saved (checkpoint_of i)" a]
    by (auto simp: holding_def emit_def)
  show "steady env c (emit a s)" if "steady env c s"
    using that o [of s] s a(1) all_saved_snoc [of "s_trace s" a] by (auto simp: steady_def emit_def)
qed

lemma steady_holding: "steady env c s \<Longrightarrow> holding env c i s"
  by (auto simp: steady_def holding_def intro: all_saved_snoc)

lemma steady_over: "steady env c s \<Longrightarrow> over env c s"
  by (simp add: steady_def)

lemma holding_over: "holding env c i s \<Longrightarrow> over env c s"
  by (simp add: holding_def)

lemma steady_request:
  assumes "steady env c s" and "request_headers env (s_committed s) = Inr hs"
  shows "steady env c (emit (Requested hs) s)"
  using assms request_resumes [OF assms(2)]
  by (auto simp: steady_def over_def emit_def intro!: one_in_flight_snoc requests_resume_snoc all_saved_snoc)

lemma steady_yield:
  assumes "steady env c s" and "last_event (s_trace s) = Some ev" and "e_mapper env ev = Inr (Some v)"
  shows "holding env c (se_lastEventId ev) (emit (Yielded v) s)"
  using assms all_saved_yield [of "s_trace s" ev v] one_in_flight_yield [of env "s_trace s" ev v]
  by (auto simp: steady_def holding_def over_def emit_def intro!: requests_resume_snoc)

lemma holding_commit:
  assumes "e_hasStore env" and "holding env c i s" and "item_result (commit env i s) = (r, s')"
  shows "case r of ItemNext \<Rightarrow> steady env c s' | ItemThrew e \<Rightarrow> terminal_error e \<and> over env c s' | ItemStopped \<Rightarrow> False"
proof -
  let ?v = "checkpoint_of i"
  let ?s1 = "emit (SaveCalled ?v) (s\<lparr>s_committed := ?v, s_saves := Suc (s_saves s)\<rparr>)"
  have t: "terminal_error InvalidSseCheckpointError" by (simp add: terminal_error_def)
  have called: "over env c ?s1" using assms(2) by (intro stage_emit) (simp_all add: holding_def over_def)
  have "all_saved ((s_trace s @ [SaveCalled ?v]) @ [Saved ?v])" if "lasting (e_signal env)"
    using assms(2) that by (intro all_saved_insert) (auto simp: holding_def)
  with called have saved: "steady env c (emit (Saved ?v) ?s1)"
    by (auto simp: steady_def over_def emit_def intro!: one_in_flight_snoc [of env "s_trace s @ [SaveCalled ?v]", simplified]
        requests_resume_snoc [of c "s_trace s @ [SaveCalled ?v]", simplified])
  show ?thesis
  proof (cases rule: commit_cases [of env i s])
    case failed
    with assms(3) called t show ?thesis by (auto simp: item_result_def)
  next
    case saved
    with assms(3) \<open>steady env c (emit (Saved ?v) ?s1)\<close> show ?thesis by (auto simp: item_result_def)
  qed (use assms t in \<open>auto simp: item_result_def holding_over\<close>)
qed

text \<open>
  How an item or a body may end: \<open>excused\<close> with an error, \<open>stopped\<close> at a delivery after
  which no save was called.
\<close>

definition excused :: "'e sse_env \<Rightarrow> jsstr option \<Rightarrow> exn \<Rightarrow> 'e sub_state \<Rightarrow> bool" where
  "excused env c e s \<longleftrightarrow> steady env c s \<or> (over env c s \<and> terminal_error e) \<or>
     ((\<exists>i. holding env c i s) \<and> abort_seen env s)"

definition stopped_at :: "'e sse_action list \<Rightarrow> bool" where
  "stopped_at tr \<longleftrightarrow> (\<exists>a v b. tr = a @ Yielded v # b \<and> (\<forall>w. Yielded w \<notin> set b) \<and> (\<forall>i. SaveCalled i \<notin> set b))"

definition stopped :: "'e sse_env \<Rightarrow> jsstr option \<Rightarrow> 'e sub_state \<Rightarrow> bool" where
  "stopped env c s \<longleftrightarrow> over env c s \<and> stopped_at (s_trace s)"

lemma stopped_at_snoc:
  assumes "stopped_at tr" and "neutral x" and "\<And>i. x \<noteq> SaveCalled i"
  shows "stopped_at (tr @ [x])"
proof -
  obtain a v b where "tr = a @ Yielded v # b" "\<forall>w. Yielded w \<notin> set b" "\<forall>i. SaveCalled i \<notin> set b"
    using assms(1) unfolding stopped_at_def by blast
  with assms(2,3) have "tr @ [x] = a @ Yielded v # (b @ [x])" "\<forall>w. Yielded w \<notin> set (b @ [x])"
    "\<forall>i. SaveCalled i \<notin> set (b @ [x])"
    by (auto simp: neutral_def)
  then show ?thesis unfolding stopped_at_def by blast
qed

lemma steady_excused: "steady env c s \<Longrightarrow> excused env c e s"
  by (simp add: excused_def)

lemma excused_over: "excused env c e s \<Longrightarrow> over env c s"
  by (auto simp: excused_def steady_over holding_over)

lemma release_stage:
  "steady env c s \<Longrightarrow> steady env c (release st s)" "excused env c e s \<Longrightarrow> excused env c e (release st s)"
  "stopped env c s \<Longrightarrow> stopped env c (release st s)"
proof -
  show "steady env c s \<Longrightarrow> steady env c (release st s)" by (simp add: release_def stage_emit)
  have "abort_seen env (emit a s) = abort_seen env s" for a by (simp add: abort_seen_def emit_def)
  then show "excused env c e s \<Longrightarrow> excused env c e (release st s)"
    using stage_emit [OF neutral_simps(3)] unfolding excused_def release_def by (simp, blast)
  show "stopped env c s \<Longrightarrow> stopped env c (release st s)"
    by (auto simp: stopped_def release_def stage_emit) (simp add: emit_def stopped_at_snoc)
qed

definition item_stage :: "'e sse_env \<Rightarrow> jsstr option \<Rightarrow> item_end \<Rightarrow> 'e sub_state \<Rightarrow> bool" where
  "item_stage env c r s =
     (case r of ItemNext \<Rightarrow> steady env c s | ItemThrew e \<Rightarrow> excused env c e s | ItemStopped \<Rightarrow> stopped env c s)"

lemma committed_stage:
  assumes "e_hasStore env" and "holding env c i s" and "item_result (commit env i s) = (r, s')"
  shows "item_stage env c r s'"
  using holding_commit [OF assms] by (cases r) (auto simp: item_stage_def excused_def)

lemma deliver_stage:
  assumes store: "e_hasStore env" and s: "steady env c s" and ev: "last_event (s_trace s) = Some ev"
    and v: "e_mapper env ev = Inr (Some v)" and d: "deliver env v (se_lastEventId ev) s = (r, s')"
  shows "item_stage env c r s'"
proof -
  let ?s1 = "emit (Yielded v) (s\<lparr>s_yields := Suc (s_yields s)\<rparr>)"
  have h: "holding env c (se_lastEventId ev) ?s1" using s ev v by (intro steady_yield) simp_all
  have st: "stopped_at (s_trace ?s1)" unfolding stopped_at_def emit_def by force
  show ?thesis
  proof (cases "e_resumes env (s_yields s)")
    case True
    show ?thesis
    proof (cases rule: sub_check_cases [of env ?s1])
      case clear
      with d True have "item_result (commit env (se_lastEventId ev) (?s1\<lparr>s_checks := Suc (s_checks ?s1)\<rparr>)) = (r, s')"
        by (simp add: deliver_def)
      from committed_stage [OF store _ this, of c] h show ?thesis by simp
    next
      case (aborted e)
      with d True h show ?thesis
        by (auto simp: deliver_def item_stage_def excused_def abort_seen_def)
    qed
  qed (use d h st in \<open>auto simp: deliver_def item_stage_def stopped_def holding_over\<close>)
qed

lemma handle_event_stage:
  assumes store: "e_hasStore env" and s: "steady env c s" and ev: "last_event (s_trace s) = Some ev"
    and h: "handle_event env ev s = (r, s')"
  shows "item_stage env c r s'"
proof (cases "e_mapper env ev")
  case (Inr mapped)
  show ?thesis
  proof (cases rule: sub_check_cases [of env s])
    case clear
    let ?s1 = "s\<lparr>s_checks := Suc (s_checks s)\<rparr>"
    have s1: "steady env c ?s1" "last_event (s_trace ?s1) = Some ev" using s ev by simp_all
    show ?thesis
    proof (cases mapped)
      case None
      with h Inr clear have "item_result (commit env (se_lastEventId ev) ?s1) = (r, s')" by (simp add: handle_event_def)
      with committed_stage [OF store steady_holding [OF s1(1)]] show ?thesis .
    next
      case (Some v)
      with h Inr clear have "deliver env v (se_lastEventId ev) ?s1 = (r, s')" by (simp add: handle_event_def)
      with deliver_stage [OF store s1] Inr Some show ?thesis by simp
    qed
  qed (use h s Inr in \<open>auto simp: handle_event_def item_stage_def steady_excused\<close>)
qed (use h s in \<open>auto simp: handle_event_def item_stage_def steady_excused\<close>)

lemma handle_item_stage:
  assumes store: "e_hasStore env" and s: "steady env c s" and h: "handle_item env item s = (r, s')"
  shows "item_stage env c r s'"
proof (cases rule: sub_check_cases [of env s])
  case clear
  let ?s1 = "emit (Received item) (s\<lparr>s_checks := Suc (s_checks s)\<rparr>)"
  have s1: "steady env c ?s1" using s by (intro stage_emit) simp_all
  show ?thesis
  proof (cases item)
    case (ItemRetry n)
    with h clear s1 show ?thesis by (auto simp: handle_item_def item_stage_def)
  next
    case (ItemCheckpoint i)
    with h clear have "item_result (commit env i ?s1) = (r, s')" by (simp add: handle_item_def)
    with committed_stage [OF store steady_holding [OF s1]] show ?thesis .
  next
    case (ItemEvent ev)
    with h clear have "handle_event env ev ?s1 = (r, s')" by (simp add: handle_item_def)
    moreover have "last_event (s_trace ?s1) = Some ev" by (simp add: emit_def ItemEvent)
    ultimately show ?thesis using handle_event_stage [OF store s1] by blast
  qed
qed (use h s in \<open>auto simp: handle_item_def item_stage_def steady_excused\<close>)

lemma consume_stage:
  assumes store: "e_hasStore env"
  shows "steady env c s \<Longrightarrow> consume env st s = (b, s') \<Longrightarrow>
    (case b of BodyThrew e \<Rightarrow> excused env c e s' | BodyStopped \<Rightarrow> stopped env c s' | _ \<Rightarrow> steady env c s')"
proof (induction st s rule: consume_induct [of env])
  case (1 st s)
  have pulled: "steady env c s1" if "pull_at env st s = (r, st1, s1)" for r st1 s1
    using pull_at_state [OF that] 1(2) by auto
  have item: "item_stage env c r s2" if "pull_at env st s = (Yield item, st1, s1)" "handle_item env item s1 = (r, s2)"
    for item st1 s1 r s2
    using handle_item_stage [OF store pulled [OF that(1)] that(2)] .
  from 1(3) show ?case
  proof (cases rule: consume_cases)
    case finished
    with pulled show ?thesis by (simp add: release_stage)
  next
    case threw
    with pulled show ?thesis by (simp add: release_stage steady_excused)
  next
    case pending
    with pulled show ?thesis by simp
  next
    case item_threw
    with item show ?thesis by (fastforce simp: item_stage_def release_stage)
  next
    case item_stopped
    with item show ?thesis by (fastforce simp: item_stage_def release_stage)
  next
    case item_next
    with item 1(1) show ?thesis by (fastforce simp: item_stage_def)
  qed
qed

definition attempt_stage :: "'e sse_env \<Rightarrow> jsstr option \<Rightarrow> attempt_end \<Rightarrow> 'e sub_state \<Rightarrow> bool" where
  "attempt_stage env c a s =
     (case a of AttemptThrew e \<Rightarrow> excused env c e s | AttemptStopped \<Rightarrow> stopped env c s | _ \<Rightarrow> steady env c s)"

lemma attempt_stage_steady: "steady env c s \<Longrightarrow> a \<noteq> AttemptStopped \<Longrightarrow> attempt_stage env c a s"
  by (cases a) (simp_all add: attempt_stage_def steady_excused)

lemma steady_drop: "steady env c s \<Longrightarrow> steady env c (drop_body r s)"
  by (simp add: drop_body_def stage_emit)

lemma accept_response_stage:
  assumes "e_hasStore env" and "steady env c s" and "accept_response env r s = (a, s')"
  shows "attempt_stage env c a s'"
proof (cases "r_ok r \<and> isEventStreamContentType (r_header (js ''content-type'') r) \<and> r_body r \<noteq> None")
  case True
  then obtain reads b s1 where b: "consume env (parseSseStream (r_locked r) reads (s_committed s)) s = (b, s1)"
    and a: "a = body_attempt b" "s' = s1"
    using assms(3) by (auto simp: accept_response_def split: prod.splits)
  from consume_stage [OF assms(1,2) b] a show ?thesis
    by (cases b) (simp_all add: body_attempt_def attempt_stage_def)
next
  case False
  with assms(2,3) steady_drop [of env c s r] show ?thesis
    by (auto simp: accept_response_def intro!: attempt_stage_steady split: if_splits)
qed

lemma handle_response_stage:
  assumes "e_hasStore env" and "steady env c s" and "handle_response env r s = (a, s')"
  shows "attempt_stage env c a s'"
proof -
  obtain e1 s1 where c1: "sub_check env s = (e1, s1)" by fastforce
  obtain e2 s2 where c2: "sub_check env s1 = (e2, s2)" by fastforce
  obtain res r1 where cl: "classify env r = (res, r1)" by fastforce
  have "steady env c s1" "steady env c s2"
    using assms(2) c1 c2 by (auto simp: sub_check_def Let_def)
  with assms(1,3) c1 c2 cl accept_response_stage [OF assms(1)] show ?thesis
    by (cases e1; cases res; cases "the res"; cases e2; cases "projr (the res)")
      (auto simp: handle_response_def intro: attempt_stage_steady steady_drop)
qed

lemma run_attempt_stage:
  assumes "e_hasStore env" and "steady env c s" and "run_attempt env outcome s = (a, s')"
  shows "attempt_stage env c a s'"
proof (cases "request_headers env (s_committed s)")
  case (Inr hs)
  have f: "steady env c (emit (Requested hs) s)" using assms(2) Inr by (rule steady_request)
  show ?thesis
  proof (cases outcome)
    case (Some r)
    with Inr assms f handle_response_stage [OF assms(1) f] show ?thesis
      by (cases r) (auto simp: run_attempt_def Let_def intro: attempt_stage_steady)
  qed (use Inr assms f in \<open>auto simp: run_attempt_def Let_def intro: attempt_stage_steady\<close>)
qed (use assms in \<open>auto simp: run_attempt_def intro: attempt_stage_steady\<close>)

lemma wait_stage:
  assumes "steady env c s" and "wait_to_reconnect env n reason s = R"
  shows "case R of Inl (_, s') \<Rightarrow> steady env c s' | Inr s' \<Rightarrow> steady env c s'"
  using assms(2)
proof (cases rule: wait_cases)
  case (1 d s1 e s2)
  have s1: "steady env c s1" using decide_cases [OF 1(1)] assms(1) by (auto simp: stage_emit)
  then have s2: "steady env c s2" using 1(2) by (auto simp: sub_check_def Let_def)
  then have "steady env c (emit (Slept d) s2)" for d by (simp add: stage_emit)
  moreover from this have "steady env c (snd (sub_check env (emit (Slept d) s2)))" for d
    by (simp add: sub_check_def Let_def)
  ultimately show ?thesis using 1(3) s1 s2 by (auto simp: Let_def)
qed

lemma wait_not_stopped:
  assumes "wait_to_reconnect env n reason s = Inl (r, s')"
  shows "r \<noteq> SubStopped"
  using assms by (auto simp: wait_to_reconnect_def Let_def
      split: prod.splits sum.splits option.splits reconnect_reason.splits)

definition end_stage :: "'e sse_env \<Rightarrow> jsstr option \<Rightarrow> subscription_end \<Rightarrow> 'e sub_state \<Rightarrow> bool" where
  "end_stage env c r s \<longleftrightarrow> over env c s \<and> (r = SubStopped \<longrightarrow> stopped_at (s_trace s))"

lemma over_end: "over env c s \<Longrightarrow> r \<noteq> SubStopped \<Longrightarrow> end_stage env c r s"
  by (simp add: end_stage_def)

text \<open>An attempt that threw goes on only if nothing is left to save.\<close>

lemma excused_clear:
  assumes "excused env c e s" and "\<not> is_aborted (e_signal env (s_checks s))" and "\<not> terminal_error e"
  shows "steady env c s"
proof -
  have "steady env c s" if "holding env c i s" "abort_seen env s" for i
  proof -
    have "\<not> lasting (e_signal env)"
      using that(2) assms(2) unfolding lasting_def abort_seen_def by (meson less_imp_le)
    with that(1) show ?thesis by (simp add: holding_def steady_def)
  qed
  with assms(1,3) show ?thesis by (auto simp: excused_def)
qed

lemma after_attempt_stage:
  assumes "attempt_stage env c a s" and "after_attempt env n (a, s) = R"
  shows "case R of Inl (r, s') \<Rightarrow> end_stage env c r s' | Inr s' \<Rightarrow> steady env c s'"
proof -
  have waited: "case wait_to_reconnect env n reason t of Inl (r, s') \<Rightarrow> end_stage env c r s' | Inr s' \<Rightarrow> steady env c s'"
    if "steady env c t" for reason t
    using wait_stage [OF that refl, of n reason] wait_not_stopped [of env n reason t]
    by (auto intro!: over_end steady_over split: sum.splits prod.splits)
  show ?thesis
  proof (cases a)
    case (AttemptThrew e)
    then have exc: "excused env c e s" using assms(1) by (simp add: attempt_stage_def)
    have o: "over env c (s\<lparr>s_checks := Suc (s_checks s)\<rparr>)" using excused_over [OF exc] by simp
    show ?thesis
    proof (cases rule: sub_check_cases [of env s])
      case clear
      with exc have "\<not> terminal_error e \<Longrightarrow> steady env c (s\<lparr>s_checks := Suc (s_checks s)\<rparr>)"
        by (simp add: excused_clear)
      with AttemptThrew clear assms(2) waited o show ?thesis
        by (auto simp: after_attempt_def over_end split: if_splits)
    next
      case (aborted x)
      with AttemptThrew assms(2) o show ?thesis by (auto simp: after_attempt_def over_end)
    qed
  qed (use assms waited in \<open>auto simp: after_attempt_def attempt_stage_def end_stage_def stopped_def steady_over\<close>)
qed

lemma attempts_stage:
  assumes store: "e_hasStore env"
  shows "steady env c s \<Longrightarrow> attempts env n rs s = (r, s') \<Longrightarrow> end_stage env c r s'"
proof (induction rs arbitrary: n s)
  case Nil
  obtain a s2 where a: "run_attempt env None (s\<lparr>s_checks := Suc (s_checks s), s_serverRetry := None\<rparr>) = (a, s2)"
    by fastforce
  have "attempt_stage env c a s2" using run_attempt_stage [OF store _ a] Nil(1) by simp
  from after_attempt_stage [OF this refl, of n] Nil a show ?case
    by (cases rule: sub_check_cases [of env s]) (auto intro!: over_end steady_over split: sum.splits)
next
  case (Cons o' rs)
  obtain a s2 where a: "run_attempt env (Some o') (s\<lparr>s_checks := Suc (s_checks s), s_serverRetry := None\<rparr>) = (a, s2)"
    by fastforce
  have "attempt_stage env c a s2" using run_attempt_stage [OF store _ a] Cons(2) by simp
  from after_attempt_stage [OF this refl, of n] Cons a show ?case
    by (cases rule: sub_check_cases [of env s]) (auto intro!: over_end steady_over split: sum.splits)
qed

text \<open>A subscription with a store, from its start.\<close>

lemma subscription_stage:
  assumes "e_hasStore env" and "subscribeToSse env os = (r, s)"
  shows "end_stage env (loaded_checkpoint env) r s"
  using assms(2)
proof (cases rule: subscribe_cases)
  case early
  then show ?thesis by (auto simp: end_stage_def over_def requests_resume_def one_in_flight_def)
next
  case (attempts n)
  have "steady env (loaded_checkpoint env) (initial_state (loaded_checkpoint env) n)"
    by (simp add: stages initial_state_def requests_resume_def one_in_flight_def all_saved_def)
  from attempts_stage [OF assms(1) this attempts(1)] show ?thesis .
qed

section \<open>The default sleep\<close>

lemma sleep_loop_delays:
  "sleep_loop sig interrupted n remaining = (delays, r) \<Longrightarrow>
     list_all (\<lambda>d. 0 < d \<and> d \<le> maximumTimerDelay) delays \<and> sum_list delays \<le> remaining \<and>
     (r = Inr () \<longrightarrow> sum_list delays = remaining)"
proof (induction sig interrupted n remaining arbitrary: delays r rule: sleep_loop.induct)
  case (1 sig interrupted n remaining)
  let ?d = "min remaining maximumTimerDelay"
  show ?case
  proof (cases "remaining = 0 \<or> is_aborted (sig n) \<or> interrupted n \<noteq> None")
    case True
    with "1.prems" show ?thesis
      by (auto simp: sleep_loop.simps [of sig interrupted n remaining] Let_def maximumTimerDelay_def
          split: if_splits)
  next
    case False
    obtain ds r' where rec: "sleep_loop sig interrupted (Suc n) (remaining - ?d) = (ds, r')" by fastforce
    with False "1.prems" have "delays = ?d # ds" "r' = r"
      by (auto simp: sleep_loop.simps [of sig interrupted n remaining] Let_def)
    with "1.IH" [OF _ _ refl _ rec] False show ?thesis
      by (auto simp: maximumTimerDelay_def min_def split: if_splits)
  qed
qed

section \<open>A sample run\<close>

text \<open>
  The first body asks for a retry after 7 milliseconds, carries two events and then breaks off; the
  second request does not settle. The policy would wait 5 milliseconds, the bounds are 10 and 30000.
\<close>

definition trial_env :: "sse_event sse_env" where
  "trial_env =
     \<lparr>e_signal = live, e_hasStore = True, e_load = Inr (Some (StringArg [97])), e_save = (\<lambda>_. True),
      e_protocolVersion = None, e_minimum = Some (num_of_int 10), e_maximum = None, e_classifier = None,
      e_mapper = (\<lambda>ev. Inr (Some ev)), e_policy = Some (\<lambda>ctx. Inr (Some (num_of_int 5))),
      e_sleep = (\<lambda>_ _. Inr ()), e_resumes = (\<lambda>_. True)\<rparr>"

lemma trial_fields:
  "e_signal trial_env = live" "e_hasStore trial_env" "e_load trial_env = Inr (Some (StringArg [97]))"
  "e_save trial_env n" "e_protocolVersion trial_env = None" "e_minimum trial_env = Some (num_of_int 10)"
  "e_maximum trial_env = None" "e_classifier trial_env = None" "e_mapper trial_env ev = Inr (Some ev)"
  "e_policy trial_env = Some (\<lambda>ctx. Inr (Some (num_of_int 5)))" "e_sleep trial_env n d = Inr ()"
  "e_resumes trial_env n"
  by (simp_all add: trial_env_def)

definition trial_text :: jsstr where
  "trial_text = [114, 101, 116, 114, 121, 58, 55, 10, 105, 100, 58, 98, 10, 100, 97, 116, 97, 58, 120, 10, 10,
     105, 100, 58, 99, 10, 100, 97, 116, 97, 58, 121, 10, 10]"

definition trial_event_of :: "jsstr \<Rightarrow> jsstr \<Rightarrow> sse_event" where
  "trial_event_of i d = \<lparr>se_event = js ''message'', se_data = d, se_lastEventId = i\<rparr>"

definition trial_items :: "sse_item list" where
  "trial_items = [ItemRetry 7, ItemEvent (trial_event_of [98] [120]), ItemEvent (trial_event_of [99] [121])]"

definition trial_response :: response where
  "trial_response = \<lparr>r_status = 200, r_headers = [(js ''content-type'', js ''text/event-stream'')],
     r_body = Some [ReadChunk (utf8_encode trial_text), ReadRejected], r_locked = False\<rparr>"

lemma trial_reference: "sse_reference i trial_text = trial_items"
  by (simp add: trial_text_def trial_items_def trial_event_of_def sse_reference_def sse_lines_def strip_bom_def
      new_block_def process_line_def field_name_def field_value_def block_items_def starts_with_def js_eval
      retry_value_def dec_value_def digit_val_def is_digit_def in_range_def max_safe_integer_def)

lemma ascii_well_formed: "list_all (\<lambda>c. c < 128) s \<Longrightarrow> well_formed s"
proof (induction s rule: code_points.induct)
  case (2 c)
  then have "unat c < 128" by (simp add: word_less_nat_alt)
  then show ?case by (simp add: well_formed_def scalar_value_def surrogate_cp_def)
next
  case (3 c d cs)
  then have "unat c < 128" by (simp add: word_less_nat_alt)
  then show ?case using 3 by (simp add: well_formed_def scalar_value_def surrogate_cp_def is_high_def in_range_def)
qed (simp add: well_formed_def)

lemma trial_decoded: "decode_bytes utf8_init (utf8_encode trial_text) = (utf8_init, trial_text)"
proof -
  have "well_formed trial_text"
    by (rule ascii_well_formed) (simp add: trial_text_def)
  then show ?thesis
    by (simp add: decode_bytes_def utf8_encode_def well_formed_def decode_utf8_cps units_of_code_points)
qed

lemma ascii_length: "list_all (\<lambda>c. c < 128) s \<Longrightarrow> utf8_length s = length s"
proof (induction s rule: code_points.induct)
  case (2 c)
  then have "unat c < 128" by (simp add: word_less_nat_alt)
  then show ?case by (simp add: utf8_length_def utf8_encode_def utf8_cp_def surrogate_cp_def)
next
  case (3 c d cs)
  then have "unat c < 128" by (simp add: word_less_nat_alt)
  then show ?case using 3 by (simp add: utf8_length_def utf8_encode_def utf8_cp_def surrogate_cp_def is_high_def in_range_def)
qed simp

lemma trial_length: "utf8_length trial_text = 34"
proof -
  have "utf8_length trial_text = length trial_text"
    by (rule ascii_length) (simp add: trial_text_def)
  then show ?thesis by (simp add: trial_text_def)
qed

lemma trial_fed:
  obtains q where "feed (new_parser i) trial_text = Inr q" and "p_items q = trial_items"
proof -
  have "utf8_length trial_text \<le> maximumEventDataBytes"
    by (simp add: trial_length maximumEventDataBytes_def)
  then have "feed (new_parser i) trial_text \<noteq> Inl e" for e by (rule feed_total)
  then obtain q where "feed (new_parser i) trial_text = Inr q" by (metis sum.exhaust)
  with feed_refines [OF this] trial_reference that show thesis by simp
qed

lemma trial_window: "windows_of windowSize (utf8_encode trial_text) = [utf8_encode trial_text]"
  using trial_length by (auto simp: utf8_length_def windows_of.simps windowSize_def)

lemma trial_feed_window:
  "\<exists>q. \<forall>st. st_decoder st = utf8_init \<longrightarrow> st_parser st = new_parser i \<longrightarrow>
    feed_window (utf8_encode trial_text) st = Inr (st\<lparr>st_parser := q, st_queue := trial_items\<rparr>)"
proof -
  obtain q where q: "feed (new_parser i) trial_text = Inr q" "p_items q = trial_items" by (rule trial_fed)
  have "feed_window (utf8_encode trial_text) st = Inr (st\<lparr>st_parser := q\<lparr>p_items := []\<rparr>, st_queue := trial_items\<rparr>)"
    if "st_decoder st = utf8_init" "st_parser st = new_parser i" for st
    using q that by (cases st) (simp add: feed_window_def trial_decoded feed_text_def takeItems_def rbind_def)
  then show ?thesis by blast
qed

text \<open>What the subscription does over the body of the sample response.\<close>

definition trial_actions :: "sse_event sse_action list" where
  "trial_actions =
     [Received (ItemRetry 7), Received (ItemEvent (trial_event_of [98] [120])), Yielded (trial_event_of [98] [120]),
      SaveCalled (Some [98]), Saved (Some [98]), Received (ItemEvent (trial_event_of [99] [121])),
      Yielded (trial_event_of [99] [121]), SaveCalled (Some [99]), Saved (Some [99])]"

lemma trial_commit:
  "commit trial_env [c] s = (None, emit (Saved (Some [c])) (emit (SaveCalled (Some [c]))
     (s\<lparr>s_committed := Some [c], s_saves := Suc (s_saves s)\<rparr>)))" if "c = 98 \<or> c = 99"
  using that by (auto simp: commit_def normalizeCheckpoint_def saveCheckpoint_def trial_fields
      containsControlCharacters_units control_unit_def isByteString_def Let_def)

lemma trial_consumed:
  assumes "st_started st" "st_queue st = items" "st_windows st = []" "st_reads st = [ReadRejected]"
    "\<not> st_completed st" and "items = trial_items"
  shows "\<exists>n m k. consume trial_env st s = (BodyThrew SseStreamReadError,
     s\<lparr>s_committed := Some [99], s_serverRetry := Some 7, s_checks := n, s_saves := m, s_yields := k,
       s_trace := s_trace s @ trial_actions @ [CancelledReader]\<rparr>)"
  using assms
  by (cases st; cases s)
    (simp add: consume.simps pull_at_def pull_def pull_loop.simps check_signal_def trial_items_def handle_item_def
      sub_check_def trial_fields Let_def handle_event_def deliver_def item_result_def trial_commit emit_def
      trial_event_of_def take_read_def read_handler_def release_def cancels_reader_def trial_actions_def)

lemma consume_pull: "pull_at env st s = pull_at env st' s' \<Longrightarrow> consume env st s = consume env st' s'"
  by (simp add: consume.simps [of env st s] consume.simps [of env st' s'])

lemma trial_body:
  "\<exists>n m k. consume trial_env (parseSseStream False [ReadChunk (utf8_encode trial_text), ReadRejected] i) s =
     (BodyThrew SseStreamReadError,
      s\<lparr>s_committed := Some [99], s_serverRetry := Some 7, s_checks := n, s_saves := m, s_yields := k,
        s_trace := s_trace s @ trial_actions @ [CancelledReader]\<rparr>)"
proof -
  let ?i = "case i of None \<Rightarrow> [] | Some j \<Rightarrow> j"
  obtain q where q: "\<And>st. st_decoder st = utf8_init \<Longrightarrow> st_parser st = new_parser ?i \<Longrightarrow>
      feed_window (utf8_encode trial_text) st = Inr (st\<lparr>st_parser := q, st_queue := trial_items\<rparr>)"
    using trial_feed_window by blast
  define st where "st = \<lparr>st_locked = False, st_started = True, st_parser = q, st_decoder = utf8_init,
    st_queue = trial_items, st_windows = [], st_reads = [ReadRejected], st_completed = False, st_checks = 0\<rparr>"
  have "pull_at trial_env (parseSseStream False [ReadChunk (utf8_encode trial_text), ReadRejected] i) s
      = pull_at trial_env st (s\<lparr>s_checks := s_checks s + 2\<rparr>)"
    by (simp add: pull_at_def pull_def parseSseStream_def check_signal_def trial_fields Let_def
        pull_loop.simps [of live "\<lparr>st_locked = False, st_started = True, st_parser = new_parser ?i,
          st_decoder = utf8_init, st_queue = [], st_windows = [],
          st_reads = [ReadChunk (utf8_encode trial_text), ReadRejected], st_completed = False,
          st_checks = Suc (s_checks s)\<rparr>"]
        pull_loop.simps [of live "\<lparr>st_locked = False, st_started = True, st_parser = new_parser ?i,
          st_decoder = utf8_init, st_queue = [], st_windows = [utf8_encode trial_text],
          st_reads = [ReadRejected], st_completed = False, st_checks = Suc (Suc (s_checks s))\<rparr>"]
        take_read_def trial_window q st_def)
  from consume_pull [OF this] trial_consumed [of st trial_items "s\<lparr>s_checks := s_checks s + 2\<rparr>"] show ?thesis
    by (simp add: st_def)
qed

definition trial_trace :: "headers \<Rightarrow> headers \<Rightarrow> sse_event sse_action list" where
  "trial_trace hs hs' = Requested hs # trial_actions @ [CancelledReader, PolicyAsked \<lparr>rc_attempt = 1,
     rc_reason = ErrorReason TransportError, rc_serverRetry = Some 7\<rparr>, Slept 10, Requested hs']"

lemma trial_headers: "c = 97 \<or> c = 99 \<Longrightarrow> \<exists>hs. request_headers trial_env (Some [c]) = Inr hs"
proof -
  assume c: "c = 97 \<or> c = 99"
  obtain h0 where h0: "header_set (js ''Accept'') (js ''text/event-stream'') [] = Inr h0"
    by (simp add: header_set_def Let_def valid_value_def normalize_value_def http_space_def js_eval)
  from c obtain hs where "header_set (js ''Last-Event-ID'') [c] h0 = Inr hs"
    by (auto simp: header_set_def Let_def valid_value_def normalize_value_def http_space_def)
  with h0 show ?thesis by (simp add: request_headers_def trial_fields)
qed

lemma trial_run:
  obtains hs hs' s where "subscribeToSse trial_env [Inr trial_response] = (SubPending, s)"
    and "s_trace s = trial_trace hs hs'"
proof -
  obtain hs hs' where h: "request_headers trial_env (Some [97]) = Inr hs" "request_headers trial_env (Some [99]) = Inr hs'"
    using trial_headers by blast
  have v: "validateCheckpoint (Some (StringArg [97])) = Inr ()"
    by (simp add: containsControlCharacters_units control_unit_def isByteString_def)
  have safe: "isNonNegativeSafeInteger (num_of_int 10)" "isNonNegativeSafeInteger (num_of_int 30000)"
    "isNonNegativeSafeInteger (num_of_int 5)"
    by (simp_all add: isNonNegativeSafeInteger_def num_is_safe_integer_def is_safe_integer_def max_safe_integer_def)
  then have b: "assertRetryBounds (num_of_int 10) (num_of_int 30000) = Inr ()"
    by (simp add: assertRetryBounds_def num_of_int_def)
  have r: "r_ok trial_response" "isEventStreamContentType (r_header (js ''content-type'') trial_response)"
    "r_body trial_response = Some [ReadChunk (utf8_encode trial_text), ReadRejected]" "\<not> r_locked trial_response"
    by (simp_all add: trial_response_def r_ok_def isEventStreamContentType_def r_header_def header_get_def
        media_type_def js_eval js_lower_def lower_unit_def in_range_def js_trim_def js_space_def)
  have start: "subscribeToSse trial_env os = attempts trial_env 1 os (initial_state (Some [97]) 2)" for os
    using v b by (simp add: subscribeToSse_def minimum_retry_def maximum_retry_def sub_check_def initial_state_def
        loadCheckpoint_def trial_fields rbind_def numeral_2_eq_2 del: validateCheckpoint.simps)
  define s0 where "s0 = emit (Requested hs) (initial_state (Some [97]) 3 :: sse_event sub_state)"
  obtain n m k where c: "consume trial_env (parseSseStream False [ReadChunk (utf8_encode trial_text), ReadRejected] (Some [97]))
      (s0\<lparr>s_checks := 5\<rparr>) = (BodyThrew SseStreamReadError,
      s0\<lparr>s_committed := Some [99], s_serverRetry := Some 7, s_checks := n, s_saves := m, s_yields := k,
        s_trace := s_trace s0 @ trial_actions @ [CancelledReader]\<rparr>)"
    using trial_body [of "Some [97]" "s0\<lparr>s_checks := 5\<rparr>"] by auto
  have one: "run_attempt trial_env (Some (Inr trial_response)) (initial_state (Some [97]) 3)
    = (AttemptThrew SseStreamReadError,
      s0\<lparr>s_committed := Some [99], s_serverRetry := Some 7, s_checks := n, s_saves := m, s_yields := k,
        s_trace := s_trace s0 @ trial_actions @ [CancelledReader]\<rparr>)"
    using h(1) r c
    by (simp add: run_attempt_def initial_state_def s0_def emit_def Let_def handle_response_def sub_check_def
        trial_fields classify_def accept_response_def body_attempt_def eval_nat_numeral)
  have i: "sub_check trial_env (initial_state j 2) = (None, initial_state j 3)"
    "(initial_state j 3)\<lparr>s_serverRetry := None\<rparr> = initial_state j 3" for j
    by (simp_all add: sub_check_def initial_state_def trial_fields)
  have "reconnect_delay trial_env (Some 7) x = 10" for x
    by (simp add: reconnect_delay_def clamp_def minimum_retry_def maximum_retry_def trial_fields milliseconds_def
        num_of_int_def)
  then obtain s2 where s2: "after_attempt trial_env 1 (AttemptThrew SseStreamReadError,
      s0\<lparr>s_committed := Some [99], s_serverRetry := Some 7, s_checks := n, s_saves := m, s_yields := k,
        s_trace := s_trace s0 @ trial_actions @ [CancelledReader]\<rparr>) = Inr s2" "s_committed s2 = Some [99]"
    "s_trace s2 @ [Requested hs'] = trial_trace hs hs'"
    using safe(3)
    by (simp add: after_attempt_def sub_check_def trial_fields terminal_error_def wait_to_reconnect_def Let_def
        decideReconnectDelay_def emit_def trial_trace_def s0_def initial_state_def)
  have "run_attempt trial_env None (s2\<lparr>s_checks := x, s_serverRetry := None\<rparr>)
      = (AttemptPending, emit (Requested hs') (s2\<lparr>s_checks := x, s_serverRetry := None\<rparr>))" for x
    using h(2) s2(2) by (simp add: run_attempt_def)
  with s2(3) have "\<exists>s. attempts trial_env 2 [] s2 = (SubPending, s) \<and> s_trace s = trial_trace hs hs'"
    by (simp add: sub_check_def trial_fields after_attempt_def emit_def)
  then have "\<exists>s. subscribeToSse trial_env [Inr trial_response] = (SubPending, s) \<and> s_trace s = trial_trace hs hs'"
    using one s2(1) by (simp add: start i numeral_2_eq_2 [symmetric])
  with that show thesis by blast
qed

section \<open>Properties\<close>

text \<open>C9: with a checkpoint store, every request of a subscription carries as its Last-Event-ID the
  checkpoint of the last save that succeeded before it (the loaded one if none did), or no such header
  when there is none: what is resumed from is never ahead of, nor behind, what the store holds. A save
  that fails does not count.\<close>

theorem requests_resume_from_saved:
  assumes "e_hasStore env" and "subscribeToSse env os = (r, s)" and "s_trace s = a @ Requested hs # b"
  shows "header_get (js ''Last-Event-ID'') hs = resume_header (saved_after (loaded_checkpoint env) a)"
  using subscription_stage [OF assms(1,2)] assms(3) by (simp add: end_stage_def over_def requests_resume_def)

theorem requests_resume_from_saved_witness:
  "\<exists>hs hs' s. subscribeToSse trial_env [Inr trial_response] = (SubPending, s) \<and> s_trace s = trial_trace hs hs' \<and>
     header_get (js ''Last-Event-ID'') hs = Some [97] \<and> header_get (js ''Last-Event-ID'') hs' = Some [99]"
proof -
  obtain hs hs' s where r: "subscribeToSse trial_env [Inr trial_response] = (SubPending, s)"
    and t: "s_trace s = trial_trace hs hs'" by (rule trial_run)
  have l: "loaded_checkpoint trial_env = Some [97]"
    by (simp add: loaded_checkpoint_def loadCheckpoint_def trial_fields)
  have "s_trace s = [] @ Requested hs # tl (trial_trace hs hs')"
    "s_trace s = butlast (trial_trace hs hs') @ Requested hs' # []"
    by (simp_all add: t trial_trace_def butlast_append)
  note requests_resume_from_saved [OF trial_fields(2) r this(1)] requests_resume_from_saved [OF trial_fields(2) r this(2)]
  moreover have "saved_after c (butlast (trial_trace hs hs')) = Some [99]" for c
    by (simp add: trial_trace_def trial_actions_def butlast_append saved_after_def)
  ultimately have "header_get (js ''Last-Event-ID'') hs = Some [97] \<and> header_get (js ''Last-Event-ID'') hs' = Some [99]"
    by (simp add: l resume_header_def normalize_value_def http_space_def)
  with r t show ?thesis by blast
qed

text \<open>C8: with a store and a signal that stays aborted, whatever is handed to the consumer is what the
  mapper made of the event just received, and it is handed over only when the checkpoint of the event
  handed over before has been saved, successfully, across items, bodies and reconnections: at most one
  event can be delivered again after a restart. When the consumer stops at an event, no save was
  called for it.\<close>

theorem at_most_one_event_in_flight:
  assumes "e_hasStore env" and "lasting (e_signal env)" and "subscribeToSse env os = (r, s)"
  shows "one_in_flight env (s_trace s) \<and>
    (r = SubStopped \<longrightarrow>
      (\<exists>a v b. s_trace s = a @ Yielded v # b \<and> (\<forall>w. Yielded w \<notin> set b) \<and> (\<forall>i. SaveCalled i \<notin> set b)))"
  using subscription_stage [OF assms(1,3)] assms(2) by (simp add: end_stage_def over_def stopped_at_def)

theorem at_most_one_event_in_flight_witness:
  "\<exists>hs hs' s. subscribeToSse trial_env [Inr trial_response] = (SubPending, s) \<and> s_trace s = trial_trace hs hs' \<and>
     one_in_flight trial_env (s_trace s)"
proof -
  obtain hs hs' s where r: "subscribeToSse trial_env [Inr trial_response] = (SubPending, s)"
    and t: "s_trace s = trial_trace hs hs'" by (rule trial_run)
  have "lasting (e_signal trial_env)" by (simp add: trial_fields lasting_def)
  from at_most_one_event_in_flight [OF trial_fields(2) this r] r t show ?thesis by blast
qed

text \<open>C10: before every wait the policy was asked, with the hint received from the server since the wait
  before, and gave a nonnegative safe integer. Without a hint the wait is that number; with one it is
  the hint, raised to the configured minimum or lowered to the configured maximum, which are in order.\<close>

theorem reconnect_waits_bounded:
  assumes "subscribeToSse env os = (r, s)" and "s_trace s = a @ Slept d # b"
  shows "\<exists>a' ctx policy x. a = a' @ [PolicyAsked ctx] \<and> rc_serverRetry ctx = hint_after a' \<and>
    e_policy env = Some policy \<and> policy ctx = Inr (Some x) \<and> isNonNegativeSafeInteger x \<and>
    wait_of env (hint_after a') x d"
  using assms(1)
proof (cases rule: subscribe_cases)
  case (attempts n)
  have "paced_inv env (initial_state (loaded_checkpoint env) n)"
    by (simp add: paced_inv_def paced_def initial_state_def)
  from paced.subscription_I [OF this attempts(1)] attempts(2) have "paced env (s_trace s)"
    by (auto simp: paced_inv_def)
  then show ?thesis using assms(2) unfolding paced_def by blast
qed (use assms(2) in simp)

theorem reconnect_waits_bounded_witness:
  "\<exists>s a ctx b. subscribeToSse trial_env [Inr trial_response] = (SubPending, s) \<and>
     s_trace s = (a @ [PolicyAsked ctx]) @ Slept 10 # b \<and> hint_after a = Some 7 \<and>
     wait_of trial_env (Some 7) (num_of_int 5) 10"
proof -
  obtain hs hs' s where r: "subscribeToSse trial_env [Inr trial_response] = (SubPending, s)"
    and t: "s_trace s = trial_trace hs hs'" by (rule trial_run)
  define a where "a = Requested hs # trial_actions @ [CancelledReader]"
  define ctx where "ctx = \<lparr>rc_attempt = 1, rc_reason = ErrorReason TransportError, rc_serverRetry = Some 7\<rparr>"
  have s: "s_trace s = (a @ [PolicyAsked ctx]) @ Slept 10 # [Requested hs']"
    by (simp add: t trial_trace_def a_def ctx_def)
  have "hint_after a = Some 7" by (simp add: a_def trial_actions_def hint_after_def)
  moreover from reconnect_waits_bounded [OF r s] this have "wait_of trial_env (Some 7) (num_of_int 5) 10"
    by (auto simp: trial_fields)
  ultimately show ?thesis using r s by blast
qed

text \<open>C11: the default sleep sets timers of at least one millisecond and at most 2147483647 (the largest a
  native timer takes), which add up to the requested time when it is not interrupted, and never exceed it.\<close>

theorem default_sleep_exact:
  assumes "defaultSleep sig interrupted ms = (delays, r)"
  shows "list_all (\<lambda>d. 0 < d \<and> d \<le> 2147483647) delays \<and> sum_list delays \<le> ms \<and>
    (r = Inr () \<longrightarrow> sum_list delays = ms)"
  using assms sleep_loop_delays [of sig interrupted 1 ms delays r]
  by (auto simp: defaultSleep_def maximumTimerDelay_def split: if_splits)

theorem default_sleep_exact_witness:
  "sum_list (fst (defaultSleep live (\<lambda>_. None) 3)) = 3"
proof -
  have "defaultSleep live (\<lambda>_. None) 3 = ([3], Inr ())"
    by (simp add: defaultSleep_def sleep_loop.simps maximumTimerDelay_def)
  from default_sleep_exact [OF this] this show ?thesis by simp
qed

end
