(* ===== verification/ProtocolEvents.thy ===== *)
theory ProtocolEvents
  imports SseSubscription Client
begin

text \<open>
  \<^verbatim>\<open>events/protocol-subscription.ts\<close>: the typed event stream of a session, over the generated
  catalogue (\<^verbatim>\<open>generated/event-catalog.ts\<close>). A stream is an environment of
  \<open>subscribeToSse\<close> (the transport's answers are its script) with a path; the generated validators
  are parameters. The last section shows what every event handed to the consumer satisfies.
\<close>

section \<open>The catalogue\<close>

definition catalog_entry :: "string \<Rightarrow> string \<Rightarrow> json" where
  "catalog_entry eventName introduced =
     JObj [(js ''name'', JStr (js eventName)), (js ''introduced_in'', JStr (js introduced))]"

definition protocolEventCatalog :: json where
  "protocolEventCatalog = JArr
    [catalog_entry ''observation.admitted'' ''1.0.0'',
     catalog_entry ''vehicle.current.changed'' ''1.0.0'',
     catalog_entry ''drive.started'' ''1.0.0'',
     catalog_entry ''drive.updated'' ''1.0.0'',
     catalog_entry ''drive.ended'' ''1.0.0'',
     catalog_entry ''charge.started'' ''1.0.0'',
     catalog_entry ''charge.updated'' ''1.0.0'',
     catalog_entry ''charge.ended'' ''1.0.0'',
     catalog_entry ''state.changed'' ''1.0.0'',
     catalog_entry ''software_update.changed'' ''1.0.0'',
     catalog_entry ''data_quality.changed'' ''1.0.0'',
     catalog_entry ''command.changed'' ''1.1.0'',
     catalog_entry ''metadata.changed'' ''1.2.0'']"

text \<open>\<^verbatim>\<open>new Error(...)\<close>, no error of the SDK's.\<close>

definition catalog_error :: exn where
  "catalog_error = ForeignError 3"

definition isSupportedProfile :: "jsstr \<Rightarrow> bool" where
  "isSupportedProfile v \<longleftrightarrow> v = js ''1.0.0'' \<or> v = js ''1.1.0'' \<or> v = js ''1.2.0''"

text \<open>A string that \<open>isSupportedProfile\<close> has narrowed to \<^verbatim>\<open>SupportedProtocolVersion\<close>.\<close>

definition narrowed_profile :: "jsstr \<Rightarrow> supported_version option" where
  "narrowed_profile v =
     (if isSupportedProfile v then find (\<lambda>w. version_string w = v) [V1_0_0, V1_1_0, V1_2_0] else None)"

type_synonym event_catalog = "(jsstr \<times> supported_version) list"

fun catalog_from :: "event_catalog \<Rightarrow> json list \<Rightarrow> event_catalog result" where
  "catalog_from catalog [] = Inr catalog"
| "catalog_from catalog (entry # rest) =
     (case (member_of entry (js ''name''), member_of entry (js ''introduced_in'')) of
        (Some (JStr eventName), Some (JStr introducedIn)) \<Rightarrow>
          (case narrowed_profile introducedIn of
             None \<Rightarrow> Inl catalog_error
           | Some profile \<Rightarrow>
               if map_of catalog eventName \<noteq> None then Inl catalog_error
               else catalog_from (catalog @ [(eventName, profile)]) rest)
      | _ \<Rightarrow> Inl catalog_error)"

fun generatedEventCatalog :: "json \<Rightarrow> event_catalog result" where
  "generatedEventCatalog (JArr items) = catalog_from [] items"
| "generatedEventCatalog _ = Inl catalog_error"

text \<open>The module constant; loading the module would throw on a catalogue that is refused
  (\<open>catalog_accepted\<close> below).\<close>

definition eventIntroducedIn :: event_catalog where
  "eventIntroducedIn = (case generatedEventCatalog protocolEventCatalog of Inr c \<Rightarrow> c | Inl _ \<Rightarrow> [])"

definition resourceIdentifierField :: "(jsstr \<times> jsstr) list" where
  "resourceIdentifierField =
    [(js ''observation.admitted'', js ''observation_id''),
     (js ''vehicle.current.changed'', js ''vehicle_id''),
     (js ''drive.started'', js ''drive_id''),
     (js ''drive.updated'', js ''drive_id''),
     (js ''drive.ended'', js ''drive_id''),
     (js ''charge.started'', js ''charge_id''),
     (js ''charge.updated'', js ''charge_id''),
     (js ''charge.ended'', js ''charge_id''),
     (js ''state.changed'', js ''state_id''),
     (js ''software_update.changed'', js ''update_id''),
     (js ''data_quality.changed'', js ''subject_id''),
     (js ''command.changed'', js ''command_id''),
     (js ''metadata.changed'', js ''metadata_id'')]"

text \<open>\<^verbatim>\<open>profile.split(".").map(Number)\<close>; a missing part counts as zero. \<^verbatim>\<open>||\<close>
  takes the first difference that is not zero.\<close>

definition profile_part :: "supported_version \<Rightarrow> nat \<Rightarrow> int" where
  "profile_part v k =
     (let parts = map dec_value (split_on uDOT (version_string v))
      in if k < length parts then int (parts ! k) else 0)"

definition compareProfiles :: "supported_version \<Rightarrow> supported_version \<Rightarrow> int" where
  "compareProfiles l r =
     (let d = (\<lambda>k. profile_part l k - profile_part r k)
      in if d 0 \<noteq> 0 then d 0 else if d 1 \<noteq> 0 then d 1 else d 2)"

section \<open>Options\<close>

text \<open>A member of the options: absent, of the right kind, or anything else.\<close>

datatype 'a option_arg = Missing | Proper 'a | Improper

record event_store =
  es_load :: "js_arg option result"
  es_save :: "nat \<Rightarrow> bool"

record stream_options =
  so_vehicleId :: "js_arg option"
  so_eventTypes :: "js_arg list option_arg"
  so_checkpoint :: "event_store option_arg"
  so_signal :: "signal_oracle option_arg"
  so_sleep :: "(nat \<Rightarrow> nat \<Rightarrow> unit result) option_arg"

record normalized_options =
  no_vehicleId :: "jsstr option"
  no_eventTypes :: "jsstr list"
  no_checkpoint :: "event_store option"
  no_signal_given :: "signal_oracle option"
  no_sleep :: "(nat \<Rightarrow> nat \<Rightarrow> unit result) option"

fun normalizeVehicleId :: "js_arg option \<Rightarrow> jsstr option result" where
  "normalizeVehicleId None = Inr None"
| "normalizeVehicleId (Some OtherArg) = Inl InvalidStreamEventsOptionsError"
| "normalizeVehicleId (Some (StringArg v)) =
     (if length v < 3 \<or> 128 < length v \<or> containsControlCharacters v
      then Inl InvalidStreamEventsOptionsError else Inr (Some v))"

text \<open>The loop over the requested types; \<open>normalized\<close> is also the set of those seen.\<close>

fun normalize_types :: "supported_version \<Rightarrow> jsstr list \<Rightarrow> js_arg list \<Rightarrow> jsstr list result" where
  "normalize_types protocolVersion normalized [] = Inr normalized"
| "normalize_types protocolVersion normalized (OtherArg # rest) = Inl InvalidStreamEventsOptionsError"
| "normalize_types protocolVersion normalized (StringArg eventType # rest) =
     (case map_of eventIntroducedIn eventType of
        None \<Rightarrow> Inl InvalidStreamEventsOptionsError
      | Some introducedIn \<Rightarrow>
          if eventType \<in> set normalized then Inl InvalidStreamEventsOptionsError
          else if 0 < compareProfiles introducedIn protocolVersion
          then Inl UnsupportedStreamEventTypeError
          else normalize_types protocolVersion (normalized @ [eventType]) rest)"

fun normalizeEventTypes :: "js_arg list option_arg \<Rightarrow> supported_version \<Rightarrow> jsstr list result" where
  "normalizeEventTypes Missing protocolVersion = Inr []"
| "normalizeEventTypes Improper protocolVersion = Inl InvalidStreamEventsOptionsError"
| "normalizeEventTypes (Proper v) protocolVersion =
     (if 32 < length v then Inl InvalidStreamEventsOptionsError
      else normalize_types protocolVersion [] v)"

fun proper_arg :: "'a option_arg \<Rightarrow> 'a option result" where
  "proper_arg Missing = Inr None"
| "proper_arg (Proper x) = Inr (Some x)"
| "proper_arg Improper = Inl InvalidStreamEventsOptionsError"

definition default_stream_options :: stream_options where
  "default_stream_options = \<lparr>so_vehicleId = None, so_eventTypes = Missing, so_checkpoint = Missing,
     so_signal = Missing, so_sleep = Missing\<rparr>"

text \<open>\<open>Missing\<close> takes the parameter's default, \<open>Improper\<close> is null, an array or no object.\<close>

definition normalizeOptions ::
    "stream_options option_arg \<Rightarrow> supported_version \<Rightarrow> normalized_options result" where
  "normalizeOptions options protocolVersion =
     rbind (proper_arg options) (\<lambda>given.
       let o1 = (case given of None \<Rightarrow> default_stream_options | Some x \<Rightarrow> x)
       in rbind (normalizeVehicleId (so_vehicleId o1)) (\<lambda>vehicleId.
          rbind (normalizeEventTypes (so_eventTypes o1) protocolVersion) (\<lambda>eventTypes.
          rbind (proper_arg (so_checkpoint o1)) (\<lambda>checkpoint.
          rbind (proper_arg (so_signal o1)) (\<lambda>sig.
          rbind (proper_arg (so_sleep o1)) (\<lambda>sleep.
            Inr \<lparr>no_vehicleId = vehicleId, no_eventTypes = eventTypes, no_checkpoint = checkpoint,
                 no_signal_given = sig, no_sleep = sleep\<rparr>))))))"

section \<open>The request\<close>

definition event_query :: "jsstr option \<Rightarrow> jsstr list \<Rightarrow> (jsstr \<times> jsstr) list" where
  "event_query vehicleId eventTypes =
     (case vehicleId of None \<Rightarrow> [] | Some v \<Rightarrow> [(js ''vehicle_id'', v)])
     @ (if 0 < length eventTypes then [(js ''event_type'', join_with [uCOMMA] eventTypes)] else [])"

definition eventPath :: "jsstr option \<Rightarrow> jsstr list \<Rightarrow> jsstr" where
  "eventPath vehicleId eventTypes =
     (let encoded = search_params (event_query vehicleId eventTypes)
      in if length encoded = 0 then js ''/v1/events'' else js ''/v1/events?'' @ encoded)"

text \<open>The answer to a response, \<open>None\<close> while the body of a problem does not settle. The reader has
  released the body by then, so the response still has one to cancel.\<close>

definition problem_action :: "exn \<Rightarrow> response_action" where
  "problem_action e =
     (case e of
        ProtocolHttpError opts \<Rightarrow>
          if pe_status opts = 410 \<and> pe_code opts = js ''event_replay_expired''
          then ErrorAction (ReplayGapError (pe_status opts) (pe_requestId opts))
          else ErrorAction e
      | _ \<Rightarrow> ErrorAction e)"

definition classifyProtocolResponse ::
    "validator \<Rightarrow> (response \<Rightarrow> decode_signal) \<Rightarrow> response \<Rightarrow> response_action result option" where
  "classifyProtocolResponse validateProblem sig response =
     (if r_status response = 200 then Some (Inr ContinueAction)
      else if r_status response = 204
      then Some (Inr (if r_body response \<noteq> None
                      then ErrorAction (ProtocolValidationError ''streamEvents.204'') else TerminalAction))
      else case (fst (decodeProtocolProblemResponse validateProblem response (sig response)) :: unit outcome) of
             None \<Rightarrow> None
           | Some (Inl e) \<Rightarrow> Some (Inr (problem_action e))
           | Some (Inr _) \<Rightarrow> Some (Inr (ErrorAction (ProtocolValidationError ''streamEvents.response''))))"

section \<open>Events\<close>

text \<open>\<^verbatim>\<open>===\<close> between values read from two places of a parsed text: arrays and objects are
  different references, NaN is not equal to itself.\<close>

fun strictly_equal :: "json option \<Rightarrow> json option \<Rightarrow> bool" where
  "strictly_equal (Some (JNum x)) (Some (JNum y)) = (x = y \<and> x \<noteq> NaN)"
| "strictly_equal (Some (JArr _)) _ = False"
| "strictly_equal (Some (JObj _)) _ = False"
| "strictly_equal a b = (a = b)"

definition eventRevision :: "json \<Rightarrow> json option" where
  "eventRevision data =
     (case member_of data (js ''revision'') of
        Some r \<Rightarrow> Some r
      | None \<Rightarrow>
          (case member_of data (js ''audit'') of
             Some (JObj audit) \<Rightarrow>
               (case map_of audit (js ''deletion'') of
                  Some (JObj deletion) \<Rightarrow> map_of deletion (js ''revision'')
                | _ \<Rightarrow> None)
           | _ \<Rightarrow> None))"

text \<open>\<^verbatim>\<open>Object.hasOwn(data, field) && event.key !== data[field]\<close>.\<close>

definition disagrees :: "json \<Rightarrow> string \<Rightarrow> json \<Rightarrow> jsstr \<Rightarrow> bool" where
  "disagrees event key data field \<longleftrightarrow>
     member_of data field \<noteq> None \<and> \<not> strictly_equal (member_of event (js key)) (member_of data field)"

definition assertEventSemantics :: "json \<Rightarrow> unit result" where
  "assertEventSemantics event =
     (case member_of event (js ''data'') of
        Some (JObj ms) \<Rightarrow>
          (let data = JObj ms; revision = eventRevision data in
           rbind (require (\<not> (revision \<noteq> None \<and> \<not> strictly_equal (member_of event (js ''revision'')) revision))
             (ProtocolValidationError ''validateEvent.revision'')) (\<lambda>_.
           rbind (require (\<not> disagrees event ''vehicle_id'' data (js ''vehicle_id''))
             (ProtocolValidationError ''validateEvent.vehicle_id'')) (\<lambda>_.
           let resourceField =
             (case member_of event (js ''event_type'') of
                Some (JStr t) \<Rightarrow>
                  (case map_of resourceIdentifierField t of Some f \<Rightarrow> f | None \<Rightarrow> js ''undefined'')
              | _ \<Rightarrow> js ''undefined'')
           in require (\<not> disagrees event ''resource_id'' data resourceField)
             (ProtocolValidationError ''validateEvent.resource_id''))))
      | _ \<Rightarrow> Inl (ProtocolValidationError ''validateEvent.data''))"

definition decodeProtocolEvent ::
    "validator \<Rightarrow> sse_event \<Rightarrow> supported_version \<Rightarrow> json option result" where
  "decodeProtocolEvent validateEvent event protocolVersion =
     (case map_of eventIntroducedIn (se_event event) of
        None \<Rightarrow> Inr None
      | Some introducedIn \<Rightarrow>
          if 0 < compareProfiles introducedIn protocolVersion
          then Inl (ProtocolValidationError ''validateEvent.profile'')
          else case parseProtocolJson (se_data event) ''validateEvent.json'' of
            Inl _ \<Rightarrow> Inl (ProtocolValidationError ''validateEvent.json'')
          | Inr rawValue \<Rightarrow>
              rbind (decodeProtocolValue rawValue validateEvent ''validateEvent'') (\<lambda>v.
                if v = JNull then Inl type_error
                else rbind (require (member_of v (js ''event_id'') = Some (JStr (se_lastEventId event)))
                       (ProtocolValidationError ''validateEvent.id'')) (\<lambda>_.
                     rbind (require (member_of v (js ''event_type'') = Some (JStr (se_event event)))
                       (ProtocolValidationError ''validateEvent.type'')) (\<lambda>_.
                     rbind (assertEventSemantics v) (\<lambda>_. Inr (Some v))))))"

section \<open>The stream\<close>

definition defaultReconnectMilliseconds :: int where
  "defaultReconnectMilliseconds = 3000"

definition maximumReconnectMilliseconds :: int where
  "maximumReconnectMilliseconds = 30000"

definition reconnect_policy :: "reconnect_context \<Rightarrow> jsnum option result" where
  "reconnect_policy ctx =
     (case rc_reason ctx of
        Eof \<Rightarrow> Inr (Some (num_of_int defaultReconnectMilliseconds))
      | ErrorReason e \<Rightarrow>
          Inr (if e = TransportError then Some (num_of_int defaultReconnectMilliseconds) else None))"

text \<open>What surrounds a stream: the generated validators, the signal as a problem's body is decoded
  under it, the sleep used when none is given, and the consumer.\<close>

record stream_surroundings =
  ss_validateProblem :: validator
  ss_validateEvent :: validator
  ss_decode :: "response \<Rightarrow> decode_signal"
  ss_sleep :: "nat \<Rightarrow> nat \<Rightarrow> unit result"
  ss_resumes :: "nat \<Rightarrow> bool"

record event_stream =
  st_transport :: transport
  st_path :: jsstr
  st_redirect :: string
  st_env :: "json sse_env"

definition streamProtocolEvents ::
    "stream_surroundings \<Rightarrow> client_session \<Rightarrow> stream_options option_arg \<Rightarrow> event_stream result" where
  "streamProtocolEvents around session options =
     rbind (requireCapability (cs_descriptor session) (js ''events.sse'')) (\<lambda>_.
     rbind (normalizeOptions options (cs_protocolVersion session)) (\<lambda>normalized.
       Inr \<lparr>st_transport = cs_eventTransport session,
            st_path = eventPath (no_vehicleId normalized) (no_eventTypes normalized),
            st_redirect = ''error'',
            st_env =
             \<lparr>e_signal = (case no_signal_given normalized of None \<Rightarrow> live | Some sg \<Rightarrow> sg),
              e_hasStore = (no_checkpoint normalized \<noteq> None),
              e_load = (case no_checkpoint normalized of None \<Rightarrow> Inr None | Some store \<Rightarrow> es_load store),
              e_save = (case no_checkpoint normalized of None \<Rightarrow> (\<lambda>_. True) | Some store \<Rightarrow> es_save store),
              e_protocolVersion = Some (StringArg (version_string (cs_protocolVersion session))),
              e_minimum = None,
              e_maximum = Some (num_of_int maximumReconnectMilliseconds),
              e_classifier = Some (\<lambda>response.
                (classifyProtocolResponse (ss_validateProblem around) (ss_decode around) response, response)),
              e_mapper = (\<lambda>event.
                decodeProtocolEvent (ss_validateEvent around) event (cs_protocolVersion session)),
              e_policy = Some reconnect_policy,
              e_sleep = (case no_sleep normalized of None \<Rightarrow> ss_sleep around | Some f \<Rightarrow> f),
              e_resumes = ss_resumes around\<rparr>\<rparr>))"

text \<open>\<^verbatim>\<open>streamEvents\<close> of \<^verbatim>\<open>client/client.ts\<close>.\<close>

definition streamEvents :: "stream_surroundings \<Rightarrow> client_env \<Rightarrow> stream_options option_arg \<Rightarrow> event_stream result" where
  "streamEvents around env options = streamProtocolEvents around (ce_session env) options"

text \<open>Iterating the stream, over the answers of the transport.\<close>

definition run_stream :: "event_stream \<Rightarrow> response result list \<Rightarrow> subscription_end \<times> json sub_state" where
  "run_stream stream = subscribeToSse (st_env stream)"

section \<open>The catalogue is accepted, and profiles are ordered\<close>

lemma narrowed_simps [simp]:
  "narrowed_profile (js ''1.0.0'') = Some V1_0_0" "narrowed_profile (js ''1.1.0'') = Some V1_1_0"
  "narrowed_profile (js ''1.2.0'') = Some V1_2_0"
  by (simp_all add: narrowed_profile_def isSupportedProfile_def)

lemma catalog_accepted:
  "generatedEventCatalog protocolEventCatalog = Inr
    [(js ''observation.admitted'', V1_0_0), (js ''vehicle.current.changed'', V1_0_0),
     (js ''drive.started'', V1_0_0), (js ''drive.updated'', V1_0_0), (js ''drive.ended'', V1_0_0),
     (js ''charge.started'', V1_0_0), (js ''charge.updated'', V1_0_0), (js ''charge.ended'', V1_0_0),
     (js ''state.changed'', V1_0_0), (js ''software_update.changed'', V1_0_0),
     (js ''data_quality.changed'', V1_0_0), (js ''command.changed'', V1_1_0),
     (js ''metadata.changed'', V1_2_0)]"
  by (simp add: protocolEventCatalog_def catalog_entry_def)

lemmas event_catalog = eventIntroducedIn_def catalog_accepted

lemma profile_parts:
  "profile_part V1_0_0 k = (if k = 0 then 1 else 0)"
  "profile_part V1_1_0 k = (if k = 0 \<or> k = 1 then 1 else 0)"
  "profile_part V1_2_0 k = (if k = 0 then 1 else if k = 1 then 2 else 0)"
  by (auto simp: profile_part_def js_eval dec_value_def digit_val_def nth_Cons split: nat.splits)

lemma compareProfiles_less: "0 < compareProfiles l r \<longleftrightarrow> r < l"
  by (cases l; cases r) (simp_all add: compareProfiles_def profile_parts less_supported_version_def)

definition available :: "supported_version \<Rightarrow> jsstr \<Rightarrow> bool" where
  "available p t \<longleftrightarrow> (\<exists>i. map_of eventIntroducedIn t = Some i \<and> i \<le> p)"

lemma catalog_names: "list_all (\<lambda>(t, i). uCOMMA \<notin> set t \<and> t \<noteq> [] \<and> ascii t) eventIntroducedIn"
  by (simp add: event_catalog js_eval)

lemma catalog_no_comma: "available p t \<Longrightarrow> uCOMMA \<notin> set t \<and> t \<noteq> [] \<and> ascii t"
  using catalog_names by (auto simp: available_def list_all_iff dest!: map_of_SomeD)

section \<open>Options and the request target\<close>

lemma available_iff:
  "available p t \<longleftrightarrow> (case map_of eventIntroducedIn t of None \<Rightarrow> False | Some i \<Rightarrow> \<not> 0 < compareProfiles i p)"
  by (auto simp: available_def compareProfiles_less not_less split: option.splits)

lemma normalize_types_step:
  "normalize_types p acc (StringArg t # rest) = Inr ts \<longleftrightarrow>
     available p t \<and> t \<notin> set acc \<and> normalize_types p (acc @ [t]) rest = Inr ts"
  by (auto simp: available_iff split: option.splits)

lemma normalize_types_Inr:
  "distinct acc \<Longrightarrow> normalize_types p acc args = Inr ts \<longleftrightarrow>
     (\<exists>us. ts = acc @ us \<and> args = map StringArg us \<and> distinct ts \<and> list_all (available p) us)"
proof (induction args arbitrary: acc)
  case (Cons a rest)
  show ?case
  proof (cases a)
    case (StringArg t)
    have "(\<exists>us. ts = acc @ us \<and> StringArg t # rest = map StringArg us \<and> distinct ts \<and> list_all (available p) us)
        \<longleftrightarrow> (\<exists>us. ts = acc @ t # us \<and> rest = map StringArg us \<and> distinct ts \<and> available p t \<and> list_all (available p) us)"
      by (fastforce simp: Cons_eq_map_conv)
    moreover have "normalize_types p (acc @ [t]) rest = Inr ts \<longleftrightarrow>
        (\<exists>us. ts = (acc @ [t]) @ us \<and> rest = map StringArg us \<and> distinct ts \<and> list_all (available p) us)"
      if "t \<notin> set acc" using Cons(2) that by (intro Cons(1)) simp
    ultimately show ?thesis unfolding StringArg normalize_types_step by auto
  qed (auto simp: Cons_eq_map_conv)
qed auto

lemma normalizeEventTypes_Inr:
  "normalizeEventTypes a p = Inr ts \<longleftrightarrow>
     (a = Missing \<and> ts = []) \<or>
     (a = Proper (map StringArg ts) \<and> length ts \<le> 32 \<and> distinct ts \<and> list_all (available p) ts)"
  by (cases a) (auto simp: normalize_types_Inr not_less)

text \<open>C34: the event types a stream asks for are exactly the ones given: strings, at most 32, none
  twice, each of the catalogue and introduced no later than the negotiated profile; every other
  argument is refused.\<close>

theorem stream_event_types:
  "normalizeEventTypes a p = Inr ts \<longleftrightarrow>
     (a = Missing \<and> ts = []) \<or>
     (a = Proper (map StringArg ts) \<and> length ts \<le> 32 \<and> distinct ts
       \<and> list_all (\<lambda>t. \<exists>i. map_of eventIntroducedIn t = Some i \<and> i \<le> p) ts)"
  using normalizeEventTypes_Inr [of a p ts] by (simp add: available_def [abs_def])

lemma normalizeOptions_Inr:
  assumes "normalizeOptions options p = Inr no"
  shows "list_all (available p) (no_eventTypes no) \<and> length (no_eventTypes no) \<le> 32
    \<and> (\<forall>v. no_vehicleId no = Some v \<longrightarrow> 3 \<le> length v \<and> length v \<le> 128 \<and> \<not> containsControlCharacters v)"
proof -
  have "3 \<le> length v \<and> length v \<le> 128 \<and> \<not> containsControlCharacters v"
    if "normalizeVehicleId a = Inr (Some v)" for a v
    using that by (cases a rule: normalizeVehicleId.cases) (auto split: if_splits)
  then show ?thesis
    using assms by (auto simp: normalizeOptions_def rbind_Inr_iff normalizeEventTypes_Inr Let_def)
qed

text \<open>The types a request for this path carries, as a server reads them.\<close>

definition requested_types :: "jsstr \<Rightarrow> jsstr list" where
  "requested_types path =
     (case map_of (search_parse (drop 1 (dropWhile (\<lambda>c. c \<noteq> uQMARK) path))) (js ''event_type'') of
        None \<Rightarrow> [] | Some v \<Rightarrow> split_on uCOMMA v)"

definition requested_vehicle :: "jsstr \<Rightarrow> jsstr option" where
  "requested_vehicle path =
     map_of (search_parse (drop 1 (dropWhile (\<lambda>c. c \<noteq> uQMARK) path))) (js ''vehicle_id'')"

lemma event_names: "js ''vehicle_id'' \<noteq> js ''event_type''" "well_formed (js ''vehicle_id'')"
  "well_formed (js ''event_type'')"
  by (simp_all add: well_formed_ascii js_eval)

lemma ascii_join: "list_all ascii ts \<Longrightarrow> ascii (join_with [uCOMMA] ts)"
  by (induction "[uCOMMA]" ts rule: join_with.induct) auto

lemma eventPath_parsed:
  assumes "list_all (available p) ts" and "\<forall>v. vid = Some v \<longrightarrow> well_formed v"
  shows "search_parse (drop 1 (dropWhile (\<lambda>c. c \<noteq> uQMARK) (eventPath vid ts))) = event_query vid ts"
proof -
  have "ascii (join_with [uCOMMA] ts)"
    using assms(1) by (auto intro!: ascii_join simp: list_all_iff dest!: catalog_no_comma)
  then have "\<forall>(n, v) \<in> set (event_query vid ts). well_formed n \<and> well_formed v"
    using assms(2) event_names by (auto simp: event_query_def well_formed_ascii split: option.splits)
  from search_parse_params [OF this] show ?thesis
    by (cases "event_query vid ts = []")
      (auto simp: eventPath_def Let_def js_eval search_parse_def)
qed

text \<open>The path of a stream is the events endpoint with a query that reads back as exactly the
  vehicle and the event types its options name, for a vehicle identifier of whole code points.\<close>

theorem stream_path_reads_back:
  assumes "streamProtocolEvents around session options = Inr stream"
    and "normalizeOptions options (cs_protocolVersion session) = Inr normalized"
    and "\<forall>v. no_vehicleId normalized = Some v \<longrightarrow> well_formed v"
  shows "requested_types (st_path stream) = no_eventTypes normalized
    \<and> requested_vehicle (st_path stream) = no_vehicleId normalized
    \<and> starts_with (st_path stream) (js ''/v1/events'')"
proof -
  let ?ts = "no_eventTypes normalized" and ?v = "no_vehicleId normalized"
  have path: "st_path stream = eventPath ?v ?ts"
    using assms(1,2) by (auto simp: streamProtocolEvents_def rbind_Inr_iff)
  have ts: "list_all (available (cs_protocolVersion session)) ?ts"
    using normalizeOptions_Inr [OF assms(2)] by simp
  then have "split_on uCOMMA (join_with [uCOMMA] ?ts) = ?ts" if "?ts \<noteq> []"
    using that catalog_no_comma by (intro split_join) (auto simp: list_all_iff)
  moreover have "starts_with (eventPath ?v ?ts) (js ''/v1/events'')"
    by (simp add: eventPath_def Let_def starts_with_def js_eval)
  ultimately show ?thesis
    using event_names(1)
    unfolding path requested_types_def requested_vehicle_def eventPath_parsed [OF ts assms(3)]
    by (auto simp: event_query_def split: option.splits)
qed

definition sample_session :: client_session where
  "sample_session =
     \<lparr>cs_descriptor = sample_descriptor\<lparr>d_capabilities := [\<lparr>cap_id = js ''events.sse'', cap_commands = None\<rparr>]\<rparr>,
      cs_protocolVersion = V1_1_0, cs_discoveryTransport = sample_transport FetchPending,
      cs_apiTransport = sample_transport FetchPending, cs_eventTransport = sample_transport FetchPending\<rparr>"

definition sample_surroundings :: stream_surroundings where
  "sample_surroundings =
     \<lparr>ss_validateProblem = (\<lambda>_. True), ss_validateEvent = (\<lambda>_. True), ss_decode = (\<lambda>_. no_signal),
      ss_sleep = (\<lambda>_ _. Inr ()), ss_resumes = (\<lambda>_. True)\<rparr>"

definition sample_options :: stream_options where
  "sample_options = default_stream_options\<lparr>so_vehicleId := Some (StringArg (js ''abc'')),
     so_eventTypes := Proper [StringArg (js ''drive.ended''), StringArg (js ''command.changed'')]\<rparr>"

lemma sample_normalized:
  "normalizeOptions (Proper sample_options) V1_1_0 =
     Inr \<lparr>no_vehicleId = Some (js ''abc''), no_eventTypes = [js ''drive.ended'', js ''command.changed''],
          no_checkpoint = None, no_signal_given = None, no_sleep = None\<rparr>"
  by (simp add: normalizeOptions_def sample_options_def default_stream_options_def event_catalog
      compareProfiles_less less_supported_version_def containsControlCharacters_units control_unit_def js_eval)

lemma sample_stream:
  "\<exists>stream. streamProtocolEvents sample_surroundings sample_session (Proper sample_options) = Inr stream"
proof -
  have "requireCapability (cs_descriptor sample_session) (js ''events.sse'')
      = Inr \<lparr>cap_id = js ''events.sse'', cap_commands = None\<rparr>"
    by (simp add: requireCapability_def sample_session_def asCapabilityId_def js_eval
        containsControlCharacters_units control_unit_def)
  then show ?thesis
    by (simp add: streamProtocolEvents_def sample_normalized sample_session_def)
qed

theorem stream_path_reads_back_witness:
  "\<exists>stream. streamProtocolEvents sample_surroundings sample_session (Proper sample_options) = Inr stream
    \<and> requested_types (st_path stream) = [js ''drive.ended'', js ''command.changed'']"
proof -
  obtain stream where st: "streamProtocolEvents sample_surroundings sample_session (Proper sample_options) = Inr stream"
    using sample_stream by blast
  have n: "normalizeOptions (Proper sample_options) (cs_protocolVersion sample_session) =
     Inr \<lparr>no_vehicleId = Some (js ''abc''), no_eventTypes = [js ''drive.ended'', js ''command.changed''],
          no_checkpoint = None, no_signal_given = None, no_sleep = None\<rparr>"
    using sample_normalized by (simp add: sample_session_def)
  have "well_formed (js ''abc'')" by (rule well_formed_ascii) (simp add: js_eval)
  with stream_path_reads_back [OF st n] st show ?thesis by auto
qed

section \<open>What is delivered\<close>

text \<open>An event fit for the consumer of a session with the profile \<open>p\<close>.\<close>

definition event_sound :: "validator \<Rightarrow> supported_version \<Rightarrow> json \<Rightarrow> bool" where
  "event_sound validateEvent p v \<longleftrightarrow>
     (\<exists>m. validateEvent (v, m)) \<and> finite_numbers v
     \<and> (\<exists>t d f. member_of v (js ''event_type'') = Some (JStr t) \<and> available p t
          \<and> map_of resourceIdentifierField t = Some f
          \<and> member_of v (js ''data'') = Some (JObj d)
          \<and> map_of d (js ''vehicle_id'') \<in> {None, member_of v (js ''vehicle_id'')}
          \<and> map_of d f \<in> {None, member_of v (js ''resource_id'')}
          \<and> eventRevision (JObj d) \<in> {None, member_of v (js ''revision'')})"

lemma strictly_equal_eq: "strictly_equal a b \<Longrightarrow> a = b"
  by (cases "(a, b)" rule: strictly_equal.cases) auto

lemma catalog_fields:
  "map fst resourceIdentifierField = map fst eventIntroducedIn"
  by (simp add: resourceIdentifierField_def event_catalog)

lemma available_field: "available p t \<Longrightarrow> \<exists>f. map_of resourceIdentifierField t = Some f"
  using catalog_fields by (metis available_def map_of_eq_None_iff not_None_eq option.distinct(1) set_map)

lemma assertEventSemantics_Inr:
  assumes "assertEventSemantics v = Inr u" and "member_of v (js ''event_type'') = Some (JStr t)"
    and "map_of resourceIdentifierField t = Some f"
  obtains d where "member_of v (js ''data'') = Some (JObj d)"
    "map_of d (js ''vehicle_id'') \<in> {None, member_of v (js ''vehicle_id'')}"
    "map_of d f \<in> {None, member_of v (js ''resource_id'')}"
    "eventRevision (JObj d) \<in> {None, member_of v (js ''revision'')}"
proof -
  obtain d where d: "member_of v (js ''data'') = Some (JObj d)"
      "eventRevision (JObj d) \<noteq> None \<longrightarrow> strictly_equal (member_of v (js ''revision'')) (eventRevision (JObj d))"
      "\<not> disagrees v ''vehicle_id'' (JObj d) (js ''vehicle_id'')" "\<not> disagrees v ''resource_id'' (JObj d) f"
    using assms by (auto simp: assertEventSemantics_def rbind_Inr_iff Let_def split: option.splits json.splits)
  have agree: "map_of d k \<in> {None, member_of v (js n)}" if "\<not> disagrees v n (JObj d) k" for n k
    using that by (auto simp: disagrees_def dest: strictly_equal_eq)
  have "eventRevision (JObj d) \<in> {None, member_of v (js ''revision'')}"
    using d(2) by (auto dest: strictly_equal_eq)
  with that [OF d(1) agree [OF d(3)] agree [OF d(4)]] show thesis by simp
qed

lemma decodeProtocolEvent_sound:
  assumes "decodeProtocolEvent validateEvent ev p = Inr (Some v)"
  shows "event_sound validateEvent p v \<and> member_of v (js ''event_id'') = Some (JStr (se_lastEventId ev))
    \<and> member_of v (js ''event_type'') = Some (JStr (se_event ev))"
proof -
  from assms have a: "available p (se_event ev)"
    by (auto simp: decodeProtocolEvent_def available_iff split: option.splits if_splits)
  from assms obtain m where v: "validateEvent (v, m)" "finite_numbers v"
      "member_of v (js ''event_id'') = Some (JStr (se_lastEventId ev))"
      "member_of v (js ''event_type'') = Some (JStr (se_event ev))" "assertEventSemantics v = Inr ()"
    by (auto simp: decodeProtocolEvent_def rbind_Inr_iff decodeProtocolValue_Inr
        split: option.splits if_splits sum.splits)
  obtain f where f: "map_of resourceIdentifierField (se_event ev) = Some f" using available_field [OF a] ..
  show ?thesis
    using assertEventSemantics_Inr [OF v(5,4) f] a v(1-4) f unfolding event_sound_def by metis
qed

text \<open>The invariant of a subscription: whatever it has yielded came from its mapper, and every wait
  was chosen by its policy or is the server's, within the bounds.\<close>

definition mapped_inv :: "'e sse_env \<Rightarrow> 'e sub_state \<Rightarrow> bool" where
  "mapped_inv env s \<longleftrightarrow>
     (\<forall>v. Yielded v \<in> set (s_trace s) \<longrightarrow> (\<exists>ev. e_mapper env ev = Inr (Some v)))"

interpretation mapped: subscription_invariant env "mapped_inv env" for env
proof unfold_locales
  show "mapped_inv env (snd (commit env i s))" if "mapped_inv env s" for s i
    using that by (cases rule: commit_cases [of env i s]) (auto simp: mapped_inv_def emit_def)
qed (auto simp: mapped_inv_def emit_def)

lemma run_stream_mapped:
  assumes "subscribeToSse env answers = (r, s)" and "Yielded v \<in> set (s_trace s)"
  shows "\<exists>ev. e_mapper env ev = Inr (Some v)"
  using assms(1)
proof (cases rule: subscribe_cases)
  case (attempts n)
  have "mapped_inv env (initial_state (loaded_checkpoint env) n)"
    by (simp add: mapped_inv_def initial_state_def)
  from mapped.subscription_I [OF this attempts(1)] assms(2) show ?thesis by (auto simp: mapped_inv_def)
qed (use assms(2) in simp)

lemma stream_environment:
  assumes "streamProtocolEvents around session options = Inr stream"
  shows "e_mapper (st_env stream) =
      (\<lambda>event. decodeProtocolEvent (ss_validateEvent around) event (cs_protocolVersion session))"
    and "e_policy (st_env stream) = Some reconnect_policy"
    and "e_minimum (st_env stream) = None"
    and "e_maximum (st_env stream) = Some (num_of_int 30000)"
  using assms by (auto simp: streamProtocolEvents_def rbind_Inr_iff maximumReconnectMilliseconds_def)

definition delivered :: "'e sse_action list \<Rightarrow> 'e list" where
  "delivered tr = concat (map (\<lambda>a. case a of Yielded v \<Rightarrow> [v] | _ \<Rightarrow> []) tr)"

lemma set_delivered: "set (delivered tr) = {v. Yielded v \<in> set tr}"
  by (induction tr) (auto simp: delivered_def split: sse_action.splits)

text \<open>C35: every event the stream of a session hands to its consumer was validated, has a type of the
  catalogue introduced no later than the negotiated profile, only finite numbers, and a data object
  whose vehicle, resource and revision, where it has them, are those of the event; whatever the
  transport, the store and the consumer do.\<close>

theorem delivered_events_sound:
  "case streamProtocolEvents around session options of
     Inl e \<Rightarrow> True
   | Inr stream \<Rightarrow>
       list_all (event_sound (ss_validateEvent around) (cs_protocolVersion session))
         (delivered (s_trace (snd (run_stream stream answers))))"
proof (cases "streamProtocolEvents around session options")
  case (Inr stream)
  obtain r s where run: "subscribeToSse (st_env stream) answers = (r, s)" by fastforce
  have "event_sound (ss_validateEvent around) (cs_protocolVersion session) v" if "Yielded v \<in> set (s_trace s)" for v
    using run_stream_mapped [OF run that] decodeProtocolEvent_sound
    by (auto simp: stream_environment [OF Inr])
  then show ?thesis by (simp add: Inr run_stream_def run list_all_iff set_delivered)
qed simp

text \<open>An event is decoded to a value only if its type is of the catalogue and of the negotiated
  profile; the value then passed the validator and the semantic checks, and carries the type and the
  identifier of the frame it came in.\<close>

theorem decoded_event_matches_frame:
  assumes "decodeProtocolEvent validateEvent ev p = Inr (Some v)"
  shows "event_sound validateEvent p v
    \<and> member_of v (js ''event_id'') = Some (JStr (se_lastEventId ev))
    \<and> member_of v (js ''event_type'') = Some (JStr (se_event ev))"
  using assms by (rule decodeProtocolEvent_sound)

definition sample_event :: jtree where
  "sample_event = ObjT [(js ''event_id'', StrT (js ''e1'')), (js ''event_type'', StrT (js ''drive.ended'')),
     (js ''resource_id'', StrT (js ''d1'')), (js ''data'', ObjT [(js ''drive_id'', StrT (js ''d1''))])]"

definition sample_frame :: sse_event where
  "sample_frame = \<lparr>se_event = js ''drive.ended'', se_data = print_tree sample_event, se_lastEventId = js ''e1''\<rparr>"

lemma sample_event_value:
  "json_of sample_event = JObj [(js ''event_id'', JStr (js ''e1'')), (js ''event_type'', JStr (js ''drive.ended'')),
     (js ''resource_id'', JStr (js ''d1'')), (js ''data'', JObj [(js ''drive_id'', JStr (js ''d1''))])]"
proof -
  have names: "own_members ms = ms"
    if "distinct (map fst ms)" "list_all (\<lambda>(k, _). k \<noteq> [] \<and> \<not> is_digit (hd k)) ms" for ms :: "(jsstr \<times> json) list"
    using that by (rule own_members_names)
  have hd: "hd (js (c # cs)) = of_char c" for c cs by (simp add: js_def)
  show ?thesis by (simp add: sample_event_def names hd is_digit_def in_range_def)
qed

theorem decoded_event_matches_frame_witness:
  "decodeProtocolEvent (\<lambda>_. True) sample_frame V1_1_0 = Inr (Some (json_of sample_event))
   \<and> event_sound (\<lambda>_. True) V1_1_0 (json_of sample_event)"
proof -
  have ok: "replies_ok sample_event"
    by (rule plain_replies) (simp_all add: sample_event_def plain_string_def js_def)
  then have parsed: "parseProtocolJson (print_tree sample_event) n
      = Inr (json_of sample_event, Some (json_of (mirror_tree sample_event)))" for n
    by (simp add: replies_ok_def parse_printed)
  have t: "map_of eventIntroducedIn (js ''drive.ended'') = Some V1_0_0"
    "map_of resourceIdentifierField (js ''drive.ended'') = Some (js ''drive_id'')"
    by (simp_all add: event_catalog resourceIdentifierField_def)
  have "decodeProtocolEvent (\<lambda>_. True) sample_frame V1_1_0 = Inr (Some (json_of sample_event))"
    using ok t
    by (simp add: decodeProtocolEvent_def sample_frame_def parsed compareProfiles_less less_supported_version_def
        decodeProtocolValue_def assertFiniteNumbers_None [THEN iffD2] replies_ok_def)
      (simp add: sample_event_value assertEventSemantics_def eventRevision_def disagrees_def require_def Let_def t)
  from this decoded_event_matches_frame [OF this] show ?thesis by simp
qed

section \<open>How long a stream waits\<close>

definition protocol_paced :: "'e sub_state \<Rightarrow> bool" where
  "protocol_paced s \<longleftrightarrow> (\<forall>d. Slept d \<in> set (s_trace s) \<longrightarrow> d \<le> 30000)"

locale protocol_subscription =
  fixes env :: "'e sse_env"
  assumes policy: "e_policy env = Some reconnect_policy"
    and minimum: "e_minimum env = None"
    and maximum: "e_maximum env = Some (num_of_int 30000)"
begin

lemma policy_delay: "reconnect_policy ctx = Inr (Some d) \<Longrightarrow> milliseconds d = 3000"
  by (auto simp: reconnect_policy_def milliseconds_def defaultReconnectMilliseconds_def
      split: reconnect_reason.splits if_splits)

lemma bounded_delay: "reconnect_delay env retry 3000 \<le> 30000"
  by (simp add: reconnect_delay_def minimum_retry_def maximum_retry_def minimum maximum clamp_def
      milliseconds_def split: option.split)

sublocale subscription_invariant env protocol_paced
proof unfold_locales
  show "protocol_paced (snd (commit env i s))" if "protocol_paced s" for s i
    using that by (cases rule: commit_cases [of env i s]) (auto simp: protocol_paced_def emit_def)
  show "protocol_paced ((emit (Slept (reconnect_delay env (s_serverRetry s) (milliseconds d)))
      (emit (PolicyAsked ctx) s))\<lparr>s_serverRetry := None\<rparr>)"
    if "protocol_paced s" "e_policy env = Some p" "p ctx = Inr (Some d)" for s d p ctx
  proof -
    have "milliseconds d = 3000" using that(2,3) policy by (auto intro: policy_delay)
    with that(1) bounded_delay show ?thesis by (auto simp: protocol_paced_def emit_def)
  qed
qed (auto simp: protocol_paced_def emit_def)

lemma waits:
  assumes "subscribeToSse env answers = (r, s)"
  shows "protocol_paced s"
  using assms
proof (cases rule: subscribe_cases)
  case (attempts n)
  have "protocol_paced (initial_state (loaded_checkpoint env) n)"
    by (simp add: protocol_paced_def initial_state_def)
  from subscription_I [OF this attempts(1)] show ?thesis by (simp add: protocol_paced_def)
qed (auto simp: protocol_paced_def)

end

text \<open>Every environment with the policy and the bounds that \<open>streamProtocolEvents\<close> sets is an
  instance.\<close>

definition stream_env :: "'e sse_env \<Rightarrow> 'e sse_env" where
  "stream_env env = env\<lparr>e_policy := Some reconnect_policy, e_minimum := None, e_maximum := Some (num_of_int 30000)\<rparr>"

interpretation protocol_stream: protocol_subscription "stream_env env" for env
  by unfold_locales (simp_all add: stream_env_def)

lemma stream_env_of: "streamProtocolEvents around session options = Inr stream \<Longrightarrow> stream_env (st_env stream) = st_env stream"
  using stream_environment [of around session options stream] by (simp add: stream_env_def)

text \<open>Before it reconnects, a stream waits at most thirty seconds, whatever delay the server asks
  for.\<close>

theorem stream_waits_bounded:
  "case streamProtocolEvents around session options of
     Inl e \<Rightarrow> True
   | Inr stream \<Rightarrow>
       list_all (\<lambda>a. case a of Slept d \<Rightarrow> d \<le> 30000 | _ \<Rightarrow> True)
         (s_trace (snd (run_stream stream answers)))"
proof (cases "streamProtocolEvents around session options")
  case (Inr stream)
  obtain r s where run: "subscribeToSse (st_env stream) answers = (r, s)" by fastforce
  have "protocol_paced s" using run protocol_stream.waits [of "st_env stream"] by (simp add: stream_env_of [OF Inr])
  then show ?thesis
    by (auto simp: Inr run_stream_def run list_all_iff protocol_paced_def split: sse_action.splits)
qed simp

end
