(* ===== verification/HubTasks.thy ===== *)
theory HubTasks
  imports FetchTransport JsonText
begin

text \<open>
  The state of a Hub client (the private fields of \<^verbatim>\<open>StaticHubClient\<close>,
  \<^verbatim>\<open>hub/client.ts\<close>) and its asynchronous methods. A method is a \<open>task\<close>: it runs to an
  \<^verbatim>\<open>await\<close> of something outside the client, which is a constructor with what follows as a
  function of the answer and of the state found then. Between the two the other methods may have run,
  so nothing is known of that state but what every one of them keeps: the logic of the last section is
  a rely-guarantee logic for such tasks. An \<^verbatim>\<open>await\<close> of one of the client's own methods goes on
  at once.
\<close>

section \<open>The state\<close>

text \<open>\<^verbatim>\<open>HubCredential\<close>.\<close>

record hub_credential =
  hc_accessToken :: jsstr
  hc_deviceId :: jsstr
  hc_expiresAtMs :: jsnum

record hub_metadata =
  hm_status :: nat
  hm_etag :: "jsstr option"
  hm_requestId :: "jsstr option"

record hub_response =
  hr_value :: json
  hr_metadata :: hub_metadata

text \<open>What besides the owner and the session can abort an operation: the signal of the caller, or the
  controller of a shared discovery, named by its operation.\<close>

datatype signal_source = CallerSignal nat | DiscoveryController nat

text \<open>\<^verbatim>\<open>HubOperation\<close>; its signal is in the state, under its number.\<close>

record hub_operation =
  op_id :: nat
  op_generation :: nat

text \<open>\<^verbatim>\<open>PendingDiscovery\<close>; the promise is named by the operation of the shared read.\<close>

record pending_discovery =
  pd_operation :: hub_operation
  pd_waiters :: nat

text \<open>The signals of the operations are kept as \<^verbatim>\<open>AbortSignal.any\<close> leaves them: with their
  source and generation, and their present state. \<open>hs_mutations\<close> is the chain of credential
  mutations that have not settled, the one allowed to run first; \<open>hs_now\<close> is the clock.\<close>

record operation_signal =
  sg_source :: "signal_source option"
  sg_generation :: nat
  sg_state :: signal_state

record hub_state =
  hs_disposed :: bool
  hs_generation :: nat
  hs_discovery :: "json option"
  hs_pending :: "pending_discovery option"
  hs_bindings :: "(jsstr \<times> jsstr) list"
  hs_owner :: signal_state
  hs_aborted :: "(signal_source \<times> exn option) list"
  hs_signals :: "operation_signal list"
  hs_mutations :: "nat list"
  hs_tickets :: nat
  hs_started :: "hub_operation list"
  hs_cancelled :: "response list"
  hs_now :: int

definition initial_hub_state :: "signal_state \<Rightarrow> int \<Rightarrow> hub_state" where
  "initial_hub_state owner now =
     \<lparr>hs_disposed = False, hs_generation = 0, hs_discovery = None, hs_pending = None, hs_bindings = [],
      hs_owner = owner, hs_aborted = [], hs_signals = [], hs_mutations = [], hs_tickets = 0,
      hs_started = [], hs_cancelled = [], hs_now = now\<rparr>"

definition op_signal :: "hub_operation \<Rightarrow> hub_state \<Rightarrow> signal_state" where
  "op_signal op s = (if op_id op < length (hs_signals s) then sg_state (hs_signals s ! op_id op) else Live)"

section \<open>Tasks\<close>

datatype unit_wait =
    SaveCredential hub_credential
  | ClearCredentials
  | MutationTurn nat
  | EmptyBody response string

datatype response_wait = FetchCall url fetch_init | ClaimCall url jsstr jsstr

datatype 'a task =
    Settled "'a result"
  | AwaitUnit unit_wait "unit result \<Rightarrow> hub_state \<Rightarrow> 'a task \<times> hub_state"
  | AwaitCredential "hub_credential option result \<Rightarrow> hub_state \<Rightarrow> 'a task \<times> hub_state"
  | AwaitResponse response_wait "response result \<Rightarrow> hub_state \<Rightarrow> 'a task \<times> hub_state"
  | AwaitText response string "jsstr result \<Rightarrow> hub_state \<Rightarrow> 'a task \<times> hub_state"
  | AwaitDiscovery hub_operation hub_operation "hub_response result \<Rightarrow> hub_state \<Rightarrow> 'a task \<times> hub_state"

text \<open>A part of a method: it runs in a state to its next \<^verbatim>\<open>await\<close> or its end.\<close>

type_synonym 'a prog = "hub_state \<Rightarrow> 'a task \<times> hub_state"

text \<open>What follows the end of a task, which it gets as a result.\<close>

primrec after_task :: "('a result \<Rightarrow> 'b prog) \<Rightarrow> 'a task \<Rightarrow> 'b prog" where
  "after_task f (Settled r) = f r"
| "after_task f (AwaitUnit w k) = Pair (AwaitUnit w
     (\<lambda>a s. let r = map_prod (after_task f) id (k a s) in fst r (snd r)))"
| "after_task f (AwaitCredential k) = Pair (AwaitCredential
     (\<lambda>a s. let r = map_prod (after_task f) id (k a s) in fst r (snd r)))"
| "after_task f (AwaitResponse w k) = Pair (AwaitResponse w
     (\<lambda>a s. let r = map_prod (after_task f) id (k a s) in fst r (snd r)))"
| "after_task f (AwaitText response name k) = Pair (AwaitText response name
     (\<lambda>a s. let r = map_prod (after_task f) id (k a s) in fst r (snd r)))"
| "after_task f (AwaitDiscovery shared op k) = Pair (AwaitDiscovery shared op
     (\<lambda>a s. let r = map_prod (after_task f) id (k a s) in fst r (snd r)))"

definition follow :: "'a prog \<Rightarrow> ('a result \<Rightarrow> 'b prog) \<Rightarrow> 'b prog" where
  "follow m f = (\<lambda>s. case m s of (t, s') \<Rightarrow> after_task f t s')"

definition settle :: "'a result \<Rightarrow> 'a prog" where
  "settle r = Pair (Settled r)"

text \<open>A value, a \<^verbatim>\<open>throw\<close>, a check, a step on the state, and the \<^verbatim>\<open>try\<close> statement.\<close>

abbreviation ret :: "'a \<Rightarrow> 'a prog" where
  "ret x \<equiv> settle (Inr x)"

abbreviation throw :: "exn \<Rightarrow> 'a prog" where
  "throw e \<equiv> settle (Inl e)"

definition bind :: "'a prog \<Rightarrow> ('a \<Rightarrow> 'b prog) \<Rightarrow> 'b prog" where
  "bind m f = follow m (case_sum throw f)"

definition handle :: "'a prog \<Rightarrow> (exn \<Rightarrow> 'a prog) \<Rightarrow> 'a prog" where
  "handle m h = follow m (case_sum h ret)"

definition check_state :: "(hub_state \<Rightarrow> 'a result) \<Rightarrow> 'a prog" where
  "check_state f = (\<lambda>s. settle (f s) s)"

definition update :: "(hub_state \<Rightarrow> hub_state) \<Rightarrow> unit prog" where
  "update f = (\<lambda>s. ret () (f s))"

text \<open>A step on the state after the end of \<open>m\<close>, whatever that is.\<close>

definition finally_update :: "'a prog \<Rightarrow> (hub_state \<Rightarrow> hub_state) \<Rightarrow> 'a prog" where
  "finally_update m f = follow m (\<lambda>r. bind (update f) (\<lambda>_. settle r))"

definition await_unit :: "unit_wait \<Rightarrow> unit prog" where
  "await_unit w = Pair (AwaitUnit w settle)"

definition await_credential :: "hub_credential option prog" where
  "await_credential = Pair (AwaitCredential settle)"

definition await_response :: "response_wait \<Rightarrow> response prog" where
  "await_response w = Pair (AwaitResponse w settle)"

definition await_text :: "response \<Rightarrow> string \<Rightarrow> jsstr prog" where
  "await_text response name = Pair (AwaitText response name settle)"

definition await_discovery :: "hub_operation \<Rightarrow> hub_operation \<Rightarrow> hub_response prog" where
  "await_discovery shared op = Pair (AwaitDiscovery shared op settle)"

section \<open>A logic for tasks\<close>

text \<open>What a task waits for.\<close>

datatype hub_wait =
    UnitWait unit_wait
  | CredentialWait
  | ResponseWait response_wait
  | TextWait response string
  | DiscoveryWait hub_operation

primrec waits :: "'a task \<Rightarrow> hub_wait option" where
  "waits (Settled r) = None"
| "waits (AwaitUnit w k) = Some (UnitWait w)"
| "waits (AwaitCredential k) = Some CredentialWait"
| "waits (AwaitResponse w k) = Some (ResponseWait w)"
| "waits (AwaitText response name k) = Some (TextWait response name)"
| "waits (AwaitDiscovery shared op k) = Some (DiscoveryWait shared)"

text \<open>A point a task stops at: it waits for something allowed there, or ends with a result allowed
  there.\<close>

definition stops ::
    "(hub_wait \<Rightarrow> hub_state \<Rightarrow> bool) \<Rightarrow> ('a \<Rightarrow> hub_state \<Rightarrow> bool) \<Rightarrow> (exn \<Rightarrow> hub_state \<Rightarrow> bool)
      \<Rightarrow> 'a task \<Rightarrow> hub_state \<Rightarrow> bool" where
  "stops W Q E t s =
     (case t of
        Settled (Inr x) \<Rightarrow> Q x s
      | Settled (Inl e) \<Rightarrow> E e s
      | _ \<Rightarrow> W (the (waits t)) s)"

lemma stops_simps [simp]:
  "stops W Q E (Settled (Inr x)) s = Q x s"
  "stops W Q E (Settled (Inl e)) s = E e s"
  "stops W Q E (AwaitUnit w ku) s = W (UnitWait w) s"
  "stops W Q E (AwaitCredential kc) s = W CredentialWait s"
  "stops W Q E (AwaitResponse wr kr) s = W (ResponseWait wr) s"
  "stops W Q E (AwaitText response name kt) s = W (TextWait response name) s"
  "stops W Q E (AwaitDiscovery shared op kd) s = W (DiscoveryWait shared) s"
  by (simp_all add: stops_def)

lemma stops_settled: "stops W Q E (Settled r) s = (case r of Inl e \<Rightarrow> E e s | Inr x \<Rightarrow> Q x s)"
  by (cases r) simp_all

text \<open>From then on: whenever it is resumed, in any state with the invariant \<open>I\<close>, with any answer,
  it keeps the invariant and stops at such a point.\<close>

primrec keeps :: "(hub_state \<Rightarrow> bool) \<Rightarrow> ('a task \<Rightarrow> hub_state \<Rightarrow> bool) \<Rightarrow> 'a task \<Rightarrow> bool" where
  "keeps I G (Settled r) = True"
| "keeps I G (AwaitUnit w k) = (\<forall>a s. I s \<longrightarrow>
     I (snd (k a s)) \<and> G (fst (k a s)) (snd (k a s)) \<and> fst (map_prod (keeps I G) id (k a s)))"
| "keeps I G (AwaitCredential k) = (\<forall>a s. I s \<longrightarrow>
     I (snd (k a s)) \<and> G (fst (k a s)) (snd (k a s)) \<and> fst (map_prod (keeps I G) id (k a s)))"
| "keeps I G (AwaitResponse w k) = (\<forall>a s. I s \<longrightarrow>
     I (snd (k a s)) \<and> G (fst (k a s)) (snd (k a s)) \<and> fst (map_prod (keeps I G) id (k a s)))"
| "keeps I G (AwaitText response name k) = (\<forall>a s. I s \<longrightarrow>
     I (snd (k a s)) \<and> G (fst (k a s)) (snd (k a s)) \<and> fst (map_prod (keeps I G) id (k a s)))"
| "keeps I G (AwaitDiscovery shared op k) = (\<forall>a s. I s \<longrightarrow>
     I (snd (k a s)) \<and> G (fst (k a s)) (snd (k a s)) \<and> fst (map_prod (keeps I G) id (k a s)))"

definition stays :: "(hub_state \<Rightarrow> bool) \<Rightarrow> ('a task \<Rightarrow> hub_state \<Rightarrow> bool) \<Rightarrow> 'a task \<times> hub_state \<Rightarrow> bool" where
  "stays I G r \<longleftrightarrow> I (snd r) \<and> G (fst r) (snd r) \<and> keeps I G (fst r)"

text \<open>The triple: started in a state with \<open>I\<close> and \<open>P\<close>.\<close>

definition runs ::
    "(hub_state \<Rightarrow> bool) \<Rightarrow> (hub_state \<Rightarrow> bool) \<Rightarrow> 'a prog \<Rightarrow> (hub_wait \<Rightarrow> hub_state \<Rightarrow> bool)
      \<Rightarrow> ('a \<Rightarrow> hub_state \<Rightarrow> bool) \<Rightarrow> (exn \<Rightarrow> hub_state \<Rightarrow> bool) \<Rightarrow> bool" where
  "runs I P m W Q E \<longleftrightarrow> (\<forall>s. I s \<longrightarrow> P s \<longrightarrow> stays I (stops W Q E) (m s))"

lemma keeps_simps [simp]:
  "keeps I G (AwaitUnit w ku) \<longleftrightarrow> (\<forall>a s. I s \<longrightarrow> stays I G (ku a s))"
  "keeps I G (AwaitCredential kc) \<longleftrightarrow> (\<forall>a s. I s \<longrightarrow> stays I G (kc a s))"
  "keeps I G (AwaitResponse wr kr) \<longleftrightarrow> (\<forall>a s. I s \<longrightarrow> stays I G (kr a s))"
  "keeps I G (AwaitText response name kt) \<longleftrightarrow> (\<forall>a s. I s \<longrightarrow> stays I G (kt a s))"
  "keeps I G (AwaitDiscovery shared op kd) \<longleftrightarrow> (\<forall>a s. I s \<longrightarrow> stays I G (kd a s))"
  by (simp_all add: stays_def)

declare keeps.simps(2-6) [simp del]

lemma after_task_simps [simp]:
  "after_task f (AwaitUnit w ku) s = (AwaitUnit w (\<lambda>a. follow (ku a) f), s)"
  "after_task f (AwaitCredential kc) s = (AwaitCredential (\<lambda>a. follow (kc a) f), s)"
  "after_task f (AwaitResponse wr kr) s = (AwaitResponse wr (\<lambda>a. follow (kr a) f), s)"
  "after_task f (AwaitText response name kt) s = (AwaitText response name (\<lambda>a. follow (kt a) f), s)"
  "after_task f (AwaitDiscovery shared op kd) s = (AwaitDiscovery shared op (\<lambda>a. follow (kd a) f), s)"
  by (simp_all add: follow_def fun_eq_iff Let_def split_beta)

declare after_task.simps(2-6) [simp del]

lemma fst_in_fsts [simp]: "fst p \<in> Basic_BNFs.fsts p"
  by (cases p) simp

lemma stays_at: "I s \<Longrightarrow> stays I G (t, s) \<longleftrightarrow> G t s \<and> keeps I G t"
  by (simp add: stays_def)

lemma after_task_stays:
  assumes f: "\<And>r s. I s \<Longrightarrow> stops W Q E (Settled r) s \<Longrightarrow> stays I (stops W R F) (f r s)"
  shows "keeps I (stops W Q E) t \<Longrightarrow> I s \<Longrightarrow> stops W Q E t s \<Longrightarrow> stays I (stops W R F) (after_task f t s)"
proof (induction t arbitrary: s)
  case (Settled r)
  then show ?case using f by simp
next
  case (AwaitUnit w k)
  have "stays I (stops W R F) (follow (k a) f s')" if "I s'" for a s'
    using AwaitUnit.IH [of "k a" "k a s'" "fst (k a s')"] AwaitUnit.prems(1) that
    by (auto simp: follow_def stays_def split_beta)
  with AwaitUnit.prems show ?case by (simp add: stays_at)
next
  case (AwaitCredential k)
  have "stays I (stops W R F) (follow (k a) f s')" if "I s'" for a s'
    using AwaitCredential.IH [of "k a" "k a s'" "fst (k a s')"] AwaitCredential.prems(1) that
    by (auto simp: follow_def stays_def split_beta)
  with AwaitCredential.prems show ?case by (simp add: stays_at)
next
  case (AwaitResponse w k)
  have "stays I (stops W R F) (follow (k a) f s')" if "I s'" for a s'
    using AwaitResponse.IH [of "k a" "k a s'" "fst (k a s')"] AwaitResponse.prems(1) that
    by (auto simp: follow_def stays_def split_beta)
  with AwaitResponse.prems show ?case by (simp add: stays_at)
next
  case (AwaitText response name k)
  have "stays I (stops W R F) (follow (k a) f s')" if "I s'" for a s'
    using AwaitText.IH [of "k a" "k a s'" "fst (k a s')"] AwaitText.prems(1) that
    by (auto simp: follow_def stays_def split_beta)
  with AwaitText.prems show ?case by (simp add: stays_at)
next
  case (AwaitDiscovery shared op k)
  have "stays I (stops W R F) (follow (k a) f s')" if "I s'" for a s'
    using AwaitDiscovery.IH [of "k a" "k a s'" "fst (k a s')"] AwaitDiscovery.prems(1) that
    by (auto simp: follow_def stays_def split_beta)
  with AwaitDiscovery.prems show ?case by (simp add: stays_at)
qed

text \<open>The rules, one for each way a method is put together.\<close>

lemma runs_follow:
  assumes "runs I P m W Q E" and "\<And>x. runs I (Q x) (f (Inr x)) W R F" and "\<And>e. runs I (E e) (f (Inl e)) W R F"
  shows "runs I P (follow m f) W R F"
  unfolding runs_def
proof (intro allI impI)
  fix s assume "I s" "P s"
  then have "stays I (stops W Q E) (m s)" using assms(1) by (simp add: runs_def)
  then have m: "keeps I (stops W Q E) (fst (m s))" "I (snd (m s))" "stops W Q E (fst (m s)) (snd (m s))"
    by (simp_all add: stays_def)
  have "stays I (stops W R F) (f r t)" if "I t" "stops W Q E (Settled r) t" for r t
    using that assms(2,3) unfolding runs_def by (cases r) simp_all
  from after_task_stays [OF this m] have "stays I (stops W R F) (after_task f (fst (m s)) (snd (m s)))" .
  then show "stays I (stops W R F) (follow m f s)" by (simp add: follow_def split_beta)
qed

lemma runs_settle:
  "(\<And>s. I s \<Longrightarrow> P s \<Longrightarrow> case r of Inl e \<Rightarrow> E e s | Inr x \<Rightarrow> Q x s) \<Longrightarrow> runs I P (settle r) W Q E"
  by (auto simp: runs_def settle_def stays_def stops_settled)

lemma runs_bind:
  assumes "runs I P m W Q E" and "\<And>x. runs I (Q x) (f x) W R E"
  shows "runs I P (bind m f) W R E"
  unfolding bind_def by (rule runs_follow [OF assms(1)]) (auto intro: assms(2) runs_settle)

lemma runs_handle:
  assumes "runs I P m W Q E" and "\<And>e. runs I (E e) (h e) W Q F"
  shows "runs I P (handle m h) W Q F"
  unfolding handle_def by (rule runs_follow [OF assms(1)]) (auto intro: assms(2) runs_settle)

lemma runs_check:
  "(\<And>s. I s \<Longrightarrow> P s \<Longrightarrow> case f s of Inl e \<Rightarrow> E e s | Inr x \<Rightarrow> Q x s) \<Longrightarrow> runs I P (check_state f) W Q E"
  by (auto simp: runs_def check_state_def settle_def stays_def stops_settled)

lemma runs_update:
  "(\<And>s. I s \<Longrightarrow> P s \<Longrightarrow> I (f s) \<and> Q () (f s)) \<Longrightarrow> runs I P (update f) W Q E"
  by (auto simp: runs_def update_def settle_def stays_def)

lemma runs_finally:
  assumes "runs I P m W Q E" and "\<And>x s. I s \<Longrightarrow> Q x s \<Longrightarrow> I (f s) \<and> Q x (f s)"
    and "\<And>e s. I s \<Longrightarrow> E e s \<Longrightarrow> I (f s) \<and> E e (f s)"
  shows "runs I P (finally_update m f) W Q E"
  unfolding finally_update_def
proof (rule runs_follow [OF assms(1)])
  fix x show "runs I (Q x) (bind (update f) (\<lambda>_. settle (Inr x))) W Q E"
  proof (rule runs_bind)
    show "runs I (Q x) (update f) W (\<lambda>_. Q x) E" by (rule runs_update) (rule assms(2))
    show "runs I (Q x) (settle (Inr x)) W Q E" by (rule runs_settle) simp
  qed
next
  fix e show "runs I (E e) (bind (update f) (\<lambda>_. settle (Inl e))) W Q E"
    unfolding bind_def
  proof (rule runs_follow)
    show "runs I (E e) (update f) W (\<lambda>_. E e) (\<lambda>_ _. False)" by (rule runs_update) (rule assms(3))
  qed (auto intro: runs_settle)
qed

lemma runs_await_unit:
  assumes "\<And>s. I s \<Longrightarrow> P s \<Longrightarrow> W (UnitWait w) s" and "\<And>s. I s \<Longrightarrow> Q () s" and "\<And>e s. I s \<Longrightarrow> E e s"
  shows "runs I P (await_unit w) W Q E"
  using assms by (auto simp: runs_def await_unit_def settle_def stays_def stops_def split: sum.splits)

lemma runs_await_credential:
  assumes "\<And>s. I s \<Longrightarrow> P s \<Longrightarrow> W CredentialWait s" and "\<And>x s. I s \<Longrightarrow> Q x s" and "\<And>e s. I s \<Longrightarrow> E e s"
  shows "runs I P await_credential W Q E"
  using assms by (auto simp: runs_def await_credential_def settle_def stays_def stops_def split: sum.splits)

lemma runs_await_response:
  assumes "\<And>s. I s \<Longrightarrow> P s \<Longrightarrow> W (ResponseWait w) s" and "\<And>x s. I s \<Longrightarrow> Q x s" and "\<And>e s. I s \<Longrightarrow> E e s"
  shows "runs I P (await_response w) W Q E"
  using assms by (auto simp: runs_def await_response_def settle_def stays_def stops_def split: sum.splits)

lemma runs_await_text:
  assumes "\<And>s. I s \<Longrightarrow> P s \<Longrightarrow> W (TextWait response name) s" and "\<And>x s. I s \<Longrightarrow> Q x s" and "\<And>e s. I s \<Longrightarrow> E e s"
  shows "runs I P (await_text response name) W Q E"
  using assms by (auto simp: runs_def await_text_def settle_def stays_def stops_def split: sum.splits)

lemma runs_await_discovery:
  assumes "\<And>s. I s \<Longrightarrow> P s \<Longrightarrow> W (DiscoveryWait shared) s" and "\<And>x s. I s \<Longrightarrow> Q x s" and "\<And>e s. I s \<Longrightarrow> E e s"
  shows "runs I P (await_discovery shared op) W Q E"
  using assms by (auto simp: runs_def await_discovery_def settle_def stays_def stops_def split: sum.splits)

text \<open>Weakening: fewer starting states, more points to stop at.\<close>

lemma keeps_mono:
  assumes "\<And>t s. I s \<Longrightarrow> G t s \<Longrightarrow> G' t s"
  shows "keeps I G t \<Longrightarrow> keeps I G' t"
proof (induction t)
  case (AwaitUnit w k)
  have "stays I G' (k a s)" if "I s" for a s
    using AwaitUnit.IH [of "k a" "k a s" "fst (k a s)"] AwaitUnit.prems that assms by (auto simp: stays_def)
  then show ?case by simp
next
  case (AwaitCredential k)
  have "stays I G' (k a s)" if "I s" for a s
    using AwaitCredential.IH [of "k a" "k a s" "fst (k a s)"] AwaitCredential.prems that assms
    by (auto simp: stays_def)
  then show ?case by simp
next
  case (AwaitResponse w k)
  have "stays I G' (k a s)" if "I s" for a s
    using AwaitResponse.IH [of "k a" "k a s" "fst (k a s)"] AwaitResponse.prems that assms
    by (auto simp: stays_def)
  then show ?case by simp
next
  case (AwaitText response name k)
  have "stays I G' (k a s)" if "I s" for a s
    using AwaitText.IH [of "k a" "k a s" "fst (k a s)"] AwaitText.prems that assms by (auto simp: stays_def)
  then show ?case by simp
next
  case (AwaitDiscovery shared op k)
  have "stays I G' (k a s)" if "I s" for a s
    using AwaitDiscovery.IH [of "k a" "k a s" "fst (k a s)"] AwaitDiscovery.prems that assms
    by (auto simp: stays_def)
  then show ?case by simp
qed simp

lemma stops_mono:
  assumes "stops W Q E t s" and "\<And>w. W w s \<Longrightarrow> W' w s" and "\<And>x. Q x s \<Longrightarrow> Q' x s" and "\<And>e. E e s \<Longrightarrow> E' e s"
  shows "stops W' Q' E' t s"
proof (cases t)
  case (Settled r)
  with assms(1,3,4) show ?thesis by (cases r) simp_all
qed (use assms(1,2) in simp_all)

lemma runs_weaken:
  assumes "runs I P m W Q E" and "\<And>s. I s \<Longrightarrow> P' s \<Longrightarrow> P s" and "\<And>w s. I s \<Longrightarrow> W w s \<Longrightarrow> W' w s"
    and "\<And>x s. I s \<Longrightarrow> Q x s \<Longrightarrow> Q' x s" and "\<And>e s. I s \<Longrightarrow> E e s \<Longrightarrow> E' e s"
  shows "runs I P' m W' Q' E'"
  unfolding runs_def
proof (intro allI impI)
  fix s assume s: "I s" "P' s"
  have mono: "stops W' Q' E' t s" if "I s" "stops W Q E t s" for t s
    using that(2) assms(3-5) [OF that(1)] by (rule stops_mono)
  from assms(1) s assms(2) have m: "stays I (stops W Q E) (m s)" by (simp add: runs_def)
  then have "keeps I (stops W' Q' E') (fst (m s))"
    by (intro keeps_mono [of I "stops W Q E", OF mono]) (simp_all add: stays_def)
  with m mono show "stays I (stops W' Q' E') (m s)" by (simp add: stays_def)
qed

end
