(* ===== verification/HubJson.thy ===== *)
theory HubJson
  imports Session
begin

text \<open>
  \<^verbatim>\<open>hub/validate.ts\<close>: how the bodies of a Hub are decoded. The text is parsed with its
  numerals (ProtocolJson), the integer fields of the schemas are checked against their numerals and
  the signed 64-bit range, the generated validator (a parameter) decides, and the keys are
  camel-cased.
\<close>

section \<open>Integer fields\<close>

definition integerFields :: "jsstr list" where
  "integerFields =
    [js ''ascent'', js ''battery_level'', js ''center_display_state'', js ''charge_current_request'',
     js ''charge_current_request_max'', js ''charge_limit_soc'', js ''charger_phases'', js ''descent'',
     js ''download_perc'', js ''duration_min'', js ''end_date_ms'', js ''end_soc'', js ''expires_at_ms'',
     js ''expiresAtMs'', js ''id'', js ''install_perc'', js ''observed_at_ms'', js ''protocol_major'',
     js ''scheduled_charging_start_time'', js ''since'', js ''source_eid'', js ''source_vid'', js ''speed'',
     js ''speed_max'', js ''start_date_ms'', js ''start_soc'', js ''sun_roof_percent_open'',
     js ''suspend_after_idle_min'', js ''suspend_min'', js ''usable_battery_level'']"

definition i64_min :: int where "i64_min = - 9223372036854775808"
definition i64_max :: int where "i64_max = 9223372036854775807"

text \<open>The condition of the \<^verbatim>\<open>if\<close> on one member; \<^verbatim>\<open>BigInt(child)\<close> is only
  reached by an integer.\<close>

definition inexact_field :: "jsstr \<Rightarrow> json \<Rightarrow> jsstr option \<Rightarrow> bool" where
  "inexact_field key child token \<longleftrightarrow>
     key \<in> set integerFields \<and>
     (case child of
        JNum x \<Rightarrow>
          \<not> isExactJsonInteger x token
          \<or> (case num_integer x of None \<Rightarrow> True | Some n \<Rightarrow> n < i64_min \<or> i64_max < n)
      | _ \<Rightarrow> False)"

definition mirror_child :: "json option \<Rightarrow> jsstr \<Rightarrow> json option" where
  "mirror_child m k = (case m of None \<Rightarrow> None | Some mv \<Rightarrow> js_get mv k)"

text \<open>The loop over the stack \<^verbatim>\<open>pending\<close>, whose top is the head of the list: is an inexact
  field met? Every value carries the mirror its numerals are in.\<close>

definition pushed :: "json \<Rightarrow> json option \<Rightarrow> (json \<times> json option) list" where
  "pushed current m = rev (map (\<lambda>(k, c). (c, mirror_child m k)) (entries current))"

lemma pushed_weight: "sum_list (map (json_weight \<circ> fst) (pushed v m)) < json_weight v"
proof -
  have "sum_list (map (json_weight \<circ> fst) (pushed v m)) = sum_list (map (\<lambda>(k, c). json_weight c) (entries v))"
    by (simp add: pushed_def rev_map [symmetric] comp_def split_def sum_list_rev)
  then show ?thesis using entries_weight [of v] by (cases v) auto
qed

function meets_inexact :: "(json \<times> json option) list \<Rightarrow> bool" where
  "meets_inexact [] = False"
| "meets_inexact ((current, m) # pending) =
     (if list_ex (\<lambda>(key, child). inexact_field key child (lexeme_at m key)) (entries current) then True
      else meets_inexact (pushed current m @ pending))"
  by pat_completeness auto
termination
  by (relation "measure (\<lambda>pending. sum_list (map (json_weight \<circ> fst) pending))")
    (auto simp: pushed_weight)

declare meets_inexact.simps [simp del]

definition rejectInexactIntegerFields :: "parsed \<Rightarrow> string \<Rightarrow> unit result" where
  "rejectInexactIntegerFields v validatorName =
     (if meets_inexact [v] then Inl (ProtocolValidationError (validatorName @ ''.integer'')) else Inr ())"

section \<open>Camel case\<close>

definition uUNDERSCORE :: code_unit where "uUNDERSCORE = 95"

text \<open>\<^verbatim>\<open>key.replace(/_([a-z])/gu, ...)\<close>: matches from left to right, none overlapping.\<close>

fun camel_key :: "jsstr \<Rightarrow> jsstr" where
  "camel_key (u # c # s) =
     (if u = uUNDERSCORE \<and> in_range 97 122 c then (c - 32) # camel_key s else u # camel_key (c # s))"
| "camel_key s = s"

fun camelize :: "json \<Rightarrow> json" where
  "camelize (JArr vs) = JArr (map camelize vs)"
| "camelize (JObj ms) = JObj (own_members (map (\<lambda>(key, child). (camel_key key, camelize child)) ms))"
| "camelize v = v"

definition decodeHubJson :: "jsstr \<Rightarrow> validator \<Rightarrow> string \<Rightarrow> json result" where
  "decodeHubJson source validator validatorName =
     rbind (parseProtocolJson source validatorName) (\<lambda>wire.
     rbind (rejectInexactIntegerFields wire validatorName) (\<lambda>_.
       if validator wire then Inr (camelize (fst wire)) else Inl (ProtocolValidationError validatorName)))"

section \<open>The loop looks at every field\<close>

lemma meets_inexact_append: "meets_inexact (xs @ ys) \<longleftrightarrow> meets_inexact xs \<or> meets_inexact ys"
proof (induction xs rule: meets_inexact.induct)
  case (2 current m pending)
  then show ?case
    by (simp add: meets_inexact.simps(2) [of current m])
qed (simp add: meets_inexact.simps)

lemma meets_inexact_mem: "meets_inexact xs \<longleftrightarrow> (\<exists>x \<in> set xs. meets_inexact [x])"
proof (induction xs)
  case (Cons x xs)
  then show ?case using meets_inexact_append [of "[x]" xs] by simp
qed (simp add: meets_inexact.simps)

lemma meets_inexact_iff:
  "meets_inexact [(v, m)] \<longleftrightarrow>
     (\<exists>(k, c) \<in> set (entries v). inexact_field k c (lexeme_at m k) \<or> meets_inexact [(c, mirror_child m k)])"
proof -
  have "meets_inexact [(v, m)] \<longleftrightarrow>
      list_ex (\<lambda>(k, c). inexact_field k c (lexeme_at m k)) (entries v) \<or> meets_inexact (pushed v m)"
    by (simp add: meets_inexact.simps(2))
  also have "meets_inexact (pushed v m) \<longleftrightarrow> (\<exists>(k, c) \<in> set (entries v). meets_inexact [(c, mirror_child m k)])"
    by (subst meets_inexact_mem) (auto simp: pushed_def split_beta)
  finally show ?thesis by (auto simp: list_ex_iff)
qed

lemma js_get_entry: "js_get v k = Some c \<Longrightarrow> (k, c) \<in> set (entries v)"
  by (simp add: js_get_def map_of_SomeD)

lemma not_inexact_child:
  assumes "\<not> meets_inexact [(v, Some m)]" and "js_get v k = Some c" and "js_get m k = Some u"
  shows "\<not> inexact_field k c (lexeme_at (Some m) k) \<and> \<not> meets_inexact [(c, Some u)]"
  using assms meets_inexact_iff [of v "Some m"] js_get_entry [OF assms(2)] by (auto simp: mirror_child_def)

text \<open>A number in an integer field is met with the numeral the mirror has at its path.\<close>

lemma exact_at_path:
  assumes "at_path v (path @ [k]) = Some (JNum x)" and "at_path m (path @ [k]) = Some (JStr l)"
    and "\<not> meets_inexact [(v, Some m)]" and "k \<in> set integerFields"
  shows "isExactJsonInteger x (Some l) \<and> (\<exists>n. num_integer x = Some n \<and> i64_min \<le> n \<and> n \<le> i64_max)"
  using assms
proof (induction path arbitrary: v m)
  case Nil
  then have "js_get v k = Some (JNum x)" "js_get m k = Some (JStr l)" by (auto split: option.splits)
  from not_inexact_child [OF Nil(3) this] Nil(4) this(2) show ?case
    by (auto simp: inexact_field_def lexeme_at_def split: option.splits)
next
  case (Cons j path)
  then obtain c u where c: "js_get v j = Some c" "at_path c (path @ [k]) = Some (JNum x)"
    "js_get m j = Some u" "at_path u (path @ [k]) = Some (JStr l)"
    by (auto split: option.splits)
  from not_inexact_child [OF Cons(4) c(1,3)] Cons(1) [OF c(2,4)] Cons(5) show ?case by blast
qed

lemma exact_numeral:
  assumes "at_path (json_of t) (path @ [k]) = Some (JNum x)" and "k \<in> set integerFields"
    and "\<not> meets_inexact [(json_of t, Some (json_of (mirror_tree t)))]"
  shows "\<exists>l n. at_path (json_of (mirror_tree t)) (path @ [k]) = Some (JStr l) \<and> l \<in> set (tree_numerals t) \<and>
    x = number_of l \<and> lexeme_value l = Some (of_int n) \<and> x = num_of_int n \<and> i64_min \<le> n \<and> n \<le> i64_max"
proof -
  obtain l where l: "at_path (json_of (mirror_tree t)) (path @ [k]) = Some (JStr l)" "l \<in> set (tree_numerals t)"
    "x = number_of l" using at_path_numeral [OF assms(1)] .
  have e: "isExactJsonInteger x (Some l)" "\<exists>n. num_integer x = Some n \<and> i64_min \<le> n \<and> n \<le> i64_max"
    using exact_at_path [OF assms(1) l(1) assms(3,2)] by blast+
  then have "num_is_finite (number_of l)" using l(3) by (cases "number_of l") auto
  from isExactJsonInteger_exact [OF this] e l show ?thesis by (auto simp: num_integer_Some)
qed

lemma decodeHubJson_Inr:
  "decodeHubJson source validator name = Inr v \<longleftrightarrow>
     (\<exists>w m. parseProtocolJson source name = Inr (w, m) \<and> \<not> meets_inexact [(w, m)] \<and> validator (w, m)
        \<and> v = camelize w)"
  by (auto simp: decodeHubJson_def rejectInexactIntegerFields_def rbind_Inr_iff split: if_splits)

lemma parse_keeps_numerals:
  assumes "parseProtocolJson source name = Inr (w, m)"
  shows "\<exists>u. m = Some u \<and> lexemes_match w u \<and> finite_numbers w \<and> json_parse source = Some w"
proof (cases "parse_tree source")
  case (Some t)
  with assms show ?thesis
    using lexemes_match_tree by (auto simp: parseProtocolJson_tree json_parse_def split: if_splits)
qed (use assms in \<open>simp add: parseProtocolJson_tree\<close>)

section \<open>Properties\<close>

text \<open>C24: a body of a Hub is decoded only to the camel-cased form of the JSON value it is the text of,
  which the schema accepts and all of whose numbers are finite. Every number of it in an integer field,
  at any depth, was written in the body as a numeral (the string at the same path of the mirror, a
  numeral of the syntax tree, which occur in the body as they are) whose exact rational value is an
  integer of 64 bits, and the number is exactly that integer.\<close>

theorem hub_integers_exact:
  assumes "decodeHubJson source validator name = Inr v"
  shows "\<exists>t. parse_tree source = Some t \<and> occur_in_order (tree_numerals t) source
    \<and> validator (json_of t, Some (json_of (mirror_tree t))) \<and> finite_numbers (json_of t) \<and> v = camelize (json_of t)
    \<and> (\<forall>path k x. at_path (json_of t) (path @ [k]) = Some (JNum x) \<longrightarrow> k \<in> set integerFields \<longrightarrow>
         (\<exists>l n. at_path (json_of (mirror_tree t)) (path @ [k]) = Some (JStr l) \<and> l \<in> set (tree_numerals t)
            \<and> lexeme_value l = Some (of_int n) \<and> x = num_of_int n \<and> - (2 ^ 63) \<le> n \<and> n < 2 ^ 63))"
proof -
  obtain w m where w: "parseProtocolJson source name = Inr (w, m)" "\<not> meets_inexact [(w, m)]" "validator (w, m)"
      "v = camelize w"
    using assms by (auto simp: decodeHubJson_Inr)
  then obtain t where t: "parse_tree source = Some t" "w = json_of t" "m = Some (json_of (mirror_tree t))"
    "finite_numbers w"
    by (auto simp: parseProtocolJson_tree split: option.splits if_splits)
  have "\<exists>l n. at_path (json_of (mirror_tree t)) (path @ [k]) = Some (JStr l) \<and> l \<in> set (tree_numerals t)
      \<and> lexeme_value l = Some (of_int n) \<and> x = num_of_int n \<and> - (2 ^ 63) \<le> n \<and> n < 2 ^ 63"
    if "at_path (json_of t) (path @ [k]) = Some (JNum x)" "k \<in> set integerFields" for path k x
    using exact_numeral [of t path k x] that w(2) t(2,3) by (fastforce simp: i64_min_def i64_max_def)
  with w t tree_numerals_written [OF t(1)] show ?thesis by blast
qed

definition sample_hub_document :: jtree where
  "sample_hub_document = ObjT [(js ''id'', NumT (js ''9'')), (js ''vehicle_id'', StrT (js ''abc''))]"

lemma sample_hub_value:
  "json_of sample_hub_document = JObj [(js ''id'', JNum (num_of_int 9)), (js ''vehicle_id'', JStr (js ''abc''))]"
  by (simp add: sample_hub_document_def number_of_9)
    (rule own_members_names; simp add: js_def is_digit_def in_range_def)

lemma sample_hub_mirror:
  "json_of (mirror_tree sample_hub_document) = JObj [(js ''id'', JStr (js ''9'')), (js ''vehicle_id'', JStr (js ''abc''))]"
  by (simp add: sample_hub_document_def)
    (rule own_members_names; simp add: js_def is_digit_def in_range_def)

lemma sample_hub_reply: "replies_ok sample_hub_document"
proof (rule plain_replies)
  have "num_is_finite (number_of (js ''9''))" by (simp add: number_of_9 num_of_int_def)
  then show "plain_tree sample_hub_document"
    using number_of_9 by (simp add: sample_hub_document_def) (simp add: plain_string_def js_def)
  show "text_bound sample_hub_document \<le> 4096"
    by (simp add: sample_hub_document_def js_def)
qed

lemma int_string_9: "int_string 9 = js ''9''"
  by (simp add: int_string_def dec_string.simps digit_unit_def js_def)

lemma sample_hub_decoded:
  "decodeHubJson (print_tree sample_hub_document) (\<lambda>_. True) ''HubDrive'' =
     Inr (JObj [(js ''id'', JNum (num_of_int 9)), (js ''vehicleId'', JStr (js ''abc''))])"
proof -
  have "replies_ok sample_hub_document" by (rule sample_hub_reply)
  then have parsed: "parseProtocolJson (print_tree sample_hub_document) n
      = Inr (json_of sample_hub_document, Some (json_of (mirror_tree sample_hub_document)))" for n
    by (simp add: replies_ok_def parse_printed)
  have nine: "isExactJsonInteger (num_of_int 9) (Some (js ''9''))"
    using isExactJsonInteger_exact [of "js ''9''"] lexeme_value_int [of 9] int_string_9
    by (simp add: number_of_9 num_of_int_def)
  have "\<not> meets_inexact [(json_of sample_hub_document, Some (json_of (mirror_tree sample_hub_document)))]"
    using nine
    by (subst meets_inexact_iff)
      (simp add: sample_hub_value sample_hub_mirror inexact_field_def lexeme_at_def js_get_def i64_min_def i64_max_def
        meets_inexact_iff [of "JNum x" for x] meets_inexact_iff [of "JStr x" for x])
  moreover have "camelize (json_of sample_hub_document) =
      JObj [(js ''id'', JNum (num_of_int 9)), (js ''vehicleId'', JStr (js ''abc''))]"
  proof -
    have "camel_key (js ''id'') = js ''id''" "camel_key (js ''vehicle_id'') = js ''vehicleId''"
      by (simp_all add: js_eval uUNDERSCORE_def in_range_def)
    then show ?thesis
      by (simp add: sample_hub_value) (rule own_members_names; simp add: js_def is_digit_def in_range_def)
  qed
  ultimately show ?thesis by (simp add: decodeHubJson_Inr parsed)
qed

theorem hub_integers_exact_witness:
  "decodeHubJson (print_tree sample_hub_document) (\<lambda>_. True) ''HubDrive'' =
     Inr (JObj [(js ''id'', JNum (num_of_int 9)), (js ''vehicleId'', JStr (js ''abc''))])
   \<and> at_path (json_of sample_hub_document) [js ''id''] = Some (JNum (num_of_int 9))
   \<and> (\<exists>n. at_path (json_of (mirror_tree sample_hub_document)) [js ''id''] = Some (JStr (js ''9''))
        \<and> lexeme_value (js ''9'') = Some (of_int n) \<and> num_of_int 9 = num_of_int n \<and> n < 2 ^ 63)"
proof -
  have "replies_ok sample_hub_document" by (rule sample_hub_reply)
  then have "parseProtocolJson (print_tree sample_hub_document) ''n''
      = Inr (json_of sample_hub_document, Some (json_of (mirror_tree sample_hub_document)))"
    by (simp add: replies_ok_def parse_printed)
  moreover obtain t where t: "parse_tree (print_tree sample_hub_document) = Some t"
    "\<forall>path k x. at_path (json_of t) (path @ [k]) = Some (JNum x) \<longrightarrow> k \<in> set integerFields \<longrightarrow>
         (\<exists>l n. at_path (json_of (mirror_tree t)) (path @ [k]) = Some (JStr l) \<and> l \<in> set (tree_numerals t)
            \<and> lexeme_value l = Some (of_int n) \<and> x = num_of_int n \<and> - (2 ^ 63) \<le> n \<and> n < 2 ^ 63)"
    using hub_integers_exact [OF sample_hub_decoded] by blast
  ultimately have e: "json_of t = json_of sample_hub_document"
    "json_of (mirror_tree t) = json_of (mirror_tree sample_hub_document)"
    by (auto simp: parseProtocolJson_tree split: if_splits)
  have path: "at_path (json_of sample_hub_document) [js ''id''] = Some (JNum (num_of_int 9))"
    "at_path (json_of (mirror_tree sample_hub_document)) [js ''id''] = Some (JStr (js ''9''))"
    by (simp_all add: sample_hub_value sample_hub_mirror js_get_def)
  have "js ''id'' \<in> set integerFields" by (simp add: integerFields_def)
  with t(2) e path obtain n where "lexeme_value (js ''9'') = Some (of_int n)" "num_of_int 9 = num_of_int n" "n < 2 ^ 63"
    by (metis append_Nil json.inject(3) option.inject)
  with path sample_hub_decoded show ?thesis by blast
qed

end
