(* ===== verification/HubClient.thy ===== *)
theory HubClient
  imports HubTasks HubJson BoundedReader
begin

text \<open>
  The methods of \<^verbatim>\<open>StaticHubClient\<close> (\<^verbatim>\<open>hub/client.ts\<close>) as tasks over the
  state of the client, in the order of the source after its helpers. The URL parser, the printer of
  numbers, the generated validators, the credential store, Fetch and the claim transport are
  parameters or answers.
\<close>

section \<open>Options\<close>

text \<open>What the constructor keeps of \<^verbatim>\<open>CreateHubClientOptions\<close>, and the parameters.\<close>

record hub_config =
  cf_parser :: url_parser
  cf_number :: "jsnum \<Rightarrow> jsstr"
  cf_validators :: "string \<Rightarrow> validator"
  cf_endpoint :: url
  cf_baseUrl :: url
  cf_expectedHubId :: jsstr
  cf_hasClaimTransport :: bool

definition isLoopback :: "jsstr \<Rightarrow> bool" where
  "isLoopback hostname \<longleftrightarrow>
     hostname = js ''localhost'' \<or> hostname = js ''[::1]''
     \<or> (let parts = split_on uDOT hostname
         in length parts = 4 \<and> hd parts = js ''127''
            \<and> list_all (\<lambda>p. 1 \<le> length p \<and> length p \<le> 3 \<and> list_all is_digit p) (tl parts))"

definition parseEndpoint :: "url_parser \<Rightarrow> url_input \<Rightarrow> url result" where
  "parseEndpoint P v =
     (case P (input_href v) None of
        None \<Rightarrow> Inl (ProtocolValidationError ''endpoint'')
      | Some url \<Rightarrow>
          if (u_protocol url \<noteq> protocol_https
               \<and> \<not> (u_protocol url = protocol_http \<and> isLoopback (u_hostname url)))
             \<or> 0 < length (u_username url) \<or> 0 < length (u_password url)
             \<or> u_pathname url \<noteq> js ''/'' \<or> 0 < length (u_search url) \<or> 0 < length (u_hash url)
          then Inl (ProtocolValidationError ''endpoint'') else Inr url)"

definition hubUuidPattern :: "jsstr \<Rightarrow> bool" where
  "hubUuidPattern = uuid_shape is_lower_hex"

definition tokenPattern :: "jsstr \<Rightarrow> bool" where
  "tokenPattern v \<longleftrightarrow> length v = 64 \<and> list_all is_lower_hex v"

record hub_options =
  ho_endpoint :: url_input
  ho_expectedHubId :: jsstr
  ho_claimTransport :: bool
  ho_fetch :: bool
  ho_globalFetch :: bool

text \<open>The constructor; the transport it makes throws without a Fetch.\<close>

definition createHubClient ::
    "url_parser \<Rightarrow> (jsnum \<Rightarrow> jsstr) \<Rightarrow> (string \<Rightarrow> validator) \<Rightarrow> hub_options \<Rightarrow> hub_config result" where
  "createHubClient P nm validators options =
     rbind (parseEndpoint P (ho_endpoint options)) (\<lambda>endpoint.
     rbind (require (hubUuidPattern (ho_expectedHubId options)) (ProtocolValidationError ''expectedHubId'')) (\<lambda>_.
     rbind (parseBaseUrl P (UrlObject endpoint)) (\<lambda>baseUrl.
     rbind (require (ho_fetch options \<or> ho_globalFetch options) MissingFetchError) (\<lambda>_.
       Inr \<lparr>cf_parser = P, cf_number = nm, cf_validators = validators, cf_endpoint = endpoint, cf_baseUrl = baseUrl,
            cf_expectedHubId = ho_expectedHubId options, cf_hasClaimTransport = ho_claimTransport options\<rparr>))))"

section \<open>Operations of a session\<close>

definition requireActive :: "hub_state \<Rightarrow> unit result" where
  "requireActive s = (if hs_disposed s then Inl HubClientDisposedError else Inr ())"

definition isExpired :: "hub_operation \<Rightarrow> hub_state \<Rightarrow> bool" where
  "isExpired op s \<longleftrightarrow> op_generation op \<noteq> hs_generation s \<or> hs_disposed s"

definition operation_error :: "hub_operation \<Rightarrow> hub_state \<Rightarrow> unit result" where
  "operation_error op s =
     (if isExpired op s then Inl abort_error else throwIfAborted (op_signal op s))"

definition assertOperation :: "hub_operation \<Rightarrow> unit prog" where
  "assertOperation op = check_state (operation_error op)"

definition source_state :: "signal_source option \<Rightarrow> hub_state \<Rightarrow> signal_state" where
  "source_state source s =
     (case source of None \<Rightarrow> Live
      | Some x \<Rightarrow> (case map_of (hs_aborted s) x of None \<Rightarrow> Live | Some reason \<Rightarrow> Aborted reason))"

text \<open>\<^verbatim>\<open>#signal\<close>: \<^verbatim>\<open>AbortSignal.any\<close> of the owner's, the session's and the
  caller's signal, the first aborted one giving the reason. While the client is active the
  controller of its session has not been aborted.\<close>

definition new_signal :: "signal_source option \<Rightarrow> hub_state \<Rightarrow> operation_signal" where
  "new_signal source s =
     \<lparr>sg_source = source, sg_generation = hs_generation s,
      sg_state = (if is_aborted (hs_owner s) then hs_owner s else source_state source s)\<rparr>"

definition beginOperation :: "signal_source option \<Rightarrow> hub_operation prog" where
  "beginOperation source =
     bind (check_state requireActive) (\<lambda>_.
     bind (check_state (\<lambda>s. Inr \<lparr>op_id = length (hs_signals s), op_generation = hs_generation s\<rparr>)) (\<lambda>op.
     bind (update (\<lambda>s. s\<lparr>hs_signals := hs_signals s @ [new_signal source s]\<rparr>)) (\<lambda>_.
     bind (assertOperation op) (\<lambda>_. ret op))))"

text \<open>An \<^verbatim>\<open>abort\<close> of a controller reaches the signals that follow it and are not aborted
  yet.\<close>

definition abort_signals :: "(operation_signal \<Rightarrow> bool) \<Rightarrow> exn option \<Rightarrow> hub_state \<Rightarrow> hub_state" where
  "abort_signals follows reason s =
     s\<lparr>hs_signals := map (\<lambda>g. if follows g \<and> sg_state g = Live then g\<lparr>sg_state := Aborted reason\<rparr> else g)
         (hs_signals s)\<rparr>"

definition abort_source :: "signal_source \<Rightarrow> exn option \<Rightarrow> hub_state \<Rightarrow> hub_state" where
  "abort_source source reason s =
     (if map_of (hs_aborted s) source \<noteq> None then s
      else abort_signals (\<lambda>g. sg_source g = Some source) reason (s\<lparr>hs_aborted := (source, reason) # hs_aborted s\<rparr>))"

definition abort_owner :: "exn option \<Rightarrow> hub_state \<Rightarrow> hub_state" where
  "abort_owner reason s =
     (if is_aborted (hs_owner s) then s
      else abort_signals (\<lambda>_. True) reason (s\<lparr>hs_owner := Aborted reason\<rparr>))"

definition abort_session :: "hub_state \<Rightarrow> hub_state" where
  "abort_session s = abort_signals (\<lambda>g. sg_generation g = hs_generation s) (Some abort_error) s"

section \<open>Credentials\<close>

definition validateUuid :: "jsstr \<Rightarrow> string \<Rightarrow> unit result" where
  "validateUuid v name = require (hubUuidPattern v) (ProtocolValidationError name)"

definition expired_at :: "jsnum \<Rightarrow> hub_state \<Rightarrow> bool" where
  "expired_at x s \<longleftrightarrow> \<not> num_less (num_of_int (hs_now s)) x"

definition validateCredential :: "hub_credential \<Rightarrow> hub_state \<Rightarrow> unit result" where
  "validateCredential v s =
     (if \<not> tokenPattern (hc_accessToken v) \<or> \<not> hubUuidPattern (hc_deviceId v)
         \<or> \<not> num_is_safe_integer (hc_expiresAtMs v)
      then Inl (ProtocolValidationError ''HubCredential'')
      else require (\<not> expired_at (hc_expiresAtMs v) s) (ProtocolValidationError ''HubCredential.expiry''))"

text \<open>The handler the two methods below share: an error is that of the operation once it is over.\<close>

definition operation_or :: "hub_operation \<Rightarrow> exn \<Rightarrow> 'a prog" where
  "operation_or op e =
     bind (check_state (\<lambda>s. Inr (isExpired op s \<or> is_aborted (op_signal op s)))) (\<lambda>over.
     bind (if over then assertOperation op else ret ()) (\<lambda>_. throw e))"

definition loadCredential :: "hub_operation \<Rightarrow> hub_credential option prog" where
  "loadCredential op =
     bind (assertOperation op) (\<lambda>_.
     handle
       (bind await_credential (\<lambda>credential.
        bind (assertOperation op) (\<lambda>_. ret credential)))
       (operation_or op))"

text \<open>\<^verbatim>\<open>#enqueueCredentialMutation\<close>: the mutation waits for the ones before it, and the next
  one for its end, whatever that is.\<close>

definition leave_queue :: "nat \<Rightarrow> hub_state \<Rightarrow> hub_state" where
  "leave_queue ticket s = s\<lparr>hs_mutations := filter (\<lambda>t. t \<noteq> ticket) (hs_mutations s)\<rparr>"

definition enqueueCredentialMutation :: "unit prog \<Rightarrow> unit prog" where
  "enqueueCredentialMutation mutation =
     bind (check_state (\<lambda>s. Inr (hs_tickets s))) (\<lambda>ticket.
     bind (update (\<lambda>s. s\<lparr>hs_tickets := Suc ticket, hs_mutations := hs_mutations s @ [ticket]\<rparr>)) (\<lambda>_.
     finally_update (bind (handle (await_unit (MutationTurn ticket)) (\<lambda>_. ret ())) (\<lambda>_. mutation))
       (leave_queue ticket)))"

definition saveCredential :: "hub_credential \<Rightarrow> hub_operation \<Rightarrow> unit prog" where
  "saveCredential credential op =
     handle
       (bind (enqueueCredentialMutation
          (bind (assertOperation op) (\<lambda>_. await_unit (SaveCredential credential)))) (\<lambda>_.
        assertOperation op))
       (operation_or op)"

section \<open>Requests\<close>

text \<open>\<^verbatim>\<open>FetchTransport.request\<close> with the signal of an operation, whose dispatch callback is
  the check of the operation. \<open>authorize\<close> is the provider, if the transport has one.\<close>

definition signal_check :: "hub_operation \<Rightarrow> unit prog" where
  "signal_check op = check_state (\<lambda>s. throwIfAborted (op_signal op s))"

definition hub_request ::
    "hub_config \<Rightarrow> hub_operation \<Rightarrow> jsstr option prog option \<Rightarrow> string \<Rightarrow> jsstr \<Rightarrow> headers result
      \<Rightarrow> jsstr option \<Rightarrow> response prog" where
  "hub_request cfg op authorize verb path hs body =
     (case resolveRequestUrl (cf_parser cfg) (cf_baseUrl cfg) path of
        Inl e \<Rightarrow> throw e
      | Inr url \<Rightarrow>
          bind (settle hs) (\<lambda>initial.
          handle
            (bind (signal_check op) (\<lambda>_.
             bind (case authorize of None \<Rightarrow> ret None | Some provider \<Rightarrow> provider) (\<lambda>authorization.
             bind (settle (authorizationHeader authorization initial)) (\<lambda>headers.
             bind (signal_check op) (\<lambda>_.
             bind (assertOperation op) (\<lambda>_.
               await_response (FetchCall url
                 \<lparr>fi_method = js verb, fi_headers = headers, fi_body = body, fi_redirect = Some ''error'',
                   fi_signal = True\<rparr>)))))))
            (\<lambda>e. bind (check_state (\<lambda>s. Inr (requestError (Some (\<lambda>_. op_signal op s)) e))) throw)))"

text \<open>\<^verbatim>\<open>#makeAuthenticatedTransport\<close>: the provider of the credential given, or of the one the
  store has then.\<close>

definition authenticate :: "hub_operation \<Rightarrow> hub_credential option \<Rightarrow> jsstr option prog" where
  "authenticate op given =
     bind (case given of Some c \<Rightarrow> ret (Some c) | None \<Rightarrow> loadCredential op) (\<lambda>credential.
     case credential of
       None \<Rightarrow> ret None
     | Some c \<Rightarrow>
         bind (check_state (validateCredential c)) (\<lambda>_.
           ret (Some (js ''Bearer '' @ hc_accessToken c))))"

text \<open>\<^verbatim>\<open>withResponseOwnership\<close>: a failure cancels the body.\<close>

definition owning :: "response \<Rightarrow> 'a prog \<Rightarrow> 'a prog" where
  "owning response m =
     handle m (\<lambda>e.
       bind (update (\<lambda>s. if cancelResponseBody response then s\<lparr>hs_cancelled := hs_cancelled s @ [response]\<rparr> else s))
         (\<lambda>_. throw e))"

section \<open>Responses\<close>

definition maximumResponseBytes :: nat where
  "maximumResponseBytes = 1048576"

text \<open>\<^verbatim>\<open>readBody\<close>: what the bounded reader makes of the body under the signal of the
  operation is the answer (\<open>body_outcome\<close>).\<close>

definition readBody :: "response \<Rightarrow> string \<Rightarrow> jsstr prog" where
  "readBody response validatorName = await_text response validatorName"

definition body_outcome :: "signal_oracle \<Rightarrow> response \<Rightarrow> string \<Rightarrow> jsstr read_end" where
  "body_outcome sig response validatorName =
     readBoundedText sig validatorName maximumResponseBytes response"

definition content_type :: "response \<Rightarrow> jsstr option" where
  "content_type response = map_option media_type (r_header (js ''Content-Type'') response)"

definition requireJsonContentType :: "response \<Rightarrow> string \<Rightarrow> unit result" where
  "requireJsonContentType response validatorName =
     require (content_type response = Some (js ''application/json''))
       (ProtocolValidationError (validatorName @ ''.contentType''))"

definition requireTextContentType :: "response \<Rightarrow> string \<Rightarrow> unit result" where
  "requireTextContentType response validatorName =
     require (content_type response = Some (js ''text/plain''))
       (ProtocolValidationError (validatorName @ ''.contentType''))"

definition decodeResponse :: "hub_config \<Rightarrow> response \<Rightarrow> string \<Rightarrow> json prog" where
  "decodeResponse cfg response validatorName =
     bind (settle (requireJsonContentType response validatorName)) (\<lambda>_.
     bind (readBody response validatorName) (\<lambda>source.
       settle (decodeHubJson source (cf_validators cfg validatorName) validatorName)))"

definition maximumHubEntityTagLength :: nat where
  "maximumHubEntityTagLength = 65536"

definition asHubEntityTag :: "jsstr \<Rightarrow> bool \<Rightarrow> jsstr result" where
  "asHubEntityTag v asked_for =
     (if maximumHubEntityTagLength < length v \<or> \<not> isStrongEntityTag (StringArg v)
      then Inl (if asked_for then InvalidStrongEntityTagError else ProtocolValidationError ''HubResponse.etag'')
      else Inr v)"

definition responseMetadata :: "response \<Rightarrow> bool \<Rightarrow> hub_metadata result" where
  "responseMetadata response requireEtag =
     (let etag = r_header (js ''ETag'') response
      in rbind (require (\<not> (requireEtag \<and> (case etag of None \<Rightarrow> True | Some e \<Rightarrow> \<not> isStrongEntityTag (StringArg e))))
           (ProtocolValidationError ''HubResponse.etag'')) (\<lambda>_.
         rbind (optional asSafeRequestId (r_header (js ''X-Request-ID'') response)) (\<lambda>requestId.
         rbind (optional (\<lambda>e. if requireEtag then asHubEntityTag e False else Inr e) etag) (\<lambda>tag.
           Inr \<lparr>hm_status = r_status response, hm_etag = tag, hm_requestId = requestId\<rparr>))))"

definition requireNoStore :: "response \<Rightarrow> unit result" where
  "requireNoStore response =
     require (r_header (js ''Cache-Control'') response = Some (js ''no-store''))
       (ProtocolValidationError ''HubDrives.cacheControl'')"

section \<open>Errors of the Hub\<close>

datatype error_route = DiscoveryRoute | DrivesRoute | OtherRoute

definition hub_error_code_of :: "jsstr \<Rightarrow> hub_error_code option" where
  "hub_error_code_of code =
     find (\<lambda>c. js (hub_error_code_string c) = code)
       [InvalidQuery, InvalidTimeRange, InvalidLimit, InvalidCursor, VehicleNotFound, ServiceUnavailable]"

fun statusForHubError :: "hub_error_code \<Rightarrow> nat" where
  "statusForHubError InvalidQuery = 400"
| "statusForHubError InvalidTimeRange = 400"
| "statusForHubError InvalidLimit = 400"
| "statusForHubError InvalidCursor = 400"
| "statusForHubError VehicleNotFound = 404"
| "statusForHubError ServiceUnavailable = 503"

text \<open>The members of a decoded object that the code reads as strings and numbers. The generated
  validators let nothing else through; reading a member of \<^verbatim>\<open>undefined\<close> is a TypeError.\<close>

definition num_at :: "json \<Rightarrow> string \<Rightarrow> jsnum option" where
  "num_at v k = (case member_of v (js k) of Some (JNum x) \<Rightarrow> Some x | _ \<Rightarrow> None)"

definition typed :: "'a option \<Rightarrow> 'a result" where
  "typed v = (case v of None \<Rightarrow> Inl type_error | Some x \<Rightarrow> Inr x)"

definition error_fields :: "json \<Rightarrow> (jsstr \<times> jsstr) option" where
  "error_fields envelope =
     (case member_of envelope (js ''error'') of
        None \<Rightarrow> None
      | Some e \<Rightarrow>
          (case (str_at e ''code'', str_at e ''message'') of
             (Some code, Some message) \<Rightarrow> Some (code, message)
           | _ \<Rightarrow> None))"

definition envelope_error :: "response \<Rightarrow> error_route \<Rightarrow> jsstr \<times> jsstr \<Rightarrow> exn" where
  "envelope_error response route members =
     (case hub_error_code_of (fst members) of
        None \<Rightarrow> ProtocolValidationError ''HubError.code''
      | Some code \<Rightarrow>
          if statusForHubError code \<noteq> r_status response
             \<or> (route = DiscoveryRoute \<and> code \<noteq> ServiceUnavailable)
             \<or> (route = DrivesRoute \<and> r_status response = 503 \<and> code \<noteq> ServiceUnavailable)
             \<or> route = OtherRoute
          then ProtocolValidationError ''HubError.status''
          else HubHttpError (r_status response) (Some code) (Some (snd members)))"

definition throwHubError :: "hub_config \<Rightarrow> response \<Rightarrow> error_route \<Rightarrow> hub_operation \<Rightarrow> 'a prog" where
  "throwHubError cfg response route op =
     bind (readBody response ''HubError'') (\<lambda>body.
     bind (assertOperation op) (\<lambda>_.
     if length body = 0 then throw (HubHttpError (r_status response) None None)
     else
       bind (settle (requireJsonContentType response ''HubError'')) (\<lambda>_.
       bind (settle (decodeHubJson body (cf_validators cfg ''HubError'') ''HubError'')) (\<lambda>envelope.
       bind (settle (typed (error_fields envelope))) (\<lambda>members.
         throw (envelope_error response route members))))))"

definition isClaimExtractorStatus :: "nat \<Rightarrow> bool" where
  "isClaimExtractorStatus status \<longleftrightarrow> status = 400 \<or> status = 415 \<or> status = 422"

definition throwClaimExtractorError :: "response \<Rightarrow> hub_operation \<Rightarrow> 'a prog" where
  "throwClaimExtractorError response op =
     bind (readBody response ''HubError'') (\<lambda>body.
     bind (assertOperation op) (\<lambda>_.
     bind (settle (requireTextContentType response ''HubError'')) (\<lambda>_.
       throw (if length body = 0 then ProtocolValidationError ''HubError.body''
              else HubHttpError (r_status response) None None))))"

section \<open>Reading\<close>

definition hubDiscoveryPath :: jsstr where
  "hubDiscoveryPath = js ''/.well-known/teslatlas-hub''"

definition hub_read ::
    "hub_config \<Rightarrow> jsstr option prog option \<Rightarrow> jsstr \<Rightarrow> string \<Rightarrow> hub_operation \<Rightarrow> nat list \<Rightarrow> hub_response prog" where
  "hub_read cfg authorize path validatorName op successStatuses =
     bind (assertOperation op) (\<lambda>_.
     bind (hub_request cfg op authorize ''GET'' path (Inr []) None) (\<lambda>response.
     owning response
       (bind (assertOperation op) (\<lambda>_.
        if r_status response \<notin> set successStatuses
        then throwHubError cfg response (if path = hubDiscoveryPath then DiscoveryRoute else OtherRoute) op
        else
          bind (decodeResponse cfg response validatorName) (\<lambda>v.
          bind (assertOperation op) (\<lambda>_.
          bind (settle (responseMetadata response False)) (\<lambda>metadata.
            ret \<lparr>hr_value = v, hr_metadata = metadata\<rparr>)))))))"

section \<open>Discovery\<close>

text \<open>The shared read of a discovery, a task of its own. \<open>is_pending\<close> is the test that
  \<^verbatim>\<open>#discoveryPending\<close> still is the one this read was started for.\<close>

definition is_pending :: "hub_operation \<Rightarrow> hub_state \<Rightarrow> bool" where
  "is_pending op s \<longleftrightarrow> (case hs_pending s of None \<Rightarrow> False | Some p \<Rightarrow> pd_operation p = op)"

definition clear_pending :: "hub_operation \<Rightarrow> hub_state \<Rightarrow> hub_state" where
  "clear_pending op s = (if is_pending op s then s\<lparr>hs_pending := None\<rparr> else s)"

definition shared_discovery :: "hub_config \<Rightarrow> hub_operation \<Rightarrow> hub_response prog" where
  "shared_discovery cfg op =
     finally_update
       (handle
         (bind (hub_read cfg None hubDiscoveryPath ''HubDiscovery'' op [200]) (\<lambda>result.
          bind (assertOperation op) (\<lambda>_.
          bind (settle (require (member_of (hr_value result) (js ''hubId'') = Some (JStr (cf_expectedHubId cfg)))
              HubIdentityMismatchError)) (\<lambda>_.
          bind (update (\<lambda>s. s\<lparr>hs_discovery := Some (hr_value result), hs_bindings := []\<rparr>)) (\<lambda>_.
            ret result)))))
         (\<lambda>e.
           bind (update (\<lambda>s.
             if is_pending op s \<and> op_generation op = hs_generation s \<and> \<not> hs_disposed s
             then s\<lparr>hs_discovery := None, hs_bindings := []\<rparr> else s)) (\<lambda>_. throw e)))
       (clear_pending op)"

text \<open>\<^verbatim>\<open>finish\<close> of a waiter: the last one aborts the read while it is pending.\<close>

definition leave_discovery :: "hub_operation \<Rightarrow> hub_state \<Rightarrow> hub_state" where
  "leave_discovery shared s =
     (case hs_pending s of
        None \<Rightarrow> s
      | Some p \<Rightarrow>
          if pd_operation p \<noteq> shared then s
          else if pd_waiters p - 1 = 0
          then abort_source (DiscoveryController (op_id shared)) (Some abort_error) (s\<lparr>hs_pending := None\<rparr>)
          else s\<lparr>hs_pending := Some (p\<lparr>pd_waiters := pd_waiters p - 1\<rparr>)\<rparr>)"

definition join_discovery :: "hub_operation \<Rightarrow> hub_state \<Rightarrow> hub_state" where
  "join_discovery shared s =
     (case hs_pending s of
        None \<Rightarrow> s
      | Some p \<Rightarrow> if pd_operation p = shared then s\<lparr>hs_pending := Some (p\<lparr>pd_waiters := Suc (pd_waiters p)\<rparr>)\<rparr> else s)"

text \<open>A waiter ends with the result of the read, or with the reason of its own signal as soon as that
  is aborted (which the answer then is).\<close>

definition waitForDiscovery :: "hub_operation \<Rightarrow> hub_operation \<Rightarrow> hub_response prog" where
  "waitForDiscovery shared op =
     bind (update (join_discovery shared)) (\<lambda>_.
     finally_update
       (bind (signal_check op) (\<lambda>_.
        bind (await_discovery shared op) (\<lambda>result.
        bind (assertOperation op) (\<lambda>_. ret result))))
       (leave_discovery shared))"

text \<open>The read is started by the first caller: its operation is put on \<open>hs_started\<close>, from where
  the world takes the tasks to run.\<close>

definition start_discovery :: "hub_operation prog" where
  "start_discovery =
     bind (check_state (\<lambda>s. Inr (length (hs_signals s)))) (\<lambda>n.
     bind (beginOperation (Some (DiscoveryController n))) (\<lambda>shared.
     bind (update (\<lambda>s. s\<lparr>hs_pending := Some \<lparr>pd_operation = shared, pd_waiters = 0\<rparr>,
         hs_started := hs_started s @ [shared]\<rparr>)) (\<lambda>_.
       ret shared)))"

definition discover :: "hub_operation \<Rightarrow> hub_response prog" where
  "discover op =
     bind (assertOperation op) (\<lambda>_.
     bind (check_state (\<lambda>s. Inr (hs_pending s))) (\<lambda>pending.
     bind (case pending of Some p \<Rightarrow> ret (pd_operation p) | None \<Rightarrow> start_discovery) (\<lambda>shared.
       waitForDiscovery shared op)))"

definition ensureDiscovery :: "hub_operation \<Rightarrow> json prog" where
  "ensureDiscovery op =
     bind (assertOperation op) (\<lambda>_.
     bind (check_state (\<lambda>s. Inr (hs_discovery s))) (\<lambda>discovery.
     case discovery of
       Some d \<Rightarrow> ret d
     | None \<Rightarrow> bind (discover op) (\<lambda>result. ret (hr_value result))))"

definition hubRequireCapability :: "string \<Rightarrow> hub_operation \<Rightarrow> unit prog" where
  "hubRequireCapability capability op =
     bind (assertOperation op) (\<lambda>_.
     bind (ensureDiscovery op) (\<lambda>discovery.
     bind (assertOperation op) (\<lambda>_.
     bind (settle (typed (items_at discovery ''capabilities''))) (\<lambda>capabilities.
       settle (require (JStr (js capability) \<in> set capabilities)
         (UnsupportedHubMethodError (js capability)))))))"

section \<open>Methods\<close>

definition health :: "hub_config \<Rightarrow> signal_source option \<Rightarrow> hub_response prog" where
  "health cfg source =
     bind (beginOperation source) (\<lambda>op.
       hub_read cfg None (js ''/healthz'') ''HubHealth'' op [200])"

definition readiness :: "hub_config \<Rightarrow> signal_source option \<Rightarrow> hub_response prog" where
  "readiness cfg source =
     bind (beginOperation source) (\<lambda>op.
       hub_read cfg None (js ''/readyz'') ''HubReadiness'' op [200, 503])"

definition discover_method :: "signal_source option \<Rightarrow> hub_response prog" where
  "discover_method source = bind (beginOperation source) discover"

record hub_invitation =
  iv_pairingId :: jsstr
  iv_secret :: jsstr
  iv_expiresAtMs :: jsnum
  iv_endpoint :: jsstr
  iv_tlsPin :: jsstr
  iv_pairingUri :: jsstr

definition invitation_value :: "hub_invitation \<Rightarrow> json" where
  "invitation_value i =
     JObj [(js ''pairingId'', JStr (iv_pairingId i)), (js ''secret'', JStr (iv_secret i)),
       (js ''expiresAtMs'', JNum (iv_expiresAtMs i)), (js ''endpoint'', JStr (iv_endpoint i)),
       (js ''tlsPin'', JStr (iv_tlsPin i)), (js ''pairingUri'', JStr (iv_pairingUri i))]"

text \<open>\<^verbatim>\<open>url.searchParams\<close>.\<close>

definition url_params :: "url \<Rightarrow> (jsstr \<times> jsstr) list" where
  "url_params url = search_parse (if starts_with (u_search url) [uQMARK] then drop 1 (u_search url) else u_search url)"

definition invitation_params :: "hub_invitation \<Rightarrow> (jsstr \<times> jsstr) list" where
  "invitation_params i =
     [(js ''endpoint'', iv_endpoint i), (js ''pairing_id'', iv_pairingId i), (js ''secret'', iv_secret i),
      (js ''tls_pin'', iv_tlsPin i)]"

definition validateInvitation :: "hub_config \<Rightarrow> hub_invitation \<Rightarrow> hub_state \<Rightarrow> unit result" where
  "validateInvitation cfg i s =
     rbind (require (cf_validators cfg ''HubInvitation'' (invitation_value i, None))
       (ProtocolValidationError ''HubInvitation'')) (\<lambda>_.
     rbind (require (num_is_safe_integer (iv_expiresAtMs i) \<and> \<not> expired_at (iv_expiresAtMs i) s)
       (ProtocolValidationError ''HubInvitation.expiry'')) (\<lambda>_.
     rbind (parseEndpoint (cf_parser cfg) (UrlString (iv_endpoint i))) (\<lambda>invitationEndpoint.
     rbind (require (u_origin invitationEndpoint = u_origin (cf_endpoint cfg))
       (ProtocolValidationError ''HubInvitation.endpoint'')) (\<lambda>_.
       case cf_parser cfg (iv_pairingUri i) None of
         None \<Rightarrow> Inl (ProtocolValidationError ''HubInvitation.pairingUri'')
       | Some pairingUri \<Rightarrow>
           require (u_protocol pairingUri = js ''teslatlas-hub:'' \<and> u_hostname pairingUri = js ''pair''
               \<and> length (url_params pairingUri) = length (invitation_params i)
               \<and> list_all (\<lambda>(key, v). map_of (url_params pairingUri) key = Some v) (invitation_params i))
             (ProtocolValidationError ''HubInvitation.pairingUri'')))))"

definition requireUnexpiredClaim :: "hub_credential \<Rightarrow> hub_state \<Rightarrow> unit result" where
  "requireUnexpiredClaim claim s =
     require (num_is_safe_integer (hc_expiresAtMs claim) \<and> \<not> expired_at (hc_expiresAtMs claim) s)
       (ProtocolValidationError ''HubClaim.expiry'')"

text \<open>\<^verbatim>\<open>asCredential\<close> of a decoded claim, whose members the validator has typed.\<close>

definition asCredential :: "json \<Rightarrow> hub_credential option" where
  "asCredential claim =
     (case (str_at claim ''accessToken'', str_at claim ''deviceId'', num_at claim ''expiresAtMs'') of
        (Some t, Some d, Some x) \<Rightarrow> Some \<lparr>hc_accessToken = t, hc_deviceId = d, hc_expiresAtMs = x\<rparr>
      | _ \<Rightarrow> None)"

definition decodeClaimResponse :: "hub_config \<Rightarrow> response \<Rightarrow> hub_operation \<Rightarrow> bool \<Rightarrow> hub_response prog" where
  "decodeClaimResponse cfg response op claiming =
     owning response
       (bind (assertOperation op) (\<lambda>_.
        if r_status response \<noteq> 200
        then if claiming \<and> isClaimExtractorStatus (r_status response)
             then throwClaimExtractorError response op
             else throwHubError cfg response OtherRoute op
        else
          bind (decodeResponse cfg response ''HubClaim'') (\<lambda>v.
          bind (assertOperation op) (\<lambda>_.
          bind (settle (responseMetadata response False)) (\<lambda>metadata.
            ret \<lparr>hr_value = v, hr_metadata = metadata\<rparr>)))))"

definition writeClaim ::
    "hub_config \<Rightarrow> jsstr option prog \<Rightarrow> jsstr \<Rightarrow> jsstr option \<Rightarrow> hub_operation \<Rightarrow> bool \<Rightarrow> hub_response prog" where
  "writeClaim cfg authorize path body op claiming =
     bind (assertOperation op) (\<lambda>_.
     bind (hub_request cfg op (Some authorize) ''POST'' path
         (case body of None \<Rightarrow> Inr [] | Some _ \<Rightarrow> header_set (js ''Content-Type'') (js ''application/json'') []) body)
       (\<lambda>response. decodeClaimResponse cfg response op claiming))"

definition maximumClaimRequestBytes :: nat where
  "maximumClaimRequestBytes = 4096"

text \<open>The \<^verbatim>\<open>catch\<close> around the caller's transport.\<close>

definition claim_error :: "hub_operation \<Rightarrow> exn \<Rightarrow> hub_state \<Rightarrow> exn" where
  "claim_error op e s =
     (if is_teslatlas_error e then e
      else if is_aborted (op_signal op s) then reason_or e (op_signal op s)
      else if isAbortError e then e
      else TransportError)"

definition claim_url :: "hub_config \<Rightarrow> hub_invitation \<Rightarrow> url result" where
  "claim_url cfg i =
     rbind (encodeURIComponent (iv_pairingId i)) (\<lambda>pairing.
     typed (cf_parser cfg (js ''/v1/pairings/'' @ pairing @ js ''/claim'') (Some (cf_endpoint cfg))))"

definition store_claim :: "hub_operation \<Rightarrow> hub_response \<Rightarrow> hub_credential \<Rightarrow> hub_response prog" where
  "store_claim op result credential =
     bind (saveCredential credential op) (\<lambda>_.
     bind (assertOperation op) (\<lambda>_. ret result))"

definition claimPairing ::
    "hub_config \<Rightarrow> hub_invitation \<Rightarrow> jsstr \<Rightarrow> signal_source option \<Rightarrow> hub_response prog" where
  "claimPairing cfg invitation deviceName source =
     bind (beginOperation source) (\<lambda>op.
     bind (check_state (validateInvitation cfg invitation)) (\<lambda>_.
     bind (settle (require (\<not> (length deviceName = 0 \<or> 65536 < length deviceName))
       (ProtocolValidationError ''HubClaimRequest.deviceName''))) (\<lambda>_.
     let body = json_print (cf_number cfg)
           (JObj [(js ''secret'', JStr (iv_secret invitation)), (js ''device_name'', JStr deviceName)])
     in
     bind (settle (require (utf8_length body \<le> maximumClaimRequestBytes)
       (ProtocolValidationError ''HubClaimRequest.size''))) (\<lambda>_.
     bind (settle (require (cf_hasClaimTransport cfg) HubTlsPinUnavailableError)) (\<lambda>_.
     bind (ensureDiscovery op) (\<lambda>_.
     bind (assertOperation op) (\<lambda>_.
     bind (handle
         (bind (settle (claim_url cfg invitation)) (\<lambda>url.
           await_response (ClaimCall url body (iv_tlsPin invitation))))
         (\<lambda>e. bind (check_state (\<lambda>s. Inr (claim_error op e s))) throw)) (\<lambda>response.
     bind (decodeClaimResponse cfg response op True) (\<lambda>result.
     bind (assertOperation op) (\<lambda>_.
     bind (settle (typed (asCredential (hr_value result)))) (\<lambda>credential.
     bind (check_state (requireUnexpiredClaim credential)) (\<lambda>_.
       store_claim op result credential))))))))))))"

definition rotateDevice :: "hub_config \<Rightarrow> signal_source option \<Rightarrow> hub_response prog" where
  "rotateDevice cfg source =
     bind (beginOperation source) (\<lambda>op.
     bind (ensureDiscovery op) (\<lambda>_.
     bind (loadCredential op) (\<lambda>loaded.
     bind (assertOperation op) (\<lambda>_.
     case loaded of
       None \<Rightarrow> throw (HubHttpError 401 None None)
     | Some previous \<Rightarrow>
         bind (check_state (validateCredential previous)) (\<lambda>_.
         bind (writeClaim cfg (authenticate op (Some previous)) (js ''/v1/device/rotate'') None op False) (\<lambda>result.
         bind (assertOperation op) (\<lambda>_.
         bind (settle (typed (asCredential (hr_value result)))) (\<lambda>credential.
         bind (check_state (requireUnexpiredClaim credential)) (\<lambda>_.
         bind (settle (require (hc_deviceId credential = hc_deviceId previous)
           (ProtocolValidationError ''HubClaim.deviceId''))) (\<lambda>_.
           store_claim op result credential)))))))))) "

definition vehicles :: "hub_config \<Rightarrow> signal_source option \<Rightarrow> hub_response prog" where
  "vehicles cfg source =
     bind (beginOperation source) (\<lambda>op.
     bind (hubRequireCapability ''query.vehicles'' op) (\<lambda>_.
       hub_read cfg (Some (authenticate op None)) (js ''/v1/vehicles'') ''HubVehicles'' op [200]))"

definition current :: "hub_config \<Rightarrow> jsstr \<Rightarrow> signal_source option \<Rightarrow> hub_response prog" where
  "current cfg vehicleId source =
     bind (settle (validateUuid vehicleId ''vehicleId'')) (\<lambda>_.
     bind (beginOperation source) (\<lambda>op.
     bind (hubRequireCapability ''query.current'' op) (\<lambda>_.
     bind (settle (encodeURIComponent vehicleId)) (\<lambda>segment.
     bind (hub_read cfg (Some (authenticate op None)) (js ''/v1/vehicles/'' @ segment @ js ''/current'')
         ''HubCurrent'' op [200]) (\<lambda>result.
     bind (settle (require (member_of (hr_value result) (js ''vehicleId'') = Some (JStr vehicleId))
         VehicleIdentityMismatchError)) (\<lambda>_.
       ret result))))))"

end
