(* ===== verification/HubOperations.thy ===== *)
theory HubOperations
  imports HubClient
begin

text \<open>
  The drives of \<^verbatim>\<open>hub/client.ts\<close>, \<^verbatim>\<open>logout\<close> and
  \<^verbatim>\<open>dispose\<close>, and the world a client lives in: the processes its methods have started and the
  events that move them on.
\<close>

section \<open>Drives\<close>

record hub_drives_options =
  dr_fromMs :: "jsnum option"
  dr_toMs :: "jsnum option"
  dr_limit :: "jsnum option"
  dr_cursor :: "jsstr option"
  dr_ifNoneMatch :: "jsstr option"
  dr_signal :: "signal_source option"

datatype hub_drives_result = DrivesPage json hub_metadata | DrivesNotModified hub_metadata

definition or_number :: "jsnum option \<Rightarrow> int \<Rightarrow> jsnum" where
  "or_number v fallback = (case v of None \<Rightarrow> num_of_int fallback | Some x \<Rightarrow> x)"

definition cursorBinding :: "hub_config \<Rightarrow> jsstr \<Rightarrow> jsnum option \<Rightarrow> jsnum option \<Rightarrow> jsstr" where
  "cursorBinding cfg vehicleId fromMs toMs =
     vehicleId @ [uNUL] @ cf_number cfg (or_number fromMs 0) @ [uNUL]
     @ cf_number cfg (or_number toMs 9007199254740991)"

definition appendInteger ::
    "hub_config \<Rightarrow> string \<Rightarrow> jsnum option \<Rightarrow> (jsstr \<times> jsstr) list \<Rightarrow> (jsstr \<times> jsstr) list result" where
  "appendInteger cfg name v query =
     (case v of
        None \<Rightarrow> Inr query
      | Some x \<Rightarrow>
          if \<not> num_is_safe_integer x then Inl (ProtocolValidationError (''HubDrives.'' @ name))
          else Inr (query @ [(js name, cf_number cfg x)]))"

definition drives_query :: "hub_config \<Rightarrow> hub_drives_options \<Rightarrow> (jsstr \<times> jsstr) list result" where
  "drives_query cfg options =
     rbind (appendInteger cfg ''from_ms'' (dr_fromMs options) []) (\<lambda>q1.
     rbind (appendInteger cfg ''to_ms'' (dr_toMs options) q1) (\<lambda>q2.
     rbind (appendInteger cfg ''limit'' (dr_limit options) q2) (\<lambda>q3.
       Inr (case dr_cursor options of None \<Rightarrow> q3 | Some c \<Rightarrow> q3 @ [(js ''cursor'', c)]))))"

definition drives_path :: "jsstr \<Rightarrow> (jsstr \<times> jsstr) list \<Rightarrow> jsstr" where
  "drives_path segment query =
     js ''/v1/vehicles/'' @ segment @ js ''/drives'' @ (if query = [] then [] else uQMARK # search_params query)"

text \<open>The members of a page that the code reads.\<close>

record hub_drive =
  hd_vehicleId :: jsstr
  hd_startDateMs :: jsnum
  hd_id :: jsnum

definition drive_of :: "json \<Rightarrow> hub_drive option" where
  "drive_of v =
     (case (str_at v ''vehicleId'', num_at v ''startDateMs'', num_at v ''id'') of
        (Some i, Some x, Some n) \<Rightarrow> Some \<lparr>hd_vehicleId = i, hd_startDateMs = x, hd_id = n\<rparr>
      | _ \<Rightarrow> None)"

definition page_items :: "json \<Rightarrow> hub_drive list option" where
  "page_items v = (case items_at v ''items'' of None \<Rightarrow> None | Some is \<Rightarrow> those (map drive_of is))"

definition page_cursor :: "json \<Rightarrow> jsstr option option" where
  "page_cursor v =
     (case member_of v (js ''nextCursor'') of
        Some JNull \<Rightarrow> Some None | Some (JStr c) \<Rightarrow> Some (Some c) | _ \<Rightarrow> None)"

definition num_geq :: "jsnum \<Rightarrow> jsnum \<Rightarrow> bool" where
  "num_geq a b \<longleftrightarrow> a \<noteq> NaN \<and> b \<noteq> NaN \<and> \<not> num_less a b"

definition out_of_order :: "hub_drive \<Rightarrow> hub_drive \<Rightarrow> bool" where
  "out_of_order earlier drive \<longleftrightarrow>
     num_less (hd_startDateMs earlier) (hd_startDateMs drive)
     \<or> (hd_startDateMs earlier = hd_startDateMs drive \<and> num_geq (hd_id drive) (hd_id earlier))"

fun some_out_of_order :: "hub_drive list \<Rightarrow> bool" where
  "some_out_of_order (earlier # drive # rest) = (out_of_order earlier drive \<or> some_out_of_order (drive # rest))"
| "some_out_of_order _ = False"

definition check_page :: "jsstr \<Rightarrow> hub_drives_options \<Rightarrow> hub_drive list \<Rightarrow> unit result" where
  "check_page vehicleId options items =
     rbind (require (\<not> list_ex (\<lambda>drive. hd_vehicleId drive \<noteq> vehicleId) items) VehicleIdentityMismatchError) (\<lambda>_.
     rbind (require (\<not> num_less (or_number (dr_limit options) 100) (num_of_int (int (length items))))
       (ProtocolValidationError ''HubDrives.limit'')) (\<lambda>_.
     rbind (require (\<not> list_ex (\<lambda>drive.
           num_less (hd_startDateMs drive) (or_number (dr_fromMs options) 0)
           \<or> num_geq (hd_startDateMs drive) (or_number (dr_toMs options) (int max_safe_integer))) items)
       (ProtocolValidationError ''HubDrives.timeRange'')) (\<lambda>_.
       require (\<not> some_out_of_order items) (ProtocolValidationError ''HubDrives.order''))))"

definition decode_drives ::
    "hub_config \<Rightarrow> jsstr \<Rightarrow> hub_drives_options \<Rightarrow> hub_operation \<Rightarrow> jsstr \<Rightarrow> response \<Rightarrow> hub_drives_result prog" where
  "decode_drives cfg vehicleId options op binding response =
     owning response
       (bind (assertOperation op) (\<lambda>_.
        if r_status response \<noteq> 200 \<and> r_status response \<noteq> 304
        then throwHubError cfg response DrivesRoute op
        else
          bind (settle (requireNoStore response)) (\<lambda>_.
          bind (settle (responseMetadata response True)) (\<lambda>metadata.
          if r_status response = 304
          then
            bind (settle (require (dr_ifNoneMatch options \<noteq> None \<and> hm_etag metadata = dr_ifNoneMatch options)
              (ProtocolValidationError ''HubDrives.304.condition''))) (\<lambda>_.
            bind (await_unit (EmptyBody response ''HubDrives.304'')) (\<lambda>_.
            bind (assertOperation op) (\<lambda>_. ret (DrivesNotModified metadata))))
          else
            bind (decodeResponse cfg response ''HubDrives'') (\<lambda>v.
            bind (assertOperation op) (\<lambda>_.
            bind (settle (typed (page_items v))) (\<lambda>items.
            bind (settle (check_page vehicleId options items)) (\<lambda>_.
            bind (settle (typed (page_cursor v))) (\<lambda>nextCursor.
            bind (update (\<lambda>s. case nextCursor of None \<Rightarrow> s
                | Some c \<Rightarrow> s\<lparr>hs_bindings := set_member c binding (hs_bindings s)\<rparr>)) (\<lambda>_.
              ret (DrivesPage v metadata)))))))))))"

definition drives :: "hub_config \<Rightarrow> jsstr \<Rightarrow> hub_drives_options \<Rightarrow> hub_drives_result prog" where
  "drives cfg vehicleId options =
     bind (settle (validateUuid vehicleId ''vehicleId'')) (\<lambda>_.
     bind (settle (optional (\<lambda>e. asHubEntityTag e True) (dr_ifNoneMatch options))) (\<lambda>_.
     bind (beginOperation (dr_signal options)) (\<lambda>op.
     bind (hubRequireCapability ''query.drives'' op) (\<lambda>_.
     bind (assertOperation op) (\<lambda>_.
     let binding = cursorBinding cfg vehicleId (dr_fromMs options) (dr_toMs options) in
     bind (check_state (\<lambda>s.
         require (case dr_cursor options of None \<Rightarrow> True
           | Some c \<Rightarrow> map_of (hs_bindings s) c \<in> {None, Some binding})
         (ProtocolValidationError ''HubDrives.cursorBinding''))) (\<lambda>_.
     bind (settle (drives_query cfg options)) (\<lambda>query.
     bind (settle (encodeURIComponent vehicleId)) (\<lambda>segment.
     bind (hub_request cfg op (Some (authenticate op None)) ''GET'' (drives_path segment query)
         (case dr_ifNoneMatch options of None \<Rightarrow> Inr [] | Some e \<Rightarrow> header_set (js ''If-None-Match'') e []) None)
       (\<lambda>response. decode_drives cfg vehicleId options op binding response)))))))))"

section \<open>The end of a session\<close>

definition end_session :: "hub_state \<Rightarrow> hub_state" where
  "end_session s = (abort_session s)
     \<lparr>hs_generation := Suc (hs_generation s), hs_bindings := [], hs_discovery := None, hs_pending := None\<rparr>"

definition logout :: "unit prog" where
  "logout =
     bind (check_state requireActive) (\<lambda>_.
     bind (update end_session) (\<lambda>_.
       enqueueCredentialMutation (await_unit ClearCredentials)))"

definition dispose :: "unit prog" where
  "dispose = update (\<lambda>s. if hs_disposed s then s else (end_session s)\<lparr>hs_disposed := True\<rparr>)"

section \<open>The world\<close>

datatype hub_call =
    DiscoverCall "signal_source option"
  | HealthCall "signal_source option"
  | ReadinessCall "signal_source option"
  | ClaimPairingCall hub_invitation jsstr "signal_source option"
  | RotateDeviceCall "signal_source option"
  | VehiclesCall "signal_source option"
  | CurrentCall jsstr "signal_source option"
  | DrivesCall jsstr hub_drives_options
  | LogoutCall
  | DisposeCall

datatype hub_value = ResponseValue hub_response | DrivesValue hub_drives_result | NoValue

fun perform :: "hub_config \<Rightarrow> hub_call \<Rightarrow> hub_value prog" where
  "perform cfg (DiscoverCall source) = bind (discover_method source) (\<lambda>x. ret (ResponseValue x))"
| "perform cfg (HealthCall source) = bind (health cfg source) (\<lambda>x. ret (ResponseValue x))"
| "perform cfg (ReadinessCall source) = bind (readiness cfg source) (\<lambda>x. ret (ResponseValue x))"
| "perform cfg (ClaimPairingCall i name source) = bind (claimPairing cfg i name source) (\<lambda>x. ret (ResponseValue x))"
| "perform cfg (RotateDeviceCall source) = bind (rotateDevice cfg source) (\<lambda>x. ret (ResponseValue x))"
| "perform cfg (VehiclesCall source) = bind (vehicles cfg source) (\<lambda>x. ret (ResponseValue x))"
| "perform cfg (CurrentCall vehicleId source) = bind (current cfg vehicleId source) (\<lambda>x. ret (ResponseValue x))"
| "perform cfg (DrivesCall vehicleId options) = bind (drives cfg vehicleId options) (\<lambda>x. ret (DrivesValue x))"
| "perform cfg LogoutCall = bind logout (\<lambda>_. ret NoValue)"
| "perform cfg DisposeCall = bind dispose (\<lambda>_. ret NoValue)"

text \<open>A process is a call of the user or a shared read, with the generation it belongs to.\<close>

datatype process_kind = UserCall hub_call | SharedRead hub_operation

record hub_process =
  pr_kind :: process_kind
  pr_generation :: nat
  pr_task :: "hub_value task"

record hub_world =
  w_state :: hub_state
  w_processes :: "hub_process list"

fun process_prog :: "hub_config \<Rightarrow> process_kind \<Rightarrow> hub_value prog" where
  "process_prog cfg (UserCall c) = perform cfg c"
| "process_prog cfg (SharedRead op) = bind (shared_discovery cfg op) (\<lambda>x. ret (ResponseValue x))"

fun start_generation :: "process_kind \<Rightarrow> hub_state \<Rightarrow> nat" where
  "start_generation (UserCall c) s = hs_generation s"
| "start_generation (SharedRead op) s = op_generation op"

definition start_process :: "hub_config \<Rightarrow> process_kind \<Rightarrow> hub_world \<Rightarrow> hub_world" where
  "start_process cfg kind w =
     (let (t, s) = process_prog cfg kind (w_state w)
      in w\<lparr>w_state := s, w_processes := w_processes w @
        [\<lparr>pr_kind = kind, pr_generation = start_generation kind (w_state w), pr_task = t\<rparr>]\<rparr>)"

definition start_shared :: "hub_config \<Rightarrow> hub_world \<Rightarrow> hub_world" where
  "start_shared cfg w =
     foldl (\<lambda>w op. start_process cfg (SharedRead op) w) (w\<lparr>w_state := (w_state w)\<lparr>hs_started := []\<rparr>\<rparr>)
       (hs_started (w_state w))"

text \<open>The answers the surroundings give. A text or an empty body is read under a signal they choose; a
  turn comes when the mutation is the first of the chain; a discovery is answered by its read, or by
  the abort of the waiting operation.\<close>

datatype hub_answer =
    UnitAnswer "unit result"
  | CredentialAnswer "hub_credential option result"
  | ResponseAnswer "response result"
  | BodyAnswer signal_oracle
  | SharedAnswer
  | AbortedAnswer

definition shared_result :: "hub_world \<Rightarrow> hub_operation \<Rightarrow> hub_response result option" where
  "shared_result w shared =
     (case find (\<lambda>p. pr_kind p = SharedRead shared) (w_processes w) of
        Some p \<Rightarrow>
          (case pr_task p of
             Settled (Inl e) \<Rightarrow> Some (Inl e)
           | Settled (Inr (ResponseValue x)) \<Rightarrow> Some (Inr x)
           | _ \<Rightarrow> None)
      | None \<Rightarrow> None)"

fun unit_answer :: "unit_wait \<Rightarrow> hub_answer \<Rightarrow> hub_state \<Rightarrow> unit result option" where
  "unit_answer (MutationTurn ticket) (UnitAnswer r) s =
     (case hs_mutations s of t # _ \<Rightarrow> if t = ticket then Some r else None | [] \<Rightarrow> None)"
| "unit_answer (EmptyBody response name) (BodyAnswer sig) s =
     (case requireEmptyResponseBody sig name response of ReadSettled r _ \<Rightarrow> Some r | ReadPending \<Rightarrow> None)"
| "unit_answer (SaveCredential c) (UnitAnswer r) s = Some r"
| "unit_answer ClearCredentials (UnitAnswer r) s = Some r"
| "unit_answer _ _ _ = None"

definition resume :: "hub_world \<Rightarrow> hub_answer \<Rightarrow> hub_value task \<Rightarrow> (hub_value task \<times> hub_state) option" where
  "resume w answer t =
     (let s = w_state w in
      case t of
        Settled r \<Rightarrow> None
      | AwaitUnit wait k \<Rightarrow> map_option (\<lambda>a. k a s) (unit_answer wait answer s)
      | AwaitCredential k \<Rightarrow> (case answer of CredentialAnswer a \<Rightarrow> Some (k a s) | _ \<Rightarrow> None)
      | AwaitResponse wait k \<Rightarrow> (case answer of ResponseAnswer a \<Rightarrow> Some (k a s) | _ \<Rightarrow> None)
      | AwaitText response name k \<Rightarrow>
          (case answer of
             BodyAnswer sig \<Rightarrow>
               (case body_outcome sig response name of ReadSettled r _ \<Rightarrow> Some (k r s) | ReadPending \<Rightarrow> None)
           | _ \<Rightarrow> None)
      | AwaitDiscovery shared op k \<Rightarrow>
          (case answer of
             SharedAnswer \<Rightarrow> map_option (\<lambda>a. k a s) (shared_result w shared)
           | AbortedAnswer \<Rightarrow>
               (if is_aborted (op_signal op s) then Some (k (Inl (abort_reason (op_signal op s))) s) else None)
           | _ \<Rightarrow> None))"

datatype hub_event =
    CallEvent hub_call
  | AnswerEvent nat hub_answer
  | AbortCaller nat "exn option"
  | AbortOwner "exn option"
  | Clock int

fun hub_step :: "hub_config \<Rightarrow> hub_event \<Rightarrow> hub_world \<Rightarrow> hub_world option" where
  "hub_step cfg (CallEvent c) w = Some (start_shared cfg (start_process cfg (UserCall c) w))"
| "hub_step cfg (AnswerEvent i answer) w =
     (if i < length (w_processes w)
      then map_option (\<lambda>(t, s). start_shared cfg
          (w\<lparr>w_state := s, w_processes := (w_processes w)[i := (w_processes w ! i)\<lparr>pr_task := t\<rparr>]\<rparr>))
        (resume w answer (pr_task (w_processes w ! i)))
      else None)"
| "hub_step cfg (AbortCaller n reason) w = Some (w\<lparr>w_state := abort_source (CallerSignal n) reason (w_state w)\<rparr>)"
| "hub_step cfg (AbortOwner reason) w = Some (w\<lparr>w_state := abort_owner reason (w_state w)\<rparr>)"
| "hub_step cfg (Clock now) w = Some (w\<lparr>w_state := (w_state w)\<lparr>hs_now := now\<rparr>\<rparr>)"

definition initial_world :: "signal_state \<Rightarrow> int \<Rightarrow> hub_world" where
  "initial_world owner now = \<lparr>w_state = initial_hub_state owner now, w_processes = []\<rparr>"

inductive hub_reachable :: "hub_config \<Rightarrow> hub_world \<Rightarrow> bool" for cfg where
  hub_start: "hub_reachable cfg (initial_world owner now)"
| hub_next: "hub_reachable cfg w \<Longrightarrow> hub_step cfg ev w = Some w' \<Longrightarrow> hub_reachable cfg w'"

end
