(* ===== verification/HubInvariants.thy ===== *)
theory HubInvariants
  imports HubOperations
begin

text \<open>
  Invariants of the state of a Hub client. The locale \<open>hub_invariant\<close> is the contract between such
  an invariant and the methods: it survives what they do to the fields of the state. Its conclusion is
  that every method, and every shared read, keeps it across any interleaving. \<open>hub_world\<close> lifts what
  holds of the processes to the reachable worlds.
\<close>

definition ends_session :: "hub_call \<Rightarrow> bool" where
  "ends_session c \<longleftrightarrow> c = LogoutCall \<or> c = DisposeCall"

section \<open>Keeping an invariant\<close>

definition preserves :: "(hub_state \<Rightarrow> bool) \<Rightarrow> 'a prog \<Rightarrow> bool" where
  "preserves I m \<longleftrightarrow> runs I (\<lambda>_. True) m (\<lambda>_ _. True) (\<lambda>_ _. True) (\<lambda>_ _. True)"

named_theorems preserve_rules

lemma preserves_settle [preserve_rules]: "preserves I (settle r)"
  unfolding preserves_def by (rule runs_settle) (simp split: sum.splits)

lemma preserves_check [preserve_rules]: "preserves I (check_state f)"
  unfolding preserves_def by (rule runs_check) (simp split: sum.splits)

lemma preserves_update [preserve_rules]: "(\<And>s. I s \<Longrightarrow> I (f s)) \<Longrightarrow> preserves I (update f)"
  unfolding preserves_def by (rule runs_update) simp

lemma preserves_bind [preserve_rules]:
  "preserves I m \<Longrightarrow> (\<And>x. preserves I (f x)) \<Longrightarrow> preserves I (bind m f)"
  unfolding preserves_def by (rule runs_bind)

lemma preserves_handle [preserve_rules]:
  "preserves I m \<Longrightarrow> (\<And>e. preserves I (h e)) \<Longrightarrow> preserves I (handle m h)"
  unfolding preserves_def by (rule runs_handle)

lemma preserves_finally [preserve_rules]:
  "preserves I m \<Longrightarrow> (\<And>s. I s \<Longrightarrow> I (f s)) \<Longrightarrow> preserves I (finally_update m f)"
  unfolding preserves_def by (rule runs_finally) auto

lemma preserves_awaits [preserve_rules]:
  "preserves I (await_unit w)" "preserves I await_credential" "preserves I (await_response w')"
  "preserves I (await_text response name)" "preserves I (await_discovery shared op)"
  unfolding preserves_def
  by (auto intro: runs_await_unit runs_await_credential runs_await_response runs_await_text runs_await_discovery)

lemma preserves_if [preserve_rules]:
  "preserves I x \<Longrightarrow> preserves I y \<Longrightarrow> preserves I (if t then x else y)"
  by simp

lemma preserves_option [preserve_rules]:
  "preserves I x \<Longrightarrow> (\<And>v. preserves I (f v)) \<Longrightarrow> preserves I (case o' of None \<Rightarrow> x | Some v \<Rightarrow> f v)"
  by (simp split: option.split)

lemma preserves_sum [preserve_rules]:
  "(\<And>e. preserves I (f e)) \<Longrightarrow> (\<And>v. preserves I (h v)) \<Longrightarrow> preserves I (case r of Inl e \<Rightarrow> f e | Inr v \<Rightarrow> h v)"
  by (simp split: sum.split)

lemma preserves_checks [preserve_rules]: "preserves I (assertOperation op)" "preserves I (signal_check op)"
  by (simp_all add: assertOperation_def signal_check_def preserves_check)

section \<open>The contract\<close>

locale hub_invariant =
  fixes cfg :: hub_config and I :: "hub_state \<Rightarrow> bool"
  assumes I_signals: "I s \<Longrightarrow> I (s\<lparr>hs_signals := x\<rparr>)"
    and I_aborted: "I s \<Longrightarrow> I (s\<lparr>hs_aborted := a\<rparr>)"
    and I_mutations: "I s \<Longrightarrow> I (s\<lparr>hs_mutations := m\<rparr>)"
    and I_tickets: "I s \<Longrightarrow> I (s\<lparr>hs_tickets := n\<rparr>)"
    and I_started: "I s \<Longrightarrow> I (s\<lparr>hs_started := os\<rparr>)"
    and I_cancelled: "I s \<Longrightarrow> I (s\<lparr>hs_cancelled := rs\<rparr>)"
    and I_pending: "I s \<Longrightarrow> I (s\<lparr>hs_pending := p\<rparr>)"
    and I_bindings: "I s \<Longrightarrow> I (s\<lparr>hs_bindings := b\<rparr>)"
    and I_lost: "I s \<Longrightarrow> I (s\<lparr>hs_discovery := None\<rparr>)"
    and I_found: "I s \<Longrightarrow> member_of v (js ''hubId'') = Some (JStr (cf_expectedHubId cfg)) \<Longrightarrow>
      I (s\<lparr>hs_discovery := Some v\<rparr>)"
begin

lemmas I_fields = I_signals I_aborted I_mutations I_tickets I_started I_cancelled I_pending I_bindings I_lost

lemma I_abort_source: "I s \<Longrightarrow> I (abort_source x r s)"
  using I_signals [OF I_aborted, of s] by (simp add: abort_source_def abort_signals_def)

lemma I_updates:
  "I s \<Longrightarrow> I (leave_queue t s)" "I s \<Longrightarrow> I (clear_pending op s)" "I s \<Longrightarrow> I (join_discovery op s)"
  "I s \<Longrightarrow> I (leave_discovery op s)"
  using I_abort_source [OF I_pending, of s] I_mutations I_pending
  by (auto simp: leave_queue_def clear_pending_def join_discovery_def leave_discovery_def split: option.split)

lemma keeps_begin [preserve_rules]: "preserves I (beginOperation source)"
  unfolding beginOperation_def by (rule preserve_rules I_fields | assumption)+

lemma keeps_operation_or [preserve_rules]: "preserves I (operation_or op e)"
  unfolding operation_or_def by (rule preserve_rules)+

lemma keeps_load [preserve_rules]: "preserves I (loadCredential op)"
  unfolding loadCredential_def by (rule preserve_rules)+

lemma keeps_enqueue [preserve_rules]: "preserves I m \<Longrightarrow> preserves I (enqueueCredentialMutation m)"
  unfolding enqueueCredentialMutation_def
  by (rule preserve_rules I_updates | assumption | simp add: I_fields)+

lemma keeps_save [preserve_rules]: "preserves I (saveCredential credential op)"
  unfolding saveCredential_def by (rule preserve_rules)+

lemma keeps_request [preserve_rules]:
  assumes "\<And>provider. authorize = Some provider \<Longrightarrow> preserves I provider"
  shows "preserves I (hub_request cfg op authorize verb path hs body)"
proof -
  have a: "preserves I (case authorize of None \<Rightarrow> ret None | Some provider \<Rightarrow> provider)"
    using assms by (auto split: option.split intro: preserves_settle)
  show ?thesis unfolding hub_request_def by (rule a preserve_rules)+
qed

lemma keeps_authenticate [preserve_rules]: "preserves I (authenticate op given)"
  unfolding authenticate_def by (rule preserve_rules)+

lemma keeps_owning [preserve_rules]: "preserves I m \<Longrightarrow> preserves I (owning response m)"
  unfolding owning_def by (rule preserve_rules | assumption | simp add: I_cancelled)+

lemma keeps_body [preserve_rules]: "preserves I (readBody response name)"
  unfolding readBody_def by (rule preserve_rules)

lemma keeps_decode [preserve_rules]: "preserves I (decodeResponse cfg response name)"
  unfolding decodeResponse_def by (rule preserve_rules)+

lemma keeps_hub_error [preserve_rules]: "preserves I (throwHubError cfg response route op)"
  unfolding throwHubError_def by (rule preserve_rules)+

lemma keeps_extractor_error [preserve_rules]: "preserves I (throwClaimExtractorError response op)"
  unfolding throwClaimExtractorError_def by (rule preserve_rules)+

lemma keeps_read [preserve_rules]:
  "(\<And>provider. authorize = Some provider \<Longrightarrow> preserves I provider) \<Longrightarrow>
     preserves I (hub_read cfg authorize path name op statuses)"
  unfolding hub_read_def by (rule preserve_rules | assumption)+

lemma keeps_claim_response [preserve_rules]: "preserves I (decodeClaimResponse cfg response op claiming)"
  unfolding decodeClaimResponse_def by (rule preserve_rules)+

lemma keeps_shared [preserve_rules]: "preserves I (shared_discovery cfg op)"
proof -
  let ?known = "\<lambda>r. member_of (hr_value r) (js ''hubId'') = Some (JStr (cf_expectedHubId cfg))"
  have found: "preserves I (bind (settle (require (?known r) HubIdentityMismatchError)) (\<lambda>_.
      bind (update (\<lambda>s. s\<lparr>hs_discovery := Some (hr_value r), hs_bindings := []\<rparr>)) (\<lambda>_. ret r)))" for r
  proof (cases "?known r")
    case True
    have "I (s\<lparr>hs_discovery := Some (hr_value r), hs_bindings := []\<rparr>)" if "I s" for s
      using I_bindings [OF I_found [OF that True]] by simp
    then show ?thesis by (intro preserve_rules)
  next
    case False
    then show ?thesis
      by (simp add: require_def bind_def follow_def settle_def preserves_def runs_def stays_def)
  qed
  have lost: "I s \<Longrightarrow> I (if b then s\<lparr>hs_discovery := None, hs_bindings := []\<rparr> else s)" for b s
    using I_bindings [OF I_lost] by simp
  show ?thesis
    unfolding shared_discovery_def
    by (rule found preserve_rules I_updates lost | assumption | simp)+
qed

lemma keeps_start [preserve_rules]: "preserves I start_discovery"
proof -
  have u: "I s \<Longrightarrow> I (s\<lparr>hs_pending := p, hs_started := os\<rparr>)" for s p os
    using I_started [OF I_pending] by simp
  show ?thesis unfolding start_discovery_def by (rule u preserve_rules | assumption)+
qed

lemma keeps_wait [preserve_rules]: "preserves I (waitForDiscovery shared op)"
  unfolding waitForDiscovery_def by (rule preserve_rules I_updates | assumption)+

lemma keeps_discover [preserve_rules]: "preserves I (discover op)"
  unfolding discover_def by (rule preserve_rules)+

lemma keeps_ensure [preserve_rules]: "preserves I (ensureDiscovery op)"
  unfolding ensureDiscovery_def by (rule preserve_rules)+

lemma keeps_capability [preserve_rules]: "preserves I (hubRequireCapability capability op)"
  unfolding hubRequireCapability_def by (rule preserve_rules)+

lemma keeps_write_claim [preserve_rules]:
  "preserves I (writeClaim cfg (authenticate op given) path body op claiming)"
  unfolding writeClaim_def
  by (intro preserves_bind preserves_checks keeps_request keeps_claim_response) (auto intro: keeps_authenticate)

lemma keeps_store [preserve_rules]: "preserves I (store_claim op result credential)"
  unfolding store_claim_def by (rule preserve_rules)+

lemma keeps_decode_drives [preserve_rules]:
  "preserves I (decode_drives cfg vehicleId options op binding response)"
  unfolding decode_drives_def
  by (rule preserve_rules | simp add: I_bindings split: option.split)+

lemma keeps_any_read [preserve_rules]:
  "preserves I (hub_read cfg None path name op statuses)"
  "preserves I (hub_read cfg (Some (authenticate op' given)) path name op statuses)"
  by (rule keeps_read; auto intro: keeps_authenticate)+

lemma keeps_any_request [preserve_rules]:
  "preserves I (hub_request cfg op (Some (authenticate op' given)) verb path hs body)"
  by (rule keeps_request) (auto intro: keeps_authenticate)

lemma keeps_methods:
  "preserves I (health cfg source)" "preserves I (readiness cfg source)" "preserves I (discover_method source)"
  "preserves I (claimPairing cfg invitation deviceName source)" "preserves I (rotateDevice cfg source)"
  "preserves I (vehicles cfg source)" "preserves I (current cfg vehicleId source)"
  "preserves I (drives cfg vehicleId options)"
  unfolding health_def readiness_def discover_method_def claimPairing_def rotateDevice_def vehicles_def
    current_def drives_def Let_def
  by (rule preserve_rules)+

lemma keeps_call: "\<not> ends_session c \<Longrightarrow> preserves I (perform cfg c)"
  by (cases c) (simp_all add: ends_session_def preserves_bind preserves_settle keeps_methods)

lemma keeps_shared_process: "preserves I (process_prog cfg (SharedRead op))"
  by (simp add: preserves_bind preserves_settle keeps_shared)

end

text \<open>An invariant that also survives the end of a session, what the surroundings do, and the start.\<close>

locale hub_client_invariant = hub_invariant +
  assumes I_generation: "I s \<Longrightarrow> I (s\<lparr>hs_generation := g\<rparr>)"
    and I_disposed: "I s \<Longrightarrow> I (s\<lparr>hs_disposed := True\<rparr>)"
    and I_owner: "I s \<Longrightarrow> I (s\<lparr>hs_owner := x\<rparr>)"
    and I_now: "I s \<Longrightarrow> I (s\<lparr>hs_now := now\<rparr>)"
begin

lemma I_end_session: "I s \<Longrightarrow> I (end_session s)"
proof -
  assume "I s"
  then have "I (abort_session s)" by (simp add: abort_session_def abort_signals_def I_signals)
  from I_pending [OF I_lost [OF I_bindings [OF I_generation [OF this]]]] show ?thesis by (simp add: end_session_def)
qed

lemma I_abort_owner: "I s \<Longrightarrow> I (abort_owner r s)"
  using I_signals [OF I_owner, of s] by (simp add: abort_owner_def abort_signals_def)

lemma keeps_ends: "preserves I logout" "preserves I dispose"
  unfolding logout_def dispose_def
  by (rule preserve_rules I_end_session | assumption | simp add: I_end_session I_disposed)+

lemma keeps_process: "preserves I (process_prog cfg kind)"
proof (cases kind)
  case (UserCall c)
  then show ?thesis
    by (cases "ends_session c")
      (auto simp: ends_session_def preserves_bind preserves_settle keeps_ends intro: keeps_call)
qed (simp only: keeps_shared_process)

end

section \<open>Worlds\<close>

text \<open>What every process of a reachable world has: it keeps the invariant and stops where \<open>G\<close> allows
  its kind and generation to stop.\<close>

definition process_ok ::
    "(hub_state \<Rightarrow> bool) \<Rightarrow> (process_kind \<Rightarrow> nat \<Rightarrow> hub_value task \<Rightarrow> hub_state \<Rightarrow> bool) \<Rightarrow> hub_process \<Rightarrow> bool" where
  "process_ok I G p \<longleftrightarrow>
     keeps I (G (pr_kind p) (pr_generation p)) (pr_task p)
     \<and> (\<exists>s. G (pr_kind p) (pr_generation p) (pr_task p) s)"

text \<open>The process has just stopped in a state of this generation, disposed or not.\<close>

definition stopped_here ::
    "(process_kind \<Rightarrow> nat \<Rightarrow> hub_value task \<Rightarrow> hub_state \<Rightarrow> bool) \<Rightarrow> hub_state \<Rightarrow> hub_process \<Rightarrow> bool" where
  "stopped_here G s p \<longleftrightarrow>
     (\<exists>t. G (pr_kind p) (pr_generation p) (pr_task p) t
        \<and> hs_generation t = hs_generation s \<and> hs_disposed t = hs_disposed s)"

interpretation same_session: hub_invariant cfg "\<lambda>s. hs_generation s = g \<and> hs_disposed s = d" for cfg g d
  by unfold_locales simp_all

lemma shared_same_session:
  "process_prog cfg (SharedRead op) s = (t, s') \<Longrightarrow> hs_generation s' = hs_generation s \<and> hs_disposed s' = hs_disposed s"
  using same_session.keeps_shared_process [where cfg = cfg and g = "hs_generation s" and d = "hs_disposed s" and op = op]
  by (fastforce simp: preserves_def runs_def stays_def simp del: process_prog.simps)

text \<open>A step adds processes, or moves one on.\<close>

fun moved :: "hub_event \<Rightarrow> nat \<Rightarrow> hub_world \<Rightarrow> bool" where
  "moved (AnswerEvent j answer) i w = (i = j \<or> length (w_processes w) \<le> i)"
| "moved _ i w = (length (w_processes w) \<le> i)"

locale hub_world_contract =
  fixes cfg :: hub_config and I :: "hub_state \<Rightarrow> bool"
    and G :: "process_kind \<Rightarrow> nat \<Rightarrow> hub_value task \<Rightarrow> hub_state \<Rightarrow> bool"
  assumes initial: "I (initial_hub_state owner now)"
    and started: "I s \<Longrightarrow> stays I (G kind (start_generation kind s)) (process_prog cfg kind s)"
    and surroundings: "I s \<Longrightarrow> I (abort_source x r s)" "I s \<Longrightarrow> I (abort_owner r s)"
      "I s \<Longrightarrow> I (s\<lparr>hs_now := now\<rparr>)" "I s \<Longrightarrow> I (s\<lparr>hs_started := []\<rparr>)"
begin

definition world_ok :: "hub_world \<Rightarrow> bool" where
  "world_ok w \<longleftrightarrow> I (w_state w) \<and> list_all (process_ok I G) (w_processes w)"

lemma start_ok:
  assumes "I (w_state w)"
  obtains p where "I (w_state (start_process cfg kind w))" "process_ok I G p"
    "stopped_here G (w_state (start_process cfg kind w)) p"
    "w_processes (start_process cfg kind w) = w_processes w @ [p]" "pr_kind p = kind"
proof -
  obtain t s where t: "process_prog cfg kind (w_state w) = (t, s)" by fastforce
  have "stays I (G kind (start_generation kind (w_state w))) (t, s)" using started [OF assms] t by metis
  then show thesis
    using that [of "\<lparr>pr_kind = kind, pr_generation = start_generation kind (w_state w), pr_task = t\<rparr>"] t
    by (auto simp: start_process_def stays_def process_ok_def stopped_here_def)
qed

definition added :: "hub_world \<Rightarrow> hub_world \<Rightarrow> hub_process list \<Rightarrow> bool" where
  "added w w' ps \<longleftrightarrow>
     w_processes w' = w_processes w @ ps
     \<and> list_all (\<lambda>p. process_ok I G p \<and> stopped_here G (w_state w') p) ps \<and> I (w_state w')
     \<and> hs_generation (w_state w') = hs_generation (w_state w) \<and> hs_disposed (w_state w') = hs_disposed (w_state w)"

lemma added_trans:
  assumes "added w1 w2 ps" and "added w2 w3 qs"
  shows "added w1 w3 (ps @ qs)"
  using assms by (auto simp: added_def stopped_here_def list_all_iff)

lemma added_shared: "I (w_state w) \<Longrightarrow> \<exists>p. added w (start_process cfg (SharedRead op) w) [p]"
proof -
  assume "I (w_state w)"
  let ?w = "start_process cfg (SharedRead op) w"
  obtain p where p: "I (w_state ?w)" "process_ok I G p" "stopped_here G (w_state ?w) p"
      "w_processes ?w = w_processes w @ [p]"
    using start_ok [OF \<open>I (w_state w)\<close>] by metis
  obtain t s where t: "process_prog cfg (SharedRead op) (w_state w) = (t, s)" by fastforce
  then have "w_state ?w = s" by (simp add: start_process_def del: process_prog.simps)
  with shared_same_session [OF t] p have "added w ?w [p]" by (simp add: added_def)
  then show ?thesis ..
qed

lemma start_all:
  "I (w_state w) \<Longrightarrow> \<exists>ps. added w (foldl (\<lambda>w op. start_process cfg (SharedRead op) w) w ops) ps"
proof (induction ops arbitrary: w)
  case Nil
  then have "added w w []" by (simp add: added_def)
  then show ?case by auto
next
  case (Cons op ops)
  let ?w = "start_process cfg (SharedRead op) w"
  obtain p where p: "added w ?w [p]" using added_shared [OF Cons(2)] ..
  then have "I (w_state ?w)" by (simp add: added_def)
  from Cons(1) [OF this] obtain ps where "added ?w (foldl (\<lambda>w op. start_process cfg (SharedRead op) w) ?w ops) ps" ..
  from added_trans [OF p this] show ?case by auto
qed

lemma shared_ok:
  assumes "world_ok w"
  shows "world_ok (start_shared cfg w)"
    and "hs_generation (w_state (start_shared cfg w)) = hs_generation (w_state w)"
    and "hs_disposed (w_state (start_shared cfg w)) = hs_disposed (w_state w)"
    and "i < length (w_processes w) \<Longrightarrow> w_processes (start_shared cfg w) ! i = w_processes w ! i"
    and "length (w_processes w) \<le> i \<Longrightarrow> i < length (w_processes (start_shared cfg w)) \<Longrightarrow>
      stopped_here G (w_state (start_shared cfg w)) (w_processes (start_shared cfg w) ! i)"
proof -
  let ?w = "w\<lparr>w_state := (w_state w)\<lparr>hs_started := []\<rparr>\<rparr>"
  have "I (w_state ?w)" using assms surroundings(4) by (simp add: world_ok_def)
  then obtain ps where "added ?w (start_shared cfg w) ps"
    using start_all [of ?w "hs_started (w_state w)"] by (auto simp: start_shared_def)
  then have ps: "w_processes (start_shared cfg w) = w_processes ?w @ ps"
      "list_all (\<lambda>p. process_ok I G p \<and> stopped_here G (w_state (start_shared cfg w)) p) ps"
      "I (w_state (start_shared cfg w))"
      "hs_generation (w_state (start_shared cfg w)) = hs_generation (w_state ?w)"
      "hs_disposed (w_state (start_shared cfg w)) = hs_disposed (w_state ?w)"
    by (simp_all add: added_def)
  show "world_ok (start_shared cfg w)"
    using assms ps by (auto simp: world_ok_def list_all_iff)
  show "hs_generation (w_state (start_shared cfg w)) = hs_generation (w_state w)"
    "hs_disposed (w_state (start_shared cfg w)) = hs_disposed (w_state w)"
    using ps by simp_all
  show "i < length (w_processes w) \<Longrightarrow> w_processes (start_shared cfg w) ! i = w_processes w ! i"
    using ps(1) by (simp add: nth_append)
  show "length (w_processes w) \<le> i \<Longrightarrow> i < length (w_processes (start_shared cfg w)) \<Longrightarrow>
      stopped_here G (w_state (start_shared cfg w)) (w_processes (start_shared cfg w) ! i)"
    using ps(1,2) by (simp add: nth_append list_all_iff)
qed

lemma resume_ok:
  assumes "resume w answer t = Some (t', s')" and "I (w_state w)" and "keeps I H t"
  shows "stays I H (t', s')"
proof -
  have k: "stays I H (t', s')" if "\<forall>a s. I s \<longrightarrow> stays I H (k a s)" "k a (w_state w) = (t', s')"
    for k :: "'x \<Rightarrow> hub_state \<Rightarrow> hub_value task \<times> hub_state" and a
    using that assms(2) by metis
  show ?thesis
    using assms(1,3)
    by (cases t) (auto simp: resume_def Let_def intro: k split: hub_answer.splits read_end.splits if_splits)
qed

lemma step_ok:
  assumes "world_ok w" and "hub_step cfg ev w = Some w'"
  shows "world_ok w' \<and> (\<forall>i < length (w_processes w'). moved ev i w \<longrightarrow> stopped_here G (w_state w') (w_processes w' ! i))"
proof (cases ev)
  case (CallEvent c)
  let ?w = "start_process cfg (UserCall c) w"
  obtain p where p: "I (w_state ?w)" "process_ok I G p" "stopped_here G (w_state ?w) p"
      "w_processes ?w = w_processes w @ [p]"
    using start_ok [of w "UserCall c"] assms(1) by (metis world_ok_def)
  then have ok: "world_ok ?w" using assms(1) by (simp add: world_ok_def)
  have w': "w' = start_shared cfg ?w" using assms(2) CallEvent by simp
  have "stopped_here G (w_state w') (w_processes w' ! i)"
    if "i < length (w_processes w')" "length (w_processes w) \<le> i" for i
  proof (cases "i < length (w_processes ?w)")
    case True
    then have "w_processes ?w ! i = p" using p(4) that(2) by (simp add: nth_append)
    with True p(3) shared_ok(2-4) [OF ok] show ?thesis by (simp add: w' stopped_here_def)
  qed (use that shared_ok(5) [OF ok] w' in simp)
  with shared_ok(1) [OF ok] show ?thesis by (simp add: w' CallEvent)
next
  case (AnswerEvent j answer)
  then obtain t s where j: "j < length (w_processes w)"
    and r: "resume w answer (pr_task (w_processes w ! j)) = Some (t, s)"
    and w': "w' = start_shared cfg
      (w\<lparr>w_state := s, w_processes := (w_processes w)[j := (w_processes w ! j)\<lparr>pr_task := t\<rparr>]\<rparr>)"
    using assms(2) by (auto split: if_splits)
  let ?p = "w_processes w ! j"
  let ?w = "w\<lparr>w_state := s, w_processes := (w_processes w)[j := ?p\<lparr>pr_task := t\<rparr>]\<rparr>"
  have "process_ok I G ?p" using assms(1) j by (simp add: world_ok_def list_all_length)
  then have st: "stays I (G (pr_kind ?p) (pr_generation ?p)) (t, s)"
    using resume_ok [OF r] assms(1) by (simp add: process_ok_def world_ok_def)
  have ok: "world_ok ?w"
    using assms(1) st j
    by (auto simp: world_ok_def stays_def process_ok_def list_all_length nth_list_update)
  have "stopped_here G (w_state w') (w_processes w' ! i)"
    if "i < length (w_processes w')" "i = j \<or> length (w_processes w) \<le> i" for i
  proof (cases "i = j")
    case True
    then have "w_processes w' ! i = ?p\<lparr>pr_task := t\<rparr>"
      using shared_ok(4) [OF ok, of j] j by (simp add: w')
    then show ?thesis
      using st shared_ok(2,3) [OF ok] by (auto simp: w' stopped_here_def stays_def)
  qed (use that shared_ok(5) [OF ok] w' in simp)
  with shared_ok(1) [OF ok] show ?thesis by (simp add: w' AnswerEvent)
qed (use assms surroundings in \<open>auto simp: world_ok_def\<close>)

lemma reachable_ok: "hub_reachable cfg w \<Longrightarrow> world_ok w"
proof (induction rule: hub_reachable.induct)
  case (hub_start owner now)
  then show ?case by (simp add: world_ok_def initial_world_def initial)
qed (use step_ok in blast)

end

end
