(* ===== verification/HubSample.thy ===== *)
theory HubSample
  imports HubOperations
begin

text \<open>
  A discovery played out: a user discovers the Hub, the shared read sends its request, gets the
  response and reads its body. The worlds are those the witnesses evaluate.
\<close>

definition sample_hub_config :: hub_config where
  "sample_hub_config =
     \<lparr>cf_parser = sample_parser, cf_number = (\<lambda>_. []), cf_validators = (\<lambda>_ _. True),
      cf_endpoint = sample_url [uSLASH], cf_baseUrl = sample_url [uSLASH], cf_expectedHubId = js ''abc'',
      cf_hasClaimTransport = False\<rparr>"

definition sample_discovery :: jtree where
  "sample_discovery = ObjT [(js ''hub_id'', StrT (js ''abc''))]"

definition sample_discovery_reply :: response where
  "sample_discovery_reply = json_reply 200 [] sample_discovery"

lemmas task_eval = bind_def handle_def finally_update_def follow_def settle_def check_state_def update_def
  await_response_def await_text_def await_discovery_def

lemma sample_resolves: "resolveRequestUrl sample_parser (sample_url [uSLASH]) hubDiscoveryPath = Inr (sample_url hubDiscoveryPath)"
  by (simp add: resolveRequestUrl_def hubDiscoveryPath_def js_def starts_with_def sample_parser_def sample_url_def
      control_unit_def)

lemma sample_plain: "replies_ok sample_discovery"
  by (rule plain_replies) (simp_all add: sample_discovery_def plain_string_def js_def)

lemma sample_body: "body_outcome live sample_discovery_reply name = ReadSettled (Inr (print_tree sample_discovery)) True"
proof -
  let ?b = "utf8_encode (print_tree sample_discovery)"
  have b: "?b \<noteq> []" "length ?b \<le> maximumResponseBytes" "platform_text ?b = print_tree sample_discovery"
    using sample_plain length_utf8_ascii [of "print_tree sample_discovery"] platform_text_ascii
    by (auto simp: replies_ok_def maximumResponseBytes_def)
  show ?thesis
    unfolding body_outcome_def
    by (subst readBoundedText_chunks [where cs = "[?b]"])
      (use b in \<open>simp_all add: sample_discovery_reply_def json_reply_def\<close>)
qed

lemma sample_decoded:
  "decodeHubJson (print_tree sample_discovery) (\<lambda>_. True) name = Inr (JObj [(js ''hubId'', JStr (js ''abc''))])"
proof -
  have parsed: "parseProtocolJson (print_tree sample_discovery) n
      = Inr (json_of sample_discovery, Some (json_of (mirror_tree sample_discovery)))" for n
    using sample_plain by (simp add: replies_ok_def parse_printed)
  have one: "own_members [(k, v)] = [(k, v)]" if "k \<noteq> []" "\<not> is_digit (hd k)" for k :: jsstr and v :: json
    using that by (intro own_members_names) simp_all
  have doc: "json_of sample_discovery = JObj [(js ''hub_id'', JStr (js ''abc''))]"
    "json_of (mirror_tree sample_discovery) = JObj [(js ''hub_id'', JStr (js ''abc''))]"
    by (simp_all add: sample_discovery_def one js_def is_digit_def in_range_def)
  have "\<not> meets_inexact [(json_of sample_discovery, Some (json_of (mirror_tree sample_discovery)))]"
    by (subst meets_inexact_iff) (simp add: doc inexact_field_def meets_inexact_iff [of "JStr x" for x])
  moreover have "camelize (json_of sample_discovery) = JObj [(js ''hubId'', JStr (js ''abc''))]"
  proof -
    have "camel_key (js ''hub_id'') = js ''hubId''" by (simp add: js_eval uUNDERSCORE_def in_range_def)
    then show ?thesis by (simp add: doc one js_def is_digit_def in_range_def)
  qed
  ultimately show ?thesis by (simp add: decodeHubJson_Inr parsed)
qed

lemma sample_headers:
  "requireJsonContentType sample_discovery_reply name = Inr ()"
  "responseMetadata sample_discovery_reply False = Inr \<lparr>hm_status = 200, hm_etag = None, hm_requestId = None\<rparr>"
  "r_status sample_discovery_reply = 200"
proof -
  show "requireJsonContentType sample_discovery_reply name = Inr ()"
    by (simp add: requireJsonContentType_def content_type_def sample_discovery_reply_def json_reply_def r_header_def
        header_get_def media_type_def js_trim_def js_space_def js_eval js_lower_def lower_unit_def require_def)
  show status: "r_status sample_discovery_reply = 200" by (simp add: sample_discovery_reply_def json_reply_def)
  have "r_header (js ''ETag'') sample_discovery_reply = None" "r_header (js ''X-Request-ID'') sample_discovery_reply = None"
    unfolding sample_discovery_reply_def
    by (simp_all add: r_header_reply js_lower_not_content)
  with status show "responseMetadata sample_discovery_reply False = Inr \<lparr>hm_status = 200, hm_etag = None, hm_requestId = None\<rparr>"
    by (simp add: responseMetadata_def require_def optional_def)
qed

definition sample_known :: hub_response where
  "sample_known = \<lparr>hr_value = JObj [(js ''hubId'', JStr (js ''abc''))],
     hr_metadata = \<lparr>hm_status = 200, hm_etag = None, hm_requestId = None\<rparr>\<rparr>"

lemma sample_shared:
  assumes "operation_error op s = Inr ()" "throwIfAborted (op_signal op s) = Inr ()"
  shows "\<exists>w k. shared_discovery sample_hub_config op s = (AwaitResponse w k, s)
    \<and> (\<forall>s'. operation_error op s' = Inr () \<longrightarrow>
         (\<exists>k'. k (Inr sample_discovery_reply) s' = (AwaitText sample_discovery_reply ''HubDiscovery'' k', s')
           \<and> k' (Inr (print_tree sample_discovery)) s' = (Settled (Inr sample_known),
               clear_pending op (s'\<lparr>hs_discovery := Some (hr_value sample_known), hs_bindings := []\<rparr>))))"
  using assms
  by (simp add: shared_discovery_def hub_read_def hub_request_def assertOperation_def signal_check_def task_eval
      sample_hub_config_def sample_resolves authorizationHeader_def owning_def decodeResponse_def readBody_def
      sample_headers sample_decoded sample_known_def require_def)

definition sample_shared_op :: hub_operation where
  "sample_shared_op = \<lparr>op_id = 1, op_generation = 0\<rparr>"

lemma sample_start:
  "\<exists>k s. start_process sample_hub_config (UserCall (DiscoverCall None)) (initial_world Live 0) =
       \<lparr>w_state = s, w_processes = [\<lparr>pr_kind = UserCall (DiscoverCall None), pr_generation = 0,
          pr_task = AwaitDiscovery sample_shared_op \<lparr>op_id = 0, op_generation = 0\<rparr> k\<rparr>]\<rparr>
     \<and> hs_started s = [sample_shared_op] \<and> operation_error sample_shared_op (s\<lparr>hs_started := []\<rparr>) = Inr ()
     \<and> throwIfAborted (op_signal sample_shared_op (s\<lparr>hs_started := []\<rparr>)) = Inr ()"
  by (simp add: start_process_def initial_world_def initial_hub_state_def discover_method_def beginOperation_def discover_def
      start_discovery_def waitForDiscovery_def assertOperation_def operation_error_def signal_check_def task_eval
      requireActive_def isExpired_def op_signal_def new_signal_def source_state_def join_discovery_def sample_shared_op_def)

lemma sample_hub_run:
  obtains w1 w2 w3 where
    "hub_step sample_hub_config (CallEvent (DiscoverCall None)) (initial_world Live 0) = Some w1"
    "hub_step sample_hub_config (AnswerEvent 1 (ResponseAnswer (Inr sample_discovery_reply))) w1 = Some w2"
    "hub_step sample_hub_config (AnswerEvent 1 (BodyAnswer live)) w2 = Some w3"
    "length (w_processes w3) = 2" "pr_kind (w_processes w3 ! 1) = SharedRead sample_shared_op"
    "pr_generation (w_processes w3 ! 1) = 0"
    "pr_task (w_processes w3 ! 1) = Settled (Inr (ResponseValue sample_known))"
    "hs_discovery (w_state w3) = Some (hr_value sample_known)"
proof -
  obtain k s where start: "start_process sample_hub_config (UserCall (DiscoverCall None)) (initial_world Live 0) =
       \<lparr>w_state = s, w_processes = [\<lparr>pr_kind = UserCall (DiscoverCall None), pr_generation = 0,
          pr_task = AwaitDiscovery sample_shared_op \<lparr>op_id = 0, op_generation = 0\<rparr> k\<rparr>]\<rparr>"
      "hs_started s = [sample_shared_op]" "operation_error sample_shared_op (s\<lparr>hs_started := []\<rparr>) = Inr ()"
      "throwIfAborted (op_signal sample_shared_op (s\<lparr>hs_started := []\<rparr>)) = Inr ()"
    using sample_start by blast
  let ?s = "s\<lparr>hs_started := []\<rparr>"
  obtain w j j' where shared: "shared_discovery sample_hub_config sample_shared_op ?s = (AwaitResponse w j, ?s)"
      "j (Inr sample_discovery_reply) ?s = (AwaitText sample_discovery_reply ''HubDiscovery'' j', ?s)"
      "j' (Inr (print_tree sample_discovery)) ?s = (Settled (Inr sample_known),
         clear_pending sample_shared_op (?s\<lparr>hs_discovery := Some (hr_value sample_known), hs_bindings := []\<rparr>))"
    using sample_shared [OF start(3,4)] start(3) by blast
  define p0 where "p0 = \<lparr>pr_kind = UserCall (DiscoverCall None), pr_generation = 0,
      pr_task = AwaitDiscovery sample_shared_op \<lparr>op_id = 0, op_generation = 0\<rparr> k\<rparr>"
  define p where "p t = \<lparr>pr_kind = SharedRead sample_shared_op, pr_generation = 0, pr_task = t\<rparr>" for t
  let ?answer = "case_sum throw (\<lambda>x. ret (ResponseValue x))"
  define w1 where "w1 = \<lparr>w_state = ?s, w_processes = [p0, p (AwaitResponse w (\<lambda>a. follow (j a) ?answer))]\<rparr>"
  define w2 where "w2 = \<lparr>w_state = ?s, w_processes =
      [p0, p (AwaitText sample_discovery_reply ''HubDiscovery'' (\<lambda>a. follow (j' a) ?answer))]\<rparr>"
  define w3 where "w3 = \<lparr>w_state = clear_pending sample_shared_op (?s\<lparr>hs_discovery := Some (hr_value sample_known), hs_bindings := []\<rparr>),
      w_processes = [p0, p (Settled (Inr (ResponseValue sample_known)))]\<rparr>"
  have generation: "op_generation sample_shared_op = 0" by (simp add: sample_shared_op_def)
  have "hub_step sample_hub_config (CallEvent (DiscoverCall None)) (initial_world Live 0) = Some w1"
    by (simp add: start start_shared_def) (simp add: start_process_def shared p_def p0_def w1_def task_eval generation)
  moreover have "hub_step sample_hub_config (AnswerEvent 1 (ResponseAnswer (Inr sample_discovery_reply))) w1 = Some w2"
    by (simp add: w1_def w2_def p_def resume_def shared start_shared_def task_eval)
  moreover have "hub_step sample_hub_config (AnswerEvent 1 (BodyAnswer live)) w2 = Some w3"
    by (simp add: w2_def w3_def p_def resume_def shared start_shared_def task_eval sample_body clear_pending_def)
  ultimately show thesis
    by (rule that) (simp_all add: w3_def p_def clear_pending_def)
qed

lemma sample_reachable:
  obtains w where "hub_reachable sample_hub_config w" "length (w_processes w) = 2"
    "pr_task (w_processes w ! 1) = Settled (Inr (ResponseValue sample_known))"
    "pr_kind (w_processes w ! 1) = SharedRead sample_shared_op"
    "hs_discovery (w_state w) = Some (hr_value sample_known)"
  using sample_hub_run by (metis hub_start hub_next)

end
