(* ===== verification/HubSafety.thy ===== *)
theory HubSafety
  imports HubInvariants HubSample
begin

text \<open>
  What holds of a Hub client however its methods are interleaved with each other, with
  \<^verbatim>\<open>logout\<close>, \<^verbatim>\<open>dispose\<close> and the aborts of its signals. The methods are
  checked in the logic of HubTasks; the reachable worlds follow by rule induction.
\<close>

section \<open>Work of the present session\<close>

definition in_session :: "nat \<Rightarrow> hub_state \<Rightarrow> bool" where
  "in_session g s \<longleftrightarrow> hs_generation s = g \<and> \<not> hs_disposed s"

text \<open>What may only be done while the session lasts: sending a request and saving a credential.\<close>

fun in_session_wait :: "nat \<Rightarrow> hub_wait \<Rightarrow> hub_state \<Rightarrow> bool" where
  "in_session_wait g (ResponseWait w) s = in_session g s"
| "in_session_wait g (UnitWait (SaveCredential c)) s = in_session g s"
| "in_session_wait g _ s = True"

text \<open>\<open>session g b m c\<close>: started with (\<open>b\<close>) the session \<open>g\<close> lasting, \<open>m\<close> does so, and ends,
  if it does with a value, with (\<open>c\<close>) the session lasting.\<close>

definition session :: "nat \<Rightarrow> bool \<Rightarrow> 'a prog \<Rightarrow> bool \<Rightarrow> bool" where
  "session g b m c \<longleftrightarrow>
     runs (\<lambda>_. True) (\<lambda>s. b \<longrightarrow> in_session g s) m (in_session_wait g) (\<lambda>_ s. c \<longrightarrow> in_session g s) (\<lambda>_ _. True)"

definition same_session :: "(hub_state \<Rightarrow> hub_state) \<Rightarrow> bool" where
  "same_session f \<longleftrightarrow> (\<forall>s. hs_generation (f s) = hs_generation s \<and> hs_disposed (f s) = hs_disposed s)"

named_theorems session_rules

lemma session_settle [session_rules]: "session g b (settle r) b"
  unfolding session_def by (rule runs_settle) (auto split: sum.splits)

lemma session_throw [session_rules]: "session g b (throw e) c"
  unfolding session_def by (rule runs_settle) simp

lemma session_check [session_rules]: "session g b (check_state f) b"
  unfolding session_def by (rule runs_check) (auto split: sum.splits)

lemma session_update [session_rules]: "same_session f \<Longrightarrow> session g b (update f) b"
  unfolding session_def by (rule runs_update) (auto simp: same_session_def in_session_def)

lemma session_bind [session_rules]:
  "session g b m c \<Longrightarrow> (\<And>x. session g c (f x) d) \<Longrightarrow> session g b (bind m f) d"
  unfolding session_def by (rule runs_bind)

lemma session_handle [session_rules]:
  "session g b m c \<Longrightarrow> (\<And>e. session g False (h e) c) \<Longrightarrow> session g b (handle m h) c"
  unfolding session_def by (rule runs_handle) auto

lemma session_finally [session_rules]:
  "session g b m c \<Longrightarrow> same_session f \<Longrightarrow> session g b (finally_update m f) c"
  unfolding session_def by (rule runs_finally) (auto simp: same_session_def in_session_def)

lemma session_weaken: "session g b m c \<Longrightarrow> (b \<longrightarrow> b') \<Longrightarrow> (c' \<longrightarrow> c) \<Longrightarrow> session g b' m c'"
  unfolding session_def by (erule runs_weaken) auto

lemma session_text [session_rules]: "session g b (await_text response name) False"
  unfolding session_def by (rule runs_await_text) auto

lemma session_credential [session_rules]: "session g b await_credential False"
  unfolding session_def by (rule runs_await_credential) auto

lemma session_discovery [session_rules]: "session g b (await_discovery shared op) False"
  unfolding session_def by (rule runs_await_discovery) auto

lemma session_response [session_rules]: "session g True (await_response w) False"
  unfolding session_def by (rule runs_await_response) auto

lemma session_save [session_rules]: "session g True (await_unit (SaveCredential c)) False"
  unfolding session_def by (rule runs_await_unit) auto

lemma session_turn [session_rules]: "session g b (await_unit (MutationTurn t)) False"
  unfolding session_def by (rule runs_await_unit) auto

lemma session_empty [session_rules]: "session g b (await_unit (EmptyBody response name)) False"
  unfolding session_def by (rule runs_await_unit) auto

lemma operation_error_Inr: "operation_error op s = Inr u \<Longrightarrow> in_session (op_generation op) s"
  by (auto simp: operation_error_def isExpired_def in_session_def split: if_splits)

lemma session_assert [session_rules]: "op_generation op = g \<Longrightarrow> session g b (assertOperation op) True"
  unfolding session_def assertOperation_def
  by (rule runs_check) (auto dest: operation_error_Inr split: sum.splits)

section \<open>The parts of the methods\<close>

lemma session_updates_hold [session_rules]:
  "same_session (leave_queue t)" "same_session (clear_pending op)" "same_session (leave_discovery op)"
  "same_session (join_discovery op)"
  by (auto simp: same_session_def leave_queue_def clear_pending_def leave_discovery_def join_discovery_def
      abort_source_def abort_signals_def split: option.splits)

lemma session_forget: "session g b m c \<Longrightarrow> session g b m False"
  by (erule session_weaken) simp_all

lemma session_anytime: "session g False m c \<Longrightarrow> session g b m c"
  by (erule session_weaken) simp_all

lemma session_if [session_rules]:
  "session g b x c \<Longrightarrow> session g b y c \<Longrightarrow> session g b (if t then x else y) c"
  by simp

lemma session_option [session_rules]:
  "session g b x c \<Longrightarrow> (\<And>v. session g b (f v) c) \<Longrightarrow> session g b (case o' of None \<Rightarrow> x | Some v \<Rightarrow> f v) c"
  by (simp split: option.split)

lemma session_let [session_rules]: "session g b (f v) c \<Longrightarrow> session g b (let x = v in f x) c"
  by simp

lemma session_operation_or [session_rules]: "op_generation op = g \<Longrightarrow> session g b (operation_or op e) c"
  unfolding operation_or_def
  by (rule session_bind, rule session_check, rule session_bind [where c = False])
    (auto intro: session_rules session_forget [OF session_assert] session_anytime)

lemma session_enqueue [session_rules]: "session g False m c \<Longrightarrow> session g b (enqueueCredentialMutation m) c"
  unfolding enqueueCredentialMutation_def
  by (rule session_rules session_forget | assumption | simp add: same_session_def)+

lemma session_load [session_rules]: "op_generation op = g \<Longrightarrow> session g b (loadCredential op) True"
  unfolding loadCredential_def by (rule session_rules | assumption)+

lemma session_save_credential [session_rules]:
  "op_generation op = g \<Longrightarrow> session g b (saveCredential credential op) True"
  unfolding saveCredential_def by (rule session_rules | assumption)+

lemma session_signal_check [session_rules]: "session g b (signal_check op) b"
  unfolding signal_check_def by (rule session_rules)

definition provider_session :: "nat \<Rightarrow> bool \<Rightarrow> 'a prog option \<Rightarrow> bool" where
  "provider_session g b authorize \<longleftrightarrow> (\<forall>provider. authorize = Some provider \<longrightarrow> session g b provider False)"

lemma session_request [session_rules]:
  assumes "op_generation op = g" and "provider_session g b authorize"
  shows "session g b (hub_request cfg op authorize verb path hs body) False"
proof -
  have a: "session g b (case authorize of None \<Rightarrow> ret None | Some provider \<Rightarrow> provider) False"
    using assms(2) by (auto simp: provider_session_def split: option.split intro: session_forget [OF session_settle])
  show ?thesis
    unfolding hub_request_def
    by (cases "resolveRequestUrl (cf_parser cfg) (cf_baseUrl cfg) path"; simp)
      (rule a assms(1) session_rules)+
qed

lemma session_authenticate [session_rules]:
  assumes "op_generation op = g"
  shows "session g b (authenticate op given) False"
  unfolding authenticate_def
proof (rule session_bind)
  show "session g b (case given of None \<Rightarrow> loadCredential op | Some c \<Rightarrow> ret (Some c)) False"
    using assms by (auto split: option.split intro: session_forget [OF session_load] session_forget [OF session_settle])
qed (rule session_rules)+

lemma provider_sessions [session_rules]:
  "provider_session g b None"
  "op_generation op = g \<Longrightarrow> provider_session g b (Some (authenticate op given))"
  by (auto simp: provider_session_def intro: session_authenticate)

lemma session_owning [session_rules]: "session g b m c \<Longrightarrow> session g b (owning response m) c"
  unfolding owning_def by (rule session_rules | assumption | simp add: same_session_def)+

lemma session_body [session_rules]: "session g b (readBody response name) False"
  unfolding readBody_def by (rule session_rules)

lemma session_decode [session_rules]: "session g b (decodeResponse cfg response name) False"
  unfolding decodeResponse_def by (rule session_rules)+

lemma session_hub_error [session_rules]:
  "op_generation op = g \<Longrightarrow> session g b (throwHubError cfg response route op) c"
  unfolding throwHubError_def by (rule session_rules | assumption)+

lemma session_extractor_error [session_rules]:
  "op_generation op = g \<Longrightarrow> session g b (throwClaimExtractorError response op) c"
  unfolding throwClaimExtractorError_def by (rule session_rules | assumption)+

lemma session_read [session_rules]:
  assumes "op_generation op = g" and "provider_session g True authorize"
  shows "session g b (hub_read cfg authorize path name op statuses) True"
  unfolding hub_read_def by (rule assms session_rules | assumption)+

lemma session_claim_response [session_rules]:
  "op_generation op = g \<Longrightarrow> session g b (decodeClaimResponse cfg response op claiming) True"
  unfolding decodeClaimResponse_def by (rule session_rules | assumption)+

lemma session_shared [session_rules]:
  "op_generation op = g \<Longrightarrow> session g b (shared_discovery cfg op) True"
  unfolding shared_discovery_def
  by (rule session_rules | assumption | simp add: same_session_def)+

lemma session_begin_other: "session g b (beginOperation source) b"
  unfolding beginOperation_def assertOperation_def
  by (rule session_rules | simp add: same_session_def)+

lemma session_start [session_rules]: "session g b start_discovery b"
  unfolding start_discovery_def
  by (rule session_begin_other session_rules | simp add: same_session_def)+

lemma session_wait [session_rules]:
  "op_generation op = g \<Longrightarrow> session g b (waitForDiscovery shared op) True"
  unfolding waitForDiscovery_def by (rule session_rules | assumption)+

lemma session_discover [session_rules]: "op_generation op = g \<Longrightarrow> session g b (discover op) True"
  unfolding discover_def by (rule session_rules | assumption)+

lemma session_ensure [session_rules]: "op_generation op = g \<Longrightarrow> session g b (ensureDiscovery op) True"
  unfolding ensureDiscovery_def by (rule session_rules | assumption)+

lemma session_capability [session_rules]:
  "op_generation op = g \<Longrightarrow> session g b (hubRequireCapability capability op) True"
  unfolding hubRequireCapability_def by (rule session_rules | assumption)+

lemma session_write_claim [session_rules]:
  "op_generation op = g \<Longrightarrow> session g b (writeClaim cfg (authenticate op given) path body op claiming) True"
  unfolding writeClaim_def by (rule session_rules | assumption)+

lemma session_store [session_rules]: "op_generation op = g \<Longrightarrow> session g b (store_claim op result credential) True"
  unfolding store_claim_def by (rule session_rules | assumption)+

lemma session_decode_drives [session_rules]:
  "op_generation op = g \<Longrightarrow> session g b (decode_drives cfg vehicleId options op binding response) True"
  unfolding decode_drives_def
  by (rule session_rules | assumption | simp add: same_session_def split: option.split)+

section \<open>The methods\<close>

text \<open>\<open>serves g m\<close>: a method called in generation \<open>g\<close> does work of the session \<open>g\<close>.\<close>

definition serves :: "nat \<Rightarrow> 'a prog \<Rightarrow> bool" where
  "serves g m \<longleftrightarrow>
     runs (\<lambda>_. True) (\<lambda>s. hs_generation s = g) m (in_session_wait g) (\<lambda>_. in_session g) (\<lambda>_ _. True)"

lemma begin_serves:
  "runs (\<lambda>_. True) (\<lambda>s. hs_generation s = g) (beginOperation source) (in_session_wait g)
     (\<lambda>op s. op_generation op = g \<and> in_session g s) (\<lambda>_ _. True)"
  unfolding beginOperation_def
proof (rule runs_bind)
  show "runs (\<lambda>_. True) (\<lambda>s. hs_generation s = g) (check_state requireActive) (in_session_wait g)
      (\<lambda>_. in_session g) (\<lambda>_ _. True)"
    by (rule runs_check) (simp add: requireActive_def in_session_def)
  fix u :: unit
  let ?made = "\<lambda>op s. op_generation op = g \<and> in_session g s"
  show "runs (\<lambda>_. True) (in_session g)
      (bind (check_state (\<lambda>s. Inr \<lparr>op_id = length (hs_signals s), op_generation = hs_generation s\<rparr>)) (\<lambda>op.
       bind (update (\<lambda>s. s\<lparr>hs_signals := hs_signals s @ [new_signal source s]\<rparr>)) (\<lambda>_.
       bind (assertOperation op) (\<lambda>_. ret op)))) (in_session_wait g) ?made (\<lambda>_ _. True)"
  proof (rule runs_bind)
    show "runs (\<lambda>_. True) (in_session g)
        (check_state (\<lambda>s. Inr \<lparr>op_id = length (hs_signals s), op_generation = hs_generation s\<rparr>))
        (in_session_wait g) ?made (\<lambda>_ _. True)"
      by (rule runs_check) (simp add: in_session_def)
    fix op :: hub_operation
    have keep: "runs (\<lambda>_. True) (?made op) m (in_session_wait g) (\<lambda>_. ?made op) (\<lambda>_ _. True)"
      if "session g True m True" for m :: "unit prog"
    proof (cases "op_generation op = g")
      case True
      with that show ?thesis unfolding session_def by (elim runs_weaken) auto
    qed (simp add: runs_def)
    show "runs (\<lambda>_. True) (?made op) (bind (update (\<lambda>s. s\<lparr>hs_signals := hs_signals s @ [new_signal source s]\<rparr>)) (\<lambda>_.
        bind (assertOperation op) (\<lambda>_. ret op))) (in_session_wait g) ?made (\<lambda>_ _. True)"
      unfolding assertOperation_def
      by (rule runs_bind, rule keep, rule session_update, simp add: same_session_def,
          rule runs_bind, rule keep, rule session_check, rule runs_settle) simp
  qed
qed

lemma serves_begin:
  assumes "\<And>op. op_generation op = g \<Longrightarrow> session g True (f op) True"
  shows "serves g (bind (beginOperation source) f)"
  unfolding serves_def
proof (rule runs_bind [OF begin_serves])
  fix op
  show "runs (\<lambda>_. True) (\<lambda>s. op_generation op = g \<and> in_session g s) (f op) (in_session_wait g)
      (\<lambda>_. in_session g) (\<lambda>_ _. True)"
    using assms [of op] by (cases "op_generation op = g") (auto simp: session_def runs_def)
qed

lemma serves_check: "(\<And>x. serves g (f x)) \<Longrightarrow> serves g (bind (settle r) f)"
  unfolding serves_def
  by (rule runs_bind [where Q = "\<lambda>_ s. hs_generation s = g"], rule runs_settle) (simp_all split: sum.splits)

lemma serves_result:
  assumes "serves g m"
  shows "serves g (bind m (\<lambda>x. ret (h x)))"
proof -
  have "session g True (ret (h x)) True" for x by (rule session_settle)
  then show ?thesis
    using assms unfolding serves_def session_def by (intro runs_bind [of _ _ m]) auto
qed

lemma serves_health: "serves g (health cfg source)"
  unfolding health_def by (rule serves_begin) (rule session_rules | assumption)+

lemma serves_readiness: "serves g (readiness cfg source)"
  unfolding readiness_def by (rule serves_begin) (rule session_rules | assumption)+

lemma serves_discover: "serves g (discover_method source)"
  unfolding discover_method_def by (rule serves_begin) (rule session_rules | assumption)+

lemma serves_claim: "serves g (claimPairing cfg invitation deviceName source)"
  unfolding claimPairing_def Let_def by (rule serves_begin) (rule session_rules | assumption)+

lemma serves_rotate: "serves g (rotateDevice cfg source)"
  unfolding rotateDevice_def by (rule serves_begin) (rule session_rules | assumption)+

lemma serves_vehicles: "serves g (vehicles cfg source)"
  unfolding vehicles_def by (rule serves_begin) (rule session_rules | assumption)+

lemma serves_current: "serves g (current cfg vehicleId source)"
  unfolding current_def by (rule serves_check, rule serves_begin) (rule session_rules | assumption)+

lemma serves_drives: "serves g (drives cfg vehicleId options)"
  unfolding drives_def Let_def
  by (rule serves_check, rule serves_check, rule serves_begin) (rule session_rules | assumption)+

lemma perform_serves: "\<not> ends_session c \<Longrightarrow> serves g (perform cfg c)"
  by (cases c)
    (simp_all add: ends_session_def serves_result serves_health serves_readiness serves_discover serves_claim
      serves_rotate serves_vehicles serves_current serves_drives)

section \<open>The session property\<close>

definition session_stop :: "process_kind \<Rightarrow> nat \<Rightarrow> hub_value task \<Rightarrow> hub_state \<Rightarrow> bool" where
  "session_stop kind g t s \<longleftrightarrow>
     (\<exists>c. kind = UserCall c \<and> ends_session c) \<or> stops (in_session_wait g) (\<lambda>_. in_session g) (\<lambda>_ _. True) t s"

interpretation trivial: hub_client_invariant cfg "\<lambda>_. True" for cfg
  by unfold_locales simp_all

lemma process_session: "stays (\<lambda>_. True) (session_stop kind (start_generation kind s)) (process_prog cfg kind s)"
proof (cases "\<exists>c. kind = UserCall c \<and> ends_session c")
  case True
  have "keeps (\<lambda>_. True) (stops (\<lambda>_ _. True) (\<lambda>_ _. True) (\<lambda>_ _. True)) (fst (process_prog cfg kind s))"
    using trivial.keeps_process [of cfg kind] by (simp add: preserves_def runs_def stays_def)
  then have "keeps (\<lambda>_. True) (session_stop kind g) (fst (process_prog cfg kind s))" for g
    by (rule keeps_mono [rotated]) (use True in \<open>simp add: session_stop_def\<close>)
  with True show ?thesis by (simp add: stays_def session_stop_def)
next
  case False
  let ?g = "start_generation kind s" and ?G = "\<lambda>g. stops (in_session_wait g) (\<lambda>_. in_session g) (\<lambda>_ _. True)"
  have "stays (\<lambda>_. True) (?G ?g) (process_prog cfg kind s)"
  proof (cases kind)
    case (UserCall c)
    then have "serves ?g (perform cfg c)" using False by (intro perform_serves) auto
    with UserCall show ?thesis by (simp add: serves_def runs_def)
  next
    case (SharedRead op)
    have "session ?g False (process_prog cfg kind) True"
      unfolding SharedRead process_prog.simps start_generation.simps
      by (rule session_rules refl)+
    then show ?thesis by (simp add: session_def runs_def)
  qed
  moreover have "session_stop kind ?g = ?G ?g" using False by (auto simp: session_stop_def fun_eq_iff)
  ultimately show ?thesis by simp
qed

interpretation session_world: hub_world_contract cfg "\<lambda>_. True" session_stop for cfg
  by unfold_locales (simp_all add: process_session)

text \<open>What counts as work for the user: a success, or something sent or saved.\<close>

definition works :: "hub_process \<Rightarrow> bool" where
  "works p \<longleftrightarrow>
     \<not> (\<exists>c. pr_kind p = UserCall c \<and> ends_session c)
     \<and> (case pr_task p of
          Settled (Inr _) \<Rightarrow> True
        | AwaitResponse _ _ \<Rightarrow> True
        | AwaitUnit (SaveCredential _) _ \<Rightarrow> True
        | _ \<Rightarrow> False)"

text \<open>C20: whenever, under any interleaving of the methods with each other, with
  \<^verbatim>\<open>logout\<close>, \<^verbatim>\<open>dispose\<close> and aborts, a method or a shared discovery reports
  success, sends a request or hands a credential to the store, the client has not been disposed and
  the session is still the one that method was called in.\<close>

theorem hub_work_belongs_to_session:
  assumes "hub_reachable cfg w" and "hub_step cfg ev w = Some w'"
    and "i < length (w_processes w')" and "moved ev i w" and "works (w_processes w' ! i)"
  shows "hs_generation (w_state w') = pr_generation (w_processes w' ! i) \<and> \<not> hs_disposed (w_state w')"
proof -
  let ?p = "w_processes w' ! i"
  have "stopped_here session_stop (w_state w') ?p"
    using session_world.step_ok [OF session_world.reachable_ok [OF assms(1)] assms(2)] assms(3,4) by blast
  then obtain t where t: "session_stop (pr_kind ?p) (pr_generation ?p) (pr_task ?p) t"
      "hs_generation t = hs_generation (w_state w')" "hs_disposed t = hs_disposed (w_state w')"
    by (auto simp: stopped_here_def)
  then have "in_session (pr_generation ?p) t"
    using assms(5)
    by (cases "pr_task ?p")
      (auto simp: works_def session_stop_def split: sum.splits unit_wait.splits)
  with t(2,3) show ?thesis by (simp add: in_session_def)
qed

theorem hub_work_belongs_to_session_witness:
  "\<exists>w :: hub_world. works (w_processes w ! 1) \<and> hs_generation (w_state w) = 0 \<and> \<not> hs_disposed (w_state w)"
proof -
  obtain w1 w2 w3 where run: "hub_step sample_hub_config (CallEvent (DiscoverCall None)) (initial_world Live 0) = Some w1"
      "hub_step sample_hub_config (AnswerEvent 1 (ResponseAnswer (Inr sample_discovery_reply))) w1 = Some w2"
      "hub_step sample_hub_config (AnswerEvent 1 (BodyAnswer live)) w2 = Some w3"
      "length (w_processes w3) = 2" "pr_kind (w_processes w3 ! 1) = SharedRead sample_shared_op"
      "pr_generation (w_processes w3 ! 1) = 0"
      "pr_task (w_processes w3 ! 1) = Settled (Inr (ResponseValue sample_known))"
    using sample_hub_run by metis
  have "hub_reachable sample_hub_config w2" by (rule hub_next [OF hub_next [OF hub_start run(1)] run(2)])
  moreover have "works (w_processes w3 ! 1)" using run(5,7) by (simp add: works_def)
  ultimately have "hs_generation (w_state w3) = pr_generation (w_processes w3 ! 1) \<and> \<not> hs_disposed (w_state w3)"
    using run(4) by (intro hub_work_belongs_to_session [OF _ run(3), of 1]) simp_all
  with \<open>works (w_processes w3 ! 1)\<close> run(6) show ?thesis by (intro exI [of _ w3]) simp
qed

section \<open>The identity of the Hub\<close>

definition known_hub :: "hub_config \<Rightarrow> hub_state \<Rightarrow> bool" where
  "known_hub cfg s \<longleftrightarrow>
     (\<forall>v. hs_discovery s = Some v \<longrightarrow> member_of v (js ''hubId'') = Some (JStr (cf_expectedHubId cfg)))"

interpretation identity: hub_client_invariant cfg "known_hub cfg" for cfg
  by unfold_locales (simp_all add: known_hub_def)

lemma preserves_stays: "preserves I m \<Longrightarrow> I s \<Longrightarrow> stays I (\<lambda>_ _. True) (m s)"
proof -
  assume "preserves I m" "I s"
  then have m: "I (snd (m s))" "keeps I (stops (\<lambda>_ _. True) (\<lambda>_ _. True) (\<lambda>_ _. True)) (fst (m s))"
    by (auto simp: preserves_def runs_def stays_def)
  from keeps_mono [OF _ m(2)] m(1) show ?thesis by (simp add: stays_def)
qed

interpretation identity_world: hub_world_contract cfg "known_hub cfg" "\<lambda>_ _ _ _. True" for cfg
proof unfold_locales
  show "known_hub cfg (initial_hub_state owner now)" for owner now
    by (simp add: known_hub_def initial_hub_state_def)
qed (auto intro: preserves_stays identity.keeps_process identity.I_abort_source identity.I_abort_owner
    identity.I_now identity.I_started)

text \<open>C22: in every reachable state the discovery document the client keeps, by which it decides what the
  Hub can do, is one that carries the identifier the client was created for.\<close>

theorem hub_identity_pinned:
  assumes "hub_reachable cfg w" and "hs_discovery (w_state w) = Some v"
  shows "member_of v (js ''hubId'') = Some (JStr (cf_expectedHubId cfg))"
  using identity_world.reachable_ok [OF assms(1)] assms(2)
  by (simp add: identity_world.world_ok_def known_hub_def)

theorem hub_identity_pinned_witness:
  "\<exists>(w :: hub_world) v. hs_discovery (w_state w) = Some v \<and> member_of v (js ''hubId'') = Some (JStr (js ''abc''))"
proof -
  obtain w where "hub_reachable sample_hub_config w" "hs_discovery (w_state w) = Some (hr_value sample_known)"
    using sample_reachable by metis
  with hub_identity_pinned [OF this] show ?thesis
    by (intro exI [of _ w] exI [of _ "hr_value sample_known"]) (simp add: sample_hub_config_def)
qed

end
