(* ===== verification/HubAnswers.thy ===== *)
theory HubAnswers
  imports HubSafety
begin

text \<open>
  What a Hub client hands to the user: whatever the answers it gets and whatever runs in between, a
  method that succeeds has checked its response against what was asked for.
\<close>

section \<open>What a method answers\<close>

text \<open>\<open>ends m R\<close>: a value \<open>m\<close> ends with, after any answers and any interference, satisfies
  \<open>R\<close>.\<close>

definition ends :: "'a prog \<Rightarrow> ('a \<Rightarrow> bool) \<Rightarrow> bool" where
  "ends m R \<longleftrightarrow> runs (\<lambda>_. True) (\<lambda>_. True) m (\<lambda>_ _. True) (\<lambda>x _. R x) (\<lambda>_ _. True)"

lemma stops_anything: "stops (\<lambda>_ _. True) (\<lambda>_ _. True) (\<lambda>_ _. True) t s"
proof (cases t)
  case (Settled r)
  then show ?thesis by (cases r) simp_all
qed simp_all

lemma keeps_anything: "keeps (\<lambda>_. True) (stops (\<lambda>_ _. True) (\<lambda>_ _. True) (\<lambda>_ _. True)) t"
proof (induction t)
  case (AwaitUnit w k)
  have "stays (\<lambda>_. True) (stops (\<lambda>_ _. True) (\<lambda>_ _. True) (\<lambda>_ _. True)) (k a s)" for a s
    using AwaitUnit.IH [of "k a" "k a s" "fst (k a s)"] by (auto simp: stays_def intro: stops_anything)
  then show ?case by simp
next
  case (AwaitCredential k)
  have "stays (\<lambda>_. True) (stops (\<lambda>_ _. True) (\<lambda>_ _. True) (\<lambda>_ _. True)) (k a s)" for a s
    using AwaitCredential.IH [of "k a" "k a s" "fst (k a s)"] by (auto simp: stays_def intro: stops_anything)
  then show ?case by simp
next
  case (AwaitResponse w k)
  have "stays (\<lambda>_. True) (stops (\<lambda>_ _. True) (\<lambda>_ _. True) (\<lambda>_ _. True)) (k a s)" for a s
    using AwaitResponse.IH [of "k a" "k a s" "fst (k a s)"] by (auto simp: stays_def intro: stops_anything)
  then show ?case by simp
next
  case (AwaitText response name k)
  have "stays (\<lambda>_. True) (stops (\<lambda>_ _. True) (\<lambda>_ _. True) (\<lambda>_ _. True)) (k a s)" for a s
    using AwaitText.IH [of "k a" "k a s" "fst (k a s)"] by (auto simp: stays_def intro: stops_anything)
  then show ?case by simp
next
  case (AwaitDiscovery shared op k)
  have "stays (\<lambda>_. True) (stops (\<lambda>_ _. True) (\<lambda>_ _. True) (\<lambda>_ _. True)) (k a s)" for a s
    using AwaitDiscovery.IH [of "k a" "k a s" "fst (k a s)"] by (auto simp: stays_def intro: stops_anything)
  then show ?case by simp
qed simp

lemma runs_anything: "runs (\<lambda>_. True) P m (\<lambda>_ _. True) (\<lambda>_ _. True) (\<lambda>_ _. True)"
  by (simp add: runs_def stays_def keeps_anything stops_anything)

lemma ends_bind: "(\<And>x. ends (f x) R) \<Longrightarrow> ends (bind m f) R"
  unfolding ends_def by (rule runs_bind [OF runs_anything])

lemma ends_settled: "(\<And>x. r = Inr x \<Longrightarrow> ends (f x) R) \<Longrightarrow> ends (bind (settle r) f) R"
  unfolding ends_def
proof (rule runs_bind)
  show "runs (\<lambda>_. True) (\<lambda>_. True) (settle r) (\<lambda>_ _. True) (\<lambda>x _. r = Inr x) (\<lambda>_ _. True)"
    by (rule runs_settle) (simp split: sum.split)
  fix x
  assume step: "\<And>x. r = Inr x \<Longrightarrow> runs (\<lambda>_. True) (\<lambda>_. True) (f x) (\<lambda>_ _. True) (\<lambda>x _. R x) (\<lambda>_ _. True)"
  show "runs (\<lambda>_. True) (\<lambda>_. r = Inr x) (f x) (\<lambda>_ _. True) (\<lambda>x _. R x) (\<lambda>_ _. True)"
    using step by (cases "r = Inr x") (auto simp: runs_def)
qed

lemma ends_value: "R x \<Longrightarrow> ends (ret x) R"
  unfolding ends_def by (rule runs_settle) simp

lemma ends_throw: "ends (throw e) R"
  unfolding ends_def by (rule runs_settle) simp

lemma ends_owning: "ends m R \<Longrightarrow> ends (owning response m) R"
  unfolding ends_def owning_def
  by (erule runs_handle, rule runs_bind [OF runs_anything], rule runs_settle) simp

lemma ends_if: "(b \<Longrightarrow> ends x R) \<Longrightarrow> (\<not> b \<Longrightarrow> ends y R) \<Longrightarrow> ends (if b then x else y) R"
  by simp

lemma ends_let: "ends (f v) R \<Longrightarrow> ends (let x = v in f x) R"
  by simp

lemma ends_hub_error: "ends (throwHubError cfg response route op) R"
  unfolding throwHubError_def by (intro ends_bind ends_if ends_throw)

text \<open>A page of drives fit for the options it was asked with.\<close>

definition newer_first :: "hub_drive \<Rightarrow> hub_drive \<Rightarrow> bool" where
  "newer_first a b \<longleftrightarrow>
     num_less (hd_startDateMs b) (hd_startDateMs a)
     \<or> (hd_startDateMs a = hd_startDateMs b \<and> num_less (hd_id b) (hd_id a))"

definition page_sound :: "jsstr \<Rightarrow> hub_drives_options \<Rightarrow> json \<Rightarrow> bool" where
  "page_sound vehicleId options v \<longleftrightarrow>
     (\<exists>items. page_items v = Some items
        \<and> list_all (\<lambda>d. hd_vehicleId d = vehicleId) items
        \<and> \<not> num_less (or_number (dr_limit options) 100) (num_of_int (int (length items)))
        \<and> list_all (\<lambda>d. \<not> num_less (hd_startDateMs d) (or_number (dr_fromMs options) 0)) items
        \<and> list_all (\<lambda>d. \<not> num_geq (hd_startDateMs d) (or_number (dr_toMs options) 9007199254740991)) items
        \<and> sorted_wrt newer_first items)"

fun answer_sound :: "hub_config \<Rightarrow> process_kind \<Rightarrow> hub_value \<Rightarrow> bool" where
  "answer_sound cfg (UserCall (CurrentCall vehicleId source)) (ResponseValue r) =
     (member_of (hr_value r) (js ''vehicleId'') = Some (JStr vehicleId))"
| "answer_sound cfg (UserCall (DrivesCall vehicleId options)) (DrivesValue (DrivesPage v m)) =
     page_sound vehicleId options v"
| "answer_sound cfg (UserCall (DrivesCall vehicleId options)) (DrivesValue (DrivesNotModified m)) =
     (hm_status m = 304 \<and> hm_etag m \<noteq> None \<and> hm_etag m = dr_ifNoneMatch options)"
| "answer_sound cfg (UserCall (ClaimPairingCall i name source)) (ResponseValue r) = (asCredential (hr_value r) \<noteq> None)"
| "answer_sound cfg (UserCall (RotateDeviceCall source)) (ResponseValue r) = (asCredential (hr_value r) \<noteq> None)"
| "answer_sound cfg (SharedRead op) (ResponseValue r) =
     (member_of (hr_value r) (js ''hubId'') = Some (JStr (cf_expectedHubId cfg)))"
| "answer_sound cfg kind v = True"

section \<open>The answers of the methods\<close>

lemma numbers_finite:
  assumes "drive_of v = Some d" and "finite_numbers v"
  shows "num_is_finite (hd_startDateMs d) \<and> num_is_finite (hd_id d)"
proof -
  have "num_is_finite x" if "num_at v k = Some x" for k x
    using that assms(2) by (cases v) (auto simp: num_at_def list_all_iff split: option.splits json.splits dest!: map_of_SomeD)
  with assms(1) show ?thesis by (auto simp: drive_of_def split: option.splits)
qed

lemma finite_camelize: "finite_numbers v \<Longrightarrow> finite_numbers (camelize v)"
proof (induction v rule: camelize.induct)
  case (2 ms)
  have "finite_numbers c" if "(k, c) \<in> set (own_members (map (\<lambda>(key, child). (camel_key key, camelize child)) ms))" for k c
    using that own_members_set [of "map (\<lambda>(key, child). (camel_key key, camelize child)) ms"] 2
    by (fastforce simp: list_all_iff)
  then show ?case by (auto simp: list_all_iff)
qed (auto simp: list_all_iff)

lemma decodeHubJson_finite: "decodeHubJson source validator name = Inr v \<Longrightarrow> finite_numbers v"
  by (auto simp: decodeHubJson_Inr intro!: finite_camelize dest!: parse_keeps_numerals)

lemma ends_decoded:
  assumes "\<And>v. finite_numbers v \<Longrightarrow> ends (f v) R"
  shows "ends (bind (decodeResponse cfg response name) f) R"
  unfolding ends_def
proof (rule runs_bind)
  show "runs (\<lambda>_. True) (\<lambda>_. True) (decodeResponse cfg response name) (\<lambda>_ _. True) (\<lambda>v _. finite_numbers v) (\<lambda>_ _. True)"
    unfolding decodeResponse_def
    by (rule runs_bind [OF runs_anything], rule runs_bind [OF runs_anything], rule runs_settle)
      (auto dest: decodeHubJson_finite split: sum.split)
  show "runs (\<lambda>_. True) (\<lambda>_. finite_numbers v) (f v) (\<lambda>_ _. True) (\<lambda>x _. R x) (\<lambda>_ _. True)" for v
    using assms [of v] by (cases "finite_numbers v") (simp_all add: ends_def runs_def)
qed

lemma those_finite: "those (map drive_of vs) = Some items \<Longrightarrow> \<forall>v \<in> set vs. finite_numbers v \<Longrightarrow>
    \<forall>d \<in> set items. num_is_finite (hd_startDateMs d) \<and> num_is_finite (hd_id d)"
proof (induction vs arbitrary: items)
  case (Cons v vs)
  then show ?case using numbers_finite [of v] by (auto split: option.splits)
qed simp

lemma page_items_finite:
  assumes "page_items v = Some items" and "finite_numbers v" and "d \<in> set items"
  shows "num_is_finite (hd_startDateMs d) \<and> num_is_finite (hd_id d)"
proof -
  obtain vs where vs: "items_at v ''items'' = Some vs" "those (map drive_of vs) = Some items"
    using assms(1) by (auto simp: page_items_def split: option.splits)
  then have "\<forall>c \<in> set vs. finite_numbers c"
    using assms(2)
    by (cases v) (fastforce simp: items_at_def list_all_iff bind_eq_Some_conv elim: json_items.elims
        dest!: map_of_SomeD)+
  with those_finite [OF vs(2)] assms(3) show ?thesis by blast
qed

lemma newer_first_total:
  assumes "num_is_finite (hd_startDateMs a)" "num_is_finite (hd_id a)" "num_is_finite (hd_startDateMs b)"
    "num_is_finite (hd_id b)"
  shows "\<not> out_of_order a b \<longleftrightarrow> newer_first a b"
proof -
  have fin: "\<exists>r. x = Fin r" if "num_is_finite x" for x using that by (cases x) auto
  from assms [THEN fin] show ?thesis by (auto simp: out_of_order_def newer_first_def num_geq_def)
qed

lemma newer_first_trans:
  assumes "newer_first a b" "newer_first b c" "num_is_finite (hd_startDateMs a)" "num_is_finite (hd_id a)"
    "num_is_finite (hd_startDateMs b)" "num_is_finite (hd_id b)" "num_is_finite (hd_startDateMs c)" "num_is_finite (hd_id c)"
  shows "newer_first a c"
proof -
  have fin: "\<exists>r. x = Fin r" if "num_is_finite x" for x using that by (cases x) auto
  from assms(3-) [THEN fin] assms(1,2) show ?thesis by (auto simp: newer_first_def)
qed

lemma in_order_sorted:
  assumes "\<not> some_out_of_order items"
    and "\<forall>d \<in> set items. num_is_finite (hd_startDateMs d) \<and> num_is_finite (hd_id d)"
  shows "sorted_wrt newer_first items"
  using assms
proof (induction items rule: some_out_of_order.induct)
  case (1 a b rest)
  then have ab: "newer_first a b" "sorted_wrt newer_first (b # rest)" using newer_first_total [of a b] by auto
  have "newer_first a c" if "c \<in> set rest" for c
    using newer_first_trans [of a b c] ab that 1(3) by auto
  with ab show ?case by auto
qed auto

lemma check_page_sound:
  assumes "check_page vehicleId options items = Inr u" and "page_items v = Some items" and "finite_numbers v"
  shows "page_sound vehicleId options v"
  using assms(1) in_order_sorted page_items_finite [OF assms(2,3)] assms(2)
  by (auto simp: check_page_def page_sound_def rbind_Inr_iff list_ex_iff list_all_iff max_safe_integer_def)

lemma ends_handle: "ends m R \<Longrightarrow> (\<And>e. ends (h e) R) \<Longrightarrow> ends (handle m h) R"
  unfolding ends_def by (rule runs_handle)

lemma ends_finally: "ends m R \<Longrightarrow> ends (finally_update m f) R"
  unfolding ends_def by (rule runs_finally) auto

lemma ends_option: "(o' = None \<Longrightarrow> ends x R) \<Longrightarrow> (\<And>v. o' = Some v \<Longrightarrow> ends (f v) R) \<Longrightarrow>
    ends (case o' of None \<Rightarrow> x | Some v \<Rightarrow> f v) R"
  by (simp split: option.split)

lemma ends_result:
  assumes "ends m Q" and "\<And>x. Q x \<Longrightarrow> R (h x)"
  shows "ends (bind m (\<lambda>x. ret (h x))) R"
  unfolding ends_def
proof (rule runs_bind)
  show "runs (\<lambda>_. True) (\<lambda>_. True) m (\<lambda>_ _. True) (\<lambda>x _. Q x) (\<lambda>_ _. True)"
    using assms(1) by (simp add: ends_def)
  show "runs (\<lambda>_. True) (\<lambda>_. Q x) (ret (h x)) (\<lambda>_ _. True) (\<lambda>x _. R x) (\<lambda>_ _. True)" for x
    by (rule runs_settle) (simp add: assms(2))
qed

lemma ends_anything: "ends m (\<lambda>_. True)"
  unfolding ends_def by (rule runs_anything)

lemma ends_required: "(b \<Longrightarrow> ends (f ()) R) \<Longrightarrow> ends (bind (settle (require b e)) f) R"
  by (rule ends_settled) (simp add: require_def split: if_splits)

lemma current_ends:
  "ends (current cfg vehicleId source) (\<lambda>r. member_of (hr_value r) (js ''vehicleId'') = Some (JStr vehicleId))"
  unfolding current_def
  by (rule ends_bind, rule ends_bind, rule ends_bind, rule ends_bind, rule ends_bind, rule ends_required)
    (rule ends_value)

lemma shared_ends:
  "ends (shared_discovery cfg op) (\<lambda>r. member_of (hr_value r) (js ''hubId'') = Some (JStr (cf_expectedHubId cfg)))"
  unfolding shared_discovery_def
proof (rule ends_finally, rule ends_handle)
  show "ends (bind (hub_read cfg None hubDiscoveryPath ''HubDiscovery'' op [200]) (\<lambda>result.
      bind (assertOperation op) (\<lambda>_.
      bind (settle (require (member_of (hr_value result) (js ''hubId'') = Some (JStr (cf_expectedHubId cfg)))
          HubIdentityMismatchError)) (\<lambda>_.
      bind (update (\<lambda>s. s\<lparr>hs_discovery := Some (hr_value result), hs_bindings := []\<rparr>)) (\<lambda>_.
        ret result)))))
      (\<lambda>r. member_of (hr_value r) (js ''hubId'') = Some (JStr (cf_expectedHubId cfg)))"
    by (rule ends_bind, rule ends_bind, rule ends_required, rule ends_bind) (rule ends_value)
qed (rule ends_bind, rule ends_throw)

lemma typed_Inr: "typed v = Inr x \<longleftrightarrow> v = Some x"
  by (simp add: typed_def split: option.split)

lemma store_ends: "asCredential (hr_value result) = Some c \<Longrightarrow>
    ends (store_claim op result credential) (\<lambda>r. asCredential (hr_value r) \<noteq> None)"
  unfolding store_claim_def by (rule ends_bind, rule ends_bind, rule ends_value) simp

lemma claim_ends: "ends (claimPairing cfg i name source) (\<lambda>r. asCredential (hr_value r) \<noteq> None)"
  unfolding claimPairing_def Let_def
  by (rule ends_bind, rule ends_bind, rule ends_bind, rule ends_bind, rule ends_bind, rule ends_bind, rule ends_bind,
      rule ends_bind, rule ends_bind, rule ends_bind, rule ends_settled, rule ends_bind, rule store_ends)
    (simp add: typed_Inr)

lemma rotate_ends: "ends (rotateDevice cfg source) (\<lambda>r. asCredential (hr_value r) \<noteq> None)"
  unfolding rotateDevice_def
  by (rule ends_bind, rule ends_bind, rule ends_bind, rule ends_bind, rule ends_option, rule ends_throw,
      rule ends_bind, rule ends_bind, rule ends_bind, rule ends_settled, rule ends_bind, rule ends_bind, rule store_ends)
    (simp add: typed_Inr)

lemma metadata_tag:
  assumes "responseMetadata response True = Inr m"
  shows "hm_status m = r_status response \<and> hm_etag m \<noteq> None"
  using assms by (auto simp: responseMetadata_def Let_def rbind_Inr_iff require_def optional_def split: if_splits option.splits)

lemma decode_drives_ends:
  "ends (decode_drives cfg vehicleId options op binding response)
     (\<lambda>r. answer_sound cfg (UserCall (DrivesCall vehicleId options)) (DrivesValue r))"
  (is "ends _ ?R")
proof -
  have page: "ends (bind (settle (typed (page_items v))) (\<lambda>items.
      bind (settle (check_page vehicleId options items)) (\<lambda>_.
      bind (settle (typed (page_cursor v))) (\<lambda>nextCursor.
      bind (update (\<lambda>s. case nextCursor of None \<Rightarrow> s
          | Some c \<Rightarrow> s\<lparr>hs_bindings := set_member c binding (hs_bindings s)\<rparr>)) (\<lambda>_.
        ret (DrivesPage v m)))))) ?R"
    if "finite_numbers v" for v m
    by (rule ends_settled, rule ends_settled, rule ends_bind, rule ends_bind, rule ends_value)
      (use check_page_sound [OF _ _ that] in \<open>auto simp: typed_Inr\<close>)
  show ?thesis
    unfolding decode_drives_def
  proof (rule ends_owning, rule ends_bind, rule ends_if, rule ends_hub_error, rule ends_bind, rule ends_settled)
    fix m
    assume m: "responseMetadata response True = Inr m"
    show "ends (if r_status response = 304
        then bind (settle (require (dr_ifNoneMatch options \<noteq> None \<and> hm_etag m = dr_ifNoneMatch options)
              (ProtocolValidationError ''HubDrives.304.condition''))) (\<lambda>_.
            bind (await_unit (EmptyBody response ''HubDrives.304'')) (\<lambda>_.
            bind (assertOperation op) (\<lambda>_. ret (DrivesNotModified m))))
        else bind (decodeResponse cfg response ''HubDrives'') (\<lambda>v.
            bind (assertOperation op) (\<lambda>_.
            bind (settle (typed (page_items v))) (\<lambda>items.
            bind (settle (check_page vehicleId options items)) (\<lambda>_.
            bind (settle (typed (page_cursor v))) (\<lambda>nextCursor.
            bind (update (\<lambda>s. case nextCursor of None \<Rightarrow> s
                | Some c \<Rightarrow> s\<lparr>hs_bindings := set_member c binding (hs_bindings s)\<rparr>)) (\<lambda>_.
              ret (DrivesPage v m)))))))) ?R"
    proof (rule ends_if)
      assume "r_status response = 304"
      then show "ends (bind (settle (require (dr_ifNoneMatch options \<noteq> None \<and> hm_etag m = dr_ifNoneMatch options)
            (ProtocolValidationError ''HubDrives.304.condition''))) (\<lambda>_.
          bind (await_unit (EmptyBody response ''HubDrives.304'')) (\<lambda>_.
          bind (assertOperation op) (\<lambda>_. ret (DrivesNotModified m))))) ?R"
        by (intro ends_required) (rule ends_bind, rule ends_bind, rule ends_value, use metadata_tag [OF m] in simp)
    qed (rule ends_decoded, rule ends_bind, rule page)
  qed
qed

lemma drives_ends:
  "ends (drives cfg vehicleId options) (\<lambda>r. answer_sound cfg (UserCall (DrivesCall vehicleId options)) (DrivesValue r))"
  unfolding drives_def Let_def
  by (rule ends_bind, rule ends_bind, rule ends_bind, rule ends_bind, rule ends_bind, rule ends_bind, rule ends_bind,
      rule ends_bind, rule ends_bind, rule decode_drives_ends)

lemma process_ends: "ends (process_prog cfg kind) (answer_sound cfg kind)"
proof (cases kind)
  case (UserCall c)
  show ?thesis
    unfolding UserCall process_prog.simps
    by (cases c; simp only: perform.simps)
      (rule ends_result [OF current_ends] ends_result [OF drives_ends] ends_result [OF claim_ends]
        ends_result [OF rotate_ends] ends_result [OF ends_anything]; simp)+
next
  case (SharedRead op)
  show ?thesis unfolding SharedRead process_prog.simps by (rule ends_result [OF shared_ends]) simp
qed

definition answers :: "hub_config \<Rightarrow> process_kind \<Rightarrow> nat \<Rightarrow> hub_value task \<Rightarrow> hub_state \<Rightarrow> bool" where
  "answers cfg kind g t s \<longleftrightarrow> (\<forall>v. t = Settled (Inr v) \<longrightarrow> answer_sound cfg kind v)"

lemma process_answers: "stays (\<lambda>_. True) (answers cfg kind g) (process_prog cfg kind s)"
proof -
  have "stays (\<lambda>_. True) (stops (\<lambda>_ _. True) (\<lambda>x _. answer_sound cfg kind x) (\<lambda>_ _. True)) (process_prog cfg kind s)"
    using process_ends [of cfg kind] by (simp add: ends_def runs_def)
  moreover have "answers cfg kind g t s'" if "stops (\<lambda>_ _. True) (\<lambda>x _. answer_sound cfg kind x) (\<lambda>_ _. True) t s'" for t s'
    using that by (cases t) (auto simp: answers_def)
  ultimately show ?thesis
    unfolding stays_def using keeps_mono [where I = "\<lambda>_. True"] by blast
qed

interpretation answers_world: hub_world_contract cfg "\<lambda>_. True" "answers cfg" for cfg
  by unfold_locales (simp_all add: process_answers)

text \<open>C23: whatever the Hub, the store and the transport answer, and whatever runs in between, a
  method that succeeds answers what it was asked: \<^verbatim>\<open>current\<close> the vehicle of the call, a
  page of \<^verbatim>\<open>drives\<close> only drives of that vehicle, at most the limit, inside the time
  range, strictly newest first; a 304 only with the tag of the condition; a claim one that is a
  credential; and the shared discovery the Hub the client was created for.\<close>

theorem hub_answers_sound:
  assumes "hub_reachable cfg w" and "p \<in> set (w_processes w)" and "pr_task p = Settled (Inr v)"
  shows "answer_sound cfg (pr_kind p) v"
proof -
  have "process_ok (\<lambda>_. True) (answers cfg) p"
    using answers_world.reachable_ok [OF assms(1)] assms(2) by (simp add: answers_world.world_ok_def list_all_iff)
  with assms(3) show ?thesis by (auto simp: process_ok_def answers_def)
qed

theorem hub_answers_sound_witness:
  "\<exists>w p. hub_reachable sample_hub_config w \<and> p \<in> set (w_processes w)
     \<and> answer_sound sample_hub_config (pr_kind p) (ResponseValue sample_known)"
proof -
  obtain w where w: "hub_reachable sample_hub_config w" "length (w_processes w) = 2"
      "pr_task (w_processes w ! 1) = Settled (Inr (ResponseValue sample_known))"
    using sample_reachable by metis
  then have "w_processes w ! 1 \<in> set (w_processes w)" by simp
  with w hub_answers_sound [OF w(1) this w(3)] show ?thesis by blast
qed

end
