(* ===== verification/HubMutations.thy ===== *)
theory HubMutations
  imports HubSample
begin

text \<open>
  The chain of credential mutations of a Hub client is a lock with tickets. A task is outside, waits
  with a ticket or holds the lock (\<open>turn\<close>); what it does to the chain leaves the tickets of the other
  tasks where they are. From that the reachable worlds get their invariant: at most one process saves
  or clears credentials, and the ones that wait do so in the order they came.
\<close>

section \<open>Turns\<close>

datatype turn = Outside | Waiting nat | Holding nat

fun tickets_of :: "turn \<Rightarrow> nat set" where
  "tickets_of Outside = {}"
| "tickets_of (Waiting t) = {t}"
| "tickets_of (Holding t) = {t}"

text \<open>The chain is in the order of the tickets, all of them handed out before.\<close>

definition chain_ok :: "hub_state \<Rightarrow> bool" where
  "chain_ok s \<longleftrightarrow> sorted_wrt (<) (hs_mutations s) \<and> list_all (\<lambda>t. t < hs_tickets s) (hs_mutations s)"

definition first_is :: "nat \<Rightarrow> hub_state \<Rightarrow> bool" where
  "first_is t s \<longleftrightarrow> hs_mutations s \<noteq> [] \<and> hd (hs_mutations s) = t"

fun has_turn :: "turn \<Rightarrow> hub_state \<Rightarrow> bool" where
  "has_turn Outside s = chain_ok s"
| "has_turn (Waiting t) s = (chain_ok s \<and> t \<in> set (hs_mutations s))"
| "has_turn (Holding t) s = (chain_ok s \<and> first_is t s)"

text \<open>What a task with these turns before and after may have done to the state.\<close>

definition leaves :: "turn \<Rightarrow> hub_state \<Rightarrow> turn \<Rightarrow> hub_state \<Rightarrow> bool" where
  "leaves u s v s' \<longleftrightarrow>
     hs_tickets s \<le> hs_tickets s' \<and> tickets_of v \<subseteq> tickets_of u \<union> {hs_tickets s ..< hs_tickets s'}
     \<and> (\<forall>t. t < hs_tickets s \<longrightarrow> t \<notin> tickets_of u \<longrightarrow>
          (t \<in> set (hs_mutations s) \<longrightarrow> t \<in> set (hs_mutations s')) \<and> (first_is t s \<longrightarrow> first_is t s'))"

lemma leaves_refl: "leaves u s u s"
  by (simp add: leaves_def)

lemma leaves_trans: "leaves u s v s' \<Longrightarrow> leaves v s' w s'' \<Longrightarrow> leaves u s w s''"
  unfolding leaves_def by (auto simp: subset_iff) (meson leD order.trans less_le_trans)+

lemma turn_chain: "has_turn u s \<Longrightarrow> chain_ok s"
  by (cases u) simp_all

lemma owned_handed_out: "has_turn u s \<Longrightarrow> t \<in> tickets_of u \<Longrightarrow> t < hs_tickets s"
  by (cases u) (auto simp: chain_ok_def list_all_iff first_is_def)

lemma turn_others:
  assumes "has_turn o' s" and "leaves u s v s'" and "tickets_of o' \<inter> tickets_of u = {}" and "chain_ok s'"
  shows "has_turn o' s'"
  using assms owned_handed_out [OF assms(1)] by (cases o') (auto simp: leaves_def)

lemma owned_apart:
  assumes "has_turn o' s" and "leaves u s v s'" and "tickets_of o' \<inter> tickets_of u = {}"
  shows "tickets_of o' \<inter> tickets_of v = {}"
  using assms owned_handed_out [OF assms(1)] by (fastforce simp: leaves_def)

section \<open>Tasks that keep their turn\<close>

text \<open>What a task may wait for.\<close>

fun may_wait :: "turn \<Rightarrow> hub_wait \<Rightarrow> bool" where
  "may_wait u (UnitWait (SaveCredential c)) = (\<exists>t. u = Holding t)"
| "may_wait u (UnitWait ClearCredentials) = (\<exists>t. u = Holding t)"
| "may_wait u (UnitWait (MutationTurn t)) = (u = Waiting t)"
| "may_wait u _ = True"

fun granted :: "unit_wait \<Rightarrow> hub_state \<Rightarrow> bool" where
  "granted (MutationTurn t) s = first_is t s"
| "granted _ s = True"

primrec tracks :: "turn \<Rightarrow> 'a task \<Rightarrow> turn \<Rightarrow> bool" where
  "tracks v (Settled r) u = (u = v)"
| "tracks v (AwaitUnit w k) u = (may_wait u (UnitWait w) \<and> (\<forall>a s. has_turn u s \<longrightarrow> granted w s \<longrightarrow>
     (\<exists>u'. leaves u s u' (snd (k a s)) \<and> has_turn u' (snd (k a s)) \<and> fst (map_prod (tracks v) id (k a s)) u')))"
| "tracks v (AwaitCredential k) u = (\<forall>a s. has_turn u s \<longrightarrow>
     (\<exists>u'. leaves u s u' (snd (k a s)) \<and> has_turn u' (snd (k a s)) \<and> fst (map_prod (tracks v) id (k a s)) u'))"
| "tracks v (AwaitResponse w k) u = (\<forall>a s. has_turn u s \<longrightarrow>
     (\<exists>u'. leaves u s u' (snd (k a s)) \<and> has_turn u' (snd (k a s)) \<and> fst (map_prod (tracks v) id (k a s)) u'))"
| "tracks v (AwaitText response name k) u = (\<forall>a s. has_turn u s \<longrightarrow>
     (\<exists>u'. leaves u s u' (snd (k a s)) \<and> has_turn u' (snd (k a s)) \<and> fst (map_prod (tracks v) id (k a s)) u'))"
| "tracks v (AwaitDiscovery shared op k) u = (\<forall>a s. has_turn u s \<longrightarrow>
     (\<exists>u'. leaves u s u' (snd (k a s)) \<and> has_turn u' (snd (k a s)) \<and> fst (map_prod (tracks v) id (k a s)) u'))"

text \<open>From the turn \<open>u\<close> in the state \<open>s\<close> to that task and state, ending in the turn \<open>v\<close>.\<close>

definition goes :: "turn \<Rightarrow> hub_state \<Rightarrow> 'a task \<times> hub_state \<Rightarrow> turn \<Rightarrow> bool" where
  "goes u s r v \<longleftrightarrow> (\<exists>u'. leaves u s u' (snd r) \<and> has_turn u' (snd r) \<and> tracks v (fst r) u')"

lemma tracks_simps [simp]:
  "tracks v (AwaitUnit w ku) u \<longleftrightarrow>
     may_wait u (UnitWait w) \<and> (\<forall>a s. has_turn u s \<longrightarrow> granted w s \<longrightarrow> goes u s (ku a s) v)"
  "tracks v (AwaitCredential kc) u \<longleftrightarrow> (\<forall>a s. has_turn u s \<longrightarrow> goes u s (kc a s) v)"
  "tracks v (AwaitResponse wr kr) u \<longleftrightarrow> (\<forall>a s. has_turn u s \<longrightarrow> goes u s (kr a s) v)"
  "tracks v (AwaitText response name kt) u \<longleftrightarrow> (\<forall>a s. has_turn u s \<longrightarrow> goes u s (kt a s) v)"
  "tracks v (AwaitDiscovery shared op kd) u \<longleftrightarrow> (\<forall>a s. has_turn u s \<longrightarrow> goes u s (kd a s) v)"
  by (simp_all add: goes_def)

declare tracks.simps(2-6) [simp del]

lemma goes_trans: "leaves u s v s' \<Longrightarrow> goes v s' r w \<Longrightarrow> goes u s r w"
  unfolding goes_def using leaves_trans by blast

lemma goes_settled: "has_turn v s' \<Longrightarrow> leaves u s v s' \<Longrightarrow> goes u s (Settled r, s') v"
  by (auto simp: goes_def)

lemma goes_at: "has_turn u s \<Longrightarrow> goes u s (t, s) v \<longleftrightarrow> (\<exists>u'. leaves u s u' s \<and> has_turn u' s \<and> tracks v t u')"
  by (simp add: goes_def)

definition turns :: "turn \<Rightarrow> 'a prog \<Rightarrow> turn \<Rightarrow> bool" where
  "turns u m v \<longleftrightarrow> (\<forall>s. has_turn u s \<longrightarrow> goes u s (m s) v)"

lemma goes_follow:
  assumes "goes u s (m s) v"
    and "\<And>u'. has_turn u' (snd (m s)) \<Longrightarrow> tracks v (fst (m s)) u' \<Longrightarrow>
      goes u' (snd (m s)) (after_task f (fst (m s)) (snd (m s))) w"
  shows "goes u s (follow m f s) w"
  using assms unfolding goes_def [of u s "m s"] by (auto simp: follow_def split_beta intro: goes_trans)

lemma goes_here: "has_turn u s \<Longrightarrow> tracks v t u \<Longrightarrow> goes u s (t, s) v"
  by (auto simp: goes_def intro!: exI [of _ u] leaves_refl)

lemma after_task_goes:
  assumes f: "\<And>r s. has_turn v s \<Longrightarrow> goes v s (f r s) w"
  shows "tracks v t u \<Longrightarrow> has_turn u s \<Longrightarrow> goes u s (after_task f t s) w"
proof (induction t arbitrary: u s)
  case (Settled r)
  then show ?case using f by simp
next
  case (AwaitUnit x k)
  have "goes u s' (follow (k a) f s') w" if "has_turn u s'" "granted x s'" for a s'
    using AwaitUnit.prems(1) that AwaitUnit.IH [of "k a" "k a s'" "fst (k a s')"] by (intro goes_follow) auto
  with AwaitUnit.prems show ?case by (simp add: goes_here)
next
  case (AwaitCredential k)
  have "goes u s' (follow (k a) f s') w" if "has_turn u s'" for a s'
    using AwaitCredential.prems(1) that AwaitCredential.IH [of "k a" "k a s'" "fst (k a s')"]
    by (intro goes_follow) auto
  with AwaitCredential.prems show ?case by (simp add: goes_here)
next
  case (AwaitResponse x k)
  have "goes u s' (follow (k a) f s') w" if "has_turn u s'" for a s'
    using AwaitResponse.prems(1) that AwaitResponse.IH [of "k a" "k a s'" "fst (k a s')"]
    by (intro goes_follow) auto
  with AwaitResponse.prems show ?case by (simp add: goes_here)
next
  case (AwaitText response name k)
  have "goes u s' (follow (k a) f s') w" if "has_turn u s'" for a s'
    using AwaitText.prems(1) that AwaitText.IH [of "k a" "k a s'" "fst (k a s')"] by (intro goes_follow) auto
  with AwaitText.prems show ?case by (simp add: goes_here)
next
  case (AwaitDiscovery shared op k)
  have "goes u s' (follow (k a) f s') w" if "has_turn u s'" for a s'
    using AwaitDiscovery.prems(1) that AwaitDiscovery.IH [of "k a" "k a s'" "fst (k a s')"]
    by (intro goes_follow) auto
  with AwaitDiscovery.prems show ?case by (simp add: goes_here)
qed

section \<open>The rules\<close>

named_theorems turn_rules

lemma turns_follow:
  assumes "turns u m v" and "\<And>r. turns v (f r) w"
  shows "turns u (follow m f) w"
  unfolding turns_def
proof (intro allI impI)
  fix s assume "has_turn u s"
  then have "goes u s (m s) v" using assms(1) by (simp add: turns_def)
  then show "goes u s (follow m f s) w"
    by (rule goes_follow) (use assms(2) in \<open>auto simp: turns_def intro: after_task_goes\<close>)
qed

lemma turns_settle [turn_rules]: "turns u (settle r) u"
  by (simp add: turns_def settle_def goes_here)

lemma turns_check [turn_rules]: "turns u (check_state f) u"
  by (simp add: turns_def check_state_def settle_def goes_here)

lemma turns_bind [turn_rules]: "turns u m v \<Longrightarrow> (\<And>x. turns v (f x) v) \<Longrightarrow> turns u (bind m f) v"
  unfolding bind_def by (rule turns_follow) (auto split: sum.split intro: turns_settle)

lemma turns_handle [turn_rules]: "turns u m v \<Longrightarrow> (\<And>e. turns v (h e) v) \<Longrightarrow> turns u (handle m h) v"
  unfolding handle_def by (rule turns_follow) (auto split: sum.split intro: turns_settle)

definition same_chain :: "(hub_state \<Rightarrow> hub_state) \<Rightarrow> bool" where
  "same_chain f \<longleftrightarrow> (\<forall>s. hs_mutations (f s) = hs_mutations s \<and> hs_tickets (f s) = hs_tickets s)"

lemma same_chain_turn: "same_chain f \<Longrightarrow> has_turn u (f s) = has_turn u s"
  by (cases u) (auto simp: same_chain_def chain_ok_def first_is_def)

lemma same_chain_leaves: "same_chain f \<Longrightarrow> leaves u s u (f s)"
  by (auto simp: same_chain_def leaves_def first_is_def)

lemma turns_update [turn_rules]: "same_chain f \<Longrightarrow> turns u (update f) u"
  by (auto simp: turns_def update_def settle_def same_chain_turn intro!: goes_settled same_chain_leaves)

lemma turns_finally [turn_rules]:
  assumes "turns u m v" and "turns v (update f) w"
  shows "turns u (finally_update m f) w"
  unfolding finally_update_def bind_def
  using assms by (auto intro!: turns_follow [of _ m v] turns_follow [of _ "update f" w] turns_settle split: sum.split)

lemma turns_awaits [turn_rules]:
  "turns u await_credential u" "turns u (await_response w) u" "turns u (await_text response name) u"
  "turns u (await_discovery shared op) u" "turns u (await_unit (EmptyBody response name)) u"
  by (auto simp: turns_def await_credential_def await_response_def await_text_def await_discovery_def
      await_unit_def settle_def intro!: goes_here)

lemma turns_mutates [turn_rules]:
  "turns (Holding t) (await_unit (SaveCredential c)) (Holding t)"
  "turns (Holding t) (await_unit ClearCredentials) (Holding t)"
  by (auto simp: turns_def await_unit_def settle_def intro!: goes_here)

lemma turns_granted: "turns (Waiting t) (await_unit (MutationTurn t)) (Holding t)"
  unfolding turns_def
proof (intro allI impI)
  fix s assume s: "has_turn (Waiting t) s"
  have "goes (Waiting t) s' (Settled r, s') (Holding t)" if "has_turn (Waiting t) s'" "first_is t s'" for r :: "unit result" and s'
    using that by (intro goes_settled) (auto simp: leaves_def)
  with s show "goes (Waiting t) s (await_unit (MutationTurn t) s) (Holding t)"
    unfolding await_unit_def settle_def by (intro goes_here) auto
qed

lemma turns_leave: "turns (Holding t) (update (leave_queue t)) Outside"
  unfolding turns_def
proof (intro allI impI)
  fix s assume s: "has_turn (Holding t) s"
  then have "chain_ok (leave_queue t s)"
    by (auto simp: chain_ok_def leave_queue_def list_all_iff sorted_wrt_filter)
  moreover have "leaves (Holding t) s Outside (leave_queue t s)"
    using s by (cases "hs_mutations s") (auto simp: leaves_def leave_queue_def first_is_def)
  ultimately show "goes (Holding t) s (update (leave_queue t) s) Outside"
    by (auto simp: update_def settle_def intro!: goes_settled)
qed

lemma turns_enqueue [turn_rules]:
  assumes "\<And>t. turns (Holding t) m (Holding t)"
  shows "turns Outside (enqueueCredentialMutation m) Outside"
  unfolding turns_def
proof (intro allI impI)
  fix s assume s: "has_turn Outside s"
  let ?t = "hs_tickets s"
  let ?s = "s\<lparr>hs_tickets := Suc ?t, hs_mutations := hs_mutations s @ [?t]\<rparr>"
  let ?m = "finally_update (bind (handle (await_unit (MutationTurn ?t)) (\<lambda>_. ret ())) (\<lambda>_. m)) (leave_queue ?t)"
  have "enqueueCredentialMutation m s = ?m ?s"
    by (simp add: enqueueCredentialMutation_def bind_def follow_def check_state_def update_def settle_def)
  moreover have "has_turn (Waiting ?t) ?s"
    using s by (auto simp: chain_ok_def list_all_iff sorted_wrt_append)
  moreover have "leaves Outside s (Waiting ?t) ?s"
    by (auto simp: leaves_def first_is_def)
  moreover have "turns (Waiting ?t) ?m Outside"
    by (rule turns_finally, rule turns_bind, rule turns_handle, rule turns_granted, rule turns_settle,
        rule assms, rule turns_leave)
  ultimately show "goes Outside s (enqueueCredentialMutation m s) Outside"
    by (simp only: turns_def) (blast intro: goes_trans)
qed

section \<open>The parts of the methods\<close>

lemma turns_if [turn_rules]: "turns u x v \<Longrightarrow> turns u y v \<Longrightarrow> turns u (if b then x else y) v"
  by simp

lemma turns_option [turn_rules]:
  "turns u x v \<Longrightarrow> (\<And>y. turns u (f y) v) \<Longrightarrow> turns u (case o' of None \<Rightarrow> x | Some y \<Rightarrow> f y) v"
  by (simp split: option.split)

lemma turns_sum [turn_rules]:
  "(\<And>e. turns u (f e) v) \<Longrightarrow> (\<And>y. turns u (h y) v) \<Longrightarrow> turns u (case r of Inl e \<Rightarrow> f e | Inr y \<Rightarrow> h y) v"
  by (simp split: sum.split)

lemma same_chains [turn_rules]:
  "same_chain (clear_pending op)" "same_chain (leave_discovery op)" "same_chain (join_discovery op)"
  by (auto simp: same_chain_def clear_pending_def leave_discovery_def join_discovery_def abort_source_def
      abort_signals_def split: option.splits)

lemma turns_operation [turn_rules]: "turns u (assertOperation op) u" "turns u (signal_check op) u"
  unfolding assertOperation_def signal_check_def by (rule turn_rules)+

lemma turns_operation_or [turn_rules]: "turns u (operation_or op e) u"
  unfolding operation_or_def by (rule turn_rules)+

lemma turns_begin [turn_rules]: "turns u (beginOperation source) u"
  unfolding beginOperation_def by (rule turn_rules | simp add: same_chain_def)+

lemma turns_load [turn_rules]: "turns u (loadCredential op) u"
  unfolding loadCredential_def by (rule turn_rules)+

lemma turns_save [turn_rules]: "turns Outside (saveCredential credential op) Outside"
  unfolding saveCredential_def by (rule turn_rules)+

lemma turns_authenticate [turn_rules]: "turns u (authenticate op given) u"
  unfolding authenticate_def by (rule turn_rules)+

lemma turns_request [turn_rules]:
  "turns u (hub_request cfg op None verb path hs body) u"
  "turns u (hub_request cfg op (Some (authenticate op' given)) verb path hs body) u"
  unfolding hub_request_def option.case by (rule turn_rules)+

lemma turns_owning [turn_rules]: "turns u m u \<Longrightarrow> turns u (owning response m) u"
  unfolding owning_def by (rule turn_rules | assumption | simp add: same_chain_def)+

lemma turns_decode [turn_rules]: "turns u (readBody response name) u" "turns u (decodeResponse cfg response name) u"
  unfolding decodeResponse_def readBody_def by (rule turn_rules)+

lemma turns_errors [turn_rules]:
  "turns u (throwHubError cfg response route op) u" "turns u (throwClaimExtractorError response op) u"
  unfolding throwHubError_def throwClaimExtractorError_def by (rule turn_rules)+

lemma turns_read [turn_rules]:
  "turns u (hub_read cfg None path name op statuses) u"
  "turns u (hub_read cfg (Some (authenticate op' given)) path name op statuses) u"
  unfolding hub_read_def by (rule turn_rules)+

lemma turns_discovery [turn_rules]:
  "turns u (shared_discovery cfg op) u" "turns u start_discovery u" "turns u (waitForDiscovery shared op) u"
  unfolding shared_discovery_def start_discovery_def waitForDiscovery_def
  by (rule turn_rules | simp add: same_chain_def)+

lemma turns_discover [turn_rules]: "turns u (discover op) u"
  unfolding discover_def by (rule turn_rules)+

lemma turns_ensure [turn_rules]: "turns u (ensureDiscovery op) u"
  unfolding ensureDiscovery_def by (rule turn_rules)+

lemma turns_capability [turn_rules]: "turns u (hubRequireCapability capability op) u"
  unfolding hubRequireCapability_def by (rule turn_rules)+

lemma turns_claims [turn_rules]:
  "turns u (decodeClaimResponse cfg response op claiming) u"
  "turns Outside (store_claim op result credential) Outside"
  unfolding decodeClaimResponse_def store_claim_def by (rule turn_rules)+

lemma turns_write [turn_rules]: "turns u (writeClaim cfg (authenticate op' given) path body op claiming) u"
  unfolding writeClaim_def by (rule turn_rules)+

lemma turns_decode_drives [turn_rules]: "turns u (decode_drives cfg vehicleId options op binding response) u"
  unfolding decode_drives_def by (rule turn_rules | simp add: same_chain_def split: option.split)+

lemma turns_methods:
  "turns Outside (health cfg source) Outside" "turns Outside (readiness cfg source) Outside"
  "turns Outside (discover_method source) Outside"
  "turns Outside (claimPairing cfg invitation deviceName source) Outside"
  "turns Outside (rotateDevice cfg source) Outside" "turns Outside (vehicles cfg source) Outside"
  "turns Outside (current cfg vehicleId source) Outside" "turns Outside (drives cfg vehicleId options) Outside"
  unfolding health_def readiness_def discover_method_def claimPairing_def rotateDevice_def vehicles_def
    current_def drives_def Let_def
  by (rule turn_rules)+

lemma same_chain_end: "same_chain end_session"
  by (auto simp: same_chain_def end_session_def abort_session_def abort_signals_def)

lemma turns_ends: "turns Outside logout Outside" "turns Outside dispose Outside"
  unfolding logout_def dispose_def
  by (rule turn_rules same_chain_end | use same_chain_end in \<open>simp add: same_chain_def\<close>)+

lemma process_turns: "turns Outside (process_prog cfg kind) Outside"
proof (cases kind)
  case (UserCall c)
  then show ?thesis by (cases c) (simp_all add: turns_bind turns_settle turns_methods turns_ends)
qed (simp add: turns_bind turns_settle turns_discovery)

section \<open>Worlds\<close>

text \<open>Every task has a turn, and no ticket belongs to two.\<close>

definition hold_turns :: "hub_state \<Rightarrow> hub_value task list \<Rightarrow> turn list \<Rightarrow> bool" where
  "hold_turns s ts us \<longleftrightarrow>
     chain_ok s \<and> list_all2 (\<lambda>t u. tracks Outside t u \<and> has_turn u s) ts us
     \<and> (\<forall>i < length us. \<forall>j < length us. i \<noteq> j \<longrightarrow> tickets_of (us ! i) \<inter> tickets_of (us ! j) = {})"

definition tasks :: "hub_world \<Rightarrow> hub_value task list" where
  "tasks w = map pr_task (w_processes w)"

definition world_turns :: "hub_world \<Rightarrow> bool" where
  "world_turns w \<longleftrightarrow> (\<exists>us. hold_turns (w_state w) (tasks w) us)"

lemma hold_turns_move:
  assumes "hold_turns s ts us" and "i < length us" and "leaves (us ! i) s v s'" and "has_turn v s'"
    and "tracks Outside t v"
  shows "hold_turns s' (ts[i := t]) (us[i := v])"
  unfolding hold_turns_def
proof (intro conjI allI impI)
  have len: "length ts = length us" and turn: "\<And>j. j < length us \<Longrightarrow> tracks Outside (ts ! j) (us ! j) \<and> has_turn (us ! j) s"
    using assms(1) by (auto simp: hold_turns_def list_all2_conv_all_nth)
  have apart: "tickets_of (us ! j) \<inter> tickets_of (us ! i) = {}" if "j < length us" "j \<noteq> i" for j
    using assms(1,2) that by (simp add: hold_turns_def)
  show "chain_ok s'" using assms(4) by (rule turn_chain)
  then have other: "has_turn (us ! j) s'" if "j < length us" "j \<noteq> i" for j
    using turn_others [OF _ assms(3)] turn apart that by blast
  show "list_all2 (\<lambda>t u. tracks Outside t u \<and> has_turn u s') (ts[i := t]) (us[i := v])"
    using len turn other assms(2,4,5) by (auto simp: list_all2_conv_all_nth nth_list_update)
  have away: "tickets_of (us ! j) \<inter> tickets_of v = {}" if "j < length us" "j \<noteq> i" for j
    using owned_apart [OF _ assms(3)] turn apart that by blast
  fix j k assume jk: "j < length (us[i := v])" "k < length (us[i := v])" "j \<noteq> k"
  consider "j = i" | "k = i" | "j \<noteq> i" "k \<noteq> i" by blast
  then show "tickets_of (us[i := v] ! j) \<inter> tickets_of (us[i := v] ! k) = {}"
  proof cases
    case 1
    with jk away [of k] show ?thesis by auto
  next
    case 2
    with jk away [of j] show ?thesis by auto
  next
    case 3
    with jk assms(1) show ?thesis by (simp add: hold_turns_def)
  qed
qed

lemma hold_turns_new:
  assumes "hold_turns s ts us"
  shows "hold_turns s (ts @ [Settled r]) (us @ [Outside])"
  using assms
  by (auto simp: hold_turns_def list_all2_appendI nth_append less_Suc_eq)

lemma hold_turns_same: "same_chain f \<Longrightarrow> hold_turns (f s) ts us = hold_turns s ts us"
  using same_chain_turn [of f Outside s] by (simp add: hold_turns_def same_chain_turn)

lemma world_turns_start:
  assumes "world_turns w"
  shows "world_turns (start_process cfg kind w)"
proof -
  obtain us where us: "hold_turns (w_state w) (tasks w) us" using assms by (auto simp: world_turns_def)
  then have len: "length us = length (tasks w)" and "has_turn Outside (w_state w)"
    by (auto simp: hold_turns_def list_all2_lengthD)
  then have "goes Outside (w_state w) (process_prog cfg kind (w_state w)) Outside"
    using process_turns by (simp add: turns_def)
  then obtain v where "leaves Outside (w_state w) v (snd (process_prog cfg kind (w_state w)))"
      "has_turn v (snd (process_prog cfg kind (w_state w)))"
      "tracks Outside (fst (process_prog cfg kind (w_state w))) v"
    by (auto simp: goes_def)
  then have "hold_turns (snd (process_prog cfg kind (w_state w)))
      (tasks w @ [fst (process_prog cfg kind (w_state w))]) (us @ [v])"
    using hold_turns_move [OF hold_turns_new [OF us], of "length us"] len
    by (simp add: nth_append list_update_append)
  then show ?thesis
    by (auto simp: world_turns_def start_process_def tasks_def split_beta Let_def simp del: process_prog.simps)
qed

lemma world_turns_same: "same_chain f \<Longrightarrow> world_turns (w\<lparr>w_state := f (w_state w)\<rparr>) = world_turns w"
  by (simp add: world_turns_def tasks_def hold_turns_same)

lemma world_turns_shared:
  assumes "world_turns w"
  shows "world_turns (start_shared cfg w)"
proof -
  have all: "world_turns w \<Longrightarrow> world_turns (foldl (\<lambda>w op. start_process cfg (SharedRead op) w) w ops)" for w ops
    by (induction ops arbitrary: w) (auto intro: world_turns_start)
  have "same_chain (\<lambda>s. s\<lparr>hs_started := []\<rparr>)" by (simp add: same_chain_def)
  from world_turns_same [OF this] assms show ?thesis unfolding start_shared_def by (intro all) simp
qed

lemma resume_goes:
  assumes "resume w answer t = Some r" and "has_turn u (w_state w)" and "tracks v t u"
  shows "goes u (w_state w) r v"
proof (cases t)
  case (AwaitUnit x k)
  then obtain a where a: "unit_answer x answer (w_state w) = Some a" "r = k a (w_state w)"
    using assms(1) by (auto simp: resume_def Let_def)
  then have "granted x (w_state w)"
    by (cases x; cases answer) (auto simp: first_is_def split: list.splits if_splits)
  with a(2) assms(2,3) AwaitUnit show ?thesis by simp
qed (use assms in \<open>auto simp: resume_def Let_def split: hub_answer.splits read_end.splits if_splits\<close>)

lemma world_turns_answer:
  assumes "world_turns w" and "i < length (w_processes w)"
    and "resume w answer (pr_task (w_processes w ! i)) = Some (t, s)"
  shows "world_turns (w\<lparr>w_state := s, w_processes := (w_processes w)[i := (w_processes w ! i)\<lparr>pr_task := t\<rparr>]\<rparr>)"
proof -
  obtain us where us: "hold_turns (w_state w) (tasks w) us" using assms(1) by (auto simp: world_turns_def)
  then have i: "i < length us" "tracks Outside (pr_task (w_processes w ! i)) (us ! i)" "has_turn (us ! i) (w_state w)"
    using assms(2) by (auto simp: hold_turns_def list_all2_conv_all_nth tasks_def)
  from resume_goes [OF assms(3) i(3,2)] obtain v where
    v: "leaves (us ! i) (w_state w) v s" "has_turn v s" "tracks Outside t v"
    by (auto simp: goes_def)
  from hold_turns_move [OF us i(1) v] show ?thesis
    by (auto simp: world_turns_def tasks_def map_update)
qed

lemma reachable_turns: "hub_reachable cfg w \<Longrightarrow> world_turns w"
proof (induction rule: hub_reachable.induct)
  case (hub_start owner now)
  then show ?case
    by (auto simp: world_turns_def initial_world_def initial_hub_state_def tasks_def hold_turns_def chain_ok_def
        intro!: exI [of _ "[]"])
next
  case (hub_next w ev w')
  show ?case
  proof (cases ev)
    case (CallEvent c)
    then show ?thesis using hub_next by (auto intro: world_turns_shared world_turns_start)
  next
    case (AnswerEvent i answer)
    then show ?thesis
      using hub_next by (auto split: if_splits intro!: world_turns_shared world_turns_answer)
  next
    case (AbortCaller n reason)
    have "same_chain (abort_source (CallerSignal n) reason)"
      by (simp add: same_chain_def abort_source_def abort_signals_def)
    from world_turns_same [OF this] AbortCaller hub_next show ?thesis by auto
  next
    case (AbortOwner reason)
    have "same_chain (abort_owner reason)" by (simp add: same_chain_def abort_owner_def abort_signals_def)
    from world_turns_same [OF this] AbortOwner hub_next show ?thesis by auto
  next
    case (Clock now)
    have "same_chain (\<lambda>s. s\<lparr>hs_now := now\<rparr>)" by (simp add: same_chain_def)
    from world_turns_same [OF this] Clock hub_next show ?thesis by auto
  qed
qed

section \<open>The property\<close>

definition mutating :: "hub_process \<Rightarrow> bool" where
  "mutating p \<longleftrightarrow>
     (case waits (pr_task p) of
        Some (UnitWait (SaveCredential c)) \<Rightarrow> True
      | Some (UnitWait ClearCredentials) \<Rightarrow> True
      | _ \<Rightarrow> False)"

definition queued :: "hub_process \<Rightarrow> nat \<Rightarrow> bool" where
  "queued p t \<longleftrightarrow> waits (pr_task p) = Some (UnitWait (MutationTurn t))"

lemma mutating_holds: "tracks v (pr_task p) u \<Longrightarrow> mutating p \<Longrightarrow> \<exists>t. u = Holding t"
  by (cases "pr_task p") (auto simp: mutating_def split: unit_wait.splits)

lemma queued_waits: "tracks v (pr_task p) u \<Longrightarrow> queued p t \<Longrightarrow> u = Waiting t"
  by (cases "pr_task p") (auto simp: queued_def)

text \<open>C21: the credentials are written one at a time and in order. In every reachable state, while one
  process waits for the store to save or to clear them, no other process does; and every process still
  waiting for its turn holds a later ticket, in the chain behind the first one. So a clear by
  \<^verbatim>\<open>logout\<close> comes after the writes begun before it, and the writes begun after it follow.\<close>

theorem hub_mutations_ordered:
  assumes "hub_reachable cfg w" and "i < length (w_processes w)" and "mutating (w_processes w ! i)"
    and "j < length (w_processes w)" and "j \<noteq> i"
  shows "\<not> mutating (w_processes w ! j)
    \<and> (\<exists>first rest. hs_mutations (w_state w) = first # rest \<and> sorted_wrt (<) (first # rest)
         \<and> {t. queued (w_processes w ! j) t} \<subseteq> set rest)"
proof -
  obtain us where us: "hold_turns (w_state w) (tasks w) us"
    using reachable_turns [OF assms(1)] by (auto simp: world_turns_def)
  then have turn: "tracks Outside (pr_task (w_processes w ! k)) (us ! k) \<and> has_turn (us ! k) (w_state w)"
    if "k < length (w_processes w)" for k
    using that by (auto simp: hold_turns_def list_all2_conv_all_nth tasks_def)
  have "length us = length (w_processes w)"
    using us list_all2_lengthD by (fastforce simp: hold_turns_def tasks_def)
  then have apart: "tickets_of (us ! i) \<inter> tickets_of (us ! j) = {}" "chain_ok (w_state w)"
    using us assms(2,4,5) by (simp_all add: hold_turns_def)
  obtain t where t: "us ! i = Holding t" using mutating_holds turn [OF assms(2)] assms(3) by blast
  with turn [OF assms(2)] have first: "first_is t (w_state w)" by simp
  then obtain rest where rest: "hs_mutations (w_state w) = t # rest"
    by (cases "hs_mutations (w_state w)") (auto simp: first_is_def)
  have "\<not> mutating (w_processes w ! j)"
  proof
    assume "mutating (w_processes w ! j)"
    then obtain t' where "us ! j = Holding t'" using mutating_holds turn [OF assms(4)] by blast
    with turn [OF assms(4)] first t apart(1) show False by (simp add: first_is_def)
  qed
  moreover have "t' \<in> set rest" if "queued (w_processes w ! j) t'" for t'
    using queued_waits [OF _ that] turn [OF assms(4)] apart(1) t rest by fastforce
  ultimately show ?thesis using rest apart(2) by (auto simp: chain_ok_def)
qed

lemmas logout_eval = start_process_def start_shared_def logout_def enqueueCredentialMutation_def task_eval
  await_unit_def requireActive_def end_session_def abort_session_def abort_signals_def

lemma sample_logouts:
  "\<exists>w. hub_reachable cfg w \<and> length (w_processes w) = 2 \<and> mutating (w_processes w ! 0)
     \<and> queued (w_processes w ! 1) 1"
proof -
  define w1 where "w1 = start_shared cfg (start_process cfg (UserCall LogoutCall) (initial_world Live 0))"
  define w2 where "w2 = the (hub_step cfg (AnswerEvent 0 (UnitAnswer (Inr ()))) w1)"
  define w3 where "w3 = start_shared cfg (start_process cfg (UserCall LogoutCall) w2)"
  note eval = logout_eval initial_world_def initial_hub_state_def resume_def Let_def
  have w1: "hub_reachable cfg w1"
    by (rule hub_next [OF hub_start, of _ "CallEvent LogoutCall"]) (simp add: w1_def)
  have "hub_step cfg (AnswerEvent 0 (UnitAnswer (Inr ()))) w1 = Some w2"
    by (simp add: w2_def w1_def eval)
  then have w2: "hub_reachable cfg w2" by (rule hub_next [OF w1])
  then have "hub_reachable cfg w3"
    by (rule hub_next [where ev = "CallEvent LogoutCall"]) (simp add: w3_def)
  moreover have "length (w_processes w3) = 2 \<and> mutating (w_processes w3 ! 0) \<and> queued (w_processes w3 ! 1) 1"
    by (simp add: w3_def w2_def w1_def eval mutating_def queued_def)
  ultimately show ?thesis by blast
qed

theorem hub_mutations_ordered_witness:
  "\<exists>w :: hub_world. length (w_processes w) = 2 \<and> \<not> mutating (w_processes w ! 1)
     \<and> (\<exists>first rest. hs_mutations (w_state w) = first # rest \<and> 1 \<in> set rest)"
proof -
  obtain w where w: "hub_reachable sample_hub_config w" "length (w_processes w) = 2"
      "mutating (w_processes w ! 0)" "queued (w_processes w ! 1) 1"
    using sample_logouts by blast
  from hub_mutations_ordered [OF w(1) _ w(3), of 1] w(2,4) show ?thesis by fastforce
qed

end
