(* ===== verification/NodeClaim.thy ===== *)
theory NodeClaim
  imports FetchTransport
begin

text \<open>
  \<^verbatim>\<open>hub/node-claim-transport.ts\<close>: the transport that sends a claim over HTTPS with a pinned
  leaf certificate. The HTTPS client of Node is the sequence of its callbacks and events; what the
  platform thinks of a certificate and the hash are parameters. Documented of Node and built into
  \<open>node_step\<close>: an answer only comes over a connection whose \<^verbatim>\<open>checkServerIdentity\<close>
  returned no error, and its events follow its head.
\<close>

section \<open>The request\<close>

text \<open>\<^verbatim>\<open>HubClaimTransportRequest\<close>.\<close>

record claim_call =
  cc_url :: url
  cc_body :: jsstr
  cc_tlsPin :: jsstr

datatype node_ca = CaText jsstr | CaUint8Array "byte list" | CaBuffer "byte list"

datatype node_ca_option = CaOne node_ca | CaMany "node_ca list"

fun as_buffer :: "node_ca \<Rightarrow> node_ca" where
  "as_buffer (CaUint8Array b) = CaBuffer b"
| "as_buffer ca = ca"

fun normalizeCa :: "node_ca_option option \<Rightarrow> node_ca_option option" where
  "normalizeCa None = None"
| "normalizeCa (Some (CaOne ca)) = Some (CaOne (as_buffer ca))"
| "normalizeCa (Some (CaMany cas)) = Some (CaMany (map as_buffer cas))"

record https_options =
  ho_ca :: "node_ca_option option"
  ho_method :: string
  ho_rejectUnauthorized :: bool
  ho_contentLength :: nat
  ho_contentType :: string

definition claim_options :: "node_ca_option option \<Rightarrow> claim_call \<Rightarrow> https_options" where
  "claim_options ca call =
     \<lparr>ho_ca = normalizeCa ca, ho_method = ''POST'', ho_rejectUnauthorized = True,
      ho_contentLength = utf8_length (cc_body call), ho_contentType = ''application/json''\<rparr>"

text \<open>The verdict of the platform on the name and the certificate, and SHA-256 in hexadecimal.\<close>

record node_tls =
  nt_checkServerIdentity :: "jsstr \<Rightarrow> byte list \<Rightarrow> exn option"
  nt_sha256 :: "byte list \<Rightarrow> jsstr"

definition checkServerIdentity :: "node_tls \<Rightarrow> claim_call \<Rightarrow> jsstr \<Rightarrow> byte list \<Rightarrow> exn option" where
  "checkServerIdentity tls call hostname raw =
     (case nt_checkServerIdentity tls hostname raw of
        Some e \<Rightarrow> Some e
      | None \<Rightarrow> if nt_sha256 tls raw = cc_tlsPin call then None else Some HubTlsPinMismatchError)"

section \<open>The response\<close>

record incoming =
  in_statusCode :: "nat option"
  in_statusMessage :: "jsstr option"
  in_rawHeaders :: "jsstr list"

text \<open>\<^verbatim>\<open>Headers.append\<close>: a name is a token, and a second value of a name joins the first.\<close>

definition header_token :: "code_unit \<Rightarrow> bool" where
  "header_token c \<longleftrightarrow> is_alnum c \<or> c \<in> set (js ''!#$%&*+-.^_`|~'') \<or> c = 39"

definition header_append :: "jsstr \<Rightarrow> jsstr \<Rightarrow> headers \<Rightarrow> headers result" where
  "header_append name v hs =
     (if name = [] \<or> \<not> list_all header_token name \<or> \<not> valid_value (normalize_value v) then Inl type_error
      else Inr (case header_get name hs of
          None \<Rightarrow> header_put name (normalize_value v) hs
        | Some old \<Rightarrow> header_put name (old @ js '', '' @ normalize_value v) hs))"

fun append_headers :: "jsstr list \<Rightarrow> headers \<Rightarrow> headers result" where
  "append_headers (name # v # rest) hs = rbind (header_append name v hs) (append_headers rest)"
| "append_headers _ hs = Inr hs"

text \<open>What \<^verbatim>\<open>new Response\<close> accepts as a reason phrase.\<close>

definition reason_phrase :: "jsstr \<Rightarrow> bool" where
  "reason_phrase v \<longleftrightarrow> list_all (\<lambda>c. unat c = 9 \<or> (32 \<le> unat c \<and> unat c \<noteq> 127 \<and> unat c \<le> 255)) v"

definition null_body_status :: "nat \<Rightarrow> bool" where
  "null_body_status status \<longleftrightarrow> status = 204 \<or> status = 205 \<or> status = 304"

definition buffer_body :: "byte list \<Rightarrow> read_outcome list" where
  "buffer_body b = (if b = [] then [ReadDone] else [ReadChunk b, ReadDone])"

definition claim_response :: "incoming \<Rightarrow> byte list list \<Rightarrow> response result" where
  "claim_response head chunks =
     (case in_statusCode head of
        None \<Rightarrow> Inl (ProtocolValidationError ''HubResponse.status'')
      | Some status \<Rightarrow>
          if status < 200 \<or> 599 < status then Inl (ProtocolValidationError ''HubResponse.status'')
          else
            (case append_headers (in_rawHeaders head) [] of
               Inl e \<Rightarrow> Inl (ProtocolValidationError ''HubResponse'')
             | Inr hs \<Rightarrow>
                 if case in_statusMessage head of None \<Rightarrow> False | Some text \<Rightarrow> \<not> reason_phrase text
                 then Inl (ProtocolValidationError ''HubResponse'')
                 else Inr \<lparr>r_status = status, r_headers = hs,
                        r_body = (if null_body_status status then None else Some (buffer_body (concat chunks))),
                        r_locked = False\<rparr>))"

section \<open>The events\<close>

definition maximumClaimResponseBytes :: nat where
  "maximumClaimResponseBytes = 1048576"

text \<open>The signal is read when the request fails, so its state is part of that event.\<close>

datatype node_event =
    Handshake jsstr "byte list"
  | Incoming incoming
  | IncomingData "byte list"
  | IncomingError
  | IncomingEnd
  | RequestError exn signal_state

record node_claim =
  nc_secure :: bool
  nc_incoming :: "incoming option"
  nc_chunks :: "byte list list"
  nc_size :: nat
  nc_destroyed :: bool
  nc_outcome :: "response result option"

definition settle_claim :: "response result \<Rightarrow> node_claim \<Rightarrow> node_claim" where
  "settle_claim r s = (if nc_outcome s = None then s\<lparr>nc_outcome := Some r\<rparr> else s)"

text \<open>The call up to its return: a claim over plain HTTP is refused, and what
  \<^verbatim>\<open>httpsRequest\<close> throws (a certificate authority it cannot read) rejects the promise.\<close>

definition createNodeHubClaimTransport :: "claim_call \<Rightarrow> exn option \<Rightarrow> node_claim" where
  "createNodeHubClaimTransport call thrown =
     \<lparr>nc_secure = False, nc_incoming = None, nc_chunks = [], nc_size = 0, nc_destroyed = False,
      nc_outcome = (if u_protocol (cc_url call) \<noteq> protocol_https then Some (Inl HubTlsPinUnavailableError)
                    else map_option Inl thrown)\<rparr>"

definition on_data :: "byte list \<Rightarrow> node_claim \<Rightarrow> node_claim" where
  "on_data chunk s0 =
     (let s = s0\<lparr>nc_size := nc_size s0 + length chunk\<rparr>
      in if maximumClaimResponseBytes < nc_size s
         then settle_claim (Inl (ProtocolValidationError ''HubResponse.size'')) (s\<lparr>nc_destroyed := True\<rparr>)
         else s\<lparr>nc_chunks := nc_chunks s @ [chunk]\<rparr>)"

definition request_error :: "exn \<Rightarrow> signal_state \<Rightarrow> exn" where
  "request_error e signal =
     (if e = HubTlsPinMismatchError then e
      else if is_aborted signal then reason_or e signal
      else TransportError)"

text \<open>\<open>None\<close>: an event that does not come in that state.\<close>

fun node_step :: "node_tls \<Rightarrow> claim_call \<Rightarrow> node_event \<Rightarrow> node_claim \<Rightarrow> node_claim option" where
  "node_step tls call (Handshake hostname raw) s =
     (if u_protocol (cc_url call) \<noteq> protocol_https \<or> nc_secure s then None
      else Some (s\<lparr>nc_secure := (checkServerIdentity tls call hostname raw = None)\<rparr>))"
| "node_step tls call (Incoming head) s =
     (if nc_secure s \<and> nc_incoming s = None then Some (s\<lparr>nc_incoming := Some head\<rparr>) else None)"
| "node_step tls call (IncomingData chunk) s = (if nc_incoming s = None then None else Some (on_data chunk s))"
| "node_step tls call IncomingError s =
     (if nc_incoming s = None then None else Some (settle_claim (Inl TransportError) s))"
| "node_step tls call IncomingEnd s =
     (case nc_incoming s of
        None \<Rightarrow> None
      | Some head \<Rightarrow> Some (settle_claim (claim_response head (nc_chunks s)) s))"
| "node_step tls call (RequestError e signal) s =
     (if u_protocol (cc_url call) \<noteq> protocol_https then None
      else Some (settle_claim (Inl (request_error e signal)) s))"

fun node_run :: "node_tls \<Rightarrow> claim_call \<Rightarrow> node_event list \<Rightarrow> node_claim \<Rightarrow> node_claim option" where
  "node_run tls call [] s = Some s"
| "node_run tls call (ev # evs) s =
     (case node_step tls call ev s of None \<Rightarrow> None | Some s' \<Rightarrow> node_run tls call evs s')"

section \<open>What a claim comes to\<close>

lemma node_run_append:
  "node_run tls call (evs @ evs') s =
     (case node_run tls call evs s of None \<Rightarrow> None | Some s' \<Rightarrow> node_run tls call evs' s')"
  by (induction evs arbitrary: s) (auto split: option.split)

fun data_of :: "node_event list \<Rightarrow> byte list" where
  "data_of (IncomingData chunk # evs) = chunk @ data_of evs"
| "data_of (ev # evs) = data_of evs"
| "data_of [] = []"

lemma data_of_append: "data_of (evs @ evs') = data_of evs @ data_of evs'"
  by (induction evs rule: data_of.induct) auto

definition pinned :: "node_tls \<Rightarrow> claim_call \<Rightarrow> node_event list \<Rightarrow> bool" where
  "pinned tls call evs \<longleftrightarrow>
     u_protocol (cc_url call) = protocol_https
     \<and> (\<exists>hostname raw. Handshake hostname raw \<in> set evs \<and> nt_checkServerIdentity tls hostname raw = None
          \<and> nt_sha256 tls raw = cc_tlsPin call)"

text \<open>What the outcome may be after some events.\<close>

fun claim_outcome :: "node_tls \<Rightarrow> claim_call \<Rightarrow> exn option \<Rightarrow> node_event list \<Rightarrow> response result \<Rightarrow> bool" where
  "claim_outcome tls call thrown evs (Inr r) \<longleftrightarrow>
     pinned tls call evs \<and> 200 \<le> r_status r \<and> r_status r \<le> 599
     \<and> (\<exists>earlier later. evs = earlier @ IncomingEnd # later \<and> length (data_of earlier) \<le> 1048576
          \<and> r_body r = (if null_body_status (r_status r) then None else Some (buffer_body (data_of earlier))))"
| "claim_outcome tls call thrown evs (Inl e) \<longleftrightarrow>
     (e = HubTlsPinUnavailableError \<and> u_protocol (cc_url call) \<noteq> protocol_https)
     \<or> thrown = Some e
     \<or> (e = ProtocolValidationError ''HubResponse.size'' \<and> 1048576 < length (data_of evs))
     \<or> e = ProtocolValidationError ''HubResponse.status'' \<or> e = ProtocolValidationError ''HubResponse''
     \<or> e = TransportError
     \<or> (\<exists>e' signal. RequestError e' signal \<in> set evs
          \<and> (e' = HubTlsPinMismatchError \<and> e = e' \<or> is_aborted signal \<and> e = reason_or e' signal))"

lemma claim_outcome_later: "claim_outcome tls call thrown evs r \<Longrightarrow> claim_outcome tls call thrown (evs @ evs') r"
  by (cases r) (fastforce simp: pinned_def data_of_append)+

definition claim_inv :: "node_tls \<Rightarrow> claim_call \<Rightarrow> exn option \<Rightarrow> node_event list \<Rightarrow> node_claim \<Rightarrow> bool" where
  "claim_inv tls call thrown evs s \<longleftrightarrow>
     (nc_secure s \<longrightarrow> pinned tls call evs) \<and> (nc_incoming s \<noteq> None \<longrightarrow> nc_secure s)
     \<and> nc_size s = length (data_of evs)
     \<and> (nc_size s \<le> maximumClaimResponseBytes \<longrightarrow> concat (nc_chunks s) = data_of evs)
     \<and> (maximumClaimResponseBytes < nc_size s \<longrightarrow> nc_outcome s \<noteq> None)
     \<and> (case nc_outcome s of None \<Rightarrow> True | Some r \<Rightarrow> claim_outcome tls call thrown evs r)"

lemma pinned_later: "pinned tls call evs \<Longrightarrow> pinned tls call (evs @ evs')"
  by (auto simp: pinned_def)

lemma settle_outcome:
  "nc_outcome (settle_claim r s) = (case nc_outcome s of None \<Rightarrow> Some r | Some r' \<Rightarrow> Some r')"
  by (simp add: settle_claim_def split: option.split)

lemma settle_fields [simp]:
  "nc_secure (settle_claim r s) = nc_secure s" "nc_incoming (settle_claim r s) = nc_incoming s"
  "nc_chunks (settle_claim r s) = nc_chunks s" "nc_size (settle_claim r s) = nc_size s"
  by (simp_all add: settle_claim_def)

text \<open>A step that does no more than settle the claim.\<close>

lemma claim_inv_settle:
  assumes "claim_inv tls call thrown evs s" and "data_of [ev] = []"
    and "nc_outcome s = None \<Longrightarrow> claim_outcome tls call thrown (evs @ [ev]) r"
  shows "claim_inv tls call thrown (evs @ [ev]) (settle_claim r s)"
  using assms
  by (auto simp: claim_inv_def data_of_append settle_outcome intro: pinned_later claim_outcome_later split: option.splits)

lemma claim_response_sound:
  assumes "claim_inv tls call thrown evs s" and "nc_incoming s = Some head" and "nc_outcome s = None"
  shows "claim_outcome tls call thrown (evs @ [IncomingEnd]) (claim_response head (nc_chunks s))"
proof -
  have data: "concat (nc_chunks s) = data_of evs" "length (data_of evs) \<le> 1048576" "pinned tls call evs"
    using assms by (auto simp: claim_inv_def maximumClaimResponseBytes_def not_less)
  show ?thesis
  proof (cases "claim_response head (nc_chunks s)")
    case (Inr r)
    then have r: "200 \<le> r_status r" "r_status r \<le> 599"
      "r_body r = (if null_body_status (r_status r) then None else Some (buffer_body (data_of evs)))"
      using data(1) by (auto simp: claim_response_def split: option.splits if_splits sum.splits)
    have "\<exists>earlier later. evs @ [IncomingEnd] = earlier @ IncomingEnd # later \<and> length (data_of earlier) \<le> 1048576
        \<and> r_body r = (if null_body_status (r_status r) then None else Some (buffer_body (data_of earlier)))"
      by (intro exI [of _ evs] exI [of _ "[]"]) (use r(3) data(2) in simp)
    with Inr r(1,2) pinned_later [OF data(3)] show ?thesis by simp
  qed (auto simp: claim_response_def split: option.splits if_splits sum.splits)
qed

lemma request_error_sound: "claim_outcome tls call thrown (evs @ [RequestError e signal]) (Inl (request_error e signal))"
proof -
  have ev: "RequestError e signal \<in> set (evs @ [RequestError e signal])" by simp
  show ?thesis
  proof (cases "e = HubTlsPinMismatchError \<or> is_aborted signal")
    case True
    with ev have "\<exists>e' sig'. RequestError e' sig' \<in> set (evs @ [RequestError e signal])
        \<and> (e' = HubTlsPinMismatchError \<and> request_error e signal = e' \<or> is_aborted sig' \<and> request_error e signal = reason_or e' sig')"
      by (intro exI [of _ e] exI [of _ signal]) (auto simp: request_error_def)
    then show ?thesis unfolding claim_outcome.simps by blast
  qed (simp add: request_error_def)
qed

lemma claim_inv_data:
  assumes "claim_inv tls call thrown evs s"
  shows "claim_inv tls call thrown (evs @ [IncomingData chunk]) (on_data chunk s)"
  using assms
  by (auto simp: claim_inv_def on_data_def Let_def data_of_append settle_outcome maximumClaimResponseBytes_def
      intro: pinned_later claim_outcome_later split: option.splits)

lemma claim_inv_step:
  assumes "claim_inv tls call thrown evs s" and "node_step tls call ev s = Some s'"
  shows "claim_inv tls call thrown (evs @ [ev]) s'"
proof (cases ev)
  case (Handshake hostname raw)
  then show ?thesis
    using assms
    by (auto simp: claim_inv_def data_of_append pinned_def checkServerIdentity_def
        intro: claim_outcome_later split: option.splits if_splits)
next
  case (Incoming head)
  then show ?thesis
    using assms
    by (auto simp: claim_inv_def data_of_append intro: pinned_later claim_outcome_later split: option.splits if_splits)
next
  case (IncomingData chunk)
  then show ?thesis using assms claim_inv_data by (auto split: if_splits)
next
  case IncomingError
  then show ?thesis using assms by (auto split: if_splits intro!: claim_inv_settle)
next
  case IncomingEnd
  then show ?thesis
    using assms claim_response_sound [OF assms(1)]
    by (auto split: option.splits intro!: claim_inv_settle simp del: claim_outcome.simps)
next
  case (RequestError e signal)
  then show ?thesis
    using assms request_error_sound
    by (auto split: if_splits intro!: claim_inv_settle simp del: claim_outcome.simps)
qed

lemma claim_inv_run:
  "claim_inv tls call thrown evs s \<Longrightarrow> node_run tls call evs' s = Some s' \<Longrightarrow>
     claim_inv tls call thrown (evs @ evs') s'"
proof (induction evs' arbitrary: evs s)
  case (Cons ev evs')
  then obtain t where "node_step tls call ev s = Some t" "node_run tls call evs' t = Some s'"
    by (auto split: option.splits)
  with Cons.IH [OF claim_inv_step [OF Cons.prems(1)]] show ?case by simp
qed simp

lemma claim_inv_start: "claim_inv tls call thrown [] (createNodeHubClaimTransport call thrown)"
  by (auto simp: claim_inv_def createNodeHubClaimTransport_def maximumClaimResponseBytes_def split: option.split)

lemma claim_settles_once:
  "node_run tls call evs s = Some s' \<Longrightarrow> nc_outcome s = Some r \<Longrightarrow> nc_outcome s' = Some r"
proof (induction evs arbitrary: s)
  case (Cons ev evs)
  then obtain t where t: "node_step tls call ev s = Some t" "node_run tls call evs t = Some s'"
    by (auto split: option.splits)
  have "nc_outcome t = Some r"
    using t(1) Cons.prems(2)
    by (cases ev) (auto simp: settle_outcome on_data_def Let_def split: if_splits option.splits)
  with Cons.IH t(2) show ?case by blast
qed simp

text \<open>C25: a claim over HTTPS is answered by a response only if the certificate of its connection had
  the pinned hash and the platform accepted it; the response has a status from 200 to 599 and the
  bytes received before the end of the body, at most a megabyte. Every failure is an error the
  transport is meant to have: a refusal of plain HTTP, the size (only past the limit), the status, a
  malformed head, the mismatch of the pin, the reason of the abort, or a transport error. And the
  outcome, once there, stays whatever comes after.\<close>

theorem node_claim_sound:
  assumes "node_run tls call evs (createNodeHubClaimTransport call thrown) = Some s" and "nc_outcome s = Some r"
  shows "claim_outcome tls call thrown evs r
    \<and> (\<forall>evs' s'. node_run tls call (evs @ evs') (createNodeHubClaimTransport call thrown) = Some s' \<longrightarrow>
         nc_outcome s' = Some r)"
proof -
  have "claim_outcome tls call thrown evs r"
    using claim_inv_run [OF claim_inv_start assms(1)] assms(2) by (simp add: claim_inv_def)
  with assms claim_settles_once show ?thesis by (simp add: node_run_append)
qed

definition sample_claim :: claim_call where
  "sample_claim = \<lparr>cc_url = sample_url [uSLASH], cc_body = [], cc_tlsPin = js ''aa''\<rparr>"

definition sample_tls :: node_tls where
  "sample_tls = \<lparr>nt_checkServerIdentity = (\<lambda>_ _. None), nt_sha256 = (\<lambda>raw. if raw = [1] then js ''aa'' else js ''bb'')\<rparr>"

definition sample_events :: "node_event list" where
  "sample_events =
     [Handshake [] [1], Incoming \<lparr>in_statusCode = Some 200, in_statusMessage = None, in_rawHeaders = []\<rparr>,
      IncomingData [7], IncomingEnd]"

theorem node_claim_sound_witness:
  "\<exists>s r. node_run sample_tls sample_claim sample_events (createNodeHubClaimTransport sample_claim None) = Some s
     \<and> nc_outcome s = Some (Inr r) \<and> r_body r = Some [ReadChunk [7], ReadDone] \<and> pinned sample_tls sample_claim sample_events"
proof -
  obtain s r where r: "node_run sample_tls sample_claim sample_events (createNodeHubClaimTransport sample_claim None) = Some s"
      "nc_outcome s = Some (Inr r)" "r_body r = Some [ReadChunk [7], ReadDone]"
    by (simp add: sample_events_def sample_claim_def sample_tls_def createNodeHubClaimTransport_def sample_url_def
        checkServerIdentity_def on_data_def maximumClaimResponseBytes_def claim_response_def settle_claim_def
        null_body_status_def buffer_body_def)
  with node_claim_sound [OF r(1,2)] show ?thesis by auto
qed

end
