(* ===== verification/SnapshotValues.thy ===== *)
theory SnapshotValues
  imports Replies
begin

text \<open>
  The values of \<^verbatim>\<open>scripts/redacted-semantic-snapshot.mjs\<close> and their canonical form. A
  value is \<^verbatim>\<open>unknown\<close> JavaScript data as a tree (what \<^verbatim>\<open>assertCanonicalJsonValue\<close>
  does on a cycle has no tree). The lemmas show that two values have the same canonical text exactly
  when they are the same JSON value up to the order of members.
\<close>

section \<open>Values\<close>

text \<open>An object says whether its prototype is \<^verbatim>\<open>Object.prototype\<close>; \<open>ForeignV\<close> is a
  function, a symbol or a bigint.\<close>

datatype jsvalue =
    UndefinedV
  | NullV
  | BoolV bool
  | NumV jsnum
  | StrV jsstr
  | ArrV "jsvalue list"
  | ObjV bool "(jsstr \<times> jsvalue) list"
  | ForeignV

text \<open>\<^verbatim>\<open>value?.[key]\<close>, and \<^verbatim>\<open>value[key]\<close> of an object.\<close>

fun get_member :: "jsvalue \<Rightarrow> string \<Rightarrow> jsvalue" where
  "get_member (ObjV plain ms) key = (case map_of ms (js key) of None \<Rightarrow> UndefinedV | Some v \<Rightarrow> v)"
| "get_member _ key = UndefinedV"

definition object_value :: "(string \<times> jsvalue) list \<Rightarrow> jsvalue" where
  "object_value ms = ObjV True (map (\<lambda>(k, v). (js k, v)) ms)"

definition str_value :: "string \<Rightarrow> jsvalue" where
  "str_value s = StrV (js s)"

text \<open>What the code throws itself, by its message, the \<^verbatim>\<open>TypeError\<close> of the engine, and what
  its client throws.\<close>

datatype snapshot_error = SnapshotError jsstr | EngineTypeError | ClientThrew exn

type_synonym 'a checked = "snapshot_error + 'a"

definition ensure :: "bool \<Rightarrow> jsstr \<Rightarrow> unit checked" where
  "ensure ok message = (if ok then Inr () else Inl (SnapshotError message))"

lemma ensure_Inr [simp]: "ensure ok message = Inr u \<longleftrightarrow> ok"
  by (simp add: ensure_def)

definition at_index :: "jsstr \<Rightarrow> nat \<Rightarrow> jsstr" where
  "at_index path i = path @ js ''['' @ dec_string i @ js '']''"

definition at_key :: "jsstr \<Rightarrow> jsstr \<Rightarrow> jsstr" where
  "at_key path key = path @ uDOT # key"

section \<open>Canonical text\<close>

fun assertCanonicalJsonValue :: "jsvalue \<Rightarrow> jsstr \<Rightarrow> unit checked"
  and canonical_entries :: "jsvalue list \<Rightarrow> jsstr \<Rightarrow> nat \<Rightarrow> unit checked"
  and canonical_members :: "(jsstr \<times> jsvalue) list \<Rightarrow> jsstr \<Rightarrow> unit checked" where
  "assertCanonicalJsonValue NullV path = Inr ()"
| "assertCanonicalJsonValue (BoolV b) path = Inr ()"
| "assertCanonicalJsonValue (StrV s) path = Inr ()"
| "assertCanonicalJsonValue (NumV x) path =
     ensure (num_is_finite x) (js ''semantic snapshot has non-finite number at '' @ path)"
| "assertCanonicalJsonValue (ArrV vs) path = canonical_entries vs path 0"
| "assertCanonicalJsonValue (ObjV plain ms) path =
     rbind (ensure plain (js ''semantic snapshot has a non-plain object at '' @ path)) (\<lambda>_. canonical_members ms path)"
| "assertCanonicalJsonValue UndefinedV path = Inl (SnapshotError (js ''semantic snapshot has non-JSON value at '' @ path))"
| "assertCanonicalJsonValue ForeignV path = Inl (SnapshotError (js ''semantic snapshot has non-JSON value at '' @ path))"
| "canonical_entries [] path i = Inr ()"
| "canonical_entries (v # vs) path i =
     rbind (assertCanonicalJsonValue v (at_index path i)) (\<lambda>_. canonical_entries vs path (Suc i))"
| "canonical_members [] path = Inr ()"
| "canonical_members ((k, v) # ms) path =
     rbind (assertCanonicalJsonValue v (at_key path k)) (\<lambda>_. canonical_members ms path)"

text \<open>The JSON value of a value that passed.\<close>

fun json_value :: "jsvalue \<Rightarrow> json" where
  "json_value (BoolV b) = JBool b"
| "json_value (NumV x) = JNum x"
| "json_value (StrV s) = JStr s"
| "json_value (ArrV vs) = JArr (map json_value vs)"
| "json_value (ObjV plain ms) = JObj (map (\<lambda>(k, v). (k, json_value v)) ms)"
| "json_value _ = JNull"

definition compare_keys :: "jsstr \<times> 'a \<Rightarrow> jsstr \<times> 'a \<Rightarrow> int" where
  "compare_keys m n = compareOpaqueStrings (fst m) (fst n)"

fun sortJsonValue :: "json \<Rightarrow> json" where
  "sortJsonValue (JArr vs) = JArr (map sortJsonValue vs)"
| "sortJsonValue (JObj ms) =
     JObj (own_members (sort_by compare_keys (map (\<lambda>(k, v). (k, sortJsonValue v)) ms)))"
| "sortJsonValue v = v"

definition canonicalizeSortedJson :: "(jsnum \<Rightarrow> jsstr) \<Rightarrow> jsvalue \<Rightarrow> jsstr checked" where
  "canonicalizeSortedJson nm v =
     rbind (assertCanonicalJsonValue v (js ''$'')) (\<lambda>_. Inr (json_print nm (sortJsonValue (json_value v))))"

text \<open>\<^verbatim>\<open>byte.toString(16).padStart(2, "0")\<close>; the digest is a parameter.\<close>

definition hex_byte :: "byte \<Rightarrow> jsstr" where
  "hex_byte b = [hex_lower (unat b div 16), hex_lower (unat b mod 16)]"

definition hashSortedJson :: "(jsnum \<Rightarrow> jsstr) \<Rightarrow> (byte list \<Rightarrow> byte list) \<Rightarrow> jsvalue \<Rightarrow> jsstr checked" where
  "hashSortedJson nm sha256 v =
     rbind (canonicalizeSortedJson nm v) (\<lambda>s. Inr (concat (map hex_byte (sha256 (utf8_encode s)))))"

section \<open>Own members\<close>

lemma own_members_distinct:
  assumes "distinct (map fst ms)"
  shows "own_members ms =
    sort_key (\<lambda>(k, _). dec_value k) (filter (\<lambda>(k, _). array_index k) ms) @ filter (\<lambda>(k, _). \<not> array_index k) ms"
  using fold_set_member [of "[]" ms] assms by (simp add: own_members_def Let_def)

lemma own_members_mset:
  assumes "distinct (map fst ms)"
  shows "mset (own_members ms) = mset ms"
proof -
  have "filter (\<lambda>(k, _). \<not> array_index k) ms = filter (\<lambda>m. \<not> (case m of (k, _) \<Rightarrow> array_index k)) ms"
    by (simp add: split_def)
  then show ?thesis by (simp add: own_members_distinct [OF assms] flip: multiset_partition)
qed

lemma keys_mset: "mset ms = mset ns \<Longrightarrow> distinct (map fst ms) = distinct (map fst ns)"
  using mset_eq_imp_distinct_iff [of "map fst ms" "map fst ns"] by simp

lemma own_members_keys_distinct:
  assumes "distinct (map fst ms)"
  shows "distinct (map fst (own_members ms))"
  using keys_mset [OF own_members_mset [OF assms]] assms by simp

lemma own_members_own:
  assumes "distinct (map fst ms)"
  shows "own_members (own_members ms) = own_members ms"
proof -
  let ?I = "filter (\<lambda>(k, _). array_index k)" and ?N = "filter (\<lambda>(k, _). \<not> array_index k)"
  let ?A = "sort_key (\<lambda>(k, _). dec_value k) (?I ms)"
  have own: "own_members ms = ?A @ ?N ms" by (rule own_members_distinct [OF assms])
  have "?I ?A = ?A" "?N ?A = []" "?I (?N ms) = []" "?N (?N ms) = ?N ms"
    by (auto simp: filter_id_conv filter_empty_conv)
  moreover have "sort_key (\<lambda>(k, _). dec_value k) ?A = ?A" by (rule sort_key_id_if_sorted) simp
  ultimately show ?thesis
    using own_members_distinct [OF own_members_keys_distinct [OF assms]] by (simp add: own)
qed

section \<open>Sorting the members\<close>

interpretation key_comparator: comparator compare_keys
proof unfold_locales
  show "compare_keys a b \<le> 0 \<longleftrightarrow> 0 \<le> compare_keys b a" for a b :: "jsstr \<times> 'a"
    unfolding compare_keys_def by (rule string_comparator.cmp_flip)
  show "compare_keys a c \<le> 0" if "compare_keys a b \<le> 0" "compare_keys b c \<le> 0" for a b c :: "jsstr \<times> 'a"
    using that unfolding compare_keys_def by (rule string_comparator.cmp_trans)
qed (simp add: compare_keys_def string_comparator.cmp_refl)

lemma sorted_unique:
  assumes "\<And>a b. a \<in> set xs \<Longrightarrow> b \<in> set xs \<Longrightarrow> r a b \<Longrightarrow> r b a \<Longrightarrow> a = b"
  shows "sorted_wrt r xs \<Longrightarrow> sorted_wrt r ys \<Longrightarrow> mset xs = mset ys \<Longrightarrow> xs = ys"
  using assms
proof (induction xs arbitrary: ys)
  case (Cons x xs)
  then obtain y ys' where ys: "ys = y # ys'" by (cases ys) auto
  have set: "set (x # xs) = set ys" using mset_eq_setD [OF Cons.prems(3)] .
  have "x = y"
  proof (rule ccontr)
    assume "x \<noteq> y"
    with set ys have xy: "x \<in> set ys'" "y \<in> set xs" by auto
    with Cons.prems(1,2) ys have "r x y" "r y x" by auto
    with Cons.prems(4) [of x y] xy \<open>x \<noteq> y\<close> show False by simp
  qed
  moreover have "xs = ys'"
    using Cons.prems ys calculation by (intro Cons.IH) auto
  ultimately show ?case using ys by simp
qed simp

lemma sort_strings_unique:
  "mset ks = mset ls \<Longrightarrow> sort_by compareOpaqueStrings ks = sort_by compareOpaqueStrings ls"
  by (rule sorted_unique [OF _ string_comparator.sorted_sort_by string_comparator.sorted_sort_by])
    (auto simp: compareOpaqueStrings_le dest: string_less_asym)

lemma sort_members_unique:
  assumes "distinct (map fst ms)" and "mset ms = mset ns"
  shows "sort_by compare_keys ms = sort_by compare_keys ns"
proof (rule sorted_unique [OF _ key_comparator.sorted_sort_by key_comparator.sorted_sort_by])
  fix m n
  assume "m \<in> set (sort_by compare_keys ms)" "n \<in> set (sort_by compare_keys ms)"
    and "compare_keys m n \<le> 0" "compare_keys n m \<le> 0"
  then have "m \<in> set ms" "n \<in> set ms" "fst m = fst n"
    by (auto simp: compare_keys_def compareOpaqueStrings_le dest: string_less_asym)
  with assms(1) show "m = n" by (metis eq_key_imp_eq_value prod.collapse)
qed (simp add: assms(2))

section \<open>The same value\<close>

text \<open>Equal up to the order of members.\<close>

inductive same_json :: "json \<Rightarrow> json \<Rightarrow> bool" where
  same_null: "same_json JNull JNull"
| same_bool: "same_json (JBool b) (JBool b)"
| same_num: "same_json (JNum x) (JNum x)"
| same_str: "same_json (JStr s) (JStr s)"
| same_arr: "list_all2 same_json vs ws \<Longrightarrow> same_json (JArr vs) (JArr ws)"
| same_obj: "list_all2 (\<lambda>m n. fst m = fst n \<and> same_json (snd m) (snd n)) ms ns' \<Longrightarrow> mset ns' = mset ns \<Longrightarrow>
    same_json (JObj ms) (JObj ns)"
  monos list_all2_mono

inductive_cases same_json_cases: "same_json (JArr vs) w" "same_json (JObj ms) w"

fun keys_ok :: "json \<Rightarrow> bool" where
  "keys_ok (JArr vs) \<longleftrightarrow> list_all keys_ok vs"
| "keys_ok (JObj ms) \<longleftrightarrow> distinct (map fst ms) \<and> list_all (\<lambda>(k, v). keys_ok v) ms"
| "keys_ok v \<longleftrightarrow> True"

fun all_numbers :: "(jsnum \<Rightarrow> bool) \<Rightarrow> json \<Rightarrow> bool" where
  "all_numbers ok (JNum x) \<longleftrightarrow> ok x"
| "all_numbers ok (JArr vs) \<longleftrightarrow> list_all (all_numbers ok) vs"
| "all_numbers ok (JObj ms) \<longleftrightarrow> list_all (\<lambda>(k, v). all_numbers ok v) ms"
| "all_numbers ok v \<longleftrightarrow> True"

abbreviation sorted_member :: "jsstr \<times> json \<Rightarrow> jsstr \<times> json" where
  "sorted_member \<equiv> \<lambda>(k, v). (k, sortJsonValue v)"

lemma sorted_member_keys [simp]: "map fst (map sorted_member ms) = map fst ms"
  by (induction ms) auto

lemma sorted_member_distinct: "distinct (map fst ms) \<Longrightarrow> distinct (map fst (sort_by compare_keys (map sorted_member ms)))"
  using keys_mset [of "sort_by compare_keys (map sorted_member ms)" "map sorted_member ms"]
  by (simp only: key_comparator.mset_sort_by sorted_member_keys)

lemma sorted_plain:
  "keys_ok v \<Longrightarrow> all_numbers ok v \<Longrightarrow> plain_json ok (sortJsonValue v)"
proof (induction v)
  case (JObj ms)
  let ?s = "sort_by compare_keys (map sorted_member ms)"
  have d: "distinct (map fst ?s)" using JObj.prems(1) sorted_member_distinct by simp
  have "set (own_members ?s) = sorted_member ` set ms"
    using mset_eq_setD [OF own_members_mset [OF d]] by simp
  then have "list_all (\<lambda>(k, v). plain_json ok v) (own_members ?s)"
    using JObj by (fastforce simp: list_all_iff)
  with own_members_own [OF d] show ?case by simp
qed (auto simp: list_all_iff)

lemma map_same: "list_all2 (\<lambda>x y. K x \<longrightarrow> f x = f y) xs ys \<Longrightarrow> list_all K xs \<Longrightarrow> map f xs = map f ys"
  by (induction rule: list_all2_induct) auto

lemma same_sorted: "same_json v w \<Longrightarrow> keys_ok v \<Longrightarrow> sortJsonValue v = sortJsonValue w"
proof (induction rule: same_json.induct)
  case (same_arr vs ws)
  have "list_all2 (\<lambda>v w. keys_ok v \<longrightarrow> sortJsonValue v = sortJsonValue w) vs ws"
    using same_arr(1) by (rule list_all2_mono) blast
  with same_arr(2) show ?case by (simp add: map_same)
next
  case (same_obj ms ns' ns)
  have "list_all2 (\<lambda>m n. keys_ok (snd m) \<longrightarrow> sorted_member m = sorted_member n) ms ns'"
    using same_obj(1) by (rule list_all2_mono) (auto simp: split_def)
  moreover have "list_all (\<lambda>m. keys_ok (snd m)) ms" using same_obj(3) by (simp add: list_all_iff split_def)
  ultimately have "map sorted_member ms = map sorted_member ns'" by (rule map_same)
  then have "mset (map sorted_member ms) = mset (map sorted_member ns)"
    using same_obj(2) by simp
  moreover have "distinct (map fst (map sorted_member ms))" using same_obj(3) by (simp only: sorted_member_keys keys_ok.simps)
  ultimately have "sort_by compare_keys (map sorted_member ms) = sort_by compare_keys (map sorted_member ns)"
    by (intro sort_members_unique)
  then show ?case by simp
qed simp_all

lemma sorted_same: "sortJsonValue v = sortJsonValue w \<Longrightarrow> keys_ok v \<Longrightarrow> keys_ok w \<Longrightarrow> same_json v w"
proof (induction v arbitrary: w)
  case (JArr vs)
  obtain ws where ws: "w = JArr ws" using JArr.prems(1) by (cases w) auto
  with JArr show ?case
    by (auto simp: list_all2_conv_all_nth list_all_length list_eq_iff_nth_eq intro!: same_json.same_arr)
next
  case (JObj ms)
  obtain ns where ns: "w = JObj ns" using JObj.prems(1) by (cases w) auto
  let ?s = "\<lambda>ms. sort_by compare_keys (map sorted_member ms)"
  have "mset (own_members (?s ms)) = mset (own_members (?s ns))" using JObj.prems(1) ns by simp
  moreover have "mset (own_members (?s ms)) = mset (?s ms)" "mset (own_members (?s ns)) = mset (?s ns)"
    using JObj.prems(2,3) ns by (simp_all only: own_members_mset sorted_member_distinct keys_ok.simps)
  ultimately have m: "mset (map sorted_member ms) = mset (map sorted_member ns)"
    by (simp only: key_comparator.mset_sort_by)
  have "list_all2 (\<lambda>a n. a = sorted_member n) (map sorted_member ns) ns"
    by (simp add: list_all2_conv_all_nth)
  from list_all2_reorder_left_invariance [OF this m] obtain ns' where
    ns': "list_all2 (\<lambda>a n. a = sorted_member n) (map sorted_member ms) ns'" "mset ns' = mset ns" by blast
  have ok: "keys_ok (snd n)" if "n \<in> set ns'" for n
    using JObj.prems(3) ns that mset_eq_setD [OF ns'(2)] by (auto simp: list_all_iff)
  have "list_all2 (\<lambda>m n. fst m = fst n \<and> same_json (snd m) (snd n)) ms ns'"
    unfolding list_all2_conv_all_nth
  proof (intro conjI allI impI)
    show len: "length ms = length ns'" using list_all2_lengthD [OF ns'(1)] by simp
    fix i assume i: "i < length ms"
    then have eq: "sorted_member (ms ! i) = sorted_member (ns' ! i)"
      using ns'(1) by (simp add: list_all2_conv_all_nth)
    then show "fst (ms ! i) = fst (ns' ! i)" by (simp add: split_def)
    have mi: "ms ! i \<in> set ms" "ns' ! i \<in> set ns'" using i len by simp_all
    have k: "keys_ok (snd (ms ! i))" using JObj.prems(2) mi(1) by (auto simp: list_all_iff)
    have s: "sortJsonValue (snd (ms ! i)) = sortJsonValue (snd (ns' ! i))" using eq by (simp add: split_def)
    have "snd (ms ! i) \<in> Basic_BNFs.snds (ms ! i)" by (simp add: prod_set_defs)
    from JObj.IH [OF mi(1) this s k ok [OF mi(2)]]
    show "same_json (snd (ms ! i)) (snd (ns' ! i))" .
  qed
  from same_obj [OF this ns'(2)] ns show ?case by simp
next
  case JNull
  then show ?case by (cases w) (simp_all add: same_null)
next
  case (JBool b)
  then show ?case by (cases w) (simp_all add: same_bool)
next
  case (JNum x)
  then show ?case by (cases w) (simp_all add: same_num)
next
  case (JStr s)
  then show ?case by (cases w) (simp_all add: same_str)
qed

section \<open>Canonical texts\<close>

text \<open>What an engine guarantees of an object: no key twice.\<close>

fun value_ok :: "jsvalue \<Rightarrow> bool" where
  "value_ok (ArrV vs) \<longleftrightarrow> list_all value_ok vs"
| "value_ok (ObjV plain ms) \<longleftrightarrow> distinct (map fst ms) \<and> list_all (\<lambda>(k, v). value_ok v) ms"
| "value_ok v \<longleftrightarrow> True"

lemma value_keys: "value_ok v \<Longrightarrow> keys_ok (json_value v)"
  by (induction v) (auto simp: list_all_iff split_def comp_def)

lemma canonical_text:
  assumes "numeral_law nm ok" and "value_ok v" and "all_numbers ok (json_value v)"
    and "canonicalizeSortedJson nm v = Inr s"
  shows "json_parse s = Some (sortJsonValue (json_value v))"
proof -
  have "s = json_print nm (sortJsonValue (json_value v))"
    using assms(4) by (auto simp: canonicalizeSortedJson_def rbind_Inr_iff)
  with json_parse_print [OF assms(1) sorted_plain [OF value_keys [OF assms(2)] assms(3)]] show ?thesis by simp
qed

text \<open>C40: the canonical text of a snapshot is one. It parses to the value with the members of every object
  in the order of their keys, and two values have the same canonical text, hence the same hash,
  exactly when they are the same up to the order of members. The numbers are among those
  \<^verbatim>\<open>Number::toString\<close> writes so that they read back.\<close>

theorem snapshot_text_canonical:
  assumes "numeral_law nm ok" and "value_ok v" and "value_ok w"
    and "all_numbers ok (json_value v)" and "all_numbers ok (json_value w)"
    and "canonicalizeSortedJson nm v = Inr s" and "canonicalizeSortedJson nm w = Inr t"
  shows "json_parse s = Some (sortJsonValue (json_value v))
    \<and> (s = t \<longleftrightarrow> same_json (json_value v) (json_value w))"
proof -
  note v = canonical_text [OF assms(1,2,4,6)] and w = canonical_text [OF assms(1,3,5,7)]
  have st: "s = json_print nm (sortJsonValue (json_value v))" "t = json_print nm (sortJsonValue (json_value w))"
    using assms(6,7) by (auto simp: canonicalizeSortedJson_def rbind_Inr_iff)
  show ?thesis
  proof (intro conjI iffI)
    assume "s = t"
    then show "same_json (json_value v) (json_value w)"
      using v w by (intro sorted_same value_keys assms(2,3)) simp
  next
    assume "same_json (json_value v) (json_value w)"
    from same_sorted [OF this value_keys [OF assms(2)]] st show "s = t" by simp
  qed (rule v)
qed

definition sample_values :: "jsvalue \<times> jsvalue" where
  "sample_values =
     (object_value [(''b'', NumV (num_of_int 1)), (''a'', NullV)], object_value [(''a'', NullV), (''b'', NumV (num_of_int 1))])"

theorem snapshot_text_canonical_witness:
  "canonicalizeSortedJson safe_numeral (fst sample_values) = canonicalizeSortedJson safe_numeral (snd sample_values)"
proof -
  let ?v = "fst sample_values" and ?w = "snd sample_values"
  obtain s t where st: "canonicalizeSortedJson safe_numeral ?v = Inr s" "canonicalizeSortedJson safe_numeral ?w = Inr t"
    by (simp add: canonicalizeSortedJson_def sample_values_def object_value_def num_of_int_def ensure_def)
  have ok: "value_ok ?v" "value_ok ?w" "all_numbers safe_integer (json_value ?v)" "all_numbers safe_integer (json_value ?w)"
    by (simp_all add: sample_values_def object_value_def js_def safe_integer_def num_is_safe_integer_def
        is_safe_integer_def max_safe_integer_def)
  have "same_json (json_value ?v) (json_value ?w)"
    unfolding sample_values_def object_value_def fst_conv snd_conv json_value.simps
    by (rule same_obj [where ns' = "[(js ''b'', JNum (num_of_int 1)), (js ''a'', JNull)]"])
      (simp_all add: same_num same_null add_mset_commute)
  with snapshot_text_canonical [OF safe_numeral_law ok st] st show ?thesis by simp
qed

end
