(* ===== verification/SnapshotAssertions.thy ===== *)
theory SnapshotAssertions
  imports SnapshotValues
begin

text \<open>
  The assertions of \<^verbatim>\<open>scripts/redacted-semantic-snapshot.mjs\<close>: its patterns, the search
  for forbidden data at any depth, and the exact shape of a redacted snapshot. The lemmas show what an
  object that passes can hold.
\<close>

section \<open>Patterns\<close>

text \<open>The case folding of \<^verbatim>\<open>/iu\<close>, as far as ASCII is concerned: the long s and the
  Kelvin sign fold to letters, and \<^verbatim>\<open>\b\<close> counts them as word characters.\<close>

definition fold_unit :: "code_unit \<Rightarrow> code_unit" where
  "fold_unit c = (if in_range 65 90 c then c + 32 else if c = 383 then 115 else if c = 8490 then 107 else c)"

definition word_unit :: "code_unit \<Rightarrow> bool" where
  "word_unit c \<longleftrightarrow> is_alnum c \<or> c = 95 \<or> c = 383 \<or> c = 8490"

definition word_before :: "jsstr \<Rightarrow> nat \<Rightarrow> bool" where
  "word_before s i \<longleftrightarrow> 0 < i \<and> word_unit (s ! (i - 1))"

text \<open>\<^verbatim>\<open>pattern.test(s)\<close>: the pattern matches from some position.\<close>

definition matches_somewhere :: "(jsstr \<Rightarrow> nat \<Rightarrow> bool) \<Rightarrow> jsstr \<Rightarrow> bool" where
  "matches_somewhere p s \<longleftrightarrow> list_ex (p s) [0 ..< length s]"

definition semanticUuidPattern :: "jsstr \<Rightarrow> bool" where
  "semanticUuidPattern = matches_somewhere (\<lambda>s i. uuid_shape is_hex (take 36 (drop i s)))"

definition uuidIdentityPattern :: "jsstr \<Rightarrow> bool" where
  "uuidIdentityPattern = uuid_shape is_lower_hex"

definition folds_to :: "string \<Rightarrow> jsstr \<Rightarrow> nat \<Rightarrow> bool" where
  "folds_to word s i \<longleftrightarrow> starts_with (map fold_unit (drop i s)) (js word)"

text \<open>After \<^verbatim>\<open>key.replace(/[^a-z0-9]/giu, "")\<close>.\<close>

definition forbiddenKeyPattern :: "jsstr \<Rightarrow> bool" where
  "forbiddenKeyPattern key =
     (let s = filter (\<lambda>c. is_alnum (fold_unit c)) key
      in list_ex (\<lambda>word. matches_somewhere (folds_to word) s)
           [''uuid'', ''vehicleid'', ''displayname'', ''address'', ''location'', ''token'', ''cursor'', ''endpoint''])"

definition semanticTokenPattern :: "jsstr \<Rightarrow> bool" where
  "semanticTokenPattern = matches_somewhere (\<lambda>s i.
     \<not> word_before s i \<and> i + 64 \<le> length s \<and> list_all is_hex (take 64 (drop i s))
     \<and> (i + 64 < length s \<longrightarrow> \<not> word_unit (s ! (i + 64))))"

definition endpointPattern :: "jsstr \<Rightarrow> bool" where
  "endpointPattern = matches_somewhere (\<lambda>s i. \<not> word_before s i \<and> (folds_to ''http://'' s i \<or> folds_to ''https://'' s i))"

definition forbidden_string :: "jsstr \<Rightarrow> bool" where
  "forbidden_string s \<longleftrightarrow> semanticUuidPattern s \<or> semanticTokenPattern s \<or> endpointPattern s"

section \<open>Forbidden data\<close>

fun all_checks :: "unit checked list \<Rightarrow> unit checked" where
  "all_checks [] = Inr ()"
| "all_checks (c # cs) = rbind c (\<lambda>_. all_checks cs)"

lemma all_checks_Inr [simp]: "all_checks cs = Inr u \<longleftrightarrow> (\<forall>c \<in> set cs. c = Inr ())"
  by (induction cs) (auto simp: rbind_Inr_iff)

declare all_checks.simps [simp del]

fun visit :: "(jsvalue \<Rightarrow> jsstr \<Rightarrow> jsstr option \<Rightarrow> unit checked) \<Rightarrow> jsvalue \<Rightarrow> jsstr \<Rightarrow> jsstr option \<Rightarrow> unit checked"
  and visit_entries :: "(jsvalue \<Rightarrow> jsstr \<Rightarrow> jsstr option \<Rightarrow> unit checked) \<Rightarrow> jsvalue list \<Rightarrow> jsstr \<Rightarrow> nat \<Rightarrow> unit checked"
  and visit_members ::
    "(jsvalue \<Rightarrow> jsstr \<Rightarrow> jsstr option \<Rightarrow> unit checked) \<Rightarrow> (jsstr \<times> jsvalue) list \<Rightarrow> jsstr \<Rightarrow> unit checked" where
  "visit operation (ArrV vs) path key = rbind (operation (ArrV vs) path key) (\<lambda>_. visit_entries operation vs path 0)"
| "visit operation (ObjV plain ms) path key =
     rbind (operation (ObjV plain ms) path key) (\<lambda>_. visit_members operation ms path)"
| "visit operation v path key = operation v path key"
| "visit_entries operation [] path i = Inr ()"
| "visit_entries operation (v # vs) path i =
     rbind (visit operation v (at_index path i) None) (\<lambda>_. visit_entries operation vs path (Suc i))"
| "visit_members operation [] path = Inr ()"
| "visit_members operation ((k, v) # ms) path =
     rbind (visit operation v (at_key path k) (Some k)) (\<lambda>_. visit_members operation ms path)"

definition forbidden_check :: "jsvalue \<Rightarrow> jsstr \<Rightarrow> jsstr option \<Rightarrow> unit checked" where
  "forbidden_check v path key = all_checks
     [ensure (case key of None \<Rightarrow> True | Some k \<Rightarrow> \<not> forbiddenKeyPattern k)
        (js ''semantic snapshot contains forbidden field at '' @ path),
      ensure (case v of StrV s \<Rightarrow> \<not> forbidden_string s | _ \<Rightarrow> True)
        (js ''semantic snapshot contains a forbidden string at '' @ path)]"

definition assertNoForbiddenSemanticData :: "jsvalue \<Rightarrow> unit checked" where
  "assertNoForbiddenSemanticData v = visit forbidden_check v (js ''$'') None"

text \<open>The strings and the keys a value holds at any depth.\<close>

fun strings_in :: "jsvalue \<Rightarrow> jsstr set" where
  "strings_in (StrV s) = {s}"
| "strings_in (ArrV vs) = (\<Union>v \<in> set vs. strings_in v)"
| "strings_in (ObjV plain ms) = (\<Union>(k, v) \<in> set ms. strings_in v)"
| "strings_in v = {}"

fun keys_in :: "jsvalue \<Rightarrow> jsstr set" where
  "keys_in (ArrV vs) = (\<Union>v \<in> set vs. keys_in v)"
| "keys_in (ObjV plain ms) = (\<Union>(k, v) \<in> set ms. insert k (keys_in v))"
| "keys_in v = {}"

lemma forbidden_check_Inr:
  "forbidden_check v path key = Inr u \<longleftrightarrow>
    (\<forall>k. key = Some k \<longrightarrow> \<not> forbiddenKeyPattern k) \<and> (\<forall>s. v = StrV s \<longrightarrow> \<not> forbidden_string s)"
  by (auto simp: forbidden_check_def split: option.split jsvalue.split)

lemma visit_forbidden:
  "visit forbidden_check v path key = Inr u \<longleftrightarrow>
    (\<forall>k. key = Some k \<longrightarrow> \<not> forbiddenKeyPattern k)
    \<and> (\<forall>k \<in> keys_in v. \<not> forbiddenKeyPattern k) \<and> (\<forall>s \<in> strings_in v. \<not> forbidden_string s)"
  "visit_entries forbidden_check vs path i = Inr u \<longleftrightarrow>
    (\<forall>v \<in> set vs. (\<forall>k \<in> keys_in v. \<not> forbiddenKeyPattern k) \<and> (\<forall>s \<in> strings_in v. \<not> forbidden_string s))"
  "visit_members forbidden_check ms path = Inr u \<longleftrightarrow>
    (\<forall>(k, v) \<in> set ms. \<not> forbiddenKeyPattern k
      \<and> (\<forall>k \<in> keys_in v. \<not> forbiddenKeyPattern k) \<and> (\<forall>s \<in> strings_in v. \<not> forbidden_string s))"
  by (induction forbidden_check v path key and forbidden_check vs path i and forbidden_check ms path
      arbitrary: u and u and u rule: visit_visit_entries_visit_members.induct)
    (auto simp: rbind_Inr_iff forbidden_check_Inr)

lemma assertNoForbidden_Inr:
  "assertNoForbiddenSemanticData v = Inr u \<longleftrightarrow>
    (\<forall>k \<in> keys_in v. \<not> forbiddenKeyPattern k) \<and> (\<forall>s \<in> strings_in v. \<not> forbidden_string s)"
  by (simp add: assertNoForbiddenSemanticData_def visit_forbidden)

section \<open>Shapes\<close>

definition assertExactObject :: "jsvalue \<Rightarrow> jsstr \<Rightarrow> string list \<Rightarrow> unit checked" where
  "assertExactObject v path keys =
     (case v of
        ObjV plain ms \<Rightarrow>
          ensure (sort_by compareOpaqueStrings (map fst ms) = sort_by compareOpaqueStrings (map js keys))
            (path @ js '' has an unexpected shape'')
      | _ \<Rightarrow> Inl (SnapshotError (path @ js '' must be an object'')))"

fun is_string :: "jsvalue \<Rightarrow> bool" where
  "is_string (StrV s) = True"
| "is_string v = False"

fun elements :: "jsvalue \<Rightarrow> jsvalue list" where
  "elements (ArrV vs) = vs"
| "elements v = []"

fun is_array :: "jsvalue \<Rightarrow> bool" where
  "is_array (ArrV vs) = True"
| "is_array v = False"

text \<open>\<^verbatim>\<open><\<close> on values that were asserted to be finite numbers, where
  \<^verbatim>\<open>>=\<close> is its negation.\<close>

fun value_less :: "jsvalue \<Rightarrow> jsvalue \<Rightarrow> bool" where
  "value_less (NumV a) (NumV b) = num_less a b"
| "value_less _ _ = False"

definition int_value :: "int \<Rightarrow> jsvalue" where
  "int_value n = NumV (num_of_int n)"

definition assertStringArray :: "jsvalue \<Rightarrow> jsstr \<Rightarrow> nat \<Rightarrow> unit checked" where
  "assertStringArray v path n =
     ensure (is_array v \<and> length (elements v) = n \<and> list_all is_string (elements v))
       (path @ js '' must contain exactly '' @ dec_string n @ js '' strings'')"

fun safe_int :: "jsvalue \<Rightarrow> int option" where
  "safe_int (NumV x) = (if num_is_safe_integer x then num_integer x else None)"
| "safe_int v = None"

definition assertNonNegativeInteger :: "jsvalue \<Rightarrow> jsstr \<Rightarrow> unit checked" where
  "assertNonNegativeInteger v path =
     ensure (case safe_int v of None \<Rightarrow> False | Some n \<Rightarrow> 0 \<le> n) (path @ js '' must be a non-negative integer'')"

definition assertSafeInteger :: "jsvalue \<Rightarrow> jsstr \<Rightarrow> unit checked" where
  "assertSafeInteger v path = ensure (safe_int v \<noteq> None) (path @ js '' must be a safe integer'')"

definition assertFinite :: "jsvalue \<Rightarrow> jsstr \<Rightarrow> unit checked" where
  "assertFinite v path =
     ensure (case v of NumV x \<Rightarrow> num_is_finite x | _ \<Rightarrow> False) (path @ js '' must be a finite number'')"

definition assertNullableFinite :: "jsvalue \<Rightarrow> jsstr \<Rightarrow> unit checked" where
  "assertNullableFinite v path = (if v \<noteq> NullV then assertFinite v path else Inr ())"

definition assertMeasurement :: "jsvalue \<Rightarrow> jsstr \<Rightarrow> string \<Rightarrow> unit checked" where
  "assertMeasurement v path unit = all_checks
     [assertExactObject v path [''value'', ''unit''],
      assertNullableFinite (get_member v ''value'') (at_key path (js ''value'')),
      ensure (get_member v ''unit'' = str_value unit) (at_key path (js ''unit differs''))]"

definition historyBounds :: string where
  "historyBounds = ''from inclusive, to exclusive''"

definition assertQueryShape :: "jsvalue \<Rightarrow> jsstr \<Rightarrow> unit checked" where
  "assertQueryShape v path = all_checks
     [assertExactObject v path [''from_ms'', ''to_ms'', ''bounds''],
      assertSafeInteger (get_member v ''from_ms'') (at_key path (js ''from_ms'')),
      assertSafeInteger (get_member v ''to_ms'') (at_key path (js ''to_ms'')),
      ensure (value_less (get_member v ''from_ms'') (get_member v ''to_ms'')
          \<and> get_member v ''bounds'' = str_value historyBounds)
        (path @ js '' is not a valid half-open query'')]"

definition assertQuery :: "jsvalue \<Rightarrow> jsstr \<Rightarrow> jsvalue \<Rightarrow> unit checked" where
  "assertQuery v path expected = all_checks
     [assertQueryShape v path,
      ensure (get_member v ''from_ms'' = get_member expected ''from_ms''
          \<and> get_member v ''to_ms'' = get_member expected ''to_ms'')
        (path @ js '' differs from the canonical half-open query'')]"

definition current_measurements :: "(string \<times> string) list" where
  "current_measurements =
     [(''battery_level'', ''percent''), (''estimated_range'', ''km''), (''odometer'', ''km''), (''speed'', ''km/h''),
      (''inside_temperature'', ''degrees Celsius''), (''outside_temperature'', ''degrees Celsius''),
      (''charger_power'', ''kW'')]"

definition assertCurrent :: "jsvalue \<Rightarrow> jsstr \<Rightarrow> unit checked" where
  "assertCurrent v path = all_checks
     ([assertExactObject v path
         ([''observed_at_ms'', ''state''] @ map fst current_measurements @ [''locked'']),
       assertNullableFinite (get_member v ''observed_at_ms'') (at_key path (js ''observed_at_ms'')),
       ensure (is_string (get_member v ''state'')) (at_key path (js ''state must be a string''))]
      @ map (\<lambda>(key, unit). assertMeasurement (get_member v key) (at_key path (js key)) unit) current_measurements
      @ [ensure (case get_member v ''locked'' of NullV \<Rightarrow> True | BoolV b \<Rightarrow> True | _ \<Rightarrow> False)
           (at_key path (js ''locked must be boolean or null''))])"

section \<open>The snapshot\<close>

definition assertDrive :: "jsvalue \<Rightarrow> jsvalue list \<Rightarrow> jsstr \<Rightarrow> nat \<Rightarrow> jsvalue \<Rightarrow> unit checked" where
  "assertDrive expected order path i item =
     (let itemPath = at_index (at_key path (js ''order'')) i; start = get_member item ''start_date_ms''
      in all_checks
       [assertExactObject item itemPath [''ordinal'', ''start_date_ms'', ''end_date_ms'', ''distance'', ''duration''],
        ensure (get_member item ''ordinal'' = int_value (int i + 1)) (at_key itemPath (js ''ordinal differs'')),
        assertFinite start (at_key itemPath (js ''start_date_ms'')),
        assertFinite (get_member item ''end_date_ms'') (at_key itemPath (js ''end_date_ms'')),
        ensure (\<not> value_less start (get_member expected ''from_ms'') \<and> value_less start (get_member expected ''to_ms''))
          (at_key itemPath (js ''start_date_ms is outside the half-open query'')),
        ensure (i = 0 \<or> \<not> value_less (get_member (order ! (i - 1)) ''start_date_ms'') start)
          (at_key path (js ''order is not descending by start_date_ms'')),
        assertMeasurement (get_member item ''distance'') (at_key itemPath (js ''distance'')) ''km'',
        assertMeasurement (get_member item ''duration'') (at_key itemPath (js ''duration'')) ''minutes''])"

definition assertHistory :: "jsvalue \<Rightarrow> jsstr \<Rightarrow> jsvalue \<Rightarrow> unit checked" where
  "assertHistory v path expected =
     (let order = elements (get_member v ''order'')
      in all_checks
       ([assertExactObject v path [''query'', ''count'', ''order''],
         assertQuery (get_member v ''query'') (at_key path (js ''query'')) expected,
         assertNonNegativeInteger (get_member v ''count'') (at_key path (js ''count'')),
         ensure (is_array (get_member v ''order'') \<and> int_value (int (length order)) = get_member v ''count'')
           (at_key path (js ''order length differs from count''))]
        @ map (\<lambda>(i, item). assertDrive expected order path i item) (enumerate 0 order)))"

definition assertVehicle :: "jsvalue \<Rightarrow> jsstr \<Rightarrow> jsstr \<Rightarrow> jsvalue \<Rightarrow> unit checked" where
  "assertVehicle v path label expected = all_checks
     [assertExactObject v path [''label'', ''current'', ''history''],
      ensure (get_member v ''label'' = StrV label) (at_key path (js ''label differs'')),
      assertCurrent (get_member v ''current'') (at_key path (js ''current'')),
      assertHistory (get_member v ''history'') (at_key path (js ''history'')) expected]"

definition assertBoundary :: "jsvalue \<Rightarrow> jsstr \<Rightarrow> unit checked" where
  "assertBoundary v path = all_checks
     [assertExactObject v path [''window'', ''from_ms'', ''to_ms'', ''count''],
      ensure (is_string (get_member v ''window'')) (at_key path (js ''window must be a string'')),
      assertSafeInteger (get_member v ''from_ms'') (at_key path (js ''from_ms'')),
      assertSafeInteger (get_member v ''to_ms'') (at_key path (js ''to_ms'')),
      ensure (value_less (get_member v ''from_ms'') (get_member v ''to_ms'')) (path @ js '' is not a half-open window''),
      assertNonNegativeInteger (get_member v ''count'') (at_key path (js ''count''))]"

fun plus_one :: "jsvalue \<Rightarrow> jsvalue" where
  "plus_one (NumV (Fin r)) = NumV (Fin (r + 1))"
| "plus_one v = v"

definition assertBoundaryRelationship :: "jsvalue list \<Rightarrow> jsvalue \<Rightarrow> unit checked" where
  "assertBoundaryRelationship boundaries query =
     (let before = boundaries ! 0; latest = boundaries ! 1
      in ensure (get_member before ''window'' = str_value ''before-equal-start''
             \<and> get_member latest ''window'' = str_value ''equal-start-only''
             \<and> get_member before ''from_ms'' = get_member query ''from_ms''
             \<and> get_member before ''to_ms'' = get_member latest ''from_ms''
             \<and> get_member latest ''to_ms'' = plus_one (get_member latest ''from_ms'')
             \<and> \<not> value_less (get_member query ''to_ms'') (get_member latest ''to_ms''))
           (js ''$.history_boundary_checks do not partition the derived latest start''))"

definition semanticProfile :: string where
  "semanticProfile = ''hub-http-v1@1.0.0''"

definition nullRule :: string where
  "nullRule = ''null means unavailable, unknown, or not derivable; numeric zero remains zero''"

definition staleRule :: string where
  "staleRule = ''no freshness guarantee beyond observed_at_ms; vehicle-1 timestamp is retained exactly and HA displays telemetry age''"

definition vehicle_label :: "nat \<Rightarrow> jsstr" where
  "vehicle_label i = js ''vehicle-'' @ dec_string (i + 1)"

definition snapshot_keys :: "string list" where
  "snapshot_keys =
     [''schema_version'', ''profile'', ''vehicle_order'', ''vehicles'', ''history_boundary_checks'', ''null_rule'', ''stale_rule'']"

definition assertVehicles :: "jsvalue \<Rightarrow> jsvalue \<Rightarrow> unit checked" where
  "assertVehicles v expected = all_checks
     (map (\<lambda>(i, vehicle). all_checks
         [ensure (elements (get_member v ''vehicle_order'') ! i = StrV (vehicle_label i))
            (js ''$.vehicle_order is not canonical''),
          assertVehicle vehicle (at_index (js ''$.vehicles'') i) (vehicle_label i) expected])
       (enumerate 0 (elements (get_member v ''vehicles''))))"

definition assertRedactedSemanticSnapshot :: "jsvalue \<Rightarrow> unit checked" where
  "assertRedactedSemanticSnapshot v =
     (let order = elements (get_member v ''vehicle_order''); vehicles = elements (get_member v ''vehicles'');
          boundaries = elements (get_member v ''history_boundary_checks'');
          expected = get_member (get_member (vehicles ! 0) ''history'') ''query''
      in all_checks
       ([assertExactObject v (js ''$'') snapshot_keys,
         ensure (get_member v ''schema_version'' = int_value 1) (js ''semantic snapshot schema_version must be 1''),
         ensure (get_member v ''profile'' = str_value semanticProfile) (js ''semantic snapshot profile differs''),
         ensure (get_member v ''null_rule'' = str_value nullRule \<and> get_member v ''stale_rule'' = str_value staleRule)
           (js ''semantic snapshot rules differ''),
         ensure (is_array (get_member v ''vehicle_order'') \<and> order \<noteq> []) (js ''$.vehicle_order must not be empty''),
         assertStringArray (get_member v ''vehicle_order'') (js ''$.vehicle_order'') (length order),
         ensure (is_array (get_member v ''vehicles'') \<and> length vehicles = length order)
           (js ''$.vehicles must match $.vehicle_order''),
         assertQueryShape expected (js ''$.vehicles[0].history.query''),
         assertVehicles v expected,
         ensure (is_array (get_member v ''history_boundary_checks'') \<and> length boundaries = 2)
           (js ''$.history_boundary_checks must contain exactly two checks'')]
        @ map (\<lambda>(i, boundary). assertBoundary boundary (at_index (js ''$.history_boundary_checks'') i))
            (enumerate 0 boundaries)
        @ [assertBoundaryRelationship boundaries expected,
           assertCanonicalJsonValue v (js ''$''),
           assertNoForbiddenSemanticData v]))"

end
