(* ===== verification/SnapshotCollection.thy ===== *)
theory SnapshotCollection
  imports SnapshotAssertions
begin

text \<open>
  How \<^verbatim>\<open>scripts/redacted-semantic-snapshot.mjs\<close> collects a snapshot, and
  \<^verbatim>\<open>scripts/drive-pagination.mjs\<close>. The Hub client is a parameter: what it answers to the
  calls, told apart by their place in the collection. The lemmas show what a collected snapshot holds,
  whatever the client answers.
\<close>

section \<open>The plan\<close>

record window_query =
  wq_from :: int
  wq_to :: int

record boundary_query = window_query +
  bq_window :: string

record snapshot_plan =
  sp_primaryVehicleId :: "jsstr option"
  sp_vehicleCount :: nat
  sp_historyQuery :: window_query
  sp_boundaryQueries :: "boundary_query list option"

definition boundary :: "string \<Rightarrow> int \<Rightarrow> int \<Rightarrow> boundary_query" where
  "boundary window from to = \<lparr>wq_from = from, wq_to = to, bq_window = window\<rparr>"

definition defaultPlan :: snapshot_plan where
  "defaultPlan =
     \<lparr>sp_primaryVehicleId = None, sp_vehicleCount = 3,
      sp_historyQuery = \<lparr>wq_from = 1788565900000, wq_to = 1788566200001\<rparr>,
      sp_boundaryQueries = Some
        [boundary ''before-equal-start'' 1788565900000 1788566200000,
         boundary ''equal-start-only'' 1788566200000 1788566200001]\<rparr>"

definition int_or :: "int option \<Rightarrow> int" where
  "int_or n = (case n of None \<Rightarrow> 0 | Some n \<Rightarrow> n)"

definition normalizeSemanticProfile :: "jsvalue \<Rightarrow> snapshot_plan checked" where
  "normalizeSemanticProfile v =
     (if v = UndefinedV then Inr defaultPlan
      else let history = get_member v ''history''; primary = get_member v ''primaryVehicleId'';
               count = safe_int (get_member v ''vehicleCount'');
               from = safe_int (get_member history ''fromMs''); to = safe_int (get_member history ''toMs'')
        in rbind (all_checks
             [assertExactObject v (js ''semantic profile'')
                [''schemaVersion'', ''primaryVehicleId'', ''vehicleCount'', ''history'', ''boundaryMode''],
              ensure (get_member v ''schemaVersion'' = int_value 1) (js ''semantic profile schemaVersion must be 1''),
              ensure (case primary of StrV s \<Rightarrow> uuidIdentityPattern s | _ \<Rightarrow> False)
                (js ''semantic profile primaryVehicleId must be a UUID''),
              ensure (case count of None \<Rightarrow> False | Some n \<Rightarrow> 1 \<le> n \<and> n \<le> 500)
                (js ''semantic profile vehicleCount must be an integer from 1 through 500''),
              assertExactObject history (js ''semantic profile.history'') [''fromMs'', ''toMs''],
              assertSafeInteger (get_member history ''fromMs'') (js ''semantic profile.history.fromMs''),
              assertSafeInteger (get_member history ''toMs'') (js ''semantic profile.history.toMs''),
              ensure (int_or from < int_or to) (js ''semantic profile history must be a non-empty half-open window''),
              ensure (get_member v ''boundaryMode'' = str_value ''derived-latest-drive'')
                (js ''semantic profile boundaryMode must be \"derived-latest-drive\"'')])
           (\<lambda>_. Inr \<lparr>sp_primaryVehicleId = (case primary of StrV s \<Rightarrow> Some s | _ \<Rightarrow> None),
              sp_vehicleCount = nat (int_or count),
              sp_historyQuery = \<lparr>wq_from = int_or from, wq_to = int_or to\<rparr>, sp_boundaryQueries = None\<rparr>))"

definition resolveSemanticSnapshotPlan :: "jsvalue \<Rightarrow> jsvalue \<Rightarrow> (snapshot_plan \<times> jsvalue list) checked" where
  "resolveSemanticSnapshotPlan sourceVehicles profile =
     rbind (normalizeSemanticProfile profile) (\<lambda>plan.
     rbind (ensure (is_array sourceVehicles \<and> length (elements sourceVehicles) = sp_vehicleCount plan)
         (js ''semantic snapshot requires exactly '' @ dec_string (sp_vehicleCount plan) @ js '' ordered vehicles'')) (\<lambda>_.
     case sp_primaryVehicleId plan of
       None \<Rightarrow> Inr (plan, elements sourceVehicles)
     | Some primaryId \<Rightarrow>
         (case List.extract (\<lambda>vehicle. get_member vehicle ''vehicleId'' = StrV primaryId) (elements sourceVehicles) of
            None \<Rightarrow> Inl (SnapshotError (js ''semantic snapshot primary vehicle is absent''))
          | Some (before, primary, after) \<Rightarrow> Inr (plan, primary # before @ after))))"

definition selectSemanticSnapshotPrimaryVehicle :: "jsvalue \<Rightarrow> jsvalue \<Rightarrow> jsvalue checked" where
  "selectSemanticSnapshotPrimaryVehicle sourceVehicles profile =
     rbind (resolveSemanticSnapshotPlan sourceVehicles profile) (\<lambda>(plan, vehicles).
       if hd vehicles \<in> {NullV, UndefinedV} then Inl EngineTypeError
       else Inr (get_member (hd vehicles) ''vehicleId''))"

definition derivedBoundaryQueries :: "'a window_query_scheme \<Rightarrow> jsvalue list \<Rightarrow> boundary_query list checked" where
  "derivedBoundaryQueries query drives =
     (if drives = [] then Inl (SnapshotError (js ''semantic snapshot cannot derive boundaries without a primary drive''))
      else case safe_int (get_member (hd drives) ''startDateMs'') of
        None \<Rightarrow> Inl (SnapshotError (js ''semantic snapshot latest primary drive cannot form boundary windows''))
      | Some latest \<Rightarrow>
          rbind (ensure (wq_from query < latest \<and> latest < wq_to query)
              (js ''semantic snapshot latest primary drive cannot form boundary windows'')) (\<lambda>_.
            Inr [boundary ''before-equal-start'' (wq_from query) latest,
                 boundary ''equal-start-only'' latest (latest + 1)]))"

section \<open>The calls\<close>

record drives_call =
  dc_vehicleId :: jsstr
  dc_fromMs :: int
  dc_toMs :: int
  dc_limit :: nat
  dc_cursor :: "jsstr option"

datatype snapshot_call = AskVehicles | AskCurrent jsstr | AskDrives drives_call

text \<open>What the client answers: the current state by the index of the vehicle, the drives by the number
  of the window and of the page, and, when the two calls for a vehicle both fail, whether the first
  failure was the one of the current state.\<close>

record snapshot_client =
  sc_vehicles :: "exn + jsvalue"
  sc_current :: "nat \<Rightarrow> jsstr \<Rightarrow> exn + jsvalue"
  sc_drives :: "nat \<Rightarrow> nat \<Rightarrow> drives_call \<Rightarrow> exn + jsvalue"
  sc_currentFirst :: "nat \<Rightarrow> bool"

type_synonym 'a run = "snapshot_call list \<times> 'a checked"

definition run_bind :: "'a run \<Rightarrow> ('a \<Rightarrow> 'b run) \<Rightarrow> 'b run" where
  "run_bind m f =
     (case snd m of Inl e \<Rightarrow> (fst m, Inl e) | Inr x \<Rightarrow> (fst m @ fst (f x), snd (f x)))"

definition quietly :: "'a checked \<Rightarrow> 'a run" where
  "quietly r = ([], r)"

definition answer :: "snapshot_call \<Rightarrow> exn + jsvalue \<Rightarrow> jsvalue run" where
  "answer call reply = ([call], case reply of Inl e \<Rightarrow> Inl (ClientThrew e) | Inr v \<Rightarrow> Inr v)"

definition in_window :: "'a window_query_scheme \<Rightarrow> jsvalue \<Rightarrow> bool" where
  "in_window query item =
     (case get_member item ''startDateMs'' of
        NumV x \<Rightarrow> num_is_finite x \<and> \<not> num_less x (num_of_int (wq_from query)) \<and> num_less x (num_of_int (wq_to query))
      | _ \<Rightarrow> False)"

definition page_of :: "jsvalue \<Rightarrow> jsvalue list" where
  "page_of result = elements (get_member (get_member result ''value'') ''items'')"

definition next_cursor :: "jsvalue \<Rightarrow> jsvalue" where
  "next_cursor result = get_member (get_member result ''value'') ''nextCursor''"

definition window_page :: "'a window_query_scheme \<Rightarrow> jsvalue \<Rightarrow> unit checked" where
  "window_page query result = all_checks
     (ensure (get_member result ''kind'' = str_value ''page'' \<and> is_array (get_member (get_member result ''value'') ''items''))
        (js ''semantic history expected a page'')
      # map (\<lambda>item. ensure (in_window query item) (js ''semantic history violated its half-open window''))
          (page_of result))"

definition drives_request :: "jsstr \<Rightarrow> 'a window_query_scheme \<Rightarrow> jsstr option \<Rightarrow> drives_call" where
  "drives_request vehicleId query cursor =
     \<lparr>dc_vehicleId = vehicleId, dc_fromMs = wq_from query, dc_toMs = wq_to query, dc_limit = 500, dc_cursor = cursor\<rparr>"

fun window_loop ::
    "(nat \<Rightarrow> drives_call \<Rightarrow> exn + jsvalue) \<Rightarrow> jsstr \<Rightarrow> 'a window_query_scheme \<Rightarrow> nat \<Rightarrow> nat \<Rightarrow> jsstr option
     \<Rightarrow> jsstr list \<Rightarrow> jsvalue list \<Rightarrow> jsvalue list run" where
  "window_loop ask vehicleId query 0 page cursor cursors items =
     quietly (Inl (SnapshotError (js ''semantic history exceeded its page bound'')))"
| "window_loop ask vehicleId query (Suc left) page cursor cursors items =
     (let call = drives_request vehicleId query cursor
      in run_bind (answer (AskDrives call) (ask page call)) (\<lambda>result.
         run_bind (quietly (window_page query result)) (\<lambda>_.
         case next_cursor result of
           NullV \<Rightarrow> quietly (Inr (items @ page_of result))
         | StrV c \<Rightarrow>
             if c \<in> set cursors
             then quietly (Inl (SnapshotError (js ''semantic history cursor is invalid or repeated'')))
             else window_loop ask vehicleId query left (page + 1) (Some c) (c # cursors) (items @ page_of result)
         | _ \<Rightarrow> quietly (Inl (SnapshotError (js ''semantic history cursor is invalid or repeated''))))))"

definition collectDriveWindow ::
    "(nat \<Rightarrow> drives_call \<Rightarrow> exn + jsvalue) \<Rightarrow> jsstr \<Rightarrow> 'a window_query_scheme \<Rightarrow> jsvalue list run" where
  "collectDriveWindow ask vehicleId query = window_loop ask vehicleId query 128 0 None [] []"

section \<open>Redaction\<close>

definition measurement :: "jsvalue \<Rightarrow> string \<Rightarrow> jsvalue" where
  "measurement v unit = object_value [(''value'', v), (''unit'', str_value unit)]"

definition or_else :: "jsvalue \<Rightarrow> jsvalue \<Rightarrow> jsvalue" where
  "or_else v w = (if v \<in> {NullV, UndefinedV} then w else v)"

definition redactCurrent :: "jsvalue \<Rightarrow> jsvalue" where
  "redactCurrent current = object_value
     [(''observed_at_ms'', get_member current ''observedAtMs''),
      (''state'', or_else (get_member current ''state'') (str_value ''unavailable'')),
      (''battery_level'', measurement (get_member current ''batteryLevel'') ''percent''),
      (''estimated_range'', measurement (get_member current ''estBatteryRangeKm'') ''km''),
      (''odometer'', measurement (get_member current ''odometer'') ''km''),
      (''speed'', measurement (get_member current ''speed'') ''km/h''),
      (''inside_temperature'', measurement (get_member current ''insideTemp'') ''degrees Celsius''),
      (''outside_temperature'', measurement (get_member current ''outsideTemp'') ''degrees Celsius''),
      (''charger_power'', measurement (get_member current ''chargerPower'') ''kW''),
      (''locked'', get_member current ''locked'')]"

definition redactDrive :: "jsvalue \<Rightarrow> nat \<Rightarrow> jsvalue" where
  "redactDrive drive ordinal = object_value
     [(''ordinal'', int_value (int ordinal)),
      (''start_date_ms'', get_member drive ''startDateMs''),
      (''end_date_ms'', get_member drive ''endDateMs''),
      (''distance'', measurement (get_member drive ''distanceKm'') ''km''),
      (''duration'', measurement (get_member drive ''durationMin'') ''minutes'')]"

definition query_object :: "window_query \<Rightarrow> jsvalue" where
  "query_object query = object_value
     [(''from_ms'', int_value (wq_from query)), (''to_ms'', int_value (wq_to query)), (''bounds'', str_value historyBounds)]"

definition redact_vehicle :: "window_query \<Rightarrow> nat \<Rightarrow> jsvalue \<Rightarrow> jsvalue list \<Rightarrow> jsvalue" where
  "redact_vehicle query index current drives = object_value
     [(''label'', StrV (vehicle_label index)),
      (''current'', redactCurrent current),
      (''history'', object_value
         [(''query'', query_object query),
          (''count'', int_value (int (length drives))),
          (''order'', ArrV (map (\<lambda>(i, drive). redactDrive drive (i + 1)) (enumerate 0 drives)))])]"

section \<open>The collection\<close>

text \<open>\<^verbatim>\<open>Promise.all\<close> of the two calls for a vehicle.\<close>

definition settle_both :: "bool \<Rightarrow> 'a run \<Rightarrow> 'b run \<Rightarrow> ('a \<times> 'b) run" where
  "settle_both first m n =
     (fst m @ fst n,
      case (snd m, snd n) of
        (Inr x, Inr y) \<Rightarrow> Inr (x, y)
      | (Inl e, Inl f) \<Rightarrow> Inl (if first then e else f)
      | (Inl e, Inr y) \<Rightarrow> Inl e
      | (Inr x, Inl f) \<Rightarrow> Inl f)"

fun is_object :: "jsvalue \<Rightarrow> bool" where
  "is_object (ArrV vs) = True"
| "is_object (ObjV plain ms) = True"
| "is_object v = False"

definition collect_vehicle ::
    "snapshot_client \<Rightarrow> window_query \<Rightarrow> nat \<Rightarrow> jsvalue \<Rightarrow> (jsvalue \<times> jsvalue list) run" where
  "collect_vehicle client query index vehicle =
     (case get_member vehicle ''vehicleId'' of
        StrV vehicleId \<Rightarrow>
          run_bind (settle_both (sc_currentFirst client index)
              (answer (AskCurrent vehicleId) (sc_current client index vehicleId))
              (collectDriveWindow (sc_drives client index) vehicleId query)) (\<lambda>(response, drives).
            let current = get_member response ''value''
            in quietly (rbind (ensure (is_object current) (vehicle_label index @ js '' current response is invalid''))
                 (\<lambda>_. Inr (redact_vehicle query index current drives, drives))))
      | _ \<Rightarrow> quietly (Inl (SnapshotError (vehicle_label index @ js '' has no vehicle identity''))))"

fun collect_vehicles ::
    "snapshot_client \<Rightarrow> window_query \<Rightarrow> nat \<Rightarrow> jsvalue list \<Rightarrow> (jsvalue \<times> jsvalue list) list run" where
  "collect_vehicles client query index [] = quietly (Inr [])"
| "collect_vehicles client query index (vehicle # rest) =
     run_bind (collect_vehicle client query index vehicle) (\<lambda>x.
     run_bind (collect_vehicles client query (index + 1) rest) (\<lambda>xs. quietly (Inr (x # xs))))"

definition boundary_value :: "boundary_query \<Rightarrow> nat \<Rightarrow> jsvalue" where
  "boundary_value query amount = object_value
     [(''window'', str_value (bq_window query)), (''from_ms'', int_value (wq_from query)),
      (''to_ms'', int_value (wq_to query)), (''count'', int_value (int amount))]"

fun collect_boundaries ::
    "snapshot_client \<Rightarrow> jsstr \<Rightarrow> nat \<Rightarrow> boundary_query list \<Rightarrow> jsvalue list run" where
  "collect_boundaries client vehicleId number [] = quietly (Inr [])"
| "collect_boundaries client vehicleId number (query # rest) =
     run_bind (collectDriveWindow (sc_drives client number) vehicleId query) (\<lambda>drives.
     run_bind (collect_boundaries client vehicleId (number + 1) rest) (\<lambda>checks.
       quietly (Inr (boundary_value query (length drives) # checks))))"

definition snapshot_value :: "jsvalue list \<Rightarrow> jsvalue list \<Rightarrow> jsvalue" where
  "snapshot_value vehicles checks = object_value
     [(''schema_version'', int_value 1),
      (''profile'', str_value semanticProfile),
      (''vehicle_order'', ArrV (map (\<lambda>vehicle. get_member vehicle ''label'') vehicles)),
      (''vehicles'', ArrV vehicles),
      (''history_boundary_checks'', ArrV checks),
      (''null_rule'', str_value nullRule),
      (''stale_rule'', str_value staleRule)]"

text \<open>The identity of the first vehicle is a string: the loop over the vehicles has checked it.\<close>

definition first_vehicle_id :: "jsvalue list \<Rightarrow> jsstr" where
  "first_vehicle_id vehicles = (case get_member (hd vehicles) ''vehicleId'' of StrV s \<Rightarrow> s | _ \<Rightarrow> [])"

definition collectRedactedSemanticSnapshot :: "snapshot_client option \<Rightarrow> jsvalue \<Rightarrow> jsvalue run" where
  "collectRedactedSemanticSnapshot hub profile =
     (case hub of
        None \<Rightarrow> quietly (Inl (SnapshotError (js ''Hub client is required'')))
      | Some client \<Rightarrow>
          run_bind (answer AskVehicles (sc_vehicles client)) (\<lambda>response.
          run_bind (quietly (resolveSemanticSnapshotPlan
              (get_member (get_member response ''value'') ''vehicles'') profile)) (\<lambda>(plan, sources).
          run_bind (collect_vehicles client (sp_historyQuery plan) 0 sources) (\<lambda>vehicles.
          run_bind (quietly (case sp_boundaryQueries plan of
              Some queries \<Rightarrow> Inr queries
            | None \<Rightarrow> derivedBoundaryQueries (sp_historyQuery plan) (snd (hd vehicles)))) (\<lambda>queries.
          run_bind (collect_boundaries client (first_vehicle_id sources) (length sources) queries) (\<lambda>checks.
          let snapshot = snapshot_value (map fst vehicles) checks
          in quietly (rbind (assertRedactedSemanticSnapshot snapshot) (\<lambda>_. Inr snapshot))))))))"

section \<open>The credential store\<close>

record 'c read_only_store =
  ro_load :: 'c
  ro_save :: "'c \<Rightarrow> unit checked"
  ro_clear :: "unit checked"

definition createReadOnlyCredentialStore :: "'c \<Rightarrow> 'c read_only_store" where
  "createReadOnlyCredentialStore credential =
     \<lparr>ro_load = credential,
      ro_save = (\<lambda>_. Inl (SnapshotError (js ''read-only semantic snapshot attempted to save credentials''))),
      ro_clear = Inl (SnapshotError (js ''read-only semantic snapshot attempted to clear credentials''))\<rparr>"

section \<open>Drive pages\<close>

text \<open>\<^verbatim>\<open>DrivePageLike\<close>, or a result of another kind.\<close>

datatype drive_page = DrivePage "jsvalue list" "jsstr option" | OtherResult

record drive_page_request =
  dp_vehicleId :: jsstr
  dp_limit :: jsnum
  dp_cursor :: "jsstr option"

text \<open>The client: what its \<open>n\<close>-th \<^verbatim>\<open>drives\<close> call settles to, \<open>None\<close> when it
  never does. The loop then does not return either, nor does it when it runs for ever: both are
  \<open>None\<close>.\<close>

type_synonym page_reader = "nat \<Rightarrow> drive_page_request \<Rightarrow> (exn + drive_page) option"

partial_function (option) pages_loop ::
    "page_reader \<Rightarrow> jsstr \<Rightarrow> jsnum \<Rightarrow> jsnum \<Rightarrow> drive_page list \<Rightarrow> jsstr list \<Rightarrow> jsstr option
     \<Rightarrow> drive_page list checked option" where
  "pages_loop drives vehicleId limit maxPages pages seenCursors cursor =
     (case drives (length pages) \<lparr>dp_vehicleId = vehicleId, dp_limit = limit, dp_cursor = cursor\<rparr> of
        None \<Rightarrow> None
      | Some (Inl e) \<Rightarrow> Some (Inl (ClientThrew e))
      | Some (Inr OtherResult) \<Rightarrow> Some (Inl (SnapshotError (js ''drive pagination expected a page'')))
      | Some (Inr (DrivePage items nextCursor)) \<Rightarrow>
          (case nextCursor of
             None \<Rightarrow> Some (Inr (pages @ [DrivePage items nextCursor]))
           | Some c \<Rightarrow>
               if c \<in> set seenCursors then Some (Inl (SnapshotError (js ''drive pagination repeated a cursor'')))
               else if maxPages \<noteq> NaN \<and> \<not> num_less (num_of_int (int (length pages + 1))) maxPages
               then Some (Inl (SnapshotError (js ''drive pagination exceeded maximum page count'')))
               else pages_loop drives vehicleId limit maxPages (pages @ [DrivePage items nextCursor]) (c # seenCursors)
                      (Some c)))"

definition number_or :: "jsnum option \<Rightarrow> int \<Rightarrow> jsnum" where
  "number_or x n = (case x of None \<Rightarrow> num_of_int n | Some x \<Rightarrow> x)"

definition collectDrivePages ::
    "page_reader \<Rightarrow> jsstr \<Rightarrow> jsnum option \<Rightarrow> jsnum option \<Rightarrow> drive_page list checked option" where
  "collectDrivePages drives vehicleId limit maxPages =
     pages_loop drives vehicleId (number_or limit 25) (number_or maxPages 128) [] [] None"

section \<open>Runs\<close>

lemma run_bind_Inr: "snd (run_bind m f) = Inr y \<longleftrightarrow> (\<exists>x. snd m = Inr x \<and> snd (f x) = Inr y)"
  by (auto simp: run_bind_def split: sum.splits)

lemma fst_run_bind: "snd m = Inr x \<Longrightarrow> fst (run_bind m f) = fst m @ fst (f x)"
  by (simp add: run_bind_def)

lemma quietly_simps [simp]: "fst (quietly r) = []" "snd (quietly r) = r"
  by (simp_all add: quietly_def)

lemma answer_Inr [simp]: "snd (answer call reply) = Inr v \<longleftrightarrow> reply = Inr v"
  by (auto simp: answer_def split: sum.splits)

lemma fst_answer [simp]: "fst (answer call reply) = [call]"
  by (simp add: answer_def)

lemma get_object [simp]:
  "get_member (object_value ms) key = (case map_of ms key of None \<Rightarrow> UndefinedV | Some v \<Rightarrow> v)"
proof -
  have "map_of (map (\<lambda>(k, v). (js k, v)) ms) (js key) = map_of ms key" by (induction ms) auto
  then show ?thesis by (simp add: object_value_def)
qed

end
