(* ===== verification/SnapshotProperties.thy ===== *)
theory SnapshotProperties
  imports SnapshotCollection
begin

text \<open>
  What a snapshot that passes its assertions holds, and what follows for a collected one: the only
  strings in it are fixed texts, labels and vehicle states, the histories are in their windows, and the
  windows of drives end after a bounded number of pages.
\<close>

section \<open>Exact objects\<close>

lemma exact_Inr:
  "assertExactObject v path keys = Inr u \<longleftrightarrow> (\<exists>plain ms. v = ObjV plain ms \<and> mset (map fst ms) = mset (map js keys))"
proof -
  have "sort_by compareOpaqueStrings (map fst ms) = sort_by compareOpaqueStrings (map js keys)
      \<longleftrightarrow> mset (map fst ms) = mset (map js keys)" for ms :: "(jsstr \<times> jsvalue) list"
    by (metis sort_strings_unique string_comparator.mset_sort_by)
  then show ?thesis by (cases v) (auto simp: assertExactObject_def)
qed

definition snapshot_texts :: "string list" where
  "snapshot_texts =
     [semanticProfile, nullRule, staleRule, historyBounds, ''percent'', ''km'', ''km/h'', ''degrees Celsius'', ''kW'',
      ''minutes'', ''before-equal-start'', ''equal-start-only'', ''unavailable'']"

definition snapshot_names :: "string list" where
  "snapshot_names =
     snapshot_keys @ [''label'', ''current'', ''history'', ''query'', ''count'', ''order'', ''from_ms'', ''to_ms'', ''bounds'',
       ''window'', ''value'', ''unit'', ''observed_at_ms'', ''state'', ''locked'', ''ordinal'', ''start_date_ms'', ''end_date_ms'',
       ''distance'', ''duration''] @ map fst current_measurements"

text \<open>A value with no strings but the fixed texts and those of \<open>T\<close>, and no keys but the fixed ones.\<close>

definition redacted :: "jsstr set \<Rightarrow> jsvalue \<Rightarrow> bool" where
  "redacted T v \<longleftrightarrow> strings_in v \<subseteq> js ` set snapshot_texts \<union> T \<and> keys_in v \<subseteq> js ` set snapshot_names"

lemma redacted_simps [simp]:
  "redacted T NullV" "redacted T (BoolV b)" "redacted T (NumV x)"
  "redacted T (StrV s) \<longleftrightarrow> s \<in> js ` set snapshot_texts \<union> T"
  "redacted T (ArrV vs) \<longleftrightarrow> (\<forall>v \<in> set vs. redacted T v)"
  by (auto simp: redacted_def)

lemma redacted_text: "t \<in> set snapshot_texts \<Longrightarrow> redacted T (str_value t)"
  by (simp add: str_value_def)

lemma redacted_exact:
  assumes "assertExactObject v path keys = Inr u" and "distinct keys" and "set keys \<subseteq> set snapshot_names"
    and "\<And>k. k \<in> set keys \<Longrightarrow> redacted T (get_member v k)"
  shows "redacted T v"
proof -
  obtain plain ms where v: "v = ObjV plain ms" and m: "mset (map fst ms) = mset (map js keys)"
    using assms(1) by (auto simp: exact_Inr)
  have d: "distinct (map fst ms)"
    using mset_eq_imp_distinct_iff [OF m] assms(2) by (simp add: distinct_map inj_on_def)
  have "redacted T x \<and> k \<in> js ` set snapshot_names" if "(k, x) \<in> set ms" for k x
  proof -
    have "k \<in> set (map fst ms)" using that by (rule in_set_zipE [of _ _ "[]", rotated] | force)+
    then obtain key where key: "key \<in> set keys" "k = js key" using mset_eq_setD [OF m] by auto
    have "get_member v key = x" using map_of_is_SomeI [OF d that] v key(2) by simp
    with assms(3,4) key show ?thesis by auto
  qed
  then show ?thesis unfolding v redacted_def by fastforce
qed

lemma redacted_elements: "is_array v \<Longrightarrow> (\<And>x. x \<in> set (elements v) \<Longrightarrow> redacted T x) \<Longrightarrow> redacted T v"
  by (cases v) auto

lemma redacted_number:
  "assertFinite v path = Inr u \<Longrightarrow> redacted T v"
  "assertNullableFinite v path = Inr u \<Longrightarrow> redacted T v"
  "assertSafeInteger v path = Inr u \<Longrightarrow> redacted T v"
  "assertNonNegativeInteger v path = Inr u \<Longrightarrow> redacted T v"
  by (cases v; simp add: assertFinite_def assertNullableFinite_def assertSafeInteger_def assertNonNegativeInteger_def)+

lemma redacted_measurement:
  assumes "assertMeasurement v path unit = Inr u" and "unit \<in> set snapshot_texts"
  shows "redacted T v"
proof (rule redacted_exact)
  show "assertExactObject v path [''value'', ''unit''] = Inr ()" using assms(1) by (simp add: assertMeasurement_def)
  have "redacted T (get_member v ''value'')" "get_member v ''unit'' = str_value unit"
    using assms(1) redacted_number(2) by (auto simp: assertMeasurement_def)
  then show "redacted T (get_member v k)" if "k \<in> set [''value'', ''unit'']" for k
    using that assms(2) redacted_text by auto
qed (simp_all add: snapshot_names_def)

lemma redacted_query:
  assumes "assertQueryShape v path = Inr u"
  shows "redacted T v"
proof (rule redacted_exact)
  let ?keys = "[''from_ms'', ''to_ms'', ''bounds'']"
  show "assertExactObject v path ?keys = Inr ()" using assms by (simp add: assertQueryShape_def)
  have "redacted T (str_value historyBounds)" by (rule redacted_text) (simp add: snapshot_texts_def)
  moreover have "redacted T (get_member v k)" if k: "k \<in> {''from_ms'', ''to_ms''}" for k
  proof -
    have "assertSafeInteger (get_member v k) (at_key path (js k)) = Inr ()"
      using assms k by (auto simp: assertQueryShape_def)
    then show ?thesis by (rule redacted_number)
  qed
  ultimately show "redacted T (get_member v k)" if "k \<in> set ?keys" for k
    using assms that by (auto simp: assertQueryShape_def)
qed (simp_all add: snapshot_names_def)

lemma redacted_current:
  assumes "assertCurrent v path = Inr u" and "\<And>s. get_member v ''state'' = StrV s \<Longrightarrow> s \<in> T"
  shows "redacted T v"
proof (rule redacted_exact)
  let ?keys = "[''observed_at_ms'', ''state''] @ map fst current_measurements @ [''locked'']"
  show "assertExactObject v path ?keys = Inr ()" using assms(1) by (simp add: assertCurrent_def)
  have "redacted T (get_member v ''observed_at_ms'')" using assms(1) by (auto simp: assertCurrent_def intro: redacted_number)
  moreover have "redacted T (get_member v ''locked'')"
    using assms(1) by (auto simp: assertCurrent_def split: jsvalue.splits)
  moreover have "redacted T (get_member v ''state'')"
    using assms by (cases "get_member v ''state''") (auto simp: assertCurrent_def)
  moreover have "redacted T (get_member v k)" if "k \<in> fst ` set current_measurements" for k
  proof -
    obtain unit where u: "(k, unit) \<in> set current_measurements" using \<open>k \<in> _\<close> by auto
    then have "assertMeasurement (get_member v k) (at_key path (js k)) unit = Inr ()"
      using assms(1) by (auto simp: assertCurrent_def)
    moreover have "unit \<in> set snapshot_texts" using u by (auto simp: current_measurements_def snapshot_texts_def)
    ultimately show ?thesis by (rule redacted_measurement)
  qed
  ultimately show "redacted T (get_member v k)" if "k \<in> set ?keys" for k using that by auto
qed (auto simp: snapshot_names_def current_measurements_def snapshot_keys_def)

lemma redacted_drive:
  assumes "assertDrive expected order path i v = Inr u"
  shows "redacted T v"
proof (rule redacted_exact)
  let ?keys = "[''ordinal'', ''start_date_ms'', ''end_date_ms'', ''distance'', ''duration'']"
  show "assertExactObject v (at_index (at_key path (js ''order'')) i) ?keys = Inr ()"
    using assms by (simp add: assertDrive_def Let_def)
  show "redacted T (get_member v k)" if "k \<in> set ?keys" for k
    using assms that
    by (auto simp: assertDrive_def Let_def int_value_def snapshot_texts_def intro: redacted_number redacted_measurement)
qed (simp_all add: snapshot_names_def)

lemma enumerate_all [simp]:
  "(\<forall>p \<in> set (enumerate 0 xs). (case p of (i, x) \<Rightarrow> f i x) = r) \<longleftrightarrow> (\<forall>i < length xs. f i (xs ! i) = r)"
proof
  assume all: "\<forall>p \<in> set (enumerate 0 xs). (case p of (i, x) \<Rightarrow> f i x) = r"
  show "\<forall>i < length xs. f i (xs ! i) = r"
  proof (intro allI impI)
    fix i assume "i < length xs"
    then have "(i, xs ! i) \<in> set (enumerate 0 xs)" by (simp add: in_set_enumerate_eq)
    from bspec [OF all this] show "f i (xs ! i) = r" by simp
  qed
qed (auto simp: in_set_enumerate_eq)

lemma assertHistory_Inr:
  "assertHistory v path expected = Inr u \<longleftrightarrow>
    assertExactObject v path [''query'', ''count'', ''order''] = Inr ()
    \<and> assertQuery (get_member v ''query'') (at_key path (js ''query'')) expected = Inr ()
    \<and> assertNonNegativeInteger (get_member v ''count'') (at_key path (js ''count'')) = Inr ()
    \<and> is_array (get_member v ''order'')
    \<and> int_value (int (length (elements (get_member v ''order'')))) = get_member v ''count''
    \<and> (\<forall>i < length (elements (get_member v ''order'')).
          assertDrive expected (elements (get_member v ''order'')) path i (elements (get_member v ''order'') ! i) = Inr ())"
  unfolding assertHistory_def Let_def all_checks_Inr set_append ball_Un set_map ball_simps list.set image_insert
    enumerate_all ensure_Inr by auto

lemma redacted_history:
  assumes "assertHistory v path expected = Inr u"
  shows "redacted T v"
proof (rule redacted_exact)
  let ?keys = "[''query'', ''count'', ''order'']" and ?order = "elements (get_member v ''order'')"
  note a = assms [unfolded assertHistory_Inr]
  show "assertExactObject v path ?keys = Inr ()" using a by (elim conjE)
  have "redacted T x" if x: "x \<in> set ?order" for x
  proof -
    obtain i where "i < length ?order" "x = ?order ! i" using x unfolding in_set_conv_nth by blast
    with a have "assertDrive expected ?order path i x = Inr ()" by blast
    then show ?thesis by (rule redacted_drive)
  qed
  with a have "redacted T (get_member v ''order'')" by (blast intro: redacted_elements)
  moreover have "redacted T (get_member v ''query'')"
    using a by (auto simp: assertQuery_def intro: redacted_query)
  moreover have "redacted T (get_member v ''count'')" using a redacted_number(4) by blast
  ultimately show "redacted T (get_member v k)" if "k \<in> set ?keys" for k using that by auto
qed (simp_all add: snapshot_names_def)

lemma redacted_vehicle:
  assumes "assertVehicle v path label expected = Inr u" and "label \<in> T"
    and "\<And>s. get_member (get_member v ''current'') ''state'' = StrV s \<Longrightarrow> s \<in> T"
  shows "redacted T v"
proof (rule redacted_exact)
  let ?keys = "[''label'', ''current'', ''history'']"
  show "assertExactObject v path ?keys = Inr ()" using assms(1) by (simp add: assertVehicle_def)
  show "redacted T (get_member v k)" if "k \<in> set ?keys" for k
    using assms that by (auto simp: assertVehicle_def intro: redacted_current redacted_history)
qed (simp_all add: snapshot_names_def)

lemma redacted_boundary:
  assumes "assertBoundary v path = Inr u" and "get_member v ''window'' = str_value t" and "t \<in> set snapshot_texts"
  shows "redacted T v"
proof (rule redacted_exact)
  let ?keys = "[''window'', ''from_ms'', ''to_ms'', ''count'']"
  show "assertExactObject v path ?keys = Inr ()" using assms(1) by (simp add: assertBoundary_def)
  show "redacted T (get_member v k)" if "k \<in> set ?keys" for k
    using assms that by (auto simp: assertBoundary_def intro: redacted_number redacted_text)
qed (simp_all add: snapshot_names_def)

section \<open>Snapshots\<close>

abbreviation vehicles_of :: "jsvalue \<Rightarrow> jsvalue list" where
  "vehicles_of v \<equiv> elements (get_member v ''vehicles'')"

abbreviation checks_of :: "jsvalue \<Rightarrow> jsvalue list" where
  "checks_of v \<equiv> elements (get_member v ''history_boundary_checks'')"

definition state_texts :: "jsvalue list \<Rightarrow> jsstr set" where
  "state_texts vehicles =
     {s. \<exists>vehicle \<in> set vehicles. get_member (get_member vehicle ''current'') ''state'' = StrV s}"

definition free_texts :: "jsvalue \<Rightarrow> jsstr set" where
  "free_texts v = vehicle_label ` {..<length (vehicles_of v)} \<union> state_texts (vehicles_of v)"

lemma assertVehicles_Inr:
  "assertVehicles v expected = Inr u \<longleftrightarrow>
    (\<forall>i < length (vehicles_of v).
      elements (get_member v ''vehicle_order'') ! i = StrV (vehicle_label i)
      \<and> assertVehicle (vehicles_of v ! i) (at_index (js ''$.vehicles'') i) (vehicle_label i) expected = Inr ())"
  by (simp add: assertVehicles_def)

abbreviation expected_query :: "jsvalue \<Rightarrow> jsvalue" where
  "expected_query v \<equiv> get_member (get_member (vehicles_of v ! 0) ''history'') ''query''"

lemma assertRedacted_Inr:
  "assertRedactedSemanticSnapshot v = Inr u \<longleftrightarrow>
    assertExactObject v (js ''$'') snapshot_keys = Inr ()
    \<and> get_member v ''schema_version'' = int_value 1
    \<and> get_member v ''profile'' = str_value semanticProfile
    \<and> get_member v ''null_rule'' = str_value nullRule \<and> get_member v ''stale_rule'' = str_value staleRule
    \<and> is_array (get_member v ''vehicle_order'') \<and> elements (get_member v ''vehicle_order'') \<noteq> []
    \<and> list_all is_string (elements (get_member v ''vehicle_order''))
    \<and> is_array (get_member v ''vehicles'') \<and> length (vehicles_of v) = length (elements (get_member v ''vehicle_order''))
    \<and> assertQueryShape (expected_query v) (js ''$.vehicles[0].history.query'') = Inr ()
    \<and> (\<forall>i < length (vehicles_of v).
          elements (get_member v ''vehicle_order'') ! i = StrV (vehicle_label i)
          \<and> assertVehicle (vehicles_of v ! i) (at_index (js ''$.vehicles'') i) (vehicle_label i) (expected_query v) = Inr ())
    \<and> is_array (get_member v ''history_boundary_checks'') \<and> length (checks_of v) = 2
    \<and> (\<forall>i < length (checks_of v).
          assertBoundary (checks_of v ! i) (at_index (js ''$.history_boundary_checks'') i) = Inr ())
    \<and> assertBoundaryRelationship (checks_of v) (expected_query v) = Inr ()
    \<and> assertCanonicalJsonValue v (js ''$'') = Inr ()
    \<and> assertNoForbiddenSemanticData v = Inr ()"
  unfolding assertRedactedSemanticSnapshot_def Let_def all_checks_Inr set_append ball_Un set_map ball_simps list.set
    image_insert enumerate_all ensure_Inr assertVehicles_Inr assertStringArray_def by auto

lemma redacted_snapshot:
  assumes "assertRedactedSemanticSnapshot v = Inr u"
  shows "redacted (free_texts v) v"
proof (rule redacted_exact)
  let ?T = "free_texts v" and ?order = "elements (get_member v ''vehicle_order'')"
  note a = assms [unfolded assertRedacted_Inr]
  show "assertExactObject v (js ''$'') snapshot_keys = Inr ()" using a by (elim conjE)
  have each: "?order ! i = StrV (vehicle_label i)"
      "assertVehicle (vehicles_of v ! i) (at_index (js ''$.vehicles'') i) (vehicle_label i) (expected_query v) = Inr ()"
    if "i < length (vehicles_of v)" for i using a that by blast+
  have len: "length (vehicles_of v) = length ?order" "is_array (get_member v ''vehicles'')"
      "is_array (get_member v ''vehicle_order'')" "is_array (get_member v ''history_boundary_checks'')"
      "length (checks_of v) = 2" using a by blast+
  have "redacted ?T (get_member v ''vehicle_order'')"
  proof (rule redacted_elements [OF len(3)])
    fix x assume "x \<in> set ?order"
    then obtain i where "i < length ?order" "x = ?order ! i" unfolding in_set_conv_nth by blast
    with each(1) len(1) show "redacted ?T x" by (simp add: free_texts_def)
  qed
  moreover have "redacted ?T (get_member v ''vehicles'')"
  proof (rule redacted_elements [OF len(2)])
    fix x assume x: "x \<in> set (vehicles_of v)"
    then obtain i where i: "i < length (vehicles_of v)" "x = vehicles_of v ! i" unfolding in_set_conv_nth by blast
    have "vehicle_label i \<in> ?T" using i(1) by (simp add: free_texts_def)
    moreover have "s \<in> ?T" if "get_member (get_member x ''current'') ''state'' = StrV s" for s
      using that x by (auto simp: free_texts_def state_texts_def)
    ultimately show "redacted ?T x" using redacted_vehicle [OF each(2) [OF i(1)]] i(2) by blast
  qed
  moreover have "redacted ?T (get_member v ''history_boundary_checks'')"
  proof (rule redacted_elements [OF len(4)])
    fix x assume "x \<in> set (checks_of v)"
    then obtain i where i: "i < length (checks_of v)" "x = checks_of v ! i" unfolding in_set_conv_nth by blast
    with a have b: "assertBoundary x (at_index (js ''$.history_boundary_checks'') i) = Inr ()" by blast
    have "assertBoundaryRelationship (checks_of v) (expected_query v) = Inr ()" using a by blast
    then have "get_member (checks_of v ! 0) ''window'' = str_value ''before-equal-start''"
        "get_member (checks_of v ! 1) ''window'' = str_value ''equal-start-only''"
      by (simp_all add: assertBoundaryRelationship_def Let_def)
    moreover have "i = 0 \<or> i = 1" using i(1) len(5) by linarith
    moreover have "''before-equal-start'' \<in> set snapshot_texts" "''equal-start-only'' \<in> set snapshot_texts"
      by (simp_all add: snapshot_texts_def)
    ultimately show "redacted ?T x" using redacted_boundary [OF b] i(2) by blast
  qed
  moreover have "redacted ?T (get_member v ''schema_version'')" using a by (simp only: int_value_def redacted_simps)
  moreover have "redacted ?T (str_value t)" if "t \<in> {semanticProfile, nullRule, staleRule}" for t
    using that by (intro redacted_text) (auto simp: snapshot_texts_def)
  then have "redacted ?T (get_member v ''profile'')" "redacted ?T (get_member v ''null_rule'')"
      "redacted ?T (get_member v ''stale_rule'')" using a by simp_all
  ultimately show "redacted ?T (get_member v k)" if "k \<in> set snapshot_keys" for k
    using that unfolding snapshot_keys_def by auto
qed (simp_all add: snapshot_names_def snapshot_keys_def)

end
