(* ===== verification/SnapshotPatterns.thy ===== *)
theory SnapshotPatterns
  imports SnapshotProperties
begin

text \<open>
  The patterns of the snapshot on plain texts: the names and the fixed texts of the format are
  allowed. The samples of the next theory use it.
\<close>

section \<open>Names\<close>

definition lower_char :: "char \<Rightarrow> bool" where
  "lower_char c \<longleftrightarrow> c \<in> set ''abcdefghijklmnopqrstuvwxyz''"

fun begins :: "string \<Rightarrow> string \<Rightarrow> bool" where
  "begins [] t = True"
| "begins (c # w) [] = False"
| "begins (c # w) (d # t) = (c = d \<and> begins w t)"

fun contains :: "string \<Rightarrow> string \<Rightarrow> bool" where
  "contains w [] = begins w []"
| "contains w (c # t) = (begins w (c # t) \<or> contains w t)"

lemma lower_range: "lower_char c \<Longrightarrow> 97 \<le> (of_char c :: nat) \<and> (of_char c :: nat) \<le> 122"
  by (auto simp: lower_char_def)

lemma fold_lower:
  assumes "lower_char c"
  shows "fold_unit (of_char c) = of_char c \<and> is_alnum (of_char c)"
proof -
  have u: "97 \<le> unat (of_char c :: code_unit)" "unat (of_char c :: code_unit) \<le> 122"
    using lower_range [OF assms] by (simp_all add: unat_of_char)
  then have "(of_char c :: code_unit) \<noteq> 383" "(of_char c :: code_unit) \<noteq> 8490" by auto
  with u show ?thesis by (simp add: fold_unit_def is_alnum_def in_range_def)
qed

lemma underscore: "\<not> lower_char (CHR ''_'')" "\<not> is_alnum (fold_unit 95)"
  by (simp_all add: lower_char_def fold_unit_def char_class_defs of_char_def)

lemma begins_js: "begins w t \<longleftrightarrow> starts_with (js t) (js w)"
  by (induction w t rule: begins.induct) (auto simp: starts_with_def js_Cons)

lemma folds_lower: "list_all lower_char t \<Longrightarrow> map fold_unit (js t) = js t"
  by (induction t) (auto simp: js_Cons fold_lower)

lemma contains_js:
  assumes "list_all lower_char t" and "w \<noteq> []"
  shows "matches_somewhere (folds_to w) (js t) \<longleftrightarrow> contains w t"
  using assms(1)
proof (induction t)
  case Nil
  then show ?case using assms(2) by (cases w) (simp_all add: matches_somewhere_def)
next
  case (Cons c t)
  have "[0..<length (js (c # t))] = 0 # map Suc [0..<length (js t)]" by (simp add: upt_conv_Cons map_Suc_upt del: upt_Suc)
  moreover have "(\<lambda>i. folds_to w (js (c # t)) (Suc i)) = folds_to w (js t)"
    by (simp add: folds_to_def js_Cons fun_eq_iff)
  moreover have "folds_to w (js (c # t)) 0 = begins w (c # t)"
    using Cons.prems by (simp only: folds_to_def drop_0 folds_lower begins_js)
  moreover have "list_ex p (map Suc ns) \<longleftrightarrow> list_ex (\<lambda>i. p (Suc i)) ns" for p ns by (induction ns) auto
  ultimately show ?case using Cons by (simp add: matches_somewhere_def)
qed

lemma forbidden_key_js:
  assumes "list_all (\<lambda>c. lower_char c \<or> c = CHR ''_'') k"
  shows "forbiddenKeyPattern (js k) \<longleftrightarrow>
    list_ex (\<lambda>w. contains w (filter (\<lambda>c. c \<noteq> CHR ''_'') k))
      [''uuid'', ''vehicleid'', ''displayname'', ''address'', ''location'', ''token'', ''cursor'', ''endpoint'']"
proof -
  have "filter (\<lambda>c. is_alnum (fold_unit c)) (js k) = js (filter (\<lambda>c. c \<noteq> CHR ''_'') k)"
    using assms
  proof (induction k)
    case (Cons c k)
    then show ?case by (cases "c = CHR ''_''") (simp_all add: js_Cons fold_lower underscore)
  qed simp
  moreover have "list_all lower_char (filter (\<lambda>c. c \<noteq> CHR ''_'') k)"
    using assms by (auto simp: list_all_iff)
  ultimately show ?thesis by (simp add: forbiddenKeyPattern_def contains_js)
qed

lemma names_allowed: "list_all (\<lambda>k. \<not> forbiddenKeyPattern (js k)) snapshot_names"
  by (simp add: snapshot_names_def snapshot_keys_def current_measurements_def forbidden_key_js lower_char_def)

section \<open>Texts\<close>

lemma split_on_count: "length (split_on d s) = length (filter (\<lambda>c. c = d) s) + 1"
  by (induction s) (auto split: list.split)

lemma uuid_dashes:
  assumes "semanticUuidPattern s"
  shows "4 \<le> length (filter (\<lambda>c. c = uMINUS) s)"
proof -
  obtain i where "uuid_shape is_hex (take 36 (drop i s))"
    using assms by (auto simp: semanticUuidPattern_def matches_somewhere_def list_ex_iff)
  then have "length (split_on uMINUS (take 36 (drop i s))) = 5"
    using arg_cong [of _ _ length] unfolding uuid_shape_def by fastforce
  then have "length (filter (\<lambda>c. c = uMINUS) (take 36 (drop i s))) = 4" by (simp add: split_on_count)
  moreover have "length (filter p (take n (drop i s))) \<le> length (filter p s)" for p n
    by (metis (no_types, lifting) append_take_drop_id filter_append length_append le_add1 le_add2 le_trans)
  ultimately show ?thesis by metis
qed

lemma fold_colon: "fold_unit c = 58 \<longleftrightarrow> c = 58"
proof -
  have "c + 32 = 58 \<longleftrightarrow> c = 58 - 32" by (simp only: eq_diff_eq)
  then show ?thesis by (auto simp: fold_unit_def in_range_def)
qed

lemma folds_colon:
  assumes "folds_to w s i" and "CHR '':'' \<in> set w"
  shows "uCOLON \<in> set s"
proof -
  obtain rest where "map fold_unit (drop i s) = js w @ rest" using assms(1) by (auto simp: folds_to_def starts_with_iff)
  then have "of_char (CHR '':'') \<in> set (map fold_unit (drop i s))" using imageI [OF assms(2), of "of_char :: char \<Rightarrow> code_unit"] by (simp add: js_def)
  then obtain c where "c \<in> set (drop i s)" "fold_unit c = 58" by auto
  then show ?thesis using in_set_dropD by (auto simp: fold_colon)
qed

lemma endpoint_colon: "endpointPattern s \<Longrightarrow> uCOLON \<in> set s"
  by (auto simp: endpointPattern_def matches_somewhere_def list_ex_iff intro: folds_colon)

lemma token_hex:
  assumes "semanticTokenPattern s"
  shows "64 \<le> length s \<and> (length s < 128 \<longrightarrow> is_hex (s ! 63))"
proof -
  obtain i where i: "i + 64 \<le> length s" "list_all is_hex (take 64 (drop i s))"
    using assms by (auto simp: semanticTokenPattern_def matches_somewhere_def list_ex_iff)
  have "is_hex (s ! 63)" if "length s < 128"
  proof -
    have "take 64 (drop i s) ! (63 - i) = s ! 63" "63 - i < length (take 64 (drop i s))" using i(1) that by auto
    with i(2) show ?thesis by (metis list_all_length)
  qed
  with i(1) show ?thesis by simp
qed

definition plain_text :: "string \<Rightarrow> bool" where
  "plain_text t \<longleftrightarrow> length (filter (\<lambda>c. c = CHR ''-'') t) < 4 \<and> CHR '':'' \<notin> set t
     \<and> (length t < 64 \<or> length t < 128 \<and> \<not> is_hex (of_char (t ! 63)))"

lemma js_dashes: "length (filter (\<lambda>c. c = uMINUS) (js t)) = length (filter (\<lambda>c. c = CHR ''-'') t)"
proof (induction t)
  case (Cons c t)
  have "of_char c = uMINUS \<longleftrightarrow> c = CHR ''-''" using of_char_code_unit_inject [of c "CHR ''-''"] by simp
  with Cons show ?case by (simp add: js_Cons)
qed simp

lemma js_colon: "uCOLON \<in> set (js t) \<longleftrightarrow> CHR '':'' \<in> set t"
proof (induction t)
  case (Cons c t)
  have "of_char c = uCOLON \<longleftrightarrow> c = CHR '':''" using of_char_code_unit_inject [of c "CHR '':''"] by simp
  with Cons show ?case by (auto simp: js_Cons)
qed simp

lemma plain_text_allowed:
  assumes "plain_text t"
  shows "\<not> forbidden_string (js t)"
proof -
  have "\<not> semanticUuidPattern (js t)"
    using assms uuid_dashes [of "js t"] unfolding plain_text_def js_dashes by linarith
  moreover have "\<not> endpointPattern (js t)"
    using assms endpoint_colon [of "js t"] unfolding plain_text_def js_colon by blast
  moreover have "\<not> semanticTokenPattern (js t)"
  proof
    assume "semanticTokenPattern (js t)"
    then have t: "64 \<le> length t" "length t < 128 \<longrightarrow> is_hex (js t ! 63)" using token_hex [of "js t"] by simp_all
    have "js t ! 63 = of_char (t ! 63)" unfolding js_def using t(1) by (intro nth_map) linarith
    with t assms show False unfolding plain_text_def by (metis not_le)
  qed
  ultimately show ?thesis unfolding forbidden_string_def by blast
qed

lemma texts_plain: "list_all plain_text snapshot_texts"
  by (simp add: snapshot_texts_def plain_text_def nullRule_def staleRule_def historyBounds_def semanticProfile_def char_class_defs)

end
