(* ===== verification/SnapshotSample.thy ===== *)
theory SnapshotSample
  imports SnapshotPatterns
begin

text \<open>
  A client and a profile for which a snapshot is collected: one vehicle with one drive.
\<close>

section \<open>The sample\<close>

definition semantic_identity :: jsstr where
  "semantic_identity = js ''11111111-1111-4111-8111-111111111111''"

definition semantic_profile :: jsvalue where
  "semantic_profile = object_value
     [(''schemaVersion'', int_value 1), (''primaryVehicleId'', StrV semantic_identity), (''vehicleCount'', int_value 1),
      (''history'', object_value [(''fromMs'', int_value 0), (''toMs'', int_value 10)]),
      (''boundaryMode'', str_value ''derived-latest-drive'')]"

definition semantic_vehicle :: jsvalue where
  "semantic_vehicle = object_value [(''vehicleId'', StrV semantic_identity)]"

definition semantic_current :: jsvalue where
  "semantic_current = object_value
     [(''observedAtMs'', NullV), (''state'', str_value ''online''), (''batteryLevel'', int_value 80),
      (''estBatteryRangeKm'', NullV), (''odometer'', NullV), (''speed'', NullV), (''insideTemp'', NullV),
      (''outsideTemp'', NullV), (''chargerPower'', NullV), (''locked'', BoolV True)]"

definition semantic_drive :: jsvalue where
  "semantic_drive = object_value
     [(''startDateMs'', int_value 5), (''endDateMs'', int_value 6), (''distanceKm'', NullV), (''durationMin'', NullV)]"

definition page_value :: "jsvalue list \<Rightarrow> jsvalue" where
  "page_value items = object_value
     [(''kind'', str_value ''page''), (''value'', object_value [(''items'', ArrV items), (''nextCursor'', NullV)])]"

definition semantic_client :: snapshot_client where
  "semantic_client =
     \<lparr>sc_vehicles = Inr (object_value [(''value'', object_value [(''vehicles'', ArrV [semantic_vehicle])])]),
      sc_current = (\<lambda>i vehicleId. Inr (object_value [(''value'', semantic_current)])),
      sc_drives = (\<lambda>window page call. Inr (page_value (if window = 1 then [] else [semantic_drive]))),
      sc_currentFirst = (\<lambda>_. False)\<rparr>"

definition semantic_plan :: snapshot_plan where
  "semantic_plan =
     \<lparr>sp_primaryVehicleId = Some semantic_identity, sp_vehicleCount = 1,
      sp_historyQuery = \<lparr>wq_from = 0, wq_to = 10\<rparr>, sp_boundaryQueries = None\<rparr>"

definition semantic_snapshot :: jsvalue where
  "semantic_snapshot = snapshot_value
     [redact_vehicle \<lparr>wq_from = 0, wq_to = 10\<rparr> 0 semantic_current [semantic_drive]]
     [boundary_value (boundary ''before-equal-start'' 0 5) 0, boundary_value (boundary ''equal-start-only'' 5 6) 1]"

section \<open>Evaluation\<close>

lemma exact_object: "map fst ms = keys \<Longrightarrow> assertExactObject (object_value ms) path keys = Inr ()"
proof -
  have "map fst (map (\<lambda>(k, v). (js k, v)) ms) = map js (map fst ms)" by (induction ms) auto
  then show "assertExactObject (object_value ms) path keys = Inr ()" if "map fst ms = keys"
    unfolding exact_Inr that [symmetric]
    by (intro exI [of _ True] exI [of _ "map (\<lambda>(k, v). (js k, v)) ms"]) (simp only: object_value_def)
qed

lemma canonical_object [simp]:
  "assertCanonicalJsonValue (object_value ms) path = Inr u \<longleftrightarrow>
    list_all (\<lambda>(k, v). assertCanonicalJsonValue v (at_key path (js k)) = Inr ()) ms"
proof -
  have "canonical_members (map (\<lambda>(k, v). (js k, v)) ms) path = Inr u \<longleftrightarrow>
      list_all (\<lambda>(k, v). assertCanonicalJsonValue v (at_key path (js k)) = Inr ()) ms" for u
    by (induction ms) (auto simp: rbind_Inr_iff)
  then show ?thesis by (simp add: object_value_def rbind_Inr_iff)
qed

lemma redacted_object [simp]:
  "redacted T (object_value ms) \<longleftrightarrow> list_all (\<lambda>(k, v). k \<in> set snapshot_names \<and> redacted T v) ms"
  by (induction ms) (auto simp: redacted_def object_value_def)

lemma int_value_simps [simp]:
  "assertFinite (int_value n) path = Inr u" "assertNullableFinite (int_value n) path = Inr u"
  "assertNullableFinite NullV path = Inr u"
  "value_less (int_value m) (int_value n) \<longleftrightarrow> m < n" "int_value m = int_value n \<longleftrightarrow> m = n"
  "safe_int (int_value n) = (if is_safe_integer n then Some n else None)" "plus_one (int_value n) = int_value (n + 1)"
  "assertCanonicalJsonValue (int_value n) path = Inr u" "redacted T (int_value n)"
  by (simp_all add: int_value_def assertFinite_def assertNullableFinite_def num_of_int_def num_is_safe_integer_def)

lemma one_page:
  assumes "\<And>item. item \<in> set items \<Longrightarrow> in_window query item"
  shows "snd (collectDriveWindow (\<lambda>page call. Inr (page_value items)) vehicleId query) = Inr items"
proof -
  have "page_of (page_value items) = items" "next_cursor (page_value items) = NullV"
    by (simp_all add: page_of_def next_cursor_def page_value_def)
  moreover from this assms have "window_page query (page_value items) = Inr ()"
    by (simp add: window_page_def) (simp add: page_value_def)
  moreover have "(128 :: nat) = Suc 127" by simp
  ultimately show ?thesis unfolding collectDriveWindow_def by (simp only: window_loop.simps Let_def run_bind_Inr) simp
qed

lemma drive_in_window: "wq_from query \<le> 5 \<Longrightarrow> 5 < wq_to query \<Longrightarrow> in_window query semantic_drive"
  by (simp add: in_window_def semantic_drive_def) (simp add: int_value_def num_of_int_def)

lemma semantic_plan_ok: "normalizeSemanticProfile semantic_profile = Inr semantic_plan"
proof -
  have "uuidIdentityPattern semantic_identity"
    by (simp add: uuidIdentityPattern_def semantic_identity_def uuid_shape_def js_eval)
  then show ?thesis
    by (simp add: normalizeSemanticProfile_def semantic_profile_def semantic_plan_def Let_def rbind_Inr_iff exact_object
        assertSafeInteger_def is_safe_integer_def max_safe_integer_def int_or_def str_value_def) (simp add: object_value_def)
qed

section \<open>The snapshot passes\<close>

lemma measurement_passes [simp]:
  "assertMeasurement (measurement NullV unit) path unit = Inr ()"
  "assertMeasurement (measurement (int_value n) unit) path unit = Inr ()"
  by (simp_all add: assertMeasurement_def measurement_def exact_object)

lemma current_passes: "assertCurrent (redactCurrent semantic_current) path = Inr ()"
  by (simp add: assertCurrent_def redactCurrent_def semantic_current_def exact_object current_measurements_def
      or_else_def str_value_def)

lemma drive_passes: "assertDrive (query_object \<lparr>wq_from = 0, wq_to = 10\<rparr>) order path 0 (redactDrive semantic_drive (Suc 0)) = Inr ()"
  by (simp add: assertDrive_def Let_def redactDrive_def semantic_drive_def query_object_def exact_object)

lemma query_passes: "assertQueryShape (query_object \<lparr>wq_from = 0, wq_to = 10\<rparr>) path = Inr ()"
  by (simp add: assertQueryShape_def query_object_def exact_object assertSafeInteger_def is_safe_integer_def max_safe_integer_def)

lemma vehicle_passes:
  "assertVehicle (redact_vehicle \<lparr>wq_from = 0, wq_to = 10\<rparr> 0 semantic_current [semantic_drive]) path (vehicle_label 0)
     (query_object \<lparr>wq_from = 0, wq_to = 10\<rparr>) = Inr ()"
  by (simp add: assertVehicle_def redact_vehicle_def exact_object current_passes assertHistory_Inr drive_passes
      assertQuery_def query_passes assertNonNegativeInteger_def is_safe_integer_def max_safe_integer_def)

lemma boundary_passes:
  "0 \<le> from \<Longrightarrow> from < to \<Longrightarrow> to \<le> 10 \<Longrightarrow> n < 10 \<Longrightarrow> assertBoundary (boundary_value (boundary window from to) n) path = Inr ()"
  by (simp add: assertBoundary_def boundary_value_def boundary_def exact_object str_value_def assertSafeInteger_def
      assertNonNegativeInteger_def is_safe_integer_def max_safe_integer_def)

lemmas snapshot_parts = semantic_snapshot_def snapshot_value_def redact_vehicle_def redactCurrent_def redactDrive_def
  semantic_current_def semantic_drive_def measurement_def boundary_value_def boundary_def query_object_def or_else_def

lemma semantic_canonical: "assertCanonicalJsonValue semantic_snapshot path = Inr ()"
  by (simp add: snapshot_parts str_value_def rbind_Inr_iff)

lemma semantic_redacted: "redacted {vehicle_label 0, js ''online''} semantic_snapshot"
  by (simp add: snapshot_parts str_value_def snapshot_names_def snapshot_keys_def current_measurements_def snapshot_texts_def)

lemma semantic_allowed: "assertNoForbiddenSemanticData semantic_snapshot = Inr ()"
proof -
  have label: "vehicle_label 0 = js ''vehicle-1''" by (simp add: vehicle_label_def dec_string.simps js_eval digit_unit_def)
  have "plain_text ''vehicle-1''" "plain_text ''online''" by (simp_all add: plain_text_def)
  then have "\<not> forbidden_string s" if "s \<in> js ` set snapshot_texts \<union> {vehicle_label 0, js ''online''}" for s
    using that texts_plain label by (auto simp: list_all_iff plain_text_allowed)
  with semantic_redacted names_allowed show ?thesis
    unfolding assertNoForbidden_Inr redacted_def by (auto simp: list_all_iff)
qed

lemma semantic_members [simp]:
  "get_member (redact_vehicle query i current drives) ''label'' = StrV (vehicle_label i)"
  "get_member (get_member (redact_vehicle query i current drives) ''history'') ''query'' = query_object query"
  by (simp_all add: redact_vehicle_def)

lemma semantic_passes: "assertRedactedSemanticSnapshot semantic_snapshot = Inr ()"
proof -
  let ?checks = "[boundary_value (boundary ''before-equal-start'' 0 5) 0, boundary_value (boundary ''equal-start-only'' 5 6) (Suc 0)]"
  have "\<forall>i < Suc (Suc 0). assertBoundary (?checks ! i) (at_index (js ''$.history_boundary_checks'') i) = Inr ()"
    by (simp add: less_Suc_eq all_conj_distrib boundary_passes)
  moreover have "assertBoundaryRelationship ?checks (query_object \<lparr>wq_from = 0, wq_to = 10\<rparr>) = Inr ()"
    by (simp add: assertBoundaryRelationship_def boundary_value_def boundary_def query_object_def)
  moreover have "assertExactObject semantic_snapshot (js ''$'') snapshot_keys = Inr ()"
    unfolding semantic_snapshot_def snapshot_value_def by (rule exact_object) (simp add: snapshot_keys_def)
  ultimately show ?thesis
    unfolding assertRedacted_Inr
    by (simp add: semantic_canonical semantic_allowed)
      (simp add: semantic_snapshot_def snapshot_value_def query_passes vehicle_passes)
qed

section \<open>The collection\<close>

lemma snd_run_bind: "snd (run_bind m f) = (case snd m of Inl e \<Rightarrow> Inl e | Inr x \<Rightarrow> snd (f x))"
  by (simp add: run_bind_def split: sum.split)

lemma snd_answer [simp]: "snd (answer call (Inr v)) = Inr v"
  by simp

lemma semantic_windows:
  "0 < wq_to query \<Longrightarrow> snd (collectDriveWindow (sc_drives semantic_client 1) vehicleId query) = Inr []"
  "n \<noteq> 1 \<Longrightarrow> wq_from query \<le> 5 \<Longrightarrow> 5 < wq_to query \<Longrightarrow>
    snd (collectDriveWindow (sc_drives semantic_client n) vehicleId query) = Inr [semantic_drive]"
  using one_page [of "[]" query vehicleId] one_page [of "[semantic_drive]" query vehicleId] drive_in_window [of query]
  by (simp_all add: semantic_client_def)

lemma semantic_vehicle_collected:
  "snd (collect_vehicle semantic_client \<lparr>wq_from = 0, wq_to = 10\<rparr> 0 semantic_vehicle)
    = Inr (redact_vehicle \<lparr>wq_from = 0, wq_to = 10\<rparr> 0 semantic_current [semantic_drive], [semantic_drive])"
proof -
  have "get_member semantic_vehicle ''vehicleId'' = StrV semantic_identity" by (simp add: semantic_vehicle_def)
  moreover have "sc_current semantic_client 0 vehicleId = Inr (object_value [(''value'', semantic_current)])" for vehicleId
    by (simp add: semantic_client_def)
  moreover have "is_object semantic_current" by (simp add: semantic_current_def object_value_def)
  ultimately show ?thesis
    by (simp add: collect_vehicle_def snd_run_bind settle_both_def semantic_windows ensure_def Let_def)
qed

lemma semantic_collected:
  "snd (collectRedactedSemanticSnapshot (Some semantic_client) semantic_profile) = Inr semantic_snapshot"
proof -
  have v: "snd (answer AskVehicles (sc_vehicles semantic_client))
      = Inr (object_value [(''value'', object_value [(''vehicles'', ArrV [semantic_vehicle])])])"
    by (simp add: semantic_client_def)
  have "get_member semantic_vehicle ''vehicleId'' = StrV semantic_identity" by (simp add: semantic_vehicle_def)
  then have p: "resolveSemanticSnapshotPlan (ArrV [semantic_vehicle]) semantic_profile = Inr (semantic_plan, [semantic_vehicle])"
    by (simp add: resolveSemanticSnapshotPlan_def semantic_plan_ok ensure_def) (simp add: semantic_plan_def extract_def)
  have d: "derivedBoundaryQueries \<lparr>wq_from = 0, wq_to = 10\<rparr> [semantic_drive]
      = Inr [boundary ''before-equal-start'' 0 5, boundary ''equal-start-only'' 5 6]"
    by (simp add: derivedBoundaryQueries_def semantic_drive_def is_safe_integer_def max_safe_integer_def ensure_def)
  have b: "snd (collect_boundaries semantic_client vehicleId (Suc 0)
        [boundary ''before-equal-start'' 0 5, boundary ''equal-start-only'' 5 6])
      = Inr [boundary_value (boundary ''before-equal-start'' 0 5) 0, boundary_value (boundary ''equal-start-only'' 5 6) (Suc 0)]"
    for vehicleId
    using semantic_windows(1) [of "boundary ''before-equal-start'' 0 5" vehicleId]
      semantic_windows(2) [of 2 "boundary ''equal-start-only'' 5 6" vehicleId]
    by (simp add: snd_run_bind boundary_def numeral_2_eq_2)
  show ?thesis
    using semantic_vehicle_collected semantic_passes [unfolded semantic_snapshot_def]
    by (simp add: collectRedactedSemanticSnapshot_def snd_run_bind v p d b semantic_plan_def semantic_snapshot_def Let_def
        del: collect_boundaries.simps)
qed

end
