(* ===== verification/SnapshotResults.thy ===== *)
theory SnapshotResults
  imports SnapshotSample
begin

text \<open>
  The properties of a collected snapshot, of a window of drives and of the drive pages, with their
  witnesses.
\<close>

section \<open>Windows of drives\<close>

lemma window_page_Inr:
  "window_page query result = Inr u \<longleftrightarrow>
    get_member result ''kind'' = str_value ''page'' \<and> is_array (get_member (get_member result ''value'') ''items'')
    \<and> (\<forall>item \<in> set (page_of result). in_window query item)"
  by (auto simp: window_page_def)

text \<open>Some pages read with the cursors \<open>first\<close> and then \<open>cs\<close>.\<close>

definition reads_pages ::
    "(nat \<Rightarrow> drives_call \<Rightarrow> exn + jsvalue) \<Rightarrow> jsstr \<Rightarrow> 'a window_query_scheme \<Rightarrow> nat \<Rightarrow> jsstr option \<Rightarrow> jsstr list
     \<Rightarrow> jsvalue list \<Rightarrow> bool" where
  "reads_pages ask vehicleId query page first cs results \<longleftrightarrow>
     length results = length cs + 1
     \<and> (\<forall>i < length results. ask (page + i) (drives_request vehicleId query ((first # map Some cs) ! i)) = Inr (results ! i))
     \<and> map next_cursor results = map StrV cs @ [NullV]"

lemma reads_pages_Cons:
  assumes "ask page (drives_request vehicleId query first) = Inr result" and "next_cursor result = StrV c"
    and "reads_pages ask vehicleId query (page + 1) (Some c) cs results"
  shows "reads_pages ask vehicleId query page first (c # cs) (result # results)"
  unfolding reads_pages_def
proof (intro conjI allI impI)
  fix i assume "i < length (result # results)"
  then show "ask (page + i) (drives_request vehicleId query ((first # map Some (c # cs)) ! i)) = Inr ((result # results) ! i)"
    using assms by (cases i) (auto simp: reads_pages_def)
qed (use assms in \<open>auto simp: reads_pages_def\<close>)

lemma window_loop_Inr:
  "snd (window_loop ask vehicleId query left page cursor cursors items) = Inr drives \<Longrightarrow>
    \<exists>cs results. reads_pages ask vehicleId query page cursor cs results
      \<and> length results \<le> left \<and> distinct cs \<and> set cs \<inter> set cursors = {}
      \<and> fst (window_loop ask vehicleId query left page cursor cursors items)
          = map (\<lambda>c. AskDrives (drives_request vehicleId query c)) (cursor # map Some cs)
      \<and> drives = items @ concat (map page_of results)
      \<and> (\<forall>result \<in> set results. \<forall>item \<in> set (page_of result). in_window query item)"
proof (induction left arbitrary: page cursor cursors items)
  case (Suc left)
  let ?call = "drives_request vehicleId query cursor"
  obtain result where result: "ask page ?call = Inr result" "window_page query result = Inr ()"
    using Suc.prems by (auto simp: run_bind_Inr Let_def)
  show ?case
  proof (cases "next_cursor result")
    case NullV
    with Suc.prems result have "drives = items @ page_of result" by (simp add: run_bind_Inr Let_def)
    moreover have "fst (window_loop ask vehicleId query (Suc left) page cursor cursors items) = [AskDrives ?call]"
      using result NullV by (simp add: run_bind_def answer_def Let_def)
    ultimately show ?thesis using result NullV
      by (intro exI [of _ "[] :: jsstr list"] exI [of _ "[result]"])
        (auto simp: reads_pages_def window_page_Inr)
  next
    case (StrV c)
    let ?rest = "window_loop ask vehicleId query left (page + 1) (Some c) (c # cursors) (items @ page_of result)"
    have new: "c \<notin> set cursors" and rest: "snd ?rest = Inr drives"
      using Suc.prems result StrV by (auto simp: run_bind_Inr Let_def split: if_splits)
    from Suc.IH [OF rest] obtain cs results where
      r: "reads_pages ask vehicleId query (page + 1) (Some c) cs results" "length results \<le> left" "distinct cs"
        "set cs \<inter> set (c # cursors) = {}"
        "fst ?rest = map (\<lambda>c. AskDrives (drives_request vehicleId query c)) (Some c # map Some cs)"
        "drives = (items @ page_of result) @ concat (map page_of results)"
        "\<forall>result \<in> set results. \<forall>item \<in> set (page_of result). in_window query item" by blast
    have "fst (window_loop ask vehicleId query (Suc left) page cursor cursors items) = AskDrives ?call # fst ?rest"
      using result StrV new by (simp add: run_bind_def answer_def Let_def split: sum.split)
    with r new result StrV reads_pages_Cons [OF result(1) StrV r(1)] show ?thesis
      by (intro exI [of _ "c # cs"] exI [of _ "result # results"]) (auto simp: window_page_Inr)
  qed (use Suc.prems result in \<open>auto simp: run_bind_Inr Let_def\<close>)
qed simp

lemma window_loop_calls:
  "length (fst (window_loop ask vehicleId query left page cursor cursors items)) \<le> left
   \<and> (\<forall>call \<in> set (fst (window_loop ask vehicleId query left page cursor cursors items)).
        \<exists>c. call = AskDrives (drives_request vehicleId query c))"
proof (induction left arbitrary: page cursor cursors items)
  case (Suc left)
  show ?case
  proof (cases "ask page (drives_request vehicleId query cursor)")
    case (Inr result)
    then show ?thesis
      using Suc by (auto simp: run_bind_def answer_def Let_def split: sum.split jsvalue.split)
  qed (auto simp: run_bind_def answer_def)
qed simp

text \<open>C38: a window of drives is read in at most 128 calls, all for the vehicle and the window it was asked
  for. When it succeeds, its drives are those of the pages the client answered, each asked for with
  the cursor of the page before, no cursor twice and the last page without one, and every drive
  starts in the window.\<close>

theorem drive_window_bounded:
  "(\<forall>call \<in> set (fst (collectDriveWindow ask vehicleId query)).
      \<exists>c. call = AskDrives (drives_request vehicleId query c))
   \<and> length (fst (collectDriveWindow ask vehicleId query)) \<le> 128
   \<and> (\<forall>drives. snd (collectDriveWindow ask vehicleId query) = Inr drives \<longrightarrow>
        (\<exists>cs results. reads_pages ask vehicleId query 0 None cs results \<and> distinct cs
          \<and> fst (collectDriveWindow ask vehicleId query)
              = map (\<lambda>c. AskDrives (drives_request vehicleId query c)) (None # map Some cs)
          \<and> drives = concat (map page_of results) \<and> (\<forall>item \<in> set drives. in_window query item)))"
proof (intro conjI allI impI)
  fix drives assume "snd (collectDriveWindow ask vehicleId query) = Inr drives"
  from window_loop_Inr [OF this [unfolded collectDriveWindow_def]] obtain cs results where
    "reads_pages ask vehicleId query 0 None cs results" "distinct cs"
    "fst (collectDriveWindow ask vehicleId query)
       = map (\<lambda>c. AskDrives (drives_request vehicleId query c)) (None # map Some cs)"
    "drives = concat (map page_of results)"
    "\<forall>result \<in> set results. \<forall>item \<in> set (page_of result). in_window query item"
    unfolding collectDriveWindow_def by (metis append_Nil)
  then show "\<exists>cs results. reads_pages ask vehicleId query 0 None cs results \<and> distinct cs
          \<and> fst (collectDriveWindow ask vehicleId query)
              = map (\<lambda>c. AskDrives (drives_request vehicleId query c)) (None # map Some cs)
          \<and> drives = concat (map page_of results) \<and> (\<forall>item \<in> set drives. in_window query item)"
    by (intro exI [of _ cs] exI [of _ results]) auto
qed (use window_loop_calls [of ask vehicleId query 128 0 None "[]" "[]"] in \<open>auto simp: collectDriveWindow_def\<close>)

theorem drive_window_bounded_witness:
  "snd (collectDriveWindow (sc_drives semantic_client 0) (js ''v'') \<lparr>wq_from = 0, wq_to = 10\<rparr>) = Inr [semantic_drive]
   \<and> in_window \<lparr>wq_from = 0, wq_to = 10\<rparr> semantic_drive"
proof -
  have s: "snd (collectDriveWindow (sc_drives semantic_client 0) (js ''v'') \<lparr>wq_from = 0, wq_to = 10\<rparr>) = Inr [semantic_drive]"
    by (rule semantic_windows) simp_all
  from drive_window_bounded [of "sc_drives semantic_client 0" "js ''v''" "\<lparr>wq_from = 0, wq_to = 10\<rparr>"] s show ?thesis
    by (metis list.set_intros(1))
qed

section \<open>Collections\<close>

lemma settle_both_Inr: "snd (settle_both first m n) = Inr (x, y) \<longleftrightarrow> snd m = Inr x \<and> snd n = Inr y"
  by (cases "snd m"; cases "snd n") (auto simp: settle_both_def)

text \<open>What a vehicle of a snapshot was made of.\<close>

definition reports ::
    "snapshot_client \<Rightarrow> window_query \<Rightarrow> nat \<Rightarrow> jsvalue \<Rightarrow> jsvalue \<times> jsvalue list \<Rightarrow> bool" where
  "reports client query i source item \<longleftrightarrow>
     (\<exists>vehicleId response.
        get_member source ''vehicleId'' = StrV vehicleId \<and> sc_current client i vehicleId = Inr response
        \<and> snd (collectDriveWindow (sc_drives client i) vehicleId query) = Inr (snd item)
        \<and> fst item = redact_vehicle query i (get_member response ''value'') (snd item))"

lemma collect_vehicle_Inr:
  "snd (collect_vehicle client query i source) = Inr item \<Longrightarrow> reports client query i source item"
  by (auto simp: collect_vehicle_def reports_def run_bind_Inr settle_both_Inr rbind_Inr_iff Let_def
      split: jsvalue.splits)

lemma collect_vehicles_Inr:
  "snd (collect_vehicles client query i sources) = Inr made \<Longrightarrow>
    length made = length sources
    \<and> (\<forall>j < length made. reports client query (i + j) (sources ! j) (made ! j))"
proof (induction sources arbitrary: i made)
  case (Cons source sources)
  obtain x xs where x: "snd (collect_vehicle client query i source) = Inr x"
      "snd (collect_vehicles client query (i + 1) sources) = Inr xs" "made = x # xs"
    using Cons.prems by (auto simp: run_bind_Inr)
  from Cons.IH [OF x(2)] collect_vehicle_Inr [OF x(1)] x(3) show ?case
    by (auto simp: less_Suc_eq_0_disj)
qed simp

lemma collect_boundaries_Inr:
  "snd (collect_boundaries client vehicleId n queries) = Inr checks \<Longrightarrow>
    length checks = length queries
    \<and> (\<forall>j < length checks. \<exists>drives. snd (collectDriveWindow (sc_drives client (n + j)) vehicleId (queries ! j)) = Inr drives
         \<and> checks ! j = boundary_value (queries ! j) (length drives))"
proof (induction queries arbitrary: n checks)
  case (Cons query queries)
  obtain drives rest where d: "snd (collectDriveWindow (sc_drives client n) vehicleId query) = Inr drives"
      "snd (collect_boundaries client vehicleId (n + 1) queries) = Inr rest"
      "checks = boundary_value query (length drives) # rest"
    using Cons.prems by (auto simp: run_bind_Inr)
  from Cons.IH [OF d(2)] d(1,3) show ?case
    by (auto simp: less_Suc_eq_0_disj)
qed simp

definition latest_boundaries :: "'a window_query_scheme \<Rightarrow> int \<Rightarrow> boundary_query list" where
  "latest_boundaries query latest =
     [boundary ''before-equal-start'' (wq_from query) latest, boundary ''equal-start-only'' latest (latest + 1)]"

lemma resolve_cases: "resolveSemanticSnapshotPlan sourceVehicles profile = Inr (plan, sources) \<Longrightarrow>
  \<exists>plan'. normalizeSemanticProfile profile = Inr plan' \<and> is_array sourceVehicles \<and> length (elements sourceVehicles) = sp_vehicleCount plan'
   \<and> (case sp_primaryVehicleId plan' of
       None \<Rightarrow> Inr (plan', elements sourceVehicles)
     | Some primaryId \<Rightarrow>
         (case List.extract (\<lambda>vehicle. get_member vehicle ''vehicleId'' = StrV primaryId) (elements sourceVehicles) of
            None \<Rightarrow> Inl (SnapshotError (js ''semantic snapshot primary vehicle is absent''))
          | Some (before, primary, after) \<Rightarrow> Inr (plan', primary # before @ after))) = Inr (plan, sources)"
  unfolding resolveSemanticSnapshotPlan_def rbind_Inr_iff ensure_Inr by blast

lemma resolve_none: "resolveSemanticSnapshotPlan sourceVehicles profile = Inr (plan, sources) \<Longrightarrow> sp_primaryVehicleId plan = None \<Longrightarrow>
  normalizeSemanticProfile profile = Inr plan \<and> is_array sourceVehicles
    \<and> sources = elements sourceVehicles \<and> length sources = sp_vehicleCount plan"
 by (drule resolve_cases) (auto split: option.splits)

lemma resolve_primary: "resolveSemanticSnapshotPlan sourceVehicles profile = Inr (plan, sources) \<Longrightarrow> sp_primaryVehicleId plan = Some p \<Longrightarrow>
  \<exists>before primary after.
    List.extract (\<lambda>vehicle. get_member vehicle ''vehicleId'' = StrV p) (elements sourceVehicles)
        = Some (before, primary, after) \<and> sources = primary # before @ after
  \<and> normalizeSemanticProfile profile = Inr plan \<and> is_array sourceVehicles
    \<and> length (elements sourceVehicles) = sp_vehicleCount plan"
 by (drule resolve_cases) (auto split: option.splits)

lemma resolve_Inr:
  assumes "resolveSemanticSnapshotPlan sourceVehicles profile = Inr (plan, sources)"
  shows "normalizeSemanticProfile profile = Inr plan \<and> is_array sourceVehicles
    \<and> mset sources = mset (elements sourceVehicles) \<and> length sources = sp_vehicleCount plan
    \<and> (\<forall>p. sp_primaryVehicleId plan = Some p \<longrightarrow> get_member (hd sources) ''vehicleId'' = StrV p)"
proof (cases "sp_primaryVehicleId plan")
  case None
  from resolve_none [OF assms None] None show ?thesis by auto
next
  case (Some p)
  obtain before primary after where
    e: "List.extract (\<lambda>vehicle. get_member vehicle ''vehicleId'' = StrV p) (elements sourceVehicles)
        = Some (before, primary, after)" "sources = primary # before @ after"
    and n: "normalizeSemanticProfile profile = Inr plan" "is_array sourceVehicles"
      "length (elements sourceVehicles) = sp_vehicleCount plan"
    using resolve_primary [OF assms Some] by blast
  have "elements sourceVehicles = before @ primary # after" "get_member primary ''vehicleId'' = StrV p"
    using extract_SomeE [OF e(1)] by simp_all
  with e(2) n Some show ?thesis by simp
qed

lemma plan_boundaries:
  assumes "normalizeSemanticProfile profile = Inr plan" and
    "(case sp_boundaryQueries plan of Some qs \<Rightarrow> Inr qs | None \<Rightarrow> derivedBoundaryQueries (sp_historyQuery plan) drives)
      = Inr queries"
  shows "\<exists>latest. wq_from (sp_historyQuery plan) < latest \<and> latest < wq_to (sp_historyQuery plan)
    \<and> queries = latest_boundaries (sp_historyQuery plan) latest"
proof (cases "profile = UndefinedV")
  case True
  with assms(1) have "plan = defaultPlan" by (simp add: normalizeSemanticProfile_def)
  with assms(2) show ?thesis
    by (intro exI [of _ 1788566200000]) (simp add: defaultPlan_def latest_boundaries_def)
next
  case False
  then have "sp_boundaryQueries plan = None"
    using assms(1) by (auto simp: normalizeSemanticProfile_def Let_def rbind_Inr_iff)
  with assms(2) show ?thesis
    by (auto simp: derivedBoundaryQueries_def latest_boundaries_def rbind_Inr_iff split: if_splits option.splits)
qed

lemma collect_Inr:
  assumes "snd (collectRedactedSemanticSnapshot (Some client) profile) = Inr v"
  obtains response plan sources made latest checks where
    "sc_vehicles client = Inr response"
    and "resolveSemanticSnapshotPlan (get_member (get_member response ''value'') ''vehicles'') profile = Inr (plan, sources)"
    and "snd (collect_vehicles client (sp_historyQuery plan) 0 sources) = Inr made"
    and "wq_from (sp_historyQuery plan) < latest" and "latest < wq_to (sp_historyQuery plan)"
    and "snd (collect_boundaries client (first_vehicle_id sources) (length sources)
        (latest_boundaries (sp_historyQuery plan) latest)) = Inr checks"
    and "v = snapshot_value (map fst made) checks" and "assertRedactedSemanticSnapshot v = Inr ()"
proof -
  obtain response plan sources made queries checks where c: "sc_vehicles client = Inr response"
    "resolveSemanticSnapshotPlan (get_member (get_member response ''value'') ''vehicles'') profile = Inr (plan, sources)"
    "snd (collect_vehicles client (sp_historyQuery plan) 0 sources) = Inr made"
    "(case sp_boundaryQueries plan of Some qs \<Rightarrow> Inr qs
      | None \<Rightarrow> derivedBoundaryQueries (sp_historyQuery plan) (snd (hd made))) = Inr queries"
    "snd (collect_boundaries client (first_vehicle_id sources) (length sources) queries) = Inr checks"
    "v = snapshot_value (map fst made) checks" "assertRedactedSemanticSnapshot v = Inr ()"
    using assms by (auto simp: collectRedactedSemanticSnapshot_def run_bind_Inr rbind_Inr_iff Let_def)
  with plan_boundaries [OF conjunct1 [OF resolve_Inr [OF c(2)]] c(4)] that show thesis by blast
qed

section \<open>Snapshots\<close>

lemma vehicles_of_snapshot [simp]: "vehicles_of (snapshot_value vehicles checks) = vehicles"
  by (simp add: snapshot_value_def)

lemma checks_of_snapshot [simp]: "checks_of (snapshot_value vehicles checks) = checks"
  by (simp add: snapshot_value_def)

lemma state_of_vehicle [simp]:
  "get_member (get_member (redact_vehicle query i current drives) ''current'') ''state'' =
    or_else (get_member current ''state'') (str_value ''unavailable'')"
  by (simp add: redact_vehicle_def redactCurrent_def)

lemma history_of_vehicle [simp]:
  "get_member (redact_vehicle query i current drives) ''history'' = object_value
     [(''query'', query_object query), (''count'', int_value (int (length drives))),
      (''order'', ArrV (map (\<lambda>(i, drive). redactDrive drive (i + 1)) (enumerate 0 drives)))]"
  by (simp add: redact_vehicle_def)

text \<open>The states the client reported.\<close>

definition reported_states :: "snapshot_client \<Rightarrow> jsstr set" where
  "reported_states client =
     {s. \<exists>i vehicleId response. sc_current client i vehicleId = Inr response
           \<and> get_member (get_member response ''value'') ''state'' = StrV s}"

lemma reported_state:
  assumes "reports client query i source (vehicle, drives)"
    and "get_member (get_member vehicle ''current'') ''state'' = StrV s"
  shows "s \<in> js ` set snapshot_texts \<union> reported_states client"
proof -
  obtain vehicleId response where r: "sc_current client i vehicleId = Inr response"
      "vehicle = redact_vehicle query i (get_member response ''value'') drives"
    using assms(1) by (auto simp: reports_def)
  have "''unavailable'' \<in> set snapshot_texts" by (simp add: snapshot_texts_def)
  with assms(2) r show ?thesis
    by (auto simp: reported_states_def or_else_def str_value_def split: if_splits)
qed

text \<open>C36: whatever the client answers, a snapshot that is returned is redacted. Its keys are those of the
  format; every string in it is a fixed text, the label of a vehicle or a state the client reported;
  and no key has a forbidden name and no string contains an identifier, a token or an endpoint.\<close>

theorem snapshot_redacted:
  assumes "snd (collectRedactedSemanticSnapshot (Some client) profile) = Inr v"
  shows "(\<forall>k \<in> keys_in v. k \<in> js ` set snapshot_names \<and> \<not> forbiddenKeyPattern k)
    \<and> (\<forall>s \<in> strings_in v. \<not> semanticUuidPattern s \<and> \<not> semanticTokenPattern s \<and> \<not> endpointPattern s
        \<and> (s \<in> js ` set snapshot_texts \<or> (\<exists>i < length (vehicles_of v). s = vehicle_label i)
           \<or> s \<in> reported_states client))"
proof (rule collect_Inr [OF assms])
  fix plan sources made checks
  assume m: "snd (collect_vehicles client (sp_historyQuery plan) 0 sources) = Inr made"
      "v = snapshot_value (map fst made) checks" "assertRedactedSemanticSnapshot v = Inr ()"
  have "state_texts (vehicles_of v) \<subseteq> js ` set snapshot_texts \<union> reported_states client"
  proof
    fix s assume "s \<in> state_texts (vehicles_of v)"
    then obtain j where j: "j < length made"
        "get_member (get_member (fst (made ! j)) ''current'') ''state'' = StrV s"
      unfolding m(2) vehicles_of_snapshot state_texts_def by (auto simp: in_set_conv_nth)
    with collect_vehicles_Inr [OF m(1)] have "reports client (sp_historyQuery plan) (0 + j) (sources ! j) (fst (made ! j), snd (made ! j))"
      by simp
    from reported_state [OF this j(2)] show "s \<in> js ` set snapshot_texts \<union> reported_states client" .
  qed
  moreover have "redacted (free_texts v) v" by (rule redacted_snapshot [OF m(3)])
  moreover have "assertNoForbiddenSemanticData v = Inr ()" using m(3) unfolding assertRedacted_Inr by blast
  ultimately show ?thesis
    unfolding redacted_def free_texts_def assertNoForbidden_Inr forbidden_string_def by blast
qed

theorem snapshot_redacted_witness:
  "snd (collectRedactedSemanticSnapshot (Some semantic_client) semantic_profile) = Inr semantic_snapshot
   \<and> {s \<in> strings_in semantic_snapshot. semanticUuidPattern s} = {}"
  using snapshot_redacted [OF semantic_collected] semantic_collected by blast

text \<open>Drives that start in a window, the newest first.\<close>

definition newest_first :: "'a window_query_scheme \<Rightarrow> jsvalue list \<Rightarrow> bool" where
  "newest_first query drives \<longleftrightarrow>
     (\<exists>starts. map (\<lambda>drive. get_member drive ''startDateMs'') drives = map (\<lambda>r. NumV (Fin r)) starts
        \<and> sorted_wrt (\<ge>) starts \<and> (\<forall>r \<in> set starts. of_int (wq_from query) \<le> r \<and> r < of_int (wq_to query)))"

lemma in_window_start:
  assumes "in_window query item"
  obtains r where "get_member item ''startDateMs'' = NumV (Fin r)" "of_int (wq_from query) \<le> r" "r < of_int (wq_to query)"
proof -
  obtain x where x: "get_member item ''startDateMs'' = NumV x"
    using assms by (auto simp: in_window_def split: jsvalue.splits)
  with assms that show thesis by (cases x) (auto simp: in_window_def num_of_int_def)
qed

lemma drives_newest_first:
  assumes "\<And>item. item \<in> set drives \<Longrightarrow> in_window query item"
    and "\<And>i. i + 1 < length drives \<Longrightarrow>
      \<not> value_less (get_member (drives ! i) ''startDateMs'') (get_member (drives ! (i + 1)) ''startDateMs'')"
  shows "newest_first query drives"
proof -
  have "\<forall>item \<in> set drives. \<exists>r. get_member item ''startDateMs'' = NumV (Fin r)
      \<and> of_int (wq_from query) \<le> r \<and> r < of_int (wq_to query)"
    using in_window_start [OF assms(1)] by blast
  from bchoice [OF this] obtain start where start: "\<forall>item \<in> set drives. get_member item ''startDateMs'' = NumV (Fin (start item))
      \<and> of_int (wq_from query) \<le> start item \<and> start item < of_int (wq_to query)" by blast
  have "start (drives ! (i + 1)) \<le> start (drives ! i)" if "i + 1 < length drives" for i
  proof -
    have "drives ! i \<in> set drives" "drives ! (i + 1) \<in> set drives" using that by simp_all
    with start assms(2) [OF that] show ?thesis by simp
  qed
  then have "sorted_wrt (\<ge>) (map start drives)"
    by (subst sorted_wrt_iff_nth_Suc_transp) (auto intro: transpI)
  with start show ?thesis
    unfolding newest_first_def by (intro exI [of _ "map start drives"]) auto
qed

lemma redacted_start [simp]:
  "get_member (redactDrive drive n) ''start_date_ms'' = get_member drive ''startDateMs''"
  by (simp add: redactDrive_def)

lemma history_newest_first:
  assumes "assertHistory (get_member (redact_vehicle query i current drives) ''history'') path expected = Inr u"
    and "\<And>item. item \<in> set drives \<Longrightarrow> in_window query item"
  shows "newest_first query drives"
proof (rule drives_newest_first [OF assms(2)])
  let ?order = "map (\<lambda>(i, drive). redactDrive drive (i + 1)) (enumerate 0 drives)"
  have nth: "?order ! j = redactDrive (drives ! j) (j + 1)" if "j < length drives" for j
    using that by (simp add: nth_enumerate_eq)
  fix j assume j: "j + 1 < length drives"
  have "elements (get_member (get_member (redact_vehicle query i current drives) ''history'') ''order'') = ?order"
    by simp
  then have "assertDrive expected ?order path (j + 1) (?order ! (j + 1)) = Inr ()"
    using assms(1) j unfolding assertHistory_Inr by (metis length_enumerate length_map)
  then have "\<not> value_less (get_member (?order ! j) ''start_date_ms'') (get_member (?order ! (j + 1)) ''start_date_ms'')"
    by (simp only: assertDrive_def Let_def all_checks_Inr list.set ball_simps ensure_Inr) simp
  moreover have "?order ! j = redactDrive (drives ! j) (j + 1)" "?order ! (j + 1) = redactDrive (drives ! (j + 1)) (j + 1 + 1)"
    using j by (intro nth; simp)+
  ultimately show "\<not> value_less (get_member (drives ! j) ''startDateMs'') (get_member (drives ! (j + 1)) ''startDateMs'')"
    by (simp only: redacted_start) simp
qed

lemma window_drives_in:
  "snd (collectDriveWindow ask vehicleId query) = Inr drives \<Longrightarrow> item \<in> set drives \<Longrightarrow> in_window query item"
  unfolding collectDriveWindow_def by (drule window_loop_Inr) auto

text \<open>C37: a returned snapshot reports what the client answered. It has the vehicles of the plan in its
  order, the primary one first; each reports the current state and exactly the drives the client
  answered for it, which start in the window of the plan, the newest first; and the two boundary
  checks split that window at one start and count the drives the client answered for them.\<close>

theorem snapshot_reports_answers:
  assumes "snd (collectRedactedSemanticSnapshot (Some client) profile) = Inr v"
  shows "\<exists>plan sources drives latest.
    normalizeSemanticProfile profile = Inr plan
    \<and> length sources = sp_vehicleCount plan \<and> length (vehicles_of v) = length sources
    \<and> (\<forall>p. sp_primaryVehicleId plan = Some p \<longrightarrow> get_member (hd sources) ''vehicleId'' = StrV p)
    \<and> (\<exists>response. sc_vehicles client = Inr response
         \<and> mset sources = mset (elements (get_member (get_member response ''value'') ''vehicles'')))
    \<and> (\<forall>i < length sources.
          reports client (sp_historyQuery plan) i (sources ! i) (vehicles_of v ! i, drives ! i)
          \<and> newest_first (sp_historyQuery plan) (drives ! i))
    \<and> wq_from (sp_historyQuery plan) < latest \<and> latest < wq_to (sp_historyQuery plan)
    \<and> (\<forall>j < 2. \<exists>counted.
          snd (collectDriveWindow (sc_drives client (length sources + j)) (first_vehicle_id sources)
            (latest_boundaries (sp_historyQuery plan) latest ! j)) = Inr counted
          \<and> checks_of v ! j = boundary_value (latest_boundaries (sp_historyQuery plan) latest ! j) (length counted))"
proof (rule collect_Inr [OF assms])
  fix response plan sources made latest checks
  assume c: "sc_vehicles client = Inr response"
    "resolveSemanticSnapshotPlan (get_member (get_member response ''value'') ''vehicles'') profile = Inr (plan, sources)"
    "snd (collect_vehicles client (sp_historyQuery plan) 0 sources) = Inr made"
    "wq_from (sp_historyQuery plan) < latest" "latest < wq_to (sp_historyQuery plan)"
    "snd (collect_boundaries client (first_vehicle_id sources) (length sources)
        (latest_boundaries (sp_historyQuery plan) latest)) = Inr checks"
    "v = snapshot_value (map fst made) checks" "assertRedactedSemanticSnapshot v = Inr ()"
  let ?query = "sp_historyQuery plan"
  note plan = resolve_Inr [OF c(2)] and made = collect_vehicles_Inr [OF c(3)]
  have each: "reports client ?query i (sources ! i) (vehicles_of v ! i, map snd made ! i)
      \<and> newest_first ?query (map snd made ! i)" if i: "i < length sources" for i
  proof -
    have r: "reports client ?query i (sources ! i) (vehicles_of v ! i, map snd made ! i)"
      using made i unfolding c(7) vehicles_of_snapshot by simp
    then obtain vehicleId response where d:
        "snd (collectDriveWindow (sc_drives client i) vehicleId ?query) = Inr (map snd made ! i)"
        "vehicles_of v ! i = redact_vehicle ?query i (get_member response ''value'') (map snd made ! i)"
      by (auto simp: reports_def)
    have "i < length (vehicles_of v)" using i made unfolding c(7) vehicles_of_snapshot by simp
    with c(8) have "assertVehicle (vehicles_of v ! i) (at_index (js ''$.vehicles'') i) (vehicle_label i) (expected_query v) = Inr ()"
      unfolding assertRedacted_Inr by blast
    then have "assertHistory (get_member (vehicles_of v ! i) ''history'')
        (at_key (at_index (js ''$.vehicles'') i) (js ''history'')) (expected_query v) = Inr ()"
      by (simp add: assertVehicle_def)
    from history_newest_first [OF this [unfolded d(2)] window_drives_in [OF d(1)]] r show ?thesis by blast
  qed
  have two: "length (latest_boundaries ?query latest) = 2" by (simp add: latest_boundaries_def)
  show ?thesis
    using c(1,4,5) plan made each collect_boundaries_Inr [OF c(6)] two
    unfolding c(7) vehicles_of_snapshot checks_of_snapshot
    by (intro exI [of _ plan] exI [of _ sources] exI [of _ "map snd made"] exI [of _ latest] conjI)
      (simp_all add: length_map)
qed

theorem snapshot_reports_answers_witness:
  "snd (collectRedactedSemanticSnapshot (Some semantic_client) semantic_profile) = Inr semantic_snapshot
   \<and> length (vehicles_of semantic_snapshot) = 1"
proof -
  from snapshot_reports_answers [OF semantic_collected] semantic_plan_ok
  have "length (vehicles_of semantic_snapshot) = sp_vehicleCount semantic_plan" by auto
  with semantic_collected show ?thesis by (simp add: semantic_plan_def)
qed

end
