(* ===== verification/DrivePages.thy ===== *)
theory DrivePages
  imports SnapshotCollection
begin

text \<open>
  The property of \<^verbatim>\<open>scripts/drive-pagination.mjs\<close>: the loop over the pages of drives
  ends, with pages that follow each other.
\<close>

fun drive_page_cursor :: "drive_page \<Rightarrow> jsstr option" where
  "drive_page_cursor (DrivePage items c) = c"
| "drive_page_cursor OtherResult = None"

definition drives_page_request :: "jsstr \<Rightarrow> jsnum \<Rightarrow> jsstr option \<Rightarrow> drive_page_request" where
  "drives_page_request vehicleId limit cursor = \<lparr>dp_vehicleId = vehicleId, dp_limit = limit, dp_cursor = cursor\<rparr>"

text \<open>Pages read from page number \<open>n\<close> on, with the cursors \<open>first\<close> and then \<open>cs\<close>.\<close>

definition follow :: "(nat \<Rightarrow> jsstr option \<Rightarrow> (exn + drive_page) option) \<Rightarrow> nat \<Rightarrow> jsstr option \<Rightarrow> jsstr list \<Rightarrow> drive_page list \<Rightarrow> bool" where
  "follow ask n first cs pages \<longleftrightarrow>
     length pages = length cs + 1 \<and> OtherResult \<notin> set pages \<and> map drive_page_cursor pages = map Some cs @ [None]
     \<and> (\<forall>i < length pages. ask (n + i) ((first # map Some cs) ! i) = Some (Inr (pages ! i)))"

lemma follow_Cons:
  assumes "ask n first = Some (Inr (DrivePage items (Some c)))" and "follow ask (n + 1) (Some c) cs pages"
  shows "follow ask n first (c # cs) (DrivePage items (Some c) # pages)"
  unfolding follow_def
proof (intro conjI allI impI)
  fix i assume "i < length (DrivePage items (Some c) # pages)"
  then show "ask (n + i) ((first # map Some (c # cs)) ! i) = Some (Inr ((DrivePage items (Some c) # pages) ! i))"
    using assms by (cases i) (auto simp: follow_def)
qed (use assms(2) in \<open>auto simp: follow_def\<close>)

lemma pages_loop_ends:
  assumes "\<lceil>r\<rceil> \<le> int (length pages) + int n"
    and "\<forall>i options. int i < max (int (length pages) + 1) \<lceil>r\<rceil> \<longrightarrow> drives i options \<noteq> None"
  shows "\<exists>result. pages_loop drives vehicleId limit (Fin r) pages seen cursor = Some result
    \<and> (\<forall>out. result = Inr out \<longrightarrow>
         (\<exists>cs new. out = pages @ new \<and> distinct cs \<and> set cs \<inter> set seen = {}
           \<and> follow (\<lambda>i c. drives i (drives_page_request vehicleId limit c)) (length pages) cursor cs new
           \<and> int (length out) \<le> max (int (length pages) + 1) \<lceil>r\<rceil>))"
  using assms
proof (induction n arbitrary: pages seen cursor rule: less_induct)
  case (less n)
  let ?ask = "\<lambda>i c. drives i (drives_page_request vehicleId limit c)"
  note step = pages_loop.simps [of drives vehicleId limit "Fin r" pages seen cursor, folded drives_page_request_def]
  obtain answer where settled: "?ask (length pages) cursor = Some answer"
    using less.prems(2) by fastforce
  show ?case
  proof (cases answer)
    case (Inr page)
    note Inr = settled [unfolded Inr]
    show ?thesis
    proof (cases page)
      case (DrivePage items nextCursor)
      show ?thesis
      proof (cases nextCursor)
        case None
        with Inr DrivePage have "follow ?ask (length pages) cursor [] [page]" by (simp add: follow_def)
        moreover have "pages_loop drives vehicleId limit (Fin r) pages seen cursor = Some (Inr (pages @ [page]))"
          using Inr DrivePage None by (simp add: step)
        ultimately show ?thesis
          by (simp, intro exI [of _ "[] :: jsstr list"]) simp
      next
        case (Some c)
        let ?again = "pages_loop drives vehicleId limit (Fin r) (pages @ [page]) (c # seen) (Some c)"
        show ?thesis
        proof (cases "c \<notin> set seen \<and> of_int (int (length pages + 1)) < r")
          case True
          then have loop: "pages_loop drives vehicleId limit (Fin r) pages seen cursor = ?again"
            using Inr DrivePage Some by (simp add: step num_of_int_def)
          have more: "int (length pages) + 1 < \<lceil>r\<rceil>" using True by (simp add: less_ceiling_iff)
          with less.prems have "n - 1 < n" "\<lceil>r\<rceil> \<le> int (length (pages @ [page])) + int (n - 1)"
            "\<forall>i options. int i < max (int (length (pages @ [page])) + 1) \<lceil>r\<rceil> \<longrightarrow> drives i options \<noteq> None"
            by simp_all
          from less.IH [OF this] obtain result where again: "?again = Some result"
            and out: "\<forall>out. result = Inr out \<longrightarrow>
               (\<exists>cs new. out = (pages @ [page]) @ new \<and> distinct cs \<and> set cs \<inter> set (c # seen) = {}
                 \<and> follow ?ask (length (pages @ [page])) (Some c) cs new
                 \<and> int (length out) \<le> max (int (length (pages @ [page])) + 1) \<lceil>r\<rceil>)" by blast
          show ?thesis
          proof (intro exI [of _ result] conjI allI impI)
            fix out assume "result = Inr out"
            with out obtain cs new where o: "out = (pages @ [page]) @ new" "distinct cs" "set cs \<inter> set (c # seen) = {}"
              "follow ?ask (length (pages @ [page])) (Some c) cs new"
              "int (length out) \<le> max (int (length (pages @ [page])) + 1) \<lceil>r\<rceil>" by blast
            have "follow ?ask (length pages) cursor (c # cs) (page # new)"
              using follow_Cons [of ?ask "length pages" cursor items c cs new] Inr DrivePage Some o(4) by simp
            moreover have "int (length out) \<le> max (int (length pages) + 1) \<lceil>r\<rceil>" using o(5) more by simp
            ultimately show "\<exists>cs new. out = pages @ new \<and> distinct cs \<and> set cs \<inter> set seen = {}
                \<and> follow ?ask (length pages) cursor cs new \<and> int (length out) \<le> max (int (length pages) + 1) \<lceil>r\<rceil>"
              using o(1-3) True by (intro exI [of _ "c # cs"] exI [of _ "page # new"]) auto
          qed (simp add: loop again)
        next
          case False
          with Inr DrivePage Some obtain e where
            "pages_loop drives vehicleId limit (Fin r) pages seen cursor = Some (Inl e)"
            by (cases "c \<in> set seen") (simp_all add: step num_of_int_def)
          then show ?thesis by simp
        qed
      qed
    qed (use Inr in \<open>simp add: step\<close>)
  qed (simp add: step settled)
qed

text \<open>C39: the pages of drives come to an end. With a finite page bound, and a client whose calls settle
  (the first ones, as many as the bound rounded up, and at least one), the loop returns, whatever the
  client answers; when it succeeds, the pages are those the client answered, each asked for with the
  cursor of the page before, no cursor twice and the last page without one, and they are at most as
  many as the bound rounded up, or one when that is less.\<close>

theorem drive_pages_end:
  assumes "number_or maxPages 128 = Fin r"
    and "\<And>i options. int i < max 1 \<lceil>r\<rceil> \<Longrightarrow> drives i options \<noteq> None"
  shows "\<exists>result. collectDrivePages drives vehicleId limit maxPages = Some result
    \<and> (\<forall>pages. result = Inr pages \<longrightarrow>
         (\<exists>cs. distinct cs
           \<and> follow (\<lambda>i c. drives i (drives_page_request vehicleId (number_or limit 25) c)) 0 None cs pages
           \<and> int (length pages) \<le> max 1 \<lceil>r\<rceil>))"
  using pages_loop_ends [of r "[]" "nat \<lceil>r\<rceil>" drives vehicleId "number_or limit 25" "[]" None] assms
  by (simp add: collectDrivePages_def)

text \<open>A client with two pages; a third call would not settle.\<close>

definition two_pages :: page_reader where
  "two_pages i options =
     (if 2 \<le> i then None
      else Some (Inr (case dp_cursor options of None \<Rightarrow> DrivePage [NullV] (Some (js ''next'')) | Some c \<Rightarrow> DrivePage [] None)))"

theorem drive_pages_end_witness:
  "\<exists>pages cs. collectDrivePages two_pages (js ''v'') None (Some (num_of_int 2)) = Some (Inr pages) \<and> length pages = 2
     \<and> follow (\<lambda>i c. two_pages i (drives_page_request (js ''v'') (num_of_int 25) c)) 0 None cs pages
     \<and> int (length pages) \<le> 2"
proof -
  let ?pages = "[DrivePage [NullV] (Some (js ''next'')), DrivePage [] None]"
  have two: "collectDrivePages two_pages (js ''v'') None (Some (num_of_int 2)) = Some (Inr ?pages)"
    by (simp add: collectDrivePages_def number_or_def num_of_int_def two_pages_def pages_loop.simps [of _ _ _ _ "[]"]
        pages_loop.simps [of _ _ _ _ "[_]"])
  have "number_or (Some (num_of_int 2)) 128 = Fin 2" by (simp add: number_or_def num_of_int_def)
  moreover have "two_pages i options \<noteq> None" if "int i < max 1 \<lceil>2 :: rat\<rceil>" for i options
    using that by (simp add: two_pages_def)
  ultimately obtain result where
    "collectDrivePages two_pages (js ''v'') None (Some (num_of_int 2)) = Some result"
    "\<forall>pages. result = Inr pages \<longrightarrow> (\<exists>cs. distinct cs
       \<and> follow (\<lambda>i c. two_pages i (drives_page_request (js ''v'') (number_or None 25) c)) 0 None cs pages
       \<and> int (length pages) \<le> max 1 \<lceil>2 :: rat\<rceil>)"
    using drive_pages_end [of "Some (num_of_int 2)" 2 two_pages "js ''v''" None] by blast
  with two have "\<exists>cs. follow (\<lambda>i c. two_pages i (drives_page_request (js ''v'') (num_of_int 25) c)) 0 None cs ?pages"
    by (auto simp: number_or_def)
  with two show ?thesis by fastforce
qed

end
