(* ===== verification/Spec2Isabelle.thy ===== *)
theory Spec2Isabelle
  imports SseReference Problems ClientOperations Pagination ProtocolEvents HubAnswers HubMutations NodeClaim SnapshotResults DrivePages
begin

text \<open>
  A verification library for the Teslatlas SDK for TypeScript (\<^verbatim>\<open>src/src\<close>): the client
  of a hosted protocol (\<^verbatim>\<open>client/\<close>), its event streams (\<^verbatim>\<open>events/\<close>) and the
  client of a local Hub (\<^verbatim>\<open>hub/\<close>), over one HTTP layer (\<^verbatim>\<open>http/\<close>) and
  one set of checked values (\<^verbatim>\<open>core/\<close>, \<^verbatim>\<open>commands/\<close>,
  \<^verbatim>\<open>protocol/\<close>). The definitions keep the names of the source; a section of a theory
  follows the order of its file.

  \<^bold>\<open>How the program is modelled.\<close>
  A JavaScript string is a list of 16-bit code units (\<open>jsstr\<close>), a body a list of bytes, a number
  a binary64 value as a real, an infinity or NaN (\<open>jsnum\<close>; the two zeros are one value, which no
  branch of the code tells apart), a parsed document a \<open>json\<close>. What
  the code throws is a value of \<open>exn\<close>, with the code, the status and the identifier its class gives
  it, and a function that may throw returns a \<open>result\<close> (\<open>Inl\<close> the error). A promise that
  need not settle is an \<open>outcome\<close>, \<open>None\<close> being the promise that stays pending. Everything the
  SDK calls but does not contain is an argument: Fetch, the URL parser, \<^verbatim>\<open>String\<close> of a
  number, the validators generated from the schemas, the schema compiler, the authorization provider,
  the checkpoint and credential stores, the reconnect policy, timers and the clock. A body is the script
  of the outcomes of its reads, and an abort signal is an oracle of its state at each check, so the
  theorems hold for every behaviour of the server and of the caller. The loops of the SDK are structural
  or have a measure on what is left to read: nothing needs fuel. Where the program may run for ever (a
  subscription reconnects, a body never ends) the recursion is on the script of what the environment
  answers, and a script that runs out is the promise that does not settle; the results that a run comes
  to its end are then theorems of their own (\<open>pagination_ends\<close>, \<open>default_sleep_exact\<close>,
  \<open>sse_parser_total\<close>).

  \<^bold>\<open>Values.\<close>
  JsPrelude: strings, code points, character classes, lower case, trimming, splitting, comparison, and
  the locale \<open>incremental\<close> of consumers that may be fed in pieces. Errors
  (\<^verbatim>\<open>core/errors.ts\<close> and the error classes of the other files). OpaqueValues: the
  branded strings of \<^verbatim>\<open>core/opaque-values.ts\<close>,
  \<^verbatim>\<open>http/strong-etag.ts\<close>, \<^verbatim>\<open>commands/idempotency.ts\<close> and
  \<^verbatim>\<open>core/capabilities.ts\<close>, each an interpretation of \<open>checked_string\<close>;
  \<^verbatim>\<open>commands/safety.ts\<close>. Versions: \<^verbatim>\<open>core/version.ts\<close>,
  \<^verbatim>\<open>core/capabilities.ts\<close>, \<^verbatim>\<open>protocol/negotiation.ts\<close>,
  \<^verbatim>\<open>protocol/capabilities.ts\<close>; the lemmas show that parsing a version inverts printing
  one, that the three comparison functions are orders (\<open>comparator\<close>), and that a negotiation selects
  the greatest eligible version. Models: the result types and the documents read field by field.

  \<^bold>\<open>Texts and JSON.\<close>
  Utf8: \<^verbatim>\<open>TextDecoder\<close> with its streaming state, and the encoder. JsonValue, NumberText
  and JsonText: \<^verbatim>\<open>JSON.parse\<close> and \<^verbatim>\<open>JSON.stringify\<close> of the language,
  with the correctly rounded value of a numeral. ProtocolJson: what \<^verbatim>\<open>http/bounded-json.ts\<close>
  adds, the mirror of the numerals of a document (kept in a weak map by the code, beside the value
  here), the walk that finds non-finite numbers, and the exact test for integers of
  \<^verbatim>\<open>protocol/validate.ts\<close>; what the mirror has at the place of a number is the numeral of the
  syntax tree, and the numerals of the tree are those of the source, in their order. HubJson (\<^verbatim>\<open>hub/validate.ts\<close>): the 64-bit
  integers of a Hub's documents and the camel case of their keys.

  \<^bold>\<open>HTTP.\<close>
  Http: headers, responses, \<^verbatim>\<open>http/response-ownership.ts\<close>. BoundedReader: the growing
  buffer of \<^verbatim>\<open>http/bounded-json.ts\<close> (limit 16 MiB, a run of at most 1024 empty chunks) and
  \<^verbatim>\<open>http/empty-body.ts\<close>. UriText and RequestBuilder (\<^verbatim>\<open>http/request-builder.ts\<close>):
  percent-encoding, the two tables of operations, the interpolation of paths, with a reader of the built
  target as its inverse. RequestSnapshot (\<^verbatim>\<open>http/json-request-snapshot.ts\<close>): the copy of the
  caller's object graph out of an explicit heap. FetchTransport
  (\<^verbatim>\<open>http/fetch-transport.ts\<close>, \<^verbatim>\<open>http/conditional.ts\<close>): a request as its
  outcome and the actions (authorize, dispatch, fetch) it performed. ResponseDecoder
  (\<^verbatim>\<open>http/response-decoder.ts\<close>): reads, writes, problems, retry hints. Problems shows what a
  caller learns from a problem response; Replies holds printed documents to evaluate on.

  \<^bold>\<open>The protocol client.\<close>
  Session (\<^verbatim>\<open>client/session.ts\<close>): discovery, the checks of the endpoints, negotiation, the
  transports. AdvertisedCommand (\<^verbatim>\<open>commands/advertised-command.ts\<close>): the cache of compiled
  schemas as a state, equivalent to compiling afresh. Client and ClientOperations
  (\<^verbatim>\<open>client/client.ts\<close>): the guards of every operation, the read, write and command calls,
  the identity checks, and the error of a command whose fate is not known. Pagination
  (\<^verbatim>\<open>client/operations.ts\<close>): the asynchronous generator as a state and its
  \<^verbatim>\<open>next\<close>.

  \<^bold>\<open>Event streams.\<close>
  SseParser and SseStream (\<^verbatim>\<open>events/sse-parser.ts\<close>): the incremental parser with its
  segmented buffers and byte counters, and the generator over a body. SseReference is the specification
  without buffers; \<open>feed_refines\<close> is the simulation, and the whole stream equals the reference reading
  of the decoded body for every chunking. SseSubscription (\<^verbatim>\<open>events/sse-subscription.ts\<close>): the
  reconnecting subscription writes a trace of the items it receives and of what it does to its
  surroundings, a call of the store's save and its success being two actions. The last event received,
  the checkpoint last saved and the hint last received are read off the trace. The locale
  \<open>subscription_invariant\<close> lifts what every action keeps to whole runs and is interpreted for the
  delays and the mapped values; the discipline of the checkpoints goes through the stages of a
  subscription (\<open>holding\<close>, \<open>steady\<close>, \<open>over\<close>). ProtocolEvents
  (\<^verbatim>\<open>events/protocol-subscription.ts\<close>, the catalogue of \<^verbatim>\<open>generated/event-catalog.ts\<close>):
  the options, the path, the classifier and the decoder of protocol events, and the subscription they
  make.

  \<^bold>\<open>The Hub client\<close> (\<^verbatim>\<open>hub/client.ts\<close>).
  Its methods share a session that \<^verbatim>\<open>logout\<close> and \<^verbatim>\<open>dispose\<close> end, one pending
  discovery with a count of its waiters, and a chain of credential mutations. HubTasks has that state and
  the methods as tasks, which stop at every \<^verbatim>\<open>await\<close> of something outside and go on from the
  state found then, with a rely-guarantee logic for them (\<open>runs\<close>). HubClient and HubOperations are the
  methods; \<open>hub_step\<close> is an event of the world (a call, an answer, an abort, the clock) and
  \<open>hub_reachable\<close> what any sequence of them leads to. HubInvariants has the contracts
  \<open>hub_invariant\<close> (an invariant of the state survives every method) and
  \<open>hub_world_contract\<close> (what the processes keep holds of the reachable worlds). HubSafety: no method
  does anything for the user outside the session it was called in; the discovery kept is that of the
  expected Hub. HubAnswers: what a successful method has checked. HubMutations: the chain of credential
  mutations is a lock with tickets, so saves and clears are one at a time and in order. HubSample plays one
  discovery for the witnesses. NodeClaim (\<^verbatim>\<open>hub/node-claim-transport.ts\<close>) is the claim
  transport with a pinned certificate, over the events of the HTTPS client of Node.

  \<^bold>\<open>Idealisations of the Hub client.\<close>
  An \<^verbatim>\<open>await\<close> of one of the client's own methods goes on at once: the turns of the microtask
  queue between the two are not points of interleaving. A waiter leaves an aborted discovery, and a
  request its credential, at a later event of the world rather than inside the abort, which only adds
  interleavings. The members of a document are read as the generated validators type them; a member of
  another type is a TypeError. The transport of a request is one function, \<open>hub_request\<close>, for
  \<^verbatim>\<open>FetchTransport.request\<close> with the callbacks of this client.

  \<^bold>\<open>The redacted snapshot\<close> (\<^verbatim>\<open>scripts/redacted-semantic-snapshot.mjs\<close>,
  \<^verbatim>\<open>scripts/drive-pagination.mjs\<close>).
  The acceptance runs of the Hub publish what a client reads from it as a snapshot without private data.
  SnapshotValues: the values and their canonical text. SnapshotAssertions: the patterns of forbidden data
  and the exact shape of a snapshot. SnapshotCollection: the plan, the windows of drives (at most 128
  pages, as in the code), the redaction and the collection, and the page loop of
  \<^verbatim>\<open>collectDrivePages\<close>, a partial function because its bound may be infinite, in which a call of the client may also not
  settle. The client is a
  parameter, so the theorems hold for any answers: SnapshotProperties and SnapshotResults show what a
  returned snapshot can hold and where it comes from, DrivePages that the page loop ends.
  SnapshotPatterns and SnapshotSample evaluate one collection for the witnesses. A value is a tree, so the
  cycle check has nothing to find, an array has no holes, and the own properties of a function are not
  read. The two calls for a vehicle run together; which of two failures is reported is a parameter.

  \<^bold>\<open>Not modelled.\<close>
  TLS itself: the verdict of the platform on a certificate and its hash are parameters of NodeClaim, and to
  the Hub client a claim transport is the answer to a claim call. The other files of \<^verbatim>\<open>generated/\<close> are types,
  compiled validators and test cases made from the schemas: the validators are parameters.
  \<^verbatim>\<open>index.ts\<close>, \<^verbatim>\<open>node.ts\<close>, \<^verbatim>\<open>browser.ts\<close>,
  \<^verbatim>\<open>auth/credential-store.ts\<close> and \<^verbatim>\<open>protocol/models.ts\<close> re-export or declare types.
  The other scripts of \<^verbatim>\<open>src/scripts\<close> build, package and exercise the SDK and are not part of it. Of
  \<^verbatim>\<open>TeslatlasClient\<close> the two getters of the session are left out.
\<close>

end
